(* ===== verification/Prelude.thy ===== *)
theory Prelude
  imports Main
begin

text \<open>
  Shared vocabulary of the development: the types every component uses, the result type of
  fallible code, and the database table that stands for one Django model's rows.

  A table is the list of its rows in ascending primary key, which is the order in which an
  unordered \<open>QuerySet.first()\<close> looks at them, with the largest key ever issued (an
  \<open>AutoField\<close> never reuses one). \<open>objects_first\<close> is \<open>filter(P).first()\<close>,
  \<open>objects_exists\<close> is \<open>filter(P).exists()\<close>, \<open>objects_create\<close> appends a row
  under a fresh key and \<open>objects_save\<close> overwrites the row of the same key.
\<close>

named_theorems py_simps \<open>equations of the Python string and number model\<close>
named_theorems table_simps \<open>equations of the table operations\<close>

section \<open>Time, keys, results\<close>

text \<open>Instants are microseconds since the epoch; \<open>seconds\<close> is \<open>int(time.time())\<close>.\<close>

type_synonym instant = int
type_synonym pk = int

definition second :: instant where
  "second = 1000000"

definition seconds :: "instant \<Rightarrow> int" where
  "seconds t = t div second"

lemma second_pos [simp]: "0 < second"
  by (simp add: second_def)

lemma second_mult [simp]:
  "second * n \<le> 0 \<longleftrightarrow> n \<le> 0" "0 < second * n \<longleftrightarrow> 0 < n"
  by (simp_all add: second_def)

text \<open>Sequencing of fallible computations: the first error stops the rest.\<close>

fun and_then :: "'e + 'a \<Rightarrow> ('a \<Rightarrow> 'e + 'b) \<Rightarrow> 'e + 'b" where
  "and_then (Inl e) f = Inl e"
| "and_then (Inr a) f = f a"

fun is_ok :: "'e + 'a \<Rightarrow> bool" where
  "is_ok (Inl _) = False"
| "is_ok (Inr _) = True"

text \<open>The exceptions of the modelled code that carry over between components.\<close>

datatype exn =
    ValueError | TypeError | KeyError | AttributeError | OverflowError | RecursionError
  | ValidationError string | IntegrityError | ObjectDoesNotExist | Http404 | CommandError string | RuntimeError string

lemma and_then_Inr: "and_then r f = Inr b \<longleftrightarrow> (\<exists>a. r = Inr a \<and> f a = Inr b)"
  by (cases r) auto

lemma and_then_Inl: "and_then r f = Inl e \<longleftrightarrow> r = Inl e \<or> (\<exists>a. r = Inr a \<and> f a = Inl e)"
  by (cases r) auto

lemma is_ok_iff: "is_ok r \<longleftrightarrow> (\<exists>a. r = Inr a)"
  by (cases r) auto

text \<open>A \<open>for\<close> loop whose body may raise.\<close>

fun for_each :: "('a \<Rightarrow> 's \<Rightarrow> exn + 's) \<Rightarrow> 'a list \<Rightarrow> 's \<Rightarrow> exn + 's" where
  "for_each body [] s = Inr s"
| "for_each body (x # xs) s = and_then (body x s) (for_each body xs)"

section \<open>Tables\<close>

record 'r table =
  rows :: "'r list"
  last_pk :: pk

definition empty_table :: "'r table" where
  "empty_table = \<lparr>rows = [], last_pk = 0\<rparr>"

definition objects_first :: "('r \<Rightarrow> bool) \<Rightarrow> 'r table \<Rightarrow> 'r option" where
  "objects_first P t = find P (rows t)"

definition objects_exists :: "('r \<Rightarrow> bool) \<Rightarrow> 'r table \<Rightarrow> bool" where
  "objects_exists P t = list_ex P (rows t)"

definition objects_filter :: "('r \<Rightarrow> bool) \<Rightarrow> 'r table \<Rightarrow> 'r list" where
  "objects_filter P t = filter P (rows t)"

definition objects_create :: "(pk \<Rightarrow> 'r) \<Rightarrow> 'r table \<Rightarrow> 'r \<times> 'r table" where
  "objects_create mk t =
     (let r = mk (last_pk t + 1) in (r, \<lparr>rows = rows t @ [r], last_pk = last_pk t + 1\<rparr>))"

definition objects_save :: "('r \<Rightarrow> pk) \<Rightarrow> 'r \<Rightarrow> 'r table \<Rightarrow> 'r table" where
  "objects_save key r t = t\<lparr>rows := map (\<lambda>x. if key x = key r then r else x) (rows t)\<rparr>"

text \<open>\<open>save(update_fields=...)\<close>: an update of some columns of the stored row.\<close>

definition objects_update :: "('r \<Rightarrow> pk) \<Rightarrow> pk \<Rightarrow> ('r \<Rightarrow> 'r) \<Rightarrow> 'r table \<Rightarrow> 'r table" where
  "objects_update key k f t = t\<lparr>rows := map (\<lambda>x. if key x = k then f x else x) (rows t)\<rparr>"

definition objects_delete :: "('r \<Rightarrow> bool) \<Rightarrow> 'r table \<Rightarrow> 'r table" where
  "objects_delete P t = t\<lparr>rows := filter (\<lambda>x. \<not> P x) (rows t)\<rparr>"

text \<open>Keys ascend strictly and stay below the largest key issued.\<close>

definition table_ok :: "('r \<Rightarrow> pk) \<Rightarrow> 'r table \<Rightarrow> bool" where
  "table_ok key t \<longleftrightarrow>
     sorted_wrt (<) (map key (rows t)) \<and> list_all (\<lambda>r. key r \<le> last_pk t) (rows t)"

lemma table_ok_empty: "table_ok key empty_table"
  by (simp add: table_ok_def empty_table_def)

lemma find_SomeD: "find P xs = Some x \<Longrightarrow> x \<in> set xs \<and> P x"
  by (induction xs) (auto split: if_splits)

lemma objects_first_Some:
  "objects_first P t = Some r \<Longrightarrow> r \<in> set (rows t) \<and> P r"
  unfolding objects_first_def by (rule find_SomeD)

lemma objects_first_None: "objects_first P t = None \<longleftrightarrow> (\<forall>r \<in> set (rows t). \<not> P r)"
  by (auto simp: objects_first_def find_None_iff)

lemma objects_exists_iff: "objects_exists P t \<longleftrightarrow> (\<exists>r \<in> set (rows t). P r)"
  by (simp add: objects_exists_def list_ex_iff)

lemma objects_first_cong:
  "rows t = rows t' \<Longrightarrow> (\<And>r. r \<in> set (rows t) \<Longrightarrow> P r = Q r)
   \<Longrightarrow> objects_first P t = objects_first Q t'"
  unfolding objects_first_def by (rule find_cong) auto

lemma find_unique:
  assumes "r \<in> set xs" and "P r" and "\<And>x. x \<in> set xs \<Longrightarrow> P x \<Longrightarrow> x = r"
  shows "find P xs = Some r"
proof (cases "find P xs")
  case None
  with assms(1,2) show ?thesis by (auto simp: find_None_iff)
next
  case (Some x)
  have "x = r" using find_SomeD [OF Some] assms(3) by blast
  with Some show ?thesis by (simp only:)
qed

lemma objects_first_unique:
  assumes "r \<in> set (rows t)" and "P r" and "\<And>x. x \<in> set (rows t) \<Longrightarrow> P x \<Longrightarrow> x = r"
  shows "objects_first P t = Some r"
  unfolding objects_first_def using assms by (rule find_unique)

lemma find_filter: "find P (filter Q xs) = find (\<lambda>x. Q x \<and> P x) xs"
  by (induction xs) auto

lemma table_ok_distinct:
  "table_ok key t \<Longrightarrow> distinct (map key (rows t))"
  by (simp add: table_ok_def strict_sorted_iff)

lemma table_ok_inj:
  "table_ok key t \<Longrightarrow> a \<in> set (rows t) \<Longrightarrow> b \<in> set (rows t) \<Longrightarrow> key a = key b \<Longrightarrow> a = b"
  by (drule table_ok_distinct) (auto simp: distinct_map inj_on_def)

text \<open>The first match is the match of least key.\<close>

lemma objects_first_least:
  assumes "table_ok key t" and "objects_first P t = Some r" and "x \<in> set (rows t)" and "P x"
  shows "key r \<le> key x"
proof -
  from assms(2) obtain i where i: "i < length (rows t)" "rows t ! i = r"
    "\<forall>j<i. \<not> P (rows t ! j)"
    by (auto simp: objects_first_def find_Some_iff)
  from assms(3) obtain j where j: "j < length (rows t)" "rows t ! j = x"
    by (auto simp: in_set_conv_nth)
  have "i \<le> j" using i(3) j(2) assms(4) by (metis not_le)
  moreover have "sorted_wrt (<) (map key (rows t))" using assms(1) by (simp add: table_ok_def)
  ultimately show ?thesis using i j
    by (cases "i = j") (auto simp: sorted_wrt_iff_nth_less le_less)
qed

lemma objects_create_rows [table_simps]:
  "rows (snd (objects_create mk t)) = rows t @ [mk (last_pk t + 1)]"
  "fst (objects_create mk t) = mk (last_pk t + 1)"
  "last_pk (snd (objects_create mk t)) = last_pk t + 1"
  by (simp_all add: objects_create_def Let_def)

lemma objects_save_rows [table_simps]:
  "rows (objects_save key r t) = map (\<lambda>x. if key x = key r then r else x) (rows t)"
  "last_pk (objects_save key r t) = last_pk t"
  by (simp_all add: objects_save_def)

lemma objects_delete_rows [table_simps]:
  "rows (objects_delete P t) = filter (\<lambda>x. \<not> P x) (rows t)"
  "last_pk (objects_delete P t) = last_pk t"
  by (simp_all add: objects_delete_def)

lemma table_ok_create:
  assumes "table_ok key t" and "key (mk (last_pk t + 1)) = last_pk t + 1"
  shows "table_ok key (snd (objects_create mk t))"
  using assms by (auto simp: table_ok_def table_simps sorted_wrt_append list_all_iff)

lemma table_ok_save:
  assumes "table_ok key t"
  shows "table_ok key (objects_save key r t)"
proof -
  have "key \<circ> (\<lambda>x. if key x = key r then r else x) = key" by auto
  with assms show ?thesis
    by (auto simp: table_ok_def table_simps list_all_iff)
qed

lemma table_ok_delete:
  assumes "table_ok key t"
  shows "table_ok key (objects_delete P t)"
  using assms
  by (auto simp: table_ok_def table_simps list_all_iff sorted_wrt_map sorted_wrt_filter)

lemma objects_update_rows [table_simps]:
  "rows (objects_update key k f t) = map (\<lambda>x. if key x = k then f x else x) (rows t)"
  "last_pk (objects_update key k f t) = last_pk t"
  by (simp_all add: objects_update_def)

lemma table_ok_update:
  assumes "table_ok key t" and "\<And>x. key (f x) = key x"
  shows "table_ok key (objects_update key k f t)"
proof -
  have "key \<circ> (\<lambda>x. if key x = k then f x else x) = key" using assms(2) by auto
  with assms show ?thesis by (auto simp: table_ok_def table_simps list_all_iff)
qed

text \<open>Queries that an update of other rows leaves alone.\<close>

lemma find_append: "find P (xs @ ys) = (case find P xs of None \<Rightarrow> find P ys | Some x \<Rightarrow> Some x)"
  by (induction xs) auto

lemma filter_map_other:
  "(\<And>x. Q x \<Longrightarrow> \<not> P x \<and> \<not> P (f x)) \<Longrightarrow> filter P (map (\<lambda>x. if Q x then f x else x) xs) = filter P xs"
  by (induction xs) auto

lemma filter_save_other:
  assumes "\<And>x. x \<in> set xs \<Longrightarrow> key x = key r \<Longrightarrow> \<not> P x" and "\<not> P r"
  shows "filter P (map (\<lambda>x. if key x = key r then r else x) xs) = filter P xs"
  using assms by (induction xs) auto

section \<open>Unique constraints\<close>

text \<open>
  \<open>clash\<close> says that two rows of a table violate one of its unique constraints.
  \<open>insert_row\<close> is \<open>objects.create\<close>, \<open>update_row\<close> the \<open>save()\<close> of a row
  that is in the table; both raise \<open>IntegrityError\<close> on a clash with another row.
\<close>

definition insert_row ::
    "('r \<Rightarrow> 'r \<Rightarrow> bool) \<Rightarrow> (pk \<Rightarrow> 'r) \<Rightarrow> 'r table \<Rightarrow> exn + ('r \<times> 'r table)" where
  "insert_row clash mk t =
     (if objects_exists (clash (mk (last_pk t + 1))) t then Inl IntegrityError
      else Inr (objects_create mk t))"

definition update_row ::
    "('r \<Rightarrow> pk) \<Rightarrow> ('r \<Rightarrow> 'r \<Rightarrow> bool) \<Rightarrow> 'r \<Rightarrow> 'r table \<Rightarrow> exn + 'r table" where
  "update_row key clash r t =
     (if objects_exists (\<lambda>x. key x \<noteq> key r \<and> clash r x) t then Inl IntegrityError
      else Inr (objects_save key r t))"

definition wf_table :: "('r \<Rightarrow> pk) \<Rightarrow> ('r \<Rightarrow> 'r \<Rightarrow> bool) \<Rightarrow> 'r table \<Rightarrow> bool" where
  "wf_table key clash t \<longleftrightarrow>
     table_ok key t \<and> list_all (\<lambda>x. list_all (\<lambda>y. key x = key y \<or> \<not> clash x y) (rows t)) (rows t)"

lemma wf_tableD:
  "wf_table key clash t \<Longrightarrow> table_ok key t"
  "wf_table key clash t \<Longrightarrow> x \<in> set (rows t) \<Longrightarrow> y \<in> set (rows t) \<Longrightarrow> clash x y \<Longrightarrow> x = y"
  by (auto simp: wf_table_def list_all_iff dest: table_ok_inj)

lemma wf_table_empty: "wf_table key clash empty_table"
  by (simp add: wf_table_def table_ok_empty) (simp add: empty_table_def)

locale model_table =
  fixes key :: "'r \<Rightarrow> pk" and clash :: "'r \<Rightarrow> 'r \<Rightarrow> bool"
  assumes clash_sym: "clash x y \<Longrightarrow> clash y x"
begin

lemma insert_wf:
  assumes "wf_table key clash t" and "insert_row clash mk t = Inr (r, t')"
    and "key (mk (last_pk t + 1)) = last_pk t + 1"
  shows "wf_table key clash t'"
proof -
  have new: "\<forall>x \<in> set (rows t). \<not> clash (mk (last_pk t + 1)) x"
    and t': "t' = snd (objects_create mk t)"
    using assms(2) by (auto simp: insert_row_def objects_exists_iff split: if_splits)
  have "table_ok key t'" unfolding t' using assms(1,3) by (intro table_ok_create wf_tableD(1))
  then show ?thesis
    using assms(1) new clash_sym unfolding t'
    by (auto simp: wf_table_def list_all_iff table_simps)
qed

lemma update_wf:
  assumes "wf_table key clash t" and "update_row key clash r t = Inr t'"
  shows "wf_table key clash t'"
proof -
  have new: "\<forall>x \<in> set (rows t). key x = key r \<or> \<not> clash r x" and t': "t' = objects_save key r t"
    using assms(2) by (auto simp: update_row_def objects_exists_iff split: if_splits)
  have "table_ok key t'" unfolding t' using assms(1) by (intro table_ok_save wf_tableD(1))
  then show ?thesis
    using assms(1) new clash_sym unfolding t'
    by (auto simp: wf_table_def list_all_iff table_simps)
qed

lemma update_fields_wf:
  assumes "wf_table key clash t" and "\<And>x. key (f x) = key x"
    and "\<And>x y. clash (f x) y \<Longrightarrow> clash x y"
  shows "wf_table key clash (objects_update key k f t)"
proof -
  have ok: "table_ok key (objects_update key k f t)"
    using assms(1,2) by (intro table_ok_update wf_tableD(1))
  let ?g = "\<lambda>x. if key x = k then f x else x"
  have key: "key (?g x) = key x" for x using assms(2) by simp
  have clash: "clash (?g x) (?g y) \<Longrightarrow> clash x y" for x y
    using assms(3) clash_sym by (metis (full_types))
  have "key x = key y \<or> \<not> clash x y" if "x \<in> set (rows t)" "y \<in> set (rows t)" for x y
    using assms(1) that by (auto simp: wf_table_def list_all_iff)
  then have "key (?g x) = key (?g y) \<or> \<not> clash (?g x) (?g y)"
    if "x \<in> set (rows t)" "y \<in> set (rows t)" for x y
    using that key clash by metis
  with ok show ?thesis
    unfolding wf_table_def list_all_iff objects_update_rows set_map ball_simps(9) by blast
qed

lemma delete_wf: "wf_table key clash t \<Longrightarrow> wf_table key clash (objects_delete P t)"
  using table_ok_delete [of key t P] by (auto simp: wf_table_def list_all_iff table_simps)

end

lemma insert_row_Inr:
  assumes "insert_row clash mk t = Inr (r, t')"
  shows "r = mk (last_pk t + 1)" "rows t' = rows t @ [r]" "last_pk t' = last_pk t + 1"
  using assms by (auto simp: insert_row_def objects_create_def Let_def split: if_splits)

lemma update_row_Inr:
  "update_row key clash r t = Inr t' \<Longrightarrow>
     rows t' = map (\<lambda>x. if key x = key r then r else x) (rows t) \<and> last_pk t' = last_pk t"
  by (auto simp: update_row_def table_simps split: if_splits)

lemma insert_row_Inl: "insert_row clash mk t = Inl e \<Longrightarrow> e = IntegrityError"
  by (auto simp: insert_row_def split: if_splits)

lemma update_row_Inl: "update_row key clash r t = Inl e \<Longrightarrow> e = IntegrityError"
  by (auto simp: update_row_def split: if_splits)

end
