(* ===== verification/PyStr.thy ===== *)
theory PyStr
  imports Prelude
begin

text \<open>
  The Python \<open>str\<close> operations the gateway uses. A string is a \<open>char list\<close> whose
  characters are the code points below 256: the character classes and case mapping below are
  those of Python on that range (\<open>isspace\<close> includes U+0085 and U+00A0, \<open>lower\<close>
  maps the accented Latin-1 capitals, \<open>isdecimal\<close> holds for the ASCII digits only).
\<close>

section \<open>Characters\<close>

definition code :: "char \<Rightarrow> nat" where
  "code c = of_char c"

definition py_isspace :: "char \<Rightarrow> bool" where
  "py_isspace c \<longleftrightarrow> code c \<in> {9, 10, 11, 12, 13, 28, 29, 30, 31, 32, 133, 160}"

definition is_digit :: "char \<Rightarrow> bool" where
  "is_digit c \<longleftrightarrow> 48 \<le> code c \<and> code c \<le> 57"

definition is_ascii :: "char \<Rightarrow> bool" where
  "is_ascii c \<longleftrightarrow> code c < 128"

definition is_ascii_alpha :: "char \<Rightarrow> bool" where
  "is_ascii_alpha c \<longleftrightarrow> 65 \<le> code c \<and> code c \<le> 90 \<or> 97 \<le> code c \<and> code c \<le> 122"

definition lower_char :: "char \<Rightarrow> char" where
  "lower_char c =
     (let n = code c
      in if 65 \<le> n \<and> n \<le> 90 \<or> 192 \<le> n \<and> n \<le> 222 \<and> n \<noteq> 215 then char_of (n + 32) else c)"

definition py_lower :: "string \<Rightarrow> string" where
  "py_lower s = map lower_char s"

lemma code_less [simp]: "code c < 256"
  by (simp add: code_def)

lemma code_inject: "code a = code b \<longleftrightarrow> a = b"
  by (simp add: code_def)

lemma code_lower_char:
  "code (lower_char c) =
     (if 65 \<le> code c \<and> code c \<le> 90 \<or> 192 \<le> code c \<and> code c \<le> 222 \<and> code c \<noteq> 215
      then code c + 32 else code c)"
  by (simp add: lower_char_def code_def Let_def)

lemma lower_char_idem [simp]: "lower_char (lower_char c) = lower_char c"
  unfolding code_inject [symmetric] by (simp add: code_lower_char)

lemma py_lower_idem [simp]: "py_lower (py_lower s) = py_lower s"
  by (simp add: py_lower_def)

section \<open>Slicing and searching\<close>

definition startswith :: "string \<Rightarrow> string \<Rightarrow> bool" where
  "startswith s p \<longleftrightarrow> take (length p) s = p"

definition endswith :: "string \<Rightarrow> string \<Rightarrow> bool" where
  "endswith s p \<longleftrightarrow> startswith (rev s) (rev p)"

definition removeprefix :: "string \<Rightarrow> string \<Rightarrow> string" where
  "removeprefix s p = (if startswith s p then drop (length p) s else s)"

definition lstrip :: "(char \<Rightarrow> bool) \<Rightarrow> string \<Rightarrow> string" where
  "lstrip P s = dropWhile P s"

definition rstrip :: "(char \<Rightarrow> bool) \<Rightarrow> string \<Rightarrow> string" where
  "rstrip P s = rev (dropWhile P (rev s))"

definition strip :: "(char \<Rightarrow> bool) \<Rightarrow> string \<Rightarrow> string" where
  "strip P s = rstrip P (lstrip P s)"

text \<open>\<open>s.partition(c)\<close> and \<open>s.rpartition(c)\<close>: before, whether found, after.\<close>

definition partition_at :: "char \<Rightarrow> string \<Rightarrow> string \<times> bool \<times> string" where
  "partition_at c s =
     (takeWhile (\<lambda>x. x \<noteq> c) s, c \<in> set s, drop 1 (dropWhile (\<lambda>x. x \<noteq> c) s))"

definition rpartition_at :: "char \<Rightarrow> string \<Rightarrow> string \<times> bool \<times> string" where
  "rpartition_at c s =
     (if c \<in> set s
      then (rev (drop 1 (dropWhile (\<lambda>x. x \<noteq> c) (rev s))), True,
            rev (takeWhile (\<lambda>x. x \<noteq> c) (rev s)))
      else ([], False, s))"

text \<open>\<open>s.split(c)\<close>: never the empty list.\<close>

fun split_on :: "char \<Rightarrow> string \<Rightarrow> string list" where
  "split_on c [] = [[]]"
| "split_on c (x # xs) =
     (if x = c then [] # split_on c xs
      else (case split_on c xs of [] \<Rightarrow> [[x]] | w # ws \<Rightarrow> (x # w) # ws))"

text \<open>\<open>s.split()\<close>: the maximal runs of characters that are not white space.\<close>

function split_ws :: "string \<Rightarrow> string list" where
  "split_ws s =
     (case dropWhile py_isspace s of
        [] \<Rightarrow> []
      | x # xs \<Rightarrow> takeWhile (\<lambda>c. \<not> py_isspace c) (x # xs)
                  # split_ws (dropWhile (\<lambda>c. \<not> py_isspace c) (x # xs)))"
  by pat_completeness auto

lemma length_dropWhile_less:
  assumes "dropWhile P s = x # xs"
  shows "length (dropWhile (\<lambda>c. \<not> P c) (x # xs)) < length s"
proof -
  have "\<not> P x" using assms by (metis hd_dropWhile list.sel(1) list.distinct(1))
  then have "length (dropWhile (\<lambda>c. \<not> P c) (x # xs)) \<le> length xs"
    by (simp add: length_dropWhile_le)
  also have "length xs < length (dropWhile P s)" by (simp add: assms)
  also have "\<dots> \<le> length s" by (rule length_dropWhile_le)
  finally show ?thesis .
qed

termination split_ws
  by (relation "measure length") (simp_all add: length_dropWhile_less del: dropWhile.simps)

declare split_ws.simps [simp del]

lemma startswith_iff: "startswith s p \<longleftrightarrow> (\<exists>r. s = p @ r)"
  by (metis append_eq_conv_conj append_take_drop_id startswith_def)

lemma startswith_append [simp]: "startswith (p @ r) p"
  by (simp add: startswith_def)

lemma startswith_Cons [simp]: "startswith (x # xs) (y # ys) \<longleftrightarrow> x = y \<and> startswith xs ys"
  by (auto simp: startswith_def)

lemma startswith_Nil [simp]: "startswith s []" "startswith [] (y # ys) \<longleftrightarrow> False"
  by (simp_all add: startswith_def)

lemma removeprefix_append [simp]: "removeprefix (p @ r) p = r"
  by (simp add: removeprefix_def)

lemma takeWhile_stop [simp]: "c \<notin> set xs \<Longrightarrow> takeWhile (\<lambda>x. x \<noteq> c) (xs @ c # ys) = xs"
  by (induction xs) auto

lemma dropWhile_stop [simp]: "c \<notin> set xs \<Longrightarrow> dropWhile (\<lambda>x. x \<noteq> c) (xs @ c # ys) = c # ys"
  by (induction xs) auto

lemma takeWhile_none [simp]: "c \<notin> set xs \<Longrightarrow> takeWhile (\<lambda>x. x \<noteq> c) xs = xs"
  by (induction xs) auto

lemma dropWhile_none [simp]: "c \<notin> set xs \<Longrightarrow> dropWhile (\<lambda>x. x \<noteq> c) xs = []"
  by (induction xs) auto

section \<open>Stripping\<close>

lemma lstrip_id: "s = [] \<or> \<not> P (hd s) \<Longrightarrow> lstrip P s = s"
  by (cases s) (auto simp: lstrip_def)

lemma hd_lstrip: "lstrip P s \<noteq> [] \<Longrightarrow> \<not> P (hd (lstrip P s))"
  by (simp add: lstrip_def hd_dropWhile)

lemma rstrip_id: "s = [] \<or> \<not> P (last s) \<Longrightarrow> rstrip P s = s"
  by (cases s rule: rev_cases) (auto simp: rstrip_def)

lemma last_rstrip: "rstrip P s \<noteq> [] \<Longrightarrow> \<not> P (last (rstrip P s))"
  by (simp add: rstrip_def last_rev hd_dropWhile)

lemma rstrip_Nil [simp]: "rstrip P [] = []"
  by (simp add: rstrip_def)

lemma rstrip_prefix: "\<exists>t. s = rstrip P s @ t \<and> (\<forall>c \<in> set t. P c)"
proof -
  have "s = rev (dropWhile P (rev s)) @ rev (takeWhile P (rev s))"
    by (metis rev_append rev_rev_ident takeWhile_dropWhile_id)
  moreover have "\<forall>c \<in> set (rev (takeWhile P (rev s))). P c"
    by (auto dest: set_takeWhileD)
  ultimately show ?thesis unfolding rstrip_def by blast
qed

lemma lstrip_suffix: "\<exists>t. s = t @ lstrip P s \<and> (\<forall>c \<in> set t. P c)"
  by (metis lstrip_def set_takeWhileD takeWhile_dropWhile_id)

lemma set_lstrip: "set (lstrip P s) \<subseteq> set s"
  by (auto simp: lstrip_def dest: set_dropWhileD)

lemma set_rstrip: "set (rstrip P s) \<subseteq> set s"
  by (auto simp: rstrip_def dest: set_dropWhileD)

lemma set_strip: "set (strip P s) \<subseteq> set s"
  unfolding strip_def using set_rstrip set_lstrip by fast

lemma strip_id: "s = [] \<or> \<not> P (hd s) \<and> \<not> P (last s) \<Longrightarrow> strip P s = s"
  by (auto simp: strip_def lstrip_id rstrip_id)

lemma strip_ends:
  assumes "strip P s \<noteq> []"
  shows "\<not> P (hd (strip P s)) \<and> \<not> P (last (strip P s))"
proof -
  obtain t where t: "lstrip P s = strip P s @ t"
    using rstrip_prefix [of "lstrip P s" P] by (auto simp: strip_def)
  then have "lstrip P s \<noteq> []" and "hd (lstrip P s) = hd (strip P s)"
    using assms by auto
  with hd_lstrip [of P s] have "\<not> P (hd (strip P s))" by simp
  moreover have "\<not> P (last (strip P s))" using assms by (simp add: strip_def last_rstrip)
  ultimately show ?thesis by simp
qed

lemma strip_idem [simp]: "strip P (strip P s) = strip P s"
  using strip_ends by (metis strip_id)

lemma strip_Nil_iff: "strip P s = [] \<longleftrightarrow> (\<forall>c \<in> set s. P c)"
proof
  assume "strip P s = []"
  then show "\<forall>c \<in> set s. P c"
    using rstrip_prefix [of "lstrip P s" P] lstrip_suffix [of s P]
    by (metis Un_iff append_Nil set_append strip_def)
next
  assume "\<forall>c \<in> set s. P c"
  then have "lstrip P s = []" by (simp add: lstrip_def)
  then show "strip P s = []" by (simp add: strip_def)
qed

section \<open>Splitting\<close>

lemma split_on_not_Nil [simp]: "split_on c s \<noteq> []"
  by (cases s) (auto split: list.splits)

lemma hd_split_on: "hd (split_on c s) = takeWhile (\<lambda>x. x \<noteq> c) s"
  by (induction s) (auto split: list.splits)

lemma split_on_no_sep: "w \<in> set (split_on c s) \<Longrightarrow> c \<notin> set w"
  by (induction s arbitrary: w) (auto split: list.splits if_splits)

lemma length_split_on: "length (split_on c s) = Suc (length (filter (\<lambda>x. x = c) s))"
  by (induction s) (auto split: list.splits)

lemma split_on_single: "c \<notin> set s \<Longrightarrow> split_on c s = [s]"
  by (induction s) auto

section \<open>Decimal numerals\<close>

definition digit_char :: "nat \<Rightarrow> char" where
  "digit_char n = ''0123456789'' ! (n mod 10)"

definition digit_val :: "char \<Rightarrow> nat" where
  "digit_val c = code c - 48"

fun str_of_nat :: "nat \<Rightarrow> string" where
  "str_of_nat n =
     (if n < 10 then [digit_char n] else str_of_nat (n div 10) @ [digit_char (n mod 10)])"

declare str_of_nat.simps [simp del]

text \<open>\<open>str(i)\<close> of a Python integer.\<close>

definition str_of_int :: "int \<Rightarrow> string" where
  "str_of_int i = (if i < 0 then CHR ''-'' # str_of_nat (nat (- i)) else str_of_nat (nat i))"

definition isdecimal :: "string \<Rightarrow> bool" where
  "isdecimal s \<longleftrightarrow> s \<noteq> [] \<and> list_all is_digit s"

definition val_digits :: "string \<Rightarrow> nat" where
  "val_digits s = foldl (\<lambda>a c. 10 * a + digit_val c) 0 s"

text \<open>
  \<open>int_of_str\<close> reads an optional minus sign and decimal digits, as Redis reads a counter;
  \<open>py_int\<close> is Python's \<open>int(s)\<close>, which also takes surrounding white space, a plus sign
  and single underscores between digits. \<open>None\<close> is the \<open>ValueError\<close>.
\<close>

definition int_of_str :: "string \<Rightarrow> int option" where
  "int_of_str s =
     (case s of
        [] \<Rightarrow> None
      | c # cs \<Rightarrow>
          if c = CHR ''-''
          then (if isdecimal cs then Some (- int (val_digits cs)) else None)
          else (if isdecimal s then Some (int (val_digits s)) else None))"

definition py_digits :: "string \<Rightarrow> nat option" where
  "py_digits s =
     (let ws = split_on (CHR ''_'') s
      in if list_all isdecimal ws then Some (val_digits (concat ws)) else None)"

definition py_int :: "string \<Rightarrow> int option" where
  "py_int s =
     (case strip py_isspace s of
        [] \<Rightarrow> None
      | c # cs \<Rightarrow>
          if c = CHR ''-'' then map_option (\<lambda>n. - int n) (py_digits cs)
          else if c = CHR ''+'' then map_option int (py_digits cs)
          else map_option int (py_digits (c # cs)))"

lemma below_ten: "(d::nat) < 10 \<Longrightarrow> d \<in> {0, 1, 2, 3, 4, 5, 6, 7, 8, 9}"
  unfolding insert_iff empty_iff by presburger

lemma digit_char_simps [simp]:
  "is_digit (digit_char n)" "digit_val (digit_char n) = n mod 10"
proof -
  have "n mod 10 \<in> {0, 1, 2, 3, 4, 5, 6, 7, 8, 9}" by (rule below_ten) simp
  then show "is_digit (digit_char n)" "digit_val (digit_char n) = n mod 10"
    unfolding digit_char_def is_digit_def digit_val_def code_def by (auto simp: nth_Cons')
qed

lemma str_of_nat_not_Nil [simp]: "str_of_nat n \<noteq> []"
  by (subst str_of_nat.simps) simp

lemma str_of_nat_digits: "list_all is_digit (str_of_nat n)"
  by (induction n rule: str_of_nat.induct) (subst str_of_nat.simps, simp)

lemma isdecimal_str_of_nat [simp]: "isdecimal (str_of_nat n)"
  by (simp add: isdecimal_def str_of_nat_digits)

lemma val_digits_snoc [simp]: "val_digits (s @ [c]) = 10 * val_digits s + digit_val c"
  by (simp add: val_digits_def)

lemma val_digits_Nil [simp]: "val_digits [] = 0"
  by (simp add: val_digits_def)

lemma val_str_of_nat [simp]: "val_digits (str_of_nat n) = n"
proof (induction n rule: str_of_nat.induct)
  case (1 n)
  show ?case
  proof (cases "n < 10")
    case True
    then show ?thesis
      by (subst str_of_nat.simps) (use val_digits_snoc [of "[]"] in simp)
  next
    case False
    with 1 show ?thesis by (subst str_of_nat.simps) simp
  qed
qed

lemma minus_not_digit: "\<not> is_digit (CHR ''-'')"
  by (simp add: is_digit_def code_def)

lemma str_of_nat_no_minus: "str_of_nat n = c # cs \<Longrightarrow> c \<noteq> CHR ''-''"
  using str_of_nat_digits [of n] minus_not_digit by auto

lemma int_of_str_of_int [simp]: "int_of_str (str_of_int i) = Some i"
proof (cases "i < 0")
  case True
  then show ?thesis by (simp add: int_of_str_def str_of_int_def)
next
  case False
  obtain c cs where s: "str_of_nat (nat i) = c # cs" by (cases "str_of_nat (nat i)") auto
  then have "isdecimal (c # cs)" "val_digits (c # cs) = nat i"
    using isdecimal_str_of_nat val_str_of_nat by metis+
  with False s str_of_nat_no_minus [OF s] show ?thesis
    by (simp add: int_of_str_def str_of_int_def)
qed

lemma digit_not_space: "is_digit c \<Longrightarrow> \<not> py_isspace c"
  by (auto simp: is_digit_def py_isspace_def)

lemma digits_no_underscore: "list_all is_digit s \<Longrightarrow> CHR ''_'' \<notin> set s"
  by (auto simp: list_all_iff is_digit_def code_def)

lemma py_digits_isdecimal: "isdecimal s \<Longrightarrow> py_digits s = Some (val_digits s)"
  by (simp add: py_digits_def isdecimal_def digits_no_underscore split_on_single)

lemma strip_str_of_int: "strip py_isspace (str_of_int i) = str_of_int i"
proof (rule strip_id, rule disjI2)
  have sp: "\<not> py_isspace (CHR ''-'')" by (simp add: py_isspace_def code_def)
  have "\<forall>c \<in> set (str_of_nat n). \<not> py_isspace c" for n
    using str_of_nat_digits [of n] by (auto simp: list_all_iff dest: digit_not_space)
  with sp have "\<forall>c \<in> set (str_of_int i). \<not> py_isspace c" by (auto simp: str_of_int_def)
  then show "\<not> py_isspace (hd (str_of_int i)) \<and> \<not> py_isspace (last (str_of_int i))"
    by (simp add: str_of_int_def)
qed

lemma py_int_str_of_int [simp]: "py_int (str_of_int i) = Some i"
proof (cases "i < 0")
  case True
  then show ?thesis
    by (subst py_int_def, subst strip_str_of_int)
      (simp add: str_of_int_def py_digits_isdecimal)
next
  case False
  obtain c cs where s: "str_of_nat (nat i) = c # cs" by (cases "str_of_nat (nat i)") auto
  then have d: "isdecimal (c # cs)" "val_digits (c # cs) = nat i"
    using isdecimal_str_of_nat val_str_of_nat by metis+
  then have "is_digit c" by (simp add: isdecimal_def)
  then have "c \<noteq> CHR ''-''" "c \<noteq> CHR ''+''" by (auto simp: is_digit_def code_def)
  moreover have "strip py_isspace (str_of_int i) = c # cs"
    using False s strip_str_of_int [of i] by (simp add: str_of_int_def)
  ultimately show ?thesis using False d by (simp add: py_int_def py_digits_isdecimal)
qed

lemma str_of_int_inject [simp]: "str_of_int a = str_of_int b \<longleftrightarrow> a = b"
  by (metis int_of_str_of_int option.inject)

lemma str_of_int_chars: "c \<in> set (str_of_int i) \<Longrightarrow> is_digit c \<or> c = CHR ''-''"
  using str_of_nat_digits by (auto simp: str_of_int_def list_all_iff split: if_splits)

lemma str_of_int_not_Nil [simp]: "str_of_int i \<noteq> []"
  by (simp add: str_of_int_def)

lemma str_of_int_sep [simp]: "\<not> is_digit c \<Longrightarrow> c \<noteq> CHR ''-'' \<Longrightarrow> c \<notin> set (str_of_int i)"
  using str_of_int_chars by blast

text \<open>A character that is neither a digit nor a sign ends a printed number.\<close>

lemma str_of_int_append_inject:
  assumes "str_of_int a @ c # s = str_of_int b @ c # s'"
    and "\<not> is_digit c" and "c \<noteq> CHR ''-''"
  shows "a = b \<and> s = s'"
proof -
  have stop: "takeWhile (\<lambda>x. x \<noteq> c) (str_of_int i @ c # r) = str_of_int i" for i r
    using assms(2,3) by simp
  have "str_of_int a = str_of_int b" using assms(1) stop by metis
  with assms(1) show ?thesis by simp
qed

end
