(* ===== verification/Schema.thy ===== *)
theory Schema
  imports PyStr
begin

text \<open>
  The tables of the database as migrations build them: what the operations of Django's
  \<open>migrations\<close> module, which the repository's migration files list, do to the state of one
  application, and when they fail. A table keeps its columns in order, the sets of columns that are
  unique together, its named indexes and its named unique constraints. Texts a field shows to
  people (labels, help, error messages) are left out; where the code writes no length, the default
  of the class is written out.
\<close>

section \<open>Columns and tables\<close>

datatype on_delete = CASCADE | SET_NULL

text \<open>A model is named by its application and its lower-case name.\<close>

type_synonym model_ref = "string \<times> string"

datatype field_class =
    BigAutoField
  | CharField nat
  | SlugField nat
  | EmailField nat
  | URLField nat
  | TextField
  | BooleanField
  | PositiveIntegerField
  | FloatField
  | DateTimeField
  | GenericIPAddressField
  | ForeignKey on_delete model_ref string
  | OneToOneField on_delete model_ref string
  | ManyToManyField model_ref string

datatype initial_value = Text_Value string | Bool_Value bool | Int_Value int | Float_Value string | Time_Now

datatype field_option =
    Primary_Key
  | Null
  | Blank
  | Unique
  | Db_Index
  | Default initial_value
  | Choices "string list"
  | Auto_Now
  | Auto_Now_Add

datatype field = Column (class_of: field_class) (options_of: "field_option list")

record db_table =
  columns :: "(string \<times> field) list"
  unique_sets :: "string list list"
  table_indexes :: "(string \<times> string list) list"
  table_constraints :: "(string \<times> string list) list"

text \<open>The tables of one application, by the lower-case name of the model.\<close>

type_synonym tables = "(string \<times> db_table) list"

definition column_names :: "db_table \<Rightarrow> string list" where
  "column_names t = map fst (columns t)"

section \<open>Operations\<close>

text \<open>
  \<open>RunPython\<close> carries the name of its function and the models and columns the function reads or
  writes; what it does with the rows is translated in the theories of the data migrations.
\<close>

type_synonym model_use = "model_ref \<times> string list"

datatype operation =
    CreateModel string "(string \<times> field) list" "(string \<times> string list) list" "(string \<times> string list) list"
  | DeleteModel string
  | AddField string string field
  | RemoveField string string
  | AlterField string string field
  | RenameField string string string
  | AlterUniqueTogether string "string list list"
  | AddIndex string string "string list"
  | RemoveIndex string string
  | RunPython string "model_use list"

definition has_columns :: "string list \<Rightarrow> db_table \<Rightarrow> bool" where
  "has_columns cs t \<longleftrightarrow> list_all (\<lambda>c. c \<in> set (column_names t)) cs"

text \<open>A change of one table; \<open>None\<close> when there is no such table or the change fails.\<close>

fun alter_table :: "string \<Rightarrow> (db_table \<Rightarrow> db_table option) \<Rightarrow> tables \<Rightarrow> tables option" where
  "alter_table m f [] = None"
| "alter_table m f ((n, t) # ts) =
     (if n = m then (case f t of None \<Rightarrow> None | Some t' \<Rightarrow> Some ((n, t') # ts))
      else (case alter_table m f ts of None \<Rightarrow> None | Some ts' \<Rightarrow> Some ((n, t) # ts')))"

definition add_column :: "string \<Rightarrow> field \<Rightarrow> db_table \<Rightarrow> db_table option" where
  "add_column c f t =
     (if c \<in> set (column_names t) then None else Some (t\<lparr>columns := columns t @ [(c, f)]\<rparr>))"

definition remove_column :: "string \<Rightarrow> db_table \<Rightarrow> db_table option" where
  "remove_column c t =
     (if c \<in> set (column_names t) then Some (t\<lparr>columns := filter (\<lambda>(n, f). n \<noteq> c) (columns t)\<rparr>)
      else None)"

definition alter_column :: "string \<Rightarrow> field \<Rightarrow> db_table \<Rightarrow> db_table option" where
  "alter_column c f t =
     (if c \<in> set (column_names t)
      then Some (t\<lparr>columns := map (\<lambda>(n, g). (n, if n = c then f else g)) (columns t)\<rparr>)
      else None)"

text \<open>A renamed column keeps its place; the unique sets follow it, the indexes do not.\<close>

definition rename_column :: "string \<Rightarrow> string \<Rightarrow> db_table \<Rightarrow> db_table option" where
  "rename_column old new t =
     (if old \<in> set (column_names t) \<and> new \<notin> set (column_names t)
      then Some (t\<lparr>columns := map (\<lambda>(n, f). (if n = old then new else n, f)) (columns t),
                   unique_sets := map (map (\<lambda>n. if n = old then new else n)) (unique_sets t)\<rparr>)
      else None)"

definition set_unique :: "string list list \<Rightarrow> db_table \<Rightarrow> db_table option" where
  "set_unique us t = (if list_all (\<lambda>u. has_columns u t) us then Some (t\<lparr>unique_sets := us\<rparr>) else None)"

definition add_index :: "string \<Rightarrow> string list \<Rightarrow> db_table \<Rightarrow> db_table option" where
  "add_index i cs t =
     (if has_columns cs t \<and> i \<notin> set (map fst (table_indexes t))
      then Some (t\<lparr>table_indexes := table_indexes t @ [(i, cs)]\<rparr>) else None)"

definition remove_index :: "string \<Rightarrow> db_table \<Rightarrow> db_table option" where
  "remove_index i t =
     (if i \<in> set (map fst (table_indexes t))
      then Some (t\<lparr>table_indexes := filter (\<lambda>(n, cs). n \<noteq> i) (table_indexes t)\<rparr>) else None)"

definition new_table :: "(string \<times> field) list \<Rightarrow> (string \<times> string list) list \<Rightarrow> (string \<times> string list) list \<Rightarrow> db_table"
  where
  "new_table fs is cs = \<lparr>columns = fs, unique_sets = [], table_indexes = is, table_constraints = cs\<rparr>"

text \<open>What an operation does to the tables of its own application.\<close>

fun apply_operation :: "operation \<Rightarrow> tables \<Rightarrow> tables option" where
  "apply_operation (CreateModel name fs is cs) ts =
     (if py_lower name \<in> set (map fst ts) \<or> \<not> distinct (map fst fs)
         \<or> \<not> list_all (\<lambda>(i, ns). has_columns ns (new_table fs is cs)) (is @ cs)
      then None else Some (ts @ [(py_lower name, new_table fs is cs)]))"
| "apply_operation (DeleteModel name) ts =
     (if py_lower name \<in> set (map fst ts) then Some (filter (\<lambda>(n, t). n \<noteq> py_lower name) ts) else None)"
| "apply_operation (AddField m c f) ts = alter_table m (add_column c f) ts"
| "apply_operation (RemoveField m c) ts = alter_table m (remove_column c) ts"
| "apply_operation (AlterField m c f) ts = alter_table m (alter_column c f) ts"
| "apply_operation (RenameField m old new) ts = alter_table m (rename_column old new) ts"
| "apply_operation (AlterUniqueTogether m us) ts = alter_table m (set_unique us) ts"
| "apply_operation (AddIndex m i cs) ts = alter_table m (add_index i cs) ts"
| "apply_operation (RemoveIndex m i) ts = alter_table m (remove_index i) ts"
| "apply_operation (RunPython f us) ts = Some ts"

section \<open>Relations\<close>

text \<open>
  The model a column refers to. After an operation Django builds the models of the whole state,
  which fails when a relation has no target; a \<open>RunPython\<close> function fails when a model or a column
  it asks for is not there.
\<close>

fun target_of :: "field \<Rightarrow> model_ref option" where
  "target_of (Column (ForeignKey d r n) options) = Some r"
| "target_of (Column (OneToOneField d r n) options) = Some r"
| "target_of (Column (ManyToManyField r n) options) = Some r"
| "target_of (Column c options) = None"

definition targets :: "tables \<Rightarrow> model_ref list" where
  "targets ts = List.map_filter (\<lambda>(c, f). target_of f) (concat (map (\<lambda>(m, t). columns t) ts))"

type_synonym schema = "string \<Rightarrow> tables"

fun available :: "schema \<Rightarrow> model_use \<Rightarrow> bool" where
  "available S ((app, m), cs) = (case map_of (S app) m of None \<Rightarrow> False | Some t \<Rightarrow> has_columns cs t)"

definition relations_resolve :: "string list \<Rightarrow> schema \<Rightarrow> bool" where
  "relations_resolve apps S \<longleftrightarrow> list_all (\<lambda>app. list_all (\<lambda>r. available S (r, [])) (targets (S app))) apps"

fun uses_of :: "operation \<Rightarrow> model_use list" where
  "uses_of (RunPython f us) = us"
| "uses_of op = []"

section \<open>Migrations\<close>

record migration =
  mig_app :: string
  mig_name :: string
  dependencies :: "(string \<times> string) list"
  operations :: "operation list"

definition node :: "migration \<Rightarrow> string \<times> string" where
  "node m = (mig_app m, mig_name m)"

fun run_operations :: "string list \<Rightarrow> string \<Rightarrow> operation list \<Rightarrow> schema \<Rightarrow> schema option" where
  "run_operations apps app [] S = Some S"
| "run_operations apps app (op # ops) S =
     (if list_all (available S) (uses_of op) then
        (case apply_operation op (S app) of
           None \<Rightarrow> None
         | Some ts \<Rightarrow>
             (if relations_resolve apps (S(app := ts)) then run_operations apps app ops (S(app := ts))
              else None))
      else None)"

definition run_migration :: "string list \<Rightarrow> migration \<Rightarrow> schema \<Rightarrow> schema option" where
  "run_migration apps m S = run_operations apps (mig_app m) (operations m) S"

section \<open>Well-formed tables\<close>

text \<open>No name twice, and indexes and constraints over existing columns only.\<close>

definition table_wf :: "db_table \<Rightarrow> bool" where
  "table_wf t \<longleftrightarrow> distinct (column_names t) \<and>
     list_all (\<lambda>u. has_columns u t) (unique_sets t) \<and>
     list_all (\<lambda>(i, cs). has_columns cs t) (table_indexes t @ table_constraints t)"

definition tables_wf :: "tables \<Rightarrow> bool" where
  "tables_wf ts \<longleftrightarrow> distinct (map fst ts) \<and> list_all (\<lambda>(m, t). table_wf t) ts"

text \<open>The sets of columns in which two rows of a table may not agree.\<close>

definition unique_keys :: "db_table \<Rightarrow> string list list" where
  "unique_keys t =
     map (\<lambda>(c, f). [c])
       (filter (\<lambda>(c, f). Unique \<in> set (options_of f) \<or>
                  (case class_of f of OneToOneField d r n \<Rightarrow> True | _ \<Rightarrow> False)) (columns t))
     @ unique_sets t @ map snd (table_constraints t)"

end
