(* ===== verification/SchemaHistory.thy ===== *)
theory SchemaHistory
  imports Schema
begin

text \<open>
  The migration files of the five applications that have tables, in the order of their numbers.
  \<open>user_model\<close> is the setting \<open>AUTH_USER_MODEL\<close>; a dependency on it is a dependency on the
  first migration of its application.
\<close>

definition user_model :: model_ref where
  "user_model = (''users'', ''user'')"

fun swappable_dependency :: "model_ref \<Rightarrow> string \<times> string" where
  "swappable_dependency (app, m) = (app, ''__first__'')"

section \<open>\<open>users\<close>\<close>

definition users_0001 :: migration where
  "users_0001 = \<lparr>mig_app = ''users'',
     mig_name = ''0001_initial'',
     dependencies = [(''auth'', ''0012_alter_user_first_name_max_length'')],
     operations =
      [CreateModel ''User''
         [
          (''id'', Column BigAutoField [Primary_Key]),
          (''password'', Column (CharField 128) []),
          (''last_login'', Column DateTimeField [Blank, Null]),
          (''is_superuser'', Column BooleanField [Default (Bool_Value False)]),
          (''username'', Column (CharField 150) [Unique]),
          (''first_name'', Column (CharField 150) [Blank]),
          (''last_name'', Column (CharField 150) [Blank]),
          (''is_staff'', Column BooleanField [Default (Bool_Value False)]),
          (''is_active'', Column BooleanField [Default (Bool_Value True)]),
          (''date_joined'', Column DateTimeField [Default Time_Now]),
          (''email'', Column (EmailField 254) [Unique]),
          (''created_at'', Column DateTimeField [Auto_Now_Add]),
          (''updated_at'', Column DateTimeField [Auto_Now]),
          (''groups'', Column (ManyToManyField (''auth'', ''group'') ''user_set'') [Blank]),
          (''user_permissions'',
           Column (ManyToManyField (''auth'', ''permission'') ''user_set'') [Blank])]
         []
         [],
       CreateModel ''Project''
         [
          (''id'', Column BigAutoField [Primary_Key]),
          (''name'', Column (CharField 120) []),
          (''slug'', Column (SlugField 50) [Blank, Unique]),
          (''description'', Column TextField [Blank, Default (Text_Value '''')]),
          (''plan'',
           Column (CharField 20) [Choices [''free'', ''enterprise''],
             Default (Text_Value ''free'')]),
          (''rate_limit'', Column PositiveIntegerField [Default (Int_Value 100)]),
          (''window_seconds'', Column PositiveIntegerField [Default (Int_Value 60)]),
          (''created_at'', Column DateTimeField [Auto_Now_Add]),
          (''updated_at'', Column DateTimeField [Auto_Now]),
          (''owner'', Column (ForeignKey CASCADE user_model ''projects'') [])]
         [(''users_proje_owner_i_4385fa_idx'', [''owner'', ''plan'']),
           (''users_proje_slug_6d869d_idx'', [''slug''])]
         [],
       AddIndex ''user'' ''users_user_email_6f2530_idx''
         [''email''],
       AddIndex ''user'' ''users_user_usernam_65d164_idx''
         [''username'']]\<rparr>"

definition users_0002 :: migration where
  "users_0002 = \<lparr>mig_app = ''users'',
     mig_name = ''0002_remove_project_rate_limit_and_more'',
     dependencies = [(''users'', ''0001_initial'')],
     operations =
      [RemoveField ''project'' ''rate_limit'',
       RemoveField ''project'' ''window_seconds'']\<rparr>"

definition users_0003 :: migration where
  "users_0003 = \<lparr>mig_app = ''users'',
     mig_name = ''0003_remove_project_users_proje_owner_i_4385fa_idx_and_more'',
     dependencies = [(''users'', ''0002_remove_project_rate_limit_and_more'')],
     operations =
      [RemoveIndex ''project'' ''users_proje_owner_i_4385fa_idx'',
       RemoveField ''project'' ''plan'',
       AddIndex ''project'' ''users_proje_owner_i_6f13b7_idx''
         [''owner'']]\<rparr>"

definition users_0004 :: migration where
  "users_0004 = \<lparr>mig_app = ''users'',
     mig_name = ''0004_project_name_unique'',
     dependencies = [(''users'', ''0003_remove_project_users_proje_owner_i_4385fa_idx_and_more'')],
     operations =
      [AlterField ''project'' ''name'' (Column (CharField 120) [Unique])]\<rparr>"

section \<open>\<open>authentication\<close>\<close>

definition authentication_0001 :: migration where
  "authentication_0001 = \<lparr>mig_app = ''authentication'',
     mig_name = ''0001_initial'',
     dependencies = [],
     operations =
      [CreateModel ''APIKey''
         [
          (''id'', Column BigAutoField [Primary_Key]),
          (''name'', Column (CharField 120) []),
          (''prefix'', Column (CharField 16) [Db_Index]),
          (''key_hash'', Column (CharField 128) [Db_Index, Unique]),
          (''created_at'', Column DateTimeField [Auto_Now_Add]),
          (''expires_at'', Column DateTimeField [Blank, Null]),
          (''revoked_at'', Column DateTimeField [Blank, Null]),
          (''last_used_at'', Column DateTimeField [Blank, Null])]
         []
         []]\<rparr>"

definition authentication_0002 :: migration where
  "authentication_0002 = \<lparr>mig_app = ''authentication'',
     mig_name = ''0002_initial'',
     dependencies = [(''authentication'', ''0001_initial''), (''users'', ''0001_initial'')],
     operations =
      [AddField ''apikey'' ''project''
         (Column (ForeignKey CASCADE (''users'', ''project'') ''api_keys'') []),
       AddIndex ''apikey'' ''authenticat_project_056759_idx''
         [''project'', ''revoked_at'', ''expires_at''],
       AddIndex ''apikey'' ''authenticat_prefix_7e7b84_idx''
         [''prefix'']]\<rparr>"

definition authentication_0003 :: migration where
  "authentication_0003 = \<lparr>mig_app = ''authentication'',
     mig_name = ''0003_application_routepermission_and_more'',
     dependencies = [(''users'', ''0001_initial''),
       (''routes'', ''0003_route_cache_ttl_seconds_route_downstream_service''),
       (''authentication'', ''0002_initial'')],
     operations =
      [CreateModel ''Application''
         [
          (''id'', Column BigAutoField [Primary_Key]),
          (''name'', Column (CharField 120) []),
          (''slug'', Column (SlugField 120) []),
          (''is_active'', Column BooleanField [Default (Bool_Value True)]),
          (''rate_limit'', Column PositiveIntegerField [Blank, Null]),
          (''window_seconds'', Column PositiveIntegerField [Blank, Null]),
          (''created_at'', Column DateTimeField [Auto_Now_Add]),
          (''updated_at'', Column DateTimeField [Auto_Now])]
         []
         [],
       CreateModel ''RoutePermission''
         [
          (''id'', Column BigAutoField [Primary_Key]),
          (''is_active'', Column BooleanField [Default (Bool_Value True)]),
          (''created_at'', Column DateTimeField [Auto_Now_Add])]
         []
         [],
       AddField ''routepermission'' ''application''
         (Column (ForeignKey CASCADE (''authentication'', ''application'') ''permissions'') []),
       AddField ''routepermission'' ''route''
         (Column (ForeignKey CASCADE (''routes'', ''route'') ''application_permissions'') []),
       AddField ''application'' ''project''
         (Column (ForeignKey CASCADE (''users'', ''project'') ''applications'') []),
       AddField ''apikey'' ''application''
         (Column (ForeignKey CASCADE (''authentication'', ''application'') ''api_keys'') [Blank,
           Null]),
       AddIndex ''apikey'' ''authenticat_applica_8364df_idx''
         [''application'', ''revoked_at'', ''expires_at''],
       AddIndex ''routepermission'' ''authenticat_applica_173b45_idx''
         [''application'', ''is_active''],
       AddIndex ''routepermission'' ''authenticat_route_i_53ca9a_idx''
         [''route'', ''is_active''],
       AlterUniqueTogether ''routepermission'' [[''application'', ''route'']],
       AddIndex ''application'' ''authenticat_project_39b0e3_idx''
         [''project'', ''is_active''],
       AddIndex ''application'' ''authenticat_slug_b9fe14_idx''
         [''slug''],
       AlterUniqueTogether ''application'' [[''project'', ''slug'']]]\<rparr>"

definition authentication_0004 :: migration where
  "authentication_0004 = \<lparr>mig_app = ''authentication'',
     mig_name = ''0004_alter_application_slug'',
     dependencies = [(''authentication'', ''0003_application_routepermission_and_more'')],
     operations =
      [AlterField ''application'' ''slug'' (Column (SlugField 120) [Blank])]\<rparr>"

definition authentication_0005 :: migration where
  "authentication_0005 = \<lparr>mig_app = ''authentication'',
     mig_name = ''0005_application_plan'',
     dependencies = [(''authentication'', ''0004_alter_application_slug'')],
     operations =
      [AddField ''application'' ''plan''
         (Column (CharField 20) [Choices [''normal'', ''premium''],
           Default (Text_Value ''normal'')])]\<rparr>"

definition authentication_0006 :: migration where
  "authentication_0006 = \<lparr>mig_app = ''authentication'',
     mig_name = ''0006_remove_application_rate_limit_and_more'',
     dependencies = [(''authentication'', ''0005_application_plan'')],
     operations =
      [RemoveField ''application'' ''rate_limit'',
       RemoveField ''application'' ''window_seconds'']\<rparr>"

definition authentication_0007 :: migration where
  "authentication_0007 = \<lparr>mig_app = ''authentication'',
     mig_name = ''0007_remove_apikey_authenticat_prefix_7e7b84_idx_and_more'',
     dependencies = [(''authentication'', ''0006_remove_application_rate_limit_and_more'')],
     operations =
      [RemoveIndex ''apikey'' ''authenticat_prefix_7e7b84_idx'',
       RemoveField ''apikey'' ''prefix'']\<rparr>"

definition authentication_0008 :: migration where
  "authentication_0008 = \<lparr>mig_app = ''authentication'',
     mig_name = ''0008_remove_apikey_project_require_application'',
     dependencies = [(''authentication'',
       ''0007_remove_apikey_authenticat_prefix_7e7b84_idx_and_more'')],
     operations =
      [RunPython ''backfill_application''
         [((''authentication'', ''apikey''), [''application'', ''project'']),
          ((''authentication'', ''application''), [''project'', ''slug'', ''name'', ''plan'',
            ''is_active''])],
       RemoveIndex ''apikey'' ''authenticat_project_056759_idx'',
       AlterField ''apikey'' ''application''
         (Column (ForeignKey CASCADE (''authentication'', ''application'') ''api_keys'') []),
       RemoveField ''apikey'' ''project'']\<rparr>"

definition authentication_0009 :: migration where
  "authentication_0009 = \<lparr>mig_app = ''authentication'',
     mig_name = ''0009_one_api_key_per_application'',
     dependencies = [(''authentication'', ''0008_remove_apikey_project_require_application'')],
     operations =
      [RunPython ''validate_single_key_per_application''
         [((''authentication'', ''apikey''), [''id'', ''application''])],
       AlterField ''apikey'' ''application''
         (Column (OneToOneField CASCADE (''authentication'',
           ''application'') ''api_key'') [])]\<rparr>"

definition authentication_0010 :: migration where
  "authentication_0010 = \<lparr>mig_app = ''authentication'',
     mig_name = ''0010_remove_apikey_last_used_at'',
     dependencies = [(''authentication'', ''0009_one_api_key_per_application'')],
     operations =
      [RemoveField ''apikey'' ''last_used_at'']\<rparr>"

section \<open>\<open>routes\<close>\<close>

definition routes_0001 :: migration where
  "routes_0001 = \<lparr>mig_app = ''routes'',
     mig_name = ''0001_initial'',
     dependencies = [],
     operations =
      [CreateModel ''Route''
         [
          (''id'', Column BigAutoField [Primary_Key]),
          (''name'', Column (CharField 120) []),
          (''method'',
           Column (CharField 10) [Choices [''GET'', ''POST'', ''PUT'', ''PATCH'', ''DELETE''],
             Default (Text_Value ''GET'')]),
          (''path'', Column (CharField 200) []),
          (''is_active'', Column BooleanField [Default (Bool_Value True)]),
          (''load_balancing'',
           Column (CharField 25) [Choices [''round_robin'', ''least_connections''],
             Default (Text_Value ''round_robin'')]),
          (''created_at'', Column DateTimeField [Auto_Now_Add]),
          (''updated_at'', Column DateTimeField [Auto_Now])]
         []
         [],
       CreateModel ''RouteTarget''
         [
          (''id'', Column BigAutoField [Primary_Key]),
          (''url'', Column (URLField 500) []),
          (''weight'', Column PositiveIntegerField [Default (Int_Value 1)]),
          (''is_active'', Column BooleanField [Default (Bool_Value True)]),
          (''connections'', Column PositiveIntegerField [Default (Int_Value 0)]),
          (''created_at'', Column DateTimeField [Auto_Now_Add]),
          (''updated_at'', Column DateTimeField [Auto_Now]),
          (''route'', Column (ForeignKey CASCADE (''routes'', ''route'') ''targets'') [])]
         []
         []]\<rparr>"

definition routes_0002 :: migration where
  "routes_0002 = \<lparr>mig_app = ''routes'',
     mig_name = ''0002_initial'',
     dependencies = [(''routes'', ''0001_initial''), (''users'', ''0001_initial'')],
     operations =
      [AddField ''route'' ''project''
         (Column (ForeignKey CASCADE (''users'', ''project'') ''routes'') []),
       AddIndex ''routetarget'' ''routes_rout_route_i_e6756e_idx''
         [''route'', ''is_active''],
       AddIndex ''routetarget'' ''routes_rout_url_1959b4_idx''
         [''url''],
       AddIndex ''route'' ''routes_rout_project_68cb6d_idx''
         [''project'', ''method'', ''path''],
       AddIndex ''route'' ''routes_rout_method_8dac9a_idx''
         [''method'', ''path''],
       AddIndex ''route'' ''routes_rout_is_acti_d0dc30_idx''
         [''is_active''],
       AlterUniqueTogether ''route'' [[''project'', ''method'', ''path'']]]\<rparr>"

definition routes_0003 :: migration where
  "routes_0003 = \<lparr>mig_app = ''routes'',
     mig_name = ''0003_route_cache_ttl_seconds_route_downstream_service'',
     dependencies = [(''routes'', ''0002_initial'')],
     operations =
      [AddField ''route'' ''cache_ttl_seconds''
         (Column PositiveIntegerField [Default (Int_Value 0)]),
       AddField ''route'' ''downstream_service''
         (Column (CharField 80) [Choices [''user-service'', ''product-service'',
           ''order-service''], Default (Text_Value ''product-service'')])]\<rparr>"

definition routes_0004 :: migration where
  "routes_0004 = \<lparr>mig_app = ''routes'',
     mig_name = ''0004_backendservice_remove_route_downstream_service_and_more'',
     dependencies = [(''users'', ''0001_initial''),
       (''routes'', ''0003_route_cache_ttl_seconds_route_downstream_service'')],
     operations =
      [CreateModel ''BackendService''
         [
          (''id'', Column BigAutoField [Primary_Key]),
          (''name'', Column (CharField 120) []),
          (''slug'', Column (SlugField 120) [Blank]),
          (''description'', Column TextField [Blank, Default (Text_Value '''')]),
          (''is_active'', Column BooleanField [Default (Bool_Value True)]),
          (''created_at'', Column DateTimeField [Auto_Now_Add]),
          (''updated_at'', Column DateTimeField [Auto_Now])]
         []
         [],
       AddField ''backendservice'' ''project''
         (Column (ForeignKey CASCADE (''users'', ''project'') ''backend_services'') []),
       AddField ''route'' ''backend_service''
         (Column (ForeignKey CASCADE (''routes'', ''backendservice'') ''routes'') [Blank, Null]),
       RunPython ''copy_downstream_services''
         [((''routes'', ''backendservice''), [''id'', ''project'', ''slug'', ''name'']),
          ((''routes'', ''route''), [''downstream_service'', ''project'', ''backend_service''])],
       RemoveField ''route'' ''downstream_service'',
       AddIndex ''route'' ''routes_rout_backend_373903_idx''
         [''backend_service'', ''method''],
       AddIndex ''backendservice'' ''routes_back_project_ec838c_idx''
         [''project'', ''is_active''],
       AddIndex ''backendservice'' ''routes_back_slug_29bfa7_idx''
         [''slug''],
       AlterUniqueTogether ''backendservice'' [[''project'', ''slug'']]]\<rparr>"

definition routes_0005 :: migration where
  "routes_0005 = \<lparr>mig_app = ''routes'',
     mig_name = ''0005_remove_route_load_balancing_route_target_url_and_more'',
     dependencies = [(''routes'',
       ''0004_backendservice_remove_route_downstream_service_and_more'')],
     operations =
      [RemoveField ''route'' ''load_balancing'',
       AddField ''route'' ''target_url''
         (Column (URLField 500) [Blank, Default (Text_Value '''')]),
       RunPython ''copy_first_target_url''
         [((''routes'', ''route''), [''id'', ''target_url'']),
          ((''routes'', ''routetarget''), [''id'', ''route'', ''is_active'', ''url''])],
       DeleteModel ''RouteTarget'']\<rparr>"

definition routes_0006 :: migration where
  "routes_0006 = \<lparr>mig_app = ''routes'',
     mig_name = ''0006_remove_route_cache_ttl_seconds'',
     dependencies = [(''routes'', ''0005_remove_route_load_balancing_route_target_url_and_more'')],
     operations =
      [RemoveField ''route'' ''cache_ttl_seconds'']\<rparr>"

definition routes_0007 :: migration where
  "routes_0007 = \<lparr>mig_app = ''routes'',
     mig_name = ''0007_route_auth_policy'',
     dependencies = [(''routes'', ''0006_remove_route_cache_ttl_seconds'')],
     operations =
      [AddField ''route'' ''auth_policy''
         (Column (CharField 20) [Choices [''api_key_only'', ''api_key_and_jwt''],
           Default (Text_Value ''api_key_only'')])]\<rparr>"

definition routes_0008 :: migration where
  "routes_0008 = \<lparr>mig_app = ''routes'',
     mig_name = ''0008_route_methods_and_unique_base_paths'',
     dependencies = [(''routes'', ''0007_route_auth_policy''),
       (''authentication'', ''0008_remove_apikey_project_require_application''),
       (''analytics'', ''0004_requestlog_application_requestlog_customer_and_more'')],
     operations =
      [CreateModel ''RouteMethod''
         [
          (''id'', Column BigAutoField [Primary_Key]),
          (''method'',
           Column (CharField 10) [Choices [''GET'', ''POST'', ''PUT'', ''PATCH'', ''DELETE'']]),
          (''auth_policy'',
           Column (CharField 20) [Default (Text_Value ''api_key_only''),
             Choices [''api_key_only'', ''api_key_and_jwt'']]),
          (''route'', Column (ForeignKey CASCADE (''routes'', ''route'') ''method_policies'') [])]
         []
         [],
       AlterUniqueTogether ''routemethod'' [[''route'', ''method'']],
       RunPython ''consolidate_routes''
         [((''routes'', ''route''), [''id'', ''project'', ''path'', ''target_url'',
           ''backend_service'', ''method'', ''is_active'', ''auth_policy'']),
          ((''routes'', ''routemethod''), [''route'', ''method'', ''auth_policy'']),
          ((''authentication'', ''routepermission''), [''id'', ''application'', ''route'',
            ''is_active'']),
          ((''analytics'', ''requestlog''), [''route''])],
       AlterUniqueTogether ''route'' [],
       RemoveIndex ''route'' ''routes_rout_project_68cb6d_idx'',
       RemoveIndex ''route'' ''routes_rout_method_8dac9a_idx'',
       RemoveIndex ''route'' ''routes_rout_backend_373903_idx'',
       RemoveField ''route'' ''method'',
       RemoveField ''route'' ''auth_policy'',
       RenameField ''route'' ''path'' ''base_path'',
       AlterUniqueTogether ''route'' [[''project'', ''base_path'']],
       AlterUniqueTogether ''backendservice'' [[''project'', ''slug''], [''project'',
         ''name'']]]\<rparr>"

definition routes_0009 :: migration where
  "routes_0009 = \<lparr>mig_app = ''routes'',
     mig_name = ''0009_backendservice_base_url'',
     dependencies = [(''routes'', ''0008_route_methods_and_unique_base_paths'')],
     operations =
      [AddField ''backendservice'' ''base_url''
         (Column (URLField 500) [Blank, Default (Text_Value '''')]),
       RunPython ''migrate_service_origins''
         [((''routes'', ''backendservice''), [''id'', ''project'', ''base_url'']),
          ((''routes'', ''route''), [''id'', ''backend_service'', ''target_url'', ''project'',
            ''base_path''])],
       RemoveField ''route'' ''target_url'']\<rparr>"

definition routes_0010 :: migration where
  "routes_0010 = \<lparr>mig_app = ''routes'',
     mig_name = ''0010_validate_single_segment_paths'',
     dependencies = [(''routes'', ''0009_backendservice_base_url'')],
     operations =
      [RunPython ''validate_paths''
         [((''routes'', ''route''), [''id'', ''base_path''])]]\<rparr>"

section \<open>\<open>client_auth\<close>\<close>

definition client_auth_0001 :: migration where
  "client_auth_0001 = \<lparr>mig_app = ''client_auth'',
     mig_name = ''0001_initial'',
     dependencies = [(''authentication'', ''0009_one_api_key_per_application'')],
     operations =
      [CreateModel ''ApplicationUser''
         [
          (''id'', Column BigAutoField [Primary_Key]),
          (''email'', Column (EmailField 254) []),
          (''password_hash'', Column (CharField 128) []),
          (''is_active'', Column BooleanField [Default (Bool_Value True)]),
          (''token_version'', Column PositiveIntegerField [Default (Int_Value 1)]),
          (''created_at'', Column DateTimeField [Auto_Now_Add]),
          (''updated_at'', Column DateTimeField [Auto_Now]),
          (''application'',
           Column (ForeignKey CASCADE (''authentication'', ''application'') ''client_users'') [])]
         [(''client_auth_app_active_idx'', [''application'', ''is_active''])]
         [(''clientuser_application_email_unique'', [''application'', ''email''])]]\<rparr>"

section \<open>\<open>analytics\<close>\<close>

definition analytics_0001 :: migration where
  "analytics_0001 = \<lparr>mig_app = ''analytics'',
     mig_name = ''0001_initial'',
     dependencies = [],
     operations =
      [CreateModel ''RequestLog''
         [
          (''id'', Column BigAutoField [Primary_Key]),
          (''endpoint'', Column (CharField 255) []),
          (''method'', Column (CharField 10) [Default (Text_Value ''GET'')]),
          (''status_code'', Column PositiveIntegerField [Default (Int_Value 200)]),
          (''latency_ms'', Column FloatField [Default (Float_Value ''0.0'')]),
          (''ip_address'', Column GenericIPAddressField [Blank, Null]),
          (''created_at'', Column DateTimeField [Auto_Now_Add])]
         []
         []]\<rparr>"

definition analytics_0002 :: migration where
  "analytics_0002 = \<lparr>mig_app = ''analytics'',
     mig_name = ''0002_initial'',
     dependencies = [(''analytics'', ''0001_initial''), (''authentication'', ''0001_initial'')],
     operations =
      [AddField ''requestlog'' ''api_key''
         (Column (ForeignKey SET_NULL (''authentication'', ''apikey'') ''request_logs'') [Blank,
           Null])]\<rparr>"

definition analytics_0003 :: migration where
  "analytics_0003 = \<lparr>mig_app = ''analytics'',
     mig_name = ''0003_initial'',
     dependencies = [(''routes'', ''0001_initial''),
       (''analytics'', ''0002_initial''),
       (''users'', ''0001_initial'')],
     operations =
      [AddField ''requestlog'' ''project''
         (Column (ForeignKey CASCADE (''users'', ''project'') ''request_logs'') []),
       AddField ''requestlog'' ''route''
         (Column (ForeignKey SET_NULL (''routes'', ''route'') ''request_logs'') [Blank, Null]),
       AddIndex ''requestlog'' ''analytics_r_project_e2a1b3_idx''
         [''project'', ''created_at''],
       AddIndex ''requestlog'' ''analytics_r_status__44cae6_idx''
         [''status_code'', ''created_at''],
       AddIndex ''requestlog'' ''analytics_r_endpoin_bea02f_idx''
         [''endpoint'', ''created_at'']]\<rparr>"

definition analytics_0004 :: migration where
  "analytics_0004 = \<lparr>mig_app = ''analytics'',
     mig_name = ''0004_requestlog_application_requestlog_customer_and_more'',
     dependencies = [swappable_dependency user_model,
       (''authentication'', ''0003_application_routepermission_and_more''),
       (''analytics'', ''0003_initial'')],
     operations =
      [AddField ''requestlog'' ''application''
         (Column (ForeignKey SET_NULL (''authentication'',
           ''application'') ''request_logs'') [Blank, Null]),
       AddField ''requestlog'' ''customer''
         (Column (ForeignKey SET_NULL user_model ''gateway_request_logs'') [Blank, Null]),
       AddField ''requestlog'' ''downstream_service''
         (Column (CharField 80) [Blank, Default (Text_Value '''')]),
       AddIndex ''requestlog'' ''analytics_r_applica_ed6ed1_idx''
         [''application'', ''created_at''],
       AddIndex ''requestlog'' ''analytics_r_downstr_55a622_idx''
         [''downstream_service'', ''created_at'']]\<rparr>"

definition analytics_0005 :: migration where
  "analytics_0005 = \<lparr>mig_app = ''analytics'',
     mig_name = ''0005_requestlog_client_user'',
     dependencies = [(''analytics'', ''0004_requestlog_application_requestlog_customer_and_more''),
       (''client_auth'', ''0001_initial'')],
     operations =
      [AddField ''requestlog'' ''client_user''
         (Column (ForeignKey SET_NULL (''client_auth'',
           ''applicationuser'') ''request_logs'') [Blank, Null])]\<rparr>"

definition analytics_0006 :: migration where
  "analytics_0006 = \<lparr>mig_app = ''analytics'',
     mig_name = ''0006_delete_requestlog'',
     dependencies = [(''analytics'', ''0005_requestlog_client_user''),
       (''routes'', ''0009_backendservice_base_url'')],
     operations =
      [DeleteModel ''RequestLog'']\<rparr>"

end
