(* ===== verification/Models.thy ===== *)
theory Models
  imports PyStr
begin

text \<open>
  The rows of the database: the Django models of \<open>users\<close>, \<open>authentication\<close>,
  \<open>routes\<close> and \<open>client_auth\<close> with their unique constraints and the work their
  \<open>save\<close> methods do before the row is written. Foreign keys are the referenced primary
  keys. \<open>slugify\<close> of \<open>django.utils.text\<close> is a parameter.
\<close>

section \<open>Rows\<close>

record user =
  usr_id :: pk
  usr_username :: string
  usr_email :: string
  usr_password :: string
  usr_is_active :: bool
  usr_is_staff :: bool
  usr_created_at :: instant
  usr_updated_at :: instant

record project =
  prj_id :: pk
  prj_owner :: pk
  prj_name :: string
  prj_slug :: string
  prj_description :: string
  prj_created_at :: instant
  prj_updated_at :: instant

record application =
  app_id :: pk
  app_project :: pk
  app_name :: string
  app_slug :: string
  app_plan :: string
  app_is_active :: bool
  app_created_at :: instant
  app_updated_at :: instant

record api_key =
  key_id :: pk
  key_application :: pk
  key_name :: string
  key_hash :: string
  key_created_at :: instant
  key_expires_at :: "instant option"
  key_revoked_at :: "instant option"

record route_permission =
  perm_id :: pk
  perm_application :: pk
  perm_route :: pk
  perm_is_active :: bool
  perm_created_at :: instant

record backend_service =
  svc_id :: pk
  svc_project :: pk
  svc_name :: string
  svc_slug :: string
  svc_description :: string
  svc_base_url :: string
  svc_is_active :: bool
  svc_created_at :: instant
  svc_updated_at :: instant

record route =
  rt_id :: pk
  rt_project :: pk
  rt_backend_service :: "pk option"
  rt_name :: string
  rt_base_path :: string
  rt_is_active :: bool
  rt_created_at :: instant
  rt_updated_at :: instant

record route_method =
  rm_id :: pk
  rm_route :: pk
  rm_method :: string
  rm_auth_policy :: string

record app_user =
  cu_id :: pk
  cu_application :: pk
  cu_email :: string
  cu_password_hash :: string
  cu_is_active :: bool
  cu_token_version :: int
  cu_created_at :: instant
  cu_updated_at :: instant

record db =
  users :: "user table"
  projects :: "project table"
  applications :: "application table"
  api_keys :: "api_key table"
  permissions :: "route_permission table"
  services :: "backend_service table"
  routes :: "route table"
  route_methods :: "route_method table"
  clients :: "app_user table"

definition empty_db :: db where
  "empty_db =
     \<lparr>users = empty_table, projects = empty_table, applications = empty_table,
      api_keys = empty_table, permissions = empty_table, services = empty_table,
      routes = empty_table, route_methods = empty_table, clients = empty_table\<rparr>"

section \<open>Choices and limits\<close>

definition PLAN_NORMAL :: string where "PLAN_NORMAL = ''normal''"
definition PLAN_PREMIUM :: string where "PLAN_PREMIUM = ''premium''"

definition PLAN_LIMITS :: "(string \<times> (int \<times> int)) list" where
  "PLAN_LIMITS = [(PLAN_NORMAL, (100, 60)), (PLAN_PREMIUM, (1000, 60))]"

definition resolved_rate_limit :: "application \<Rightarrow> int \<times> int" where
  "resolved_rate_limit a =
     (case map_of PLAN_LIMITS (app_plan a) of
        Some l \<Rightarrow> l
      | None \<Rightarrow> the (map_of PLAN_LIMITS PLAN_NORMAL))"

definition AUTH_API_KEY_ONLY :: string where "AUTH_API_KEY_ONLY = ''api_key_only''"
definition AUTH_API_KEY_AND_JWT :: string where "AUTH_API_KEY_AND_JWT = ''api_key_and_jwt''"

definition METHOD_CHOICES :: "string list" where
  "METHOD_CHOICES = [''GET'', ''POST'', ''PUT'', ''PATCH'', ''DELETE'']"

section \<open>Unique constraints\<close>

definition user_clash :: "user \<Rightarrow> user \<Rightarrow> bool" where
  "user_clash a b \<longleftrightarrow> usr_email a = usr_email b \<or> usr_username a = usr_username b"

definition project_clash :: "project \<Rightarrow> project \<Rightarrow> bool" where
  "project_clash a b \<longleftrightarrow> prj_name a = prj_name b \<or> prj_slug a = prj_slug b"

definition application_clash :: "application \<Rightarrow> application \<Rightarrow> bool" where
  "application_clash a b \<longleftrightarrow> app_project a = app_project b \<and> app_slug a = app_slug b"

definition api_key_clash :: "api_key \<Rightarrow> api_key \<Rightarrow> bool" where
  "api_key_clash a b \<longleftrightarrow> key_application a = key_application b \<or> key_hash a = key_hash b"

definition permission_clash :: "route_permission \<Rightarrow> route_permission \<Rightarrow> bool" where
  "permission_clash a b \<longleftrightarrow>
     perm_application a = perm_application b \<and> perm_route a = perm_route b"

definition service_clash :: "backend_service \<Rightarrow> backend_service \<Rightarrow> bool" where
  "service_clash a b \<longleftrightarrow>
     svc_project a = svc_project b \<and> (svc_slug a = svc_slug b \<or> svc_name a = svc_name b)"

definition route_clash :: "route \<Rightarrow> route \<Rightarrow> bool" where
  "route_clash a b \<longleftrightarrow> rt_project a = rt_project b \<and> rt_base_path a = rt_base_path b"

definition route_method_clash :: "route_method \<Rightarrow> route_method \<Rightarrow> bool" where
  "route_method_clash a b \<longleftrightarrow> rm_route a = rm_route b \<and> rm_method a = rm_method b"

definition client_clash :: "app_user \<Rightarrow> app_user \<Rightarrow> bool" where
  "client_clash a b \<longleftrightarrow> cu_application a = cu_application b \<and> cu_email a = cu_email b"

named_theorems clash_defs \<open>the unique constraints\<close>

lemmas clash_definitions [clash_defs] =
  user_clash_def project_clash_def application_clash_def api_key_clash_def permission_clash_def
  service_clash_def route_clash_def route_method_clash_def client_clash_def

interpretation user: model_table usr_id user_clash
  by unfold_locales (auto simp: clash_defs)
interpretation project: model_table prj_id project_clash
  by unfold_locales (auto simp: clash_defs)
interpretation application: model_table app_id application_clash
  by unfold_locales (auto simp: clash_defs)
interpretation api_key: model_table key_id api_key_clash
  by unfold_locales (auto simp: clash_defs)
interpretation permission: model_table perm_id permission_clash
  by unfold_locales (auto simp: clash_defs)
interpretation service: model_table svc_id service_clash
  by unfold_locales (auto simp: clash_defs)
interpretation route: model_table rt_id route_clash
  by unfold_locales (auto simp: clash_defs)
interpretation route_method: model_table rm_id route_method_clash
  by unfold_locales (auto simp: clash_defs)
interpretation client: model_table cu_id client_clash
  by unfold_locales (auto simp: clash_defs)

section \<open>Saving\<close>

text \<open>What each overridden \<open>save\<close> does before it writes the row.\<close>

definition default_slug :: "(string \<Rightarrow> string) \<Rightarrow> string \<Rightarrow> string \<Rightarrow> string \<Rightarrow> string" where
  "default_slug slugify fallback slug name =
     (if slug \<noteq> [] then slug else if slugify name \<noteq> [] then slugify name else fallback)"

definition project_presave :: "(string \<Rightarrow> string) \<Rightarrow> project \<Rightarrow> project" where
  "project_presave slugify p =
     p\<lparr>prj_slug := default_slug slugify ''project'' (prj_slug p) (prj_name p)\<rparr>"

definition application_presave :: "(string \<Rightarrow> string) \<Rightarrow> application \<Rightarrow> application" where
  "application_presave slugify a =
     a\<lparr>app_slug := default_slug slugify ''application'' (app_slug a) (app_name a)\<rparr>"

definition service_presave :: "(string \<Rightarrow> string) \<Rightarrow> backend_service \<Rightarrow> backend_service" where
  "service_presave slugify s =
     s\<lparr>svc_slug := default_slug slugify ''backend-service'' (svc_slug s) (svc_name s)\<rparr>"

definition count_char :: "char \<Rightarrow> string \<Rightarrow> nat" where
  "count_char c s = length (filter (\<lambda>x. x = c) s)"

definition one_segment :: "string \<Rightarrow> bool" where
  "one_segment base_path \<longleftrightarrow>
     \<not> (base_path = [] \<or> \<not> startswith base_path ''/'' \<or> base_path = ''/''
        \<or> count_char (CHR ''/'') base_path \<noteq> 1)"

definition route_presave :: "route \<Rightarrow> exn + route" where
  "route_presave r =
     (if one_segment (rt_base_path r) then Inr r else Inl (ValidationError ''base_path''))"

definition client_presave :: "app_user \<Rightarrow> app_user" where
  "client_presave u = u\<lparr>cu_email := py_lower (strip py_isspace (cu_email u))\<rparr>"

text \<open>\<open>auto_now_add\<close> and \<open>auto_now\<close> columns are stamped with the time of the write.\<close>

definition create_project ::
    "(string \<Rightarrow> string) \<Rightarrow> instant \<Rightarrow> project \<Rightarrow> db \<Rightarrow> exn + (project \<times> db)" where
  "create_project slugify now p d =
     and_then (insert_row project_clash
                (\<lambda>i. (project_presave slugify p)\<lparr>prj_id := i, prj_created_at := now, prj_updated_at := now\<rparr>)
                (projects d))
       (\<lambda>(r, t). Inr (r, d\<lparr>projects := t\<rparr>))"

definition create_application ::
    "(string \<Rightarrow> string) \<Rightarrow> instant \<Rightarrow> application \<Rightarrow> db \<Rightarrow> exn + (application \<times> db)" where
  "create_application slugify now a d =
     and_then (insert_row application_clash
                (\<lambda>i. (application_presave slugify a)\<lparr>app_id := i, app_created_at := now, app_updated_at := now\<rparr>)
                (applications d))
       (\<lambda>(r, t). Inr (r, d\<lparr>applications := t\<rparr>))"

definition create_service ::
    "(string \<Rightarrow> string) \<Rightarrow> instant \<Rightarrow> backend_service \<Rightarrow> db \<Rightarrow> exn + (backend_service \<times> db)" where
  "create_service slugify now s d =
     and_then (insert_row service_clash
                (\<lambda>i. (service_presave slugify s)\<lparr>svc_id := i, svc_created_at := now, svc_updated_at := now\<rparr>)
                (services d))
       (\<lambda>(r, t). Inr (r, d\<lparr>services := t\<rparr>))"

definition save_service ::
    "(string \<Rightarrow> string) \<Rightarrow> instant \<Rightarrow> backend_service \<Rightarrow> db \<Rightarrow> exn + (backend_service \<times> db)" where
  "save_service slugify now s d =
     (let s' = (service_presave slugify s)\<lparr>svc_updated_at := now\<rparr>
      in and_then (update_row svc_id service_clash s' (services d))
           (\<lambda>t. Inr (s', d\<lparr>services := t\<rparr>)))"

definition create_route :: "instant \<Rightarrow> route \<Rightarrow> db \<Rightarrow> exn + (route \<times> db)" where
  "create_route now r d =
     and_then (route_presave r) (\<lambda>r'.
     and_then (insert_row route_clash
                (\<lambda>i. r'\<lparr>rt_id := i, rt_created_at := now, rt_updated_at := now\<rparr>) (routes d))
       (\<lambda>(s, t). Inr (s, d\<lparr>routes := t\<rparr>)))"

definition save_route :: "instant \<Rightarrow> route \<Rightarrow> db \<Rightarrow> exn + (route \<times> db)" where
  "save_route now r d =
     and_then (route_presave r) (\<lambda>r'.
       (let s = r'\<lparr>rt_updated_at := now\<rparr>
        in and_then (update_row rt_id route_clash s (routes d))
             (\<lambda>t. Inr (s, d\<lparr>routes := t\<rparr>))))"

definition create_route_method :: "route_method \<Rightarrow> db \<Rightarrow> exn + (route_method \<times> db)" where
  "create_route_method m d =
     and_then (insert_row route_method_clash (\<lambda>i. m\<lparr>rm_id := i\<rparr>) (route_methods d))
       (\<lambda>(r, t). Inr (r, d\<lparr>route_methods := t\<rparr>))"

definition save_route_method :: "route_method \<Rightarrow> db \<Rightarrow> exn + (route_method \<times> db)" where
  "save_route_method m d =
     and_then (update_row rm_id route_method_clash m (route_methods d))
       (\<lambda>t. Inr (m, d\<lparr>route_methods := t\<rparr>))"

definition create_permission ::
    "instant \<Rightarrow> route_permission \<Rightarrow> db \<Rightarrow> exn + (route_permission \<times> db)" where
  "create_permission now p d =
     and_then (insert_row permission_clash
                (\<lambda>i. p\<lparr>perm_id := i, perm_created_at := now\<rparr>) (permissions d))
       (\<lambda>(r, t). Inr (r, d\<lparr>permissions := t\<rparr>))"

definition save_permission :: "route_permission \<Rightarrow> db \<Rightarrow> exn + (route_permission \<times> db)" where
  "save_permission p d =
     and_then (update_row perm_id permission_clash p (permissions d))
       (\<lambda>t. Inr (p, d\<lparr>permissions := t\<rparr>))"

definition create_client :: "instant \<Rightarrow> app_user \<Rightarrow> db \<Rightarrow> exn + (app_user \<times> db)" where
  "create_client now u d =
     and_then (insert_row client_clash
                (\<lambda>i. (client_presave u)\<lparr>cu_id := i, cu_created_at := now, cu_updated_at := now\<rparr>)
                (clients d))
       (\<lambda>(r, t). Inr (r, d\<lparr>clients := t\<rparr>))"

section \<open>Relations\<close>

definition application_of :: "db \<Rightarrow> pk \<Rightarrow> application option" where
  "application_of d i = objects_first (\<lambda>a. app_id a = i) (applications d)"

definition project_of :: "db \<Rightarrow> pk \<Rightarrow> project option" where
  "project_of d i = objects_first (\<lambda>p. prj_id p = i) (projects d)"

definition service_of :: "db \<Rightarrow> pk \<Rightarrow> backend_service option" where
  "service_of d i = objects_first (\<lambda>s. svc_id s = i) (services d)"

definition route_of :: "db \<Rightarrow> pk \<Rightarrow> route option" where
  "route_of d i = objects_first (\<lambda>r. rt_id r = i) (routes d)"

text \<open>The joins \<open>project__owner=u\<close> and \<open>application__project__owner=u\<close>.\<close>

definition owns_project :: "db \<Rightarrow> pk \<Rightarrow> pk \<Rightarrow> bool" where
  "owns_project d u i = objects_exists (\<lambda>p. prj_id p = i \<and> prj_owner p = u) (projects d)"

definition owns_application :: "db \<Rightarrow> pk \<Rightarrow> pk \<Rightarrow> bool" where
  "owns_application d u i =
     objects_exists (\<lambda>a. app_id a = i \<and> owns_project d u (app_project a)) (applications d)"

definition owns_route :: "db \<Rightarrow> pk \<Rightarrow> pk \<Rightarrow> bool" where
  "owns_route d u i =
     objects_exists (\<lambda>r. rt_id r = i \<and> owns_project d u (rt_project r)) (routes d)"

section \<open>Well-formed databases\<close>

text \<open>Keys, unique constraints, and the shape of the stored base paths.\<close>

definition tables_ok :: "db \<Rightarrow> bool" where
  "tables_ok d \<longleftrightarrow>
     wf_table usr_id user_clash (users d) \<and>
     wf_table prj_id project_clash (projects d) \<and>
     wf_table app_id application_clash (applications d) \<and>
     wf_table key_id api_key_clash (api_keys d) \<and>
     wf_table perm_id permission_clash (permissions d) \<and>
     wf_table svc_id service_clash (services d) \<and>
     wf_table rt_id route_clash (routes d) \<and>
     wf_table rm_id route_method_clash (route_methods d) \<and>
     wf_table cu_id client_clash (clients d) \<and>
     list_all (\<lambda>r. one_segment (rt_base_path r)) (rows (routes d))"

lemma tables_ok_empty: "tables_ok empty_db"
  by (simp add: tables_ok_def empty_db_def wf_table_empty) (simp add: empty_table_def)

lemma one_segment_iff:
  "one_segment s \<longleftrightarrow> (\<exists>w. s = CHR ''/'' # w \<and> w \<noteq> [] \<and> CHR ''/'' \<notin> set w)"
  by (cases s) (auto simp: one_segment_def count_char_def filter_empty_conv)

lemma route_presave_Inr: "route_presave r = Inr r' \<longleftrightarrow> r' = r \<and> one_segment (rt_base_path r)"
  by (auto simp: route_presave_def)

lemma resolved_rate_limit_cases:
  "resolved_rate_limit a = (if app_plan a = PLAN_PREMIUM then (1000, 60) else (100, 60))"
  by (simp add: resolved_rate_limit_def PLAN_LIMITS_def PLAN_NORMAL_def PLAN_PREMIUM_def)

lemma resolved_rate_limit_pos: "0 < snd (resolved_rate_limit a)" "0 < fst (resolved_rate_limit a)"
  by (simp_all add: resolved_rate_limit_cases)

named_theorems create_defs \<open>the operations that write one row\<close>

lemmas create_definitions [create_defs] =
  create_project_def create_application_def create_service_def save_service_def create_route_def
  save_route_def create_route_method_def save_route_method_def create_permission_def
  save_permission_def create_client_def

lemma create_project_ok:
  "create_project slugify now p d = Inr (r, d') \<Longrightarrow> tables_ok d \<Longrightarrow> tables_ok d'"
  by (auto simp: create_defs and_then_Inr tables_ok_def elim!: project.insert_wf)

lemma create_application_ok:
  "create_application slugify now a d = Inr (r, d') \<Longrightarrow> tables_ok d \<Longrightarrow> tables_ok d'"
  by (auto simp: create_defs and_then_Inr tables_ok_def elim!: application.insert_wf)

lemma create_service_ok:
  "create_service slugify now a d = Inr (r, d') \<Longrightarrow> tables_ok d \<Longrightarrow> tables_ok d'"
  by (auto simp: create_defs and_then_Inr tables_ok_def elim!: service.insert_wf)

lemma save_service_ok:
  "save_service slugify now a d = Inr (r, d') \<Longrightarrow> tables_ok d \<Longrightarrow> tables_ok d'"
  by (auto simp: create_defs and_then_Inr tables_ok_def Let_def elim!: service.update_wf)

lemma insert_route_paths:
  assumes "insert_row route_clash mk t = Inr (r, t')"
    and "\<And>i. one_segment (rt_base_path (mk i))"
    and "list_all (\<lambda>r. one_segment (rt_base_path r)) (rows t)"
  shows "one_segment (rt_base_path r)" "list_all (\<lambda>r. one_segment (rt_base_path r)) (rows t')"
  using insert_row_Inr [OF assms(1)] assms(2,3) by auto

lemma save_route_paths:
  assumes "update_row rt_id route_clash r t = Inr t'" and "one_segment (rt_base_path r)"
    and "list_all (\<lambda>r. one_segment (rt_base_path r)) (rows t)"
  shows "list_all (\<lambda>r. one_segment (rt_base_path r)) (rows t')"
  using update_row_Inr [OF assms(1)] assms(2,3) by (auto simp: list_all_iff)

lemma create_route_ok:
  "create_route now a d = Inr (r, d') \<Longrightarrow> tables_ok d \<Longrightarrow> tables_ok d'"
  by (auto simp: create_defs and_then_Inr tables_ok_def route_presave_Inr
      elim!: route.insert_wf insert_route_paths)

lemma save_route_ok:
  "save_route now a d = Inr (r, d') \<Longrightarrow> tables_ok d \<Longrightarrow> tables_ok d'"
  by (auto simp: create_defs and_then_Inr tables_ok_def route_presave_Inr Let_def
      elim!: route.update_wf save_route_paths)

lemma create_route_method_ok:
  "create_route_method m d = Inr (r, d') \<Longrightarrow> tables_ok d \<Longrightarrow> tables_ok d'"
  by (auto simp: create_defs and_then_Inr tables_ok_def elim!: route_method.insert_wf)

lemma save_route_method_ok:
  "save_route_method m d = Inr (r, d') \<Longrightarrow> tables_ok d \<Longrightarrow> tables_ok d'"
  by (auto simp: create_defs and_then_Inr tables_ok_def elim!: route_method.update_wf)

lemma create_permission_ok:
  "create_permission now m d = Inr (r, d') \<Longrightarrow> tables_ok d \<Longrightarrow> tables_ok d'"
  by (auto simp: create_defs and_then_Inr tables_ok_def elim!: permission.insert_wf)

lemma save_permission_ok:
  "save_permission m d = Inr (r, d') \<Longrightarrow> tables_ok d \<Longrightarrow> tables_ok d'"
  by (auto simp: create_defs and_then_Inr tables_ok_def elim!: permission.update_wf)

lemma create_client_ok:
  "create_client now m d = Inr (r, d') \<Longrightarrow> tables_ok d \<Longrightarrow> tables_ok d'"
  by (auto simp: create_defs and_then_Inr tables_ok_def elim!: client.insert_wf)

lemmas writes_ok =
  create_project_ok create_application_ok create_service_ok save_service_ok create_route_ok
  save_route_ok create_route_method_ok save_route_method_ok create_permission_ok
  save_permission_ok create_client_ok

end
