(* ===== verification/DeclaredModels.thy ===== *)
theory DeclaredModels
  imports Schema Models
begin

text \<open>
  The tables as the classes of \<open>users/models.py\<close>, \<open>authentication/models.py\<close>,
  \<open>routes/models.py\<close> and \<open>client_auth/models.py\<close> declare them: columns, unique sets, indexes.
  An index without a name gets one from Django, so indexes are compared by their columns. \<open>User\<close>
  also inherits the columns of Django's \<open>AbstractUser\<close>, which are not listed here.
\<close>

text \<open>\<open>DEFAULT_AUTO_FIELD\<close>, the key of a class that declares none.\<close>

definition auto_id :: "string \<times> field" where
  "auto_id = (''id'', Column BigAutoField [Primary_Key])"

definition declared_User :: db_table where
  "declared_User =
     \<lparr>columns = [
       (''email'', Column (EmailField 254) [Unique]),
       (''created_at'', Column DateTimeField [Auto_Now_Add]),
       (''updated_at'', Column DateTimeField [Auto_Now])],
      unique_sets = [],
      table_indexes = [('''', [''email'']), ('''', [''username''])],
      table_constraints = []\<rparr>"

definition declared_Project :: db_table where
  "declared_Project =
     \<lparr>columns = auto_id # [
       (''owner'', Column (ForeignKey CASCADE (''users'', ''user'') ''projects'') []),
       (''name'', Column (CharField 120) [Unique]),
       (''slug'', Column (SlugField 50) [Unique, Blank]),
       (''description'', Column TextField [Blank, Default (Text_Value '''')]),
       (''created_at'', Column DateTimeField [Auto_Now_Add]),
       (''updated_at'', Column DateTimeField [Auto_Now])],
      unique_sets = [],
      table_indexes = [('''', [''owner'']), ('''', [''slug''])],
      table_constraints = []\<rparr>"

definition declared_APIKey :: db_table where
  "declared_APIKey =
     \<lparr>columns = auto_id # [
       (''application'',
        Column (OneToOneField CASCADE (''authentication'', ''application'') ''api_key'') []),
       (''name'', Column (CharField 120) []),
       (''key_hash'', Column (CharField 128) [Unique, Db_Index]),
       (''created_at'', Column DateTimeField [Auto_Now_Add]),
       (''expires_at'', Column DateTimeField [Null, Blank]),
       (''revoked_at'', Column DateTimeField [Null, Blank])],
      unique_sets = [],
      table_indexes = [('''', [''application'', ''revoked_at'', ''expires_at''])],
      table_constraints = []\<rparr>"

definition declared_Application :: db_table where
  "declared_Application =
     \<lparr>columns = auto_id # [
       (''project'', Column (ForeignKey CASCADE (''users'', ''project'') ''applications'') []),
       (''name'', Column (CharField 120) []),
       (''slug'', Column (SlugField 120) [Blank]),
       (''plan'',
        Column (CharField 20) [Choices [PLAN_NORMAL, PLAN_PREMIUM],
          Default (Text_Value PLAN_NORMAL)]),
       (''is_active'', Column BooleanField [Default (Bool_Value True)]),
       (''created_at'', Column DateTimeField [Auto_Now_Add]),
       (''updated_at'', Column DateTimeField [Auto_Now])],
      unique_sets = [[''project'', ''slug'']],
      table_indexes = [('''', [''project'', ''is_active'']), ('''', [''slug''])],
      table_constraints = []\<rparr>"

definition declared_RoutePermission :: db_table where
  "declared_RoutePermission =
     \<lparr>columns = auto_id # [
       (''application'',
        Column (ForeignKey CASCADE (''authentication'', ''application'') ''permissions'') []),
       (''route'',
        Column (ForeignKey CASCADE (''routes'', ''route'') ''application_permissions'') []),
       (''is_active'', Column BooleanField [Default (Bool_Value True)]),
       (''created_at'', Column DateTimeField [Auto_Now_Add])],
      unique_sets = [[''application'', ''route'']],
      table_indexes = [('''', [''application'', ''is_active'']), ('''', [''route'',
        ''is_active''])],
      table_constraints = []\<rparr>"

definition declared_BackendService :: db_table where
  "declared_BackendService =
     \<lparr>columns = auto_id # [
       (''project'',
        Column (ForeignKey CASCADE (''users'', ''project'') ''backend_services'') []),
       (''name'', Column (CharField 120) []),
       (''slug'', Column (SlugField 120) [Blank]),
       (''description'', Column TextField [Blank, Default (Text_Value '''')]),
       (''base_url'', Column (URLField 500) [Blank, Default (Text_Value '''')]),
       (''is_active'', Column BooleanField [Default (Bool_Value True)]),
       (''created_at'', Column DateTimeField [Auto_Now_Add]),
       (''updated_at'', Column DateTimeField [Auto_Now])],
      unique_sets = [[''project'', ''slug''], [''project'', ''name'']],
      table_indexes = [('''', [''project'', ''is_active'']), ('''', [''slug''])],
      table_constraints = []\<rparr>"

definition declared_Route :: db_table where
  "declared_Route =
     \<lparr>columns = auto_id # [
       (''project'', Column (ForeignKey CASCADE (''users'', ''project'') ''routes'') []),
       (''backend_service'',
        Column (ForeignKey CASCADE (''routes'', ''backendservice'') ''routes'') [Null, Blank]),
       (''name'', Column (CharField 120) []),
       (''base_path'', Column (CharField 200) []),
       (''is_active'', Column BooleanField [Default (Bool_Value True)]),
       (''created_at'', Column DateTimeField [Auto_Now_Add]),
       (''updated_at'', Column DateTimeField [Auto_Now])],
      unique_sets = [[''project'', ''base_path'']],
      table_indexes = [('''', [''is_active''])],
      table_constraints = []\<rparr>"

definition declared_RouteMethod :: db_table where
  "declared_RouteMethod =
     \<lparr>columns = auto_id # [
       (''route'', Column (ForeignKey CASCADE (''routes'', ''route'') ''method_policies'') []),
       (''method'', Column (CharField 10) [Choices METHOD_CHOICES]),
       (''auth_policy'',
        Column (CharField 20) [Choices [AUTH_API_KEY_ONLY, AUTH_API_KEY_AND_JWT],
          Default (Text_Value AUTH_API_KEY_ONLY)])],
      unique_sets = [[''route'', ''method'']],
      table_indexes = [],
      table_constraints = []\<rparr>"

definition declared_ApplicationUser :: db_table where
  "declared_ApplicationUser =
     \<lparr>columns = auto_id # [
       (''application'',
        Column (ForeignKey CASCADE (''authentication'', ''application'') ''client_users'') []),
       (''email'', Column (EmailField 254) []),
       (''password_hash'', Column (CharField 128) []),
       (''is_active'', Column BooleanField [Default (Bool_Value True)]),
       (''token_version'', Column PositiveIntegerField [Default (Int_Value 1)]),
       (''created_at'', Column DateTimeField [Auto_Now_Add]),
       (''updated_at'', Column DateTimeField [Auto_Now])],
      unique_sets = [],
      table_indexes = [(''client_auth_app_active_idx'', [''application'', ''is_active''])],
      table_constraints = [(''clientuser_application_email_unique'', [''application'',
        ''email''])]\<rparr>"

end
