(* ===== verification/Settings.thy ===== *)
theory Settings
  imports PyStr
begin

text \<open>
  \<open>gateway_project/settings.py\<close>, as a function of the process environment, and the database
  router. \<open>environ\<close> is \<open>os.getenv\<close>; a malformed port stops the process (\<open>Inl\<close>), as the
  \<open>ValueError\<close> of \<open>int\<close> does. What the environment cannot change is a constant each; what only
  Django and the REST framework read of it is listed with the lemmas on how it fits together.
\<close>

type_synonym environ = "string \<Rightarrow> string option"

text \<open>A path below \<open>BASE_DIR\<close>, which depends on where the program is installed.\<close>

datatype location = Below_Base string | Plain_Name string

text \<open>One entry of \<open>DATABASES\<close> under its alias; the keys it leaves out are \<open>None\<close>.\<close>

record database =
  db_alias :: string
  db_engine :: string
  db_name :: location
  db_user :: "string option"
  db_password :: "string option"
  db_host :: "string option"
  db_port :: "int option"
  db_charset :: "string option"
  db_conn_max_age :: "int option"

text \<open>The applications Django loads, in their order: its own, those of the two packages, the program's.\<close>

definition INSTALLED_APPS :: "string list" where
  "INSTALLED_APPS =
     [''django.contrib.admin'', ''django.contrib.auth'', ''django.contrib.contenttypes'',
      ''django.contrib.sessions'', ''django.contrib.messages'', ''django.contrib.staticfiles'',
      ''rest_framework'', ''rest_framework_simplejwt'',
      ''users'', ''authentication'', ''routes'', ''gateway'', ''analytics'', ''client_auth'']"

record settings =
  SECRET_KEY :: string
  DEBUG :: bool
  ALLOWED_HOSTS :: "string list"
  MYSQL_DB :: string
  MYSQL_USER :: string
  MYSQL_PASSWORD :: string
  MYSQL_HOST :: string
  MYSQL_PORT :: int
  MYSQL_CLUSTER_ENABLED :: bool
  MYSQL_READ_PORT :: int
  USE_SQLITE :: bool
  DATABASES :: "database list"
  CLIENT_JWT_SIGNING_KEY :: string
  CLIENT_JWT_ISSUER :: string
  CLIENT_JWT_AUDIENCE :: string
  CLIENT_ACCESS_TOKEN_LIFETIME :: instant
  CLIENT_REFRESH_TOKEN_LIFETIME :: instant
  REDIS_URL :: string
  REDIS_CLUSTER_ENABLED :: bool
  REDIS_CLUSTER_URL :: string
  GATEWAY_ALLOWED_BACKEND_ORIGINS :: "string list"

datatype settings_error = InvalidPort string

definition getenv :: "environ \<Rightarrow> string \<Rightarrow> string \<Rightarrow> string" where
  "getenv env name dflt = (case env name of None \<Rightarrow> dflt | Some v \<Rightarrow> v)"

definition env_flag :: "environ \<Rightarrow> string \<Rightarrow> string \<Rightarrow> bool" where
  "env_flag env name dflt \<longleftrightarrow> py_lower (getenv env name dflt) = ''true''"

definition env_port :: "environ \<Rightarrow> string \<Rightarrow> string \<Rightarrow> settings_error + int" where
  "env_port env name dflt =
     (let v = getenv env name dflt
      in case py_int v of None \<Rightarrow> Inl (InvalidPort v) | Some n \<Rightarrow> Inr n)"

text \<open>An empty or missing \<open>ALLOWED_HOSTS\<close> admits every host.\<close>

definition allowed_hosts_of :: "environ \<Rightarrow> string list" where
  "allowed_hosts_of env =
     (if getenv env ''ALLOWED_HOSTS'' [] = [] then [''*'']
      else split_on (CHR '','') (getenv env ''ALLOWED_HOSTS'' ''*''))"

definition sqlite_database :: database where
  "sqlite_database =
     \<lparr>db_alias = ''default'', db_engine = ''django.db.backends.sqlite3'', db_name = Below_Base ''db.sqlite3'',
      db_user = None, db_password = None, db_host = None, db_port = None, db_charset = None,
      db_conn_max_age = None\<rparr>"

definition mysql_database :: "string \<Rightarrow> string \<Rightarrow> string \<Rightarrow> string \<Rightarrow> int \<Rightarrow> database" where
  "mysql_database name usr pw host port =
     \<lparr>db_alias = ''default'', db_engine = ''django.db.backends.mysql'', db_name = Plain_Name name,
      db_user = Some usr, db_password = Some pw, db_host = Some host, db_port = Some port,
      db_charset = Some ''utf8mb4'', db_conn_max_age = None\<rparr>"

definition databases_of :: "bool \<Rightarrow> bool \<Rightarrow> database \<Rightarrow> int \<Rightarrow> database list" where
  "databases_of sqlite cluster base read_port =
     (if sqlite then [sqlite_database]
      else if cluster
           then [base\<lparr>db_conn_max_age := Some 60\<rparr>,
                 base\<lparr>db_alias := ''replica'', db_port := Some read_port, db_conn_max_age := Some 60\<rparr>]
           else [base])"

definition default_backend_hosts :: "string list" where
  "default_backend_hosts =
     [''fashion-user-service'', ''fashion-product-service'', ''fashion-order-service'',
      ''banking-user-service'', ''banking-account-service'', ''banking-payment-service'',
      ''healthcare-doctor-service'', ''healthcare-appointment-service'',
      ''healthcare-patient-service'', ''banking-transaction-service'']"

definition default_backend_origins :: "string list" where
  "default_backend_origins = map (\<lambda>h. ''http://'' @ h @ '':8000'') default_backend_hosts"

text \<open>\<open>','.join(ws)\<close> and the comma-separated allow list with blank entries dropped.\<close>

fun join_with :: "char \<Rightarrow> string list \<Rightarrow> string" where
  "join_with c [] = []"
| "join_with c [w] = w"
| "join_with c (w # ws) = w @ c # join_with c ws"

definition allowed_origins_of :: "string \<Rightarrow> string list" where
  "allowed_origins_of v =
     filter (\<lambda>w. w \<noteq> []) (map (strip py_isspace) (split_on (CHR '','') v))"

definition minutes :: "int \<Rightarrow> instant" where
  "minutes n = n * 60 * second"

definition load_settings :: "environ \<Rightarrow> settings_error + settings" where
  "load_settings env =
     and_then (env_port env ''MYSQL_PORT'' ''3306'') (\<lambda>port.
     and_then (env_port env ''MYSQL_READ_PORT'' ''6447'') (\<lambda>read_port.
       let secret = getenv env ''DJANGO_SECRET_KEY'' ''dev-secret-key-change-me-0123456789abcdef'';
           sqlite = env_flag env ''USE_SQLITE'' ''True'';
           cluster = env_flag env ''MYSQL_CLUSTER_ENABLED'' ''False'';
           name = getenv env ''MYSQL_DATABASE'' ''gateway_db'';
           usr = getenv env ''MYSQL_USER'' ''gateway'';
           pw = getenv env ''MYSQL_PASSWORD'' ''gateway'';
           host = getenv env ''MYSQL_HOST'' ''localhost'';
           signing = getenv env ''CLIENT_JWT_SIGNING_KEY'' []
       in Inr \<lparr>SECRET_KEY = secret,
               DEBUG = env_flag env ''DEBUG'' ''True'',
               ALLOWED_HOSTS = allowed_hosts_of env,
               MYSQL_DB = name,
               MYSQL_USER = usr,
               MYSQL_PASSWORD = pw,
               MYSQL_HOST = host,
               MYSQL_PORT = port,
               MYSQL_CLUSTER_ENABLED = cluster,
               MYSQL_READ_PORT = read_port,
               USE_SQLITE = sqlite,
               DATABASES = databases_of sqlite cluster (mysql_database name usr pw host port) read_port,
               CLIENT_JWT_SIGNING_KEY = (if signing = [] then secret @ '':client-auth'' else signing),
               CLIENT_JWT_ISSUER = ''servlink-client-auth'',
               CLIENT_JWT_AUDIENCE = ''servlink-gateway'',
               CLIENT_ACCESS_TOKEN_LIFETIME = minutes 15,
               CLIENT_REFRESH_TOKEN_LIFETIME = minutes (7 * 24 * 60),
               REDIS_URL = getenv env ''REDIS_URL'' ''redis://127.0.0.1:6379/0'',
               REDIS_CLUSTER_ENABLED = env_flag env ''REDIS_CLUSTER_ENABLED'' ''False'',
               REDIS_CLUSTER_URL = getenv env ''REDIS_CLUSTER_URL'' ''redis://redis-node-1:6379'',
               GATEWAY_ALLOWED_BACKEND_ORIGINS =
                 allowed_origins_of (getenv env ''GATEWAY_ALLOWED_BACKEND_ORIGINS''
                   (join_with (CHR '','') default_backend_origins))\<rparr>))"

section \<open>Settings of the frameworks\<close>

definition MIDDLEWARE :: "string list" where
  "MIDDLEWARE =
     [''django.middleware.security.SecurityMiddleware'',
      ''django.contrib.sessions.middleware.SessionMiddleware'',
      ''django.middleware.common.CommonMiddleware'',
      ''django.middleware.csrf.CsrfViewMiddleware'',
      ''django.contrib.auth.middleware.AuthenticationMiddleware'',
      ''django.contrib.messages.middleware.MessageMiddleware'',
      ''django.middleware.clickjacking.XFrameOptionsMiddleware'',
      ''gateway.middleware.GatewayAuthenticationMiddleware'']"

definition ROOT_URLCONF :: string where
  "ROOT_URLCONF = ''gateway_project.urls''"

record template_engine =
  tpl_backend :: string
  tpl_dirs :: "location list"
  tpl_app_dirs :: bool
  tpl_context_processors :: "string list"

definition TEMPLATES :: "template_engine list" where
  "TEMPLATES =
     [\<lparr>tpl_backend = ''django.template.backends.django.DjangoTemplates'',
       tpl_dirs = [Below_Base ''templates''],
       tpl_app_dirs = True,
       tpl_context_processors =
         [''django.template.context_processors.debug'',
          ''django.template.context_processors.request'',
          ''django.contrib.auth.context_processors.auth'',
          ''django.contrib.messages.context_processors.messages'']\<rparr>]"

definition WSGI_APPLICATION :: string where
  "WSGI_APPLICATION = ''gateway_project.wsgi.application''"

definition DATABASE_ROUTERS :: "string list" where
  "DATABASE_ROUTERS = [''gateway_project.db_router.PrimaryReplicaRouter'']"

definition AUTH_PASSWORD_VALIDATORS :: "string list" where
  "AUTH_PASSWORD_VALIDATORS =
     [''django.contrib.auth.password_validation.UserAttributeSimilarityValidator'',
      ''django.contrib.auth.password_validation.MinimumLengthValidator'',
      ''django.contrib.auth.password_validation.CommonPasswordValidator'',
      ''django.contrib.auth.password_validation.NumericPasswordValidator'']"

record locale_settings =
  LANGUAGE_CODE :: string
  TIME_ZONE :: string
  USE_I18N :: bool
  USE_TZ :: bool

definition locale_of_site :: locale_settings where
  "locale_of_site = \<lparr>LANGUAGE_CODE = ''en-us'', TIME_ZONE = ''UTC'', USE_I18N = True, USE_TZ = True\<rparr>"

definition STATIC_URL :: string where
  "STATIC_URL = ''static/''"

definition STATIC_ROOT :: location where
  "STATIC_ROOT = Below_Base ''staticfiles''"

record rest_framework =
  DEFAULT_AUTHENTICATION_CLASSES :: "string list"
  DEFAULT_PERMISSION_CLASSES :: "string list"

definition REST_FRAMEWORK :: rest_framework where
  "REST_FRAMEWORK =
     \<lparr>DEFAULT_AUTHENTICATION_CLASSES = [''rest_framework_simplejwt.authentication.JWTAuthentication''],
      DEFAULT_PERMISSION_CLASSES = [''rest_framework.permissions.IsAuthenticated'']\<rparr>"

record simple_jwt =
  ACCESS_TOKEN_LIFETIME :: instant
  REFRESH_TOKEN_LIFETIME :: instant
  ROTATE_REFRESH_TOKENS :: bool
  BLACKLIST_AFTER_ROTATION :: bool

definition SIMPLE_JWT :: simple_jwt where
  "SIMPLE_JWT =
     \<lparr>ACCESS_TOKEN_LIFETIME = minutes 60, REFRESH_TOKEN_LIFETIME = minutes (7 * 24 * 60),
      ROTATE_REFRESH_TOKENS = False, BLACKLIST_AFTER_ROTATION = True\<rparr>"

record cache_backend =
  cache_alias :: string
  cache_class :: string
  cache_location :: string

definition CACHES :: "cache_backend list" where
  "CACHES =
     [\<lparr>cache_alias = ''default'', cache_class = ''django.core.cache.backends.locmem.LocMemCache'',
       cache_location = ''gateway-local-cache''\<rparr>]"

section \<open>The database router\<close>

text \<open>
  \<open>gateway_project/db_router.py\<close>. \<open>in_atomic\<close> is
  \<open>connections['default'].in_atomic_block\<close>, \<open>for_write\<close> the hint of a locking read.
\<close>

definition db_for_read :: "settings \<Rightarrow> bool \<Rightarrow> bool \<Rightarrow> string" where
  "db_for_read S in_atomic for_write =
     (if \<not> MYSQL_CLUSTER_ENABLED S \<or> USE_SQLITE S then ''default''
      else if in_atomic \<or> for_write then ''default''
      else ''replica'')"

definition db_for_write :: "string" where
  "db_for_write = ''default''"

definition allow_relation :: "bool" where
  "allow_relation = True"

definition allow_migrate :: "string \<Rightarrow> bool" where
  "allow_migrate db \<longleftrightarrow> db = ''default''"

lemma load_settings_databases:
  assumes "load_settings env = Inr S"
  shows "DATABASES S = databases_of (USE_SQLITE S) (MYSQL_CLUSTER_ENABLED S)
    (mysql_database (MYSQL_DB S) (MYSQL_USER S) (MYSQL_PASSWORD S) (MYSQL_HOST S) (MYSQL_PORT S)) (MYSQL_READ_PORT S)"
  using assms by (auto simp: load_settings_def and_then_Inr Let_def)

lemma databases_default: "''default'' \<in> db_alias ` set (databases_of sqlite cluster (mysql_database n u pw h p) q)"
  by (simp add: databases_of_def sqlite_database_def mysql_database_def)

lemma databases_replica:
  "''replica'' \<in> db_alias ` set (databases_of sqlite cluster (mysql_database n u pw h p) q) \<longleftrightarrow> \<not> sqlite \<and> cluster"
  by (simp add: databases_of_def sqlite_database_def mysql_database_def)

lemma split_on_append_sep:
  "c \<notin> set w \<Longrightarrow> split_on c (w @ c # s) = w # split_on c s"
  by (induction w) auto

lemma split_on_join:
  "ws \<noteq> [] \<Longrightarrow> \<forall>w \<in> set ws. c \<notin> set w \<Longrightarrow> split_on c (join_with c ws) = ws"
  by (induction c ws rule: join_with.induct) (auto simp: split_on_append_sep split_on_single)

lemma allowed_origins_join:
  assumes "ws \<noteq> []" and "\<forall>w \<in> set ws. CHR '','' \<notin> set w \<and> w \<noteq> [] \<and> strip py_isspace w = w"
  shows "allowed_origins_of (join_with (CHR '','') ws) = ws"
proof -
  have "map (strip py_isspace) ws = ws" using assms(2) by (simp add: map_idI)
  with assms show ?thesis
    by (simp add: allowed_origins_of_def split_on_join filter_id_conv)
qed

text \<open>The settings of a process with an empty environment.\<close>

definition dev_settings :: settings where
  "dev_settings =
     \<lparr>SECRET_KEY = ''dev-secret-key-change-me-0123456789abcdef'',
      DEBUG = True,
      ALLOWED_HOSTS = [''*''],
      MYSQL_DB = ''gateway_db'',
      MYSQL_USER = ''gateway'',
      MYSQL_PASSWORD = ''gateway'',
      MYSQL_HOST = ''localhost'',
      MYSQL_PORT = 3306,
      MYSQL_CLUSTER_ENABLED = False,
      MYSQL_READ_PORT = 6447,
      USE_SQLITE = True,
      DATABASES = [sqlite_database],
      CLIENT_JWT_SIGNING_KEY = ''dev-secret-key-change-me-0123456789abcdef:client-auth'',
      CLIENT_JWT_ISSUER = ''servlink-client-auth'',
      CLIENT_JWT_AUDIENCE = ''servlink-gateway'',
      CLIENT_ACCESS_TOKEN_LIFETIME = minutes 15,
      CLIENT_REFRESH_TOKEN_LIFETIME = minutes (7 * 24 * 60),
      REDIS_URL = ''redis://127.0.0.1:6379/0'',
      REDIS_CLUSTER_ENABLED = False,
      REDIS_CLUSTER_URL = ''redis://redis-node-1:6379'',
      GATEWAY_ALLOWED_BACKEND_ORIGINS = default_backend_origins\<rparr>"

lemma default_origins_clean:
  "\<forall>w \<in> set default_backend_origins. CHR '','' \<notin> set w \<and> w \<noteq> [] \<and> strip py_isspace w = w"
  by (simp add: default_backend_origins_def default_backend_hosts_def strip_id py_isspace_def code_def)

lemma load_settings_empty: "load_settings (\<lambda>_. None) = Inr dev_settings"
proof -
  have "py_int ''3306'' = Some 3306" "py_int ''6447'' = Some 6447"
    using py_int_str_of_int [of 3306] py_int_str_of_int [of 6447]
    by (simp_all add: str_of_int_def str_of_nat.simps digit_char_def)
  moreover have "allowed_origins_of (join_with (CHR '','') default_backend_origins) = default_backend_origins"
    by (rule allowed_origins_join [OF _ default_origins_clean])
      (simp add: default_backend_origins_def default_backend_hosts_def)
  ultimately show ?thesis
    by (simp add: load_settings_def env_port_def env_flag_def getenv_def dev_settings_def databases_of_def allowed_hosts_of_def
        Let_def py_lower_def lower_char_def code_def char_of_def bit_0)
qed

section \<open>Properties\<close>

text \<open>
  The router only names databases that exist. Under any environment with which the settings
  load, reads and writes go to an alias of \<open>DATABASES\<close>; a read inside a write transaction and a
  locking read stay on the primary, so do migrations; and the replica is used exactly in a MySQL
  cluster, outside transactions.
\<close>

lemma router_aliases_configured:
  assumes "load_settings env = Inr S"
  shows "db_for_read S in_atomic for_write \<in> db_alias ` set (DATABASES S)
    \<and> db_for_write \<in> db_alias ` set (DATABASES S)
    \<and> (in_atomic \<or> for_write \<longrightarrow> db_for_read S in_atomic for_write = db_for_write)
    \<and> (db_for_read S False False = ''replica'' \<longleftrightarrow> ''replica'' \<in> db_alias ` set (DATABASES S))
    \<and> (allow_migrate alias \<longrightarrow> alias = db_for_write)"
proof -
  note db = load_settings_databases [OF assms]
  show ?thesis
    unfolding db using databases_default databases_replica
    by (auto simp: db_for_read_def db_for_write_def allow_migrate_def)
qed

text \<open>
  The process starts unless a port is no number, and what it starts with is complete: the two
  databases of a cluster are one database under two ports, and Django's own cache is never the
  shared one.
\<close>

lemma load_settings_total:
  "(\<exists>S. load_settings env = Inr S) \<longleftrightarrow>
     py_int (getenv env ''MYSQL_PORT'' ''3306'') \<noteq> None \<and> py_int (getenv env ''MYSQL_READ_PORT'' ''6447'') \<noteq> None"
  by (auto simp: load_settings_def env_port_def Let_def split: option.splits)

lemma cluster_is_one_database:
  assumes "load_settings env = Inr S" and "D \<in> set (DATABASES S)" and "E \<in> set (DATABASES S)"
  shows "E = D\<lparr>db_alias := db_alias E, db_port := db_port E\<rparr>"
  using assms(2,3) unfolding load_settings_databases [OF assms(1)]
  by (auto simp: databases_of_def mysql_database_def split: if_splits)

text \<open>
  The gateway's middleware runs last, so a request it refuses has passed those of Django; refresh
  tokens of the staff are not rotated, as the blacklist rotation would need is not installed.
\<close>

lemma gateway_middleware_last: "last MIDDLEWARE = ''gateway.middleware.GatewayAuthenticationMiddleware''"
  by (simp add: MIDDLEWARE_def)

lemma rotation_needs_no_blacklist:
  "\<not> ROTATE_REFRESH_TOKENS SIMPLE_JWT \<and> ''rest_framework_simplejwt.token_blacklist'' \<notin> set INSTALLED_APPS"
  by (simp add: SIMPLE_JWT_def INSTALLED_APPS_def)

text \<open>
  The allow list is the list the operator wrote: joining non-empty entries without commas or
  outer white space by commas, with any white space around each, and reading them back gives the
  entries in order.
\<close>

lemma allow_list_read_back:
  assumes "ws \<noteq> []"
    and "\<forall>w \<in> set ws. CHR '','' \<notin> set w \<and> w \<noteq> [] \<and> \<not> py_isspace (hd w) \<and> \<not> py_isspace (last w)"
  shows "allowed_origins_of (join_with (CHR '','') (map (\<lambda>w. CHR '' '' # w @ '' '') ws)) = ws"
proof -
  let ?pad = "\<lambda>w. CHR '' '' # w @ '' ''"
  have sp: "py_isspace (CHR '' '')" by (simp add: py_isspace_def code_def)
  have strip: "strip py_isspace (?pad w) = w" if "w \<in> set ws" for w
  proof -
    have "lstrip py_isspace (?pad w) = w @ '' ''"
      using assms(2) that sp by (cases w) (auto simp: lstrip_def)
    moreover have "rstrip py_isspace (w @ '' '') = rstrip py_isspace w"
      using sp by (simp add: rstrip_def)
    moreover have "rstrip py_isspace w = w" using assms(2) that by (intro rstrip_id) blast
    ultimately show ?thesis by (simp add: strip_def)
  qed
  have "split_on (CHR '','') (join_with (CHR '','') (map ?pad ws)) = map ?pad ws"
    using assms by (intro split_on_join) auto
  moreover have "map (strip py_isspace) (map ?pad ws) = ws"
    using strip by (simp add: map_idI)
  ultimately show ?thesis
    using assms(2) unfolding allowed_origins_of_def by (simp add: filter_id_conv)
qed

end
