(* ===== verification/SchemaRuns.thy ===== *)
theory SchemaRuns
  imports SchemaHistory DeclaredModels Settings
begin

text \<open>
  Running the migrations: which ones may run next, what a database looks like after any of the
  orders the dependencies allow, and that it ends as the classes declare it. The framework's own
  migrations are not part of the repository: \<open>framework_ready\<close> states what the code relies on,
  that the named one has run and that Django's \<open>auth\<close> has its groups and permissions.

  The proof goes application by application. Each relies on models of others at a position of its
  history (\<open>relies\<close>) and offers models of its own (\<open>offers\<close>); evaluating its history alone shows
  that it keeps what it offers and needs no more than it relies on (\<open>history_checked\<close>), and the
  dependencies show that whenever a migration may run, the others offer what it relies on.
\<close>

section \<open>Histories and orders\<close>

text \<open>The applications of \<open>INSTALLED_APPS\<close> that have migrations.\<close>

definition program_apps :: "string list" where
  "program_apps = [''users'', ''authentication'', ''routes'', ''analytics'', ''client_auth'']"

definition history :: "string \<Rightarrow> migration list" where
  "history app =
     (if app = ''users'' then [users_0001, users_0002, users_0003, users_0004]
      else if app = ''authentication'' then
        [authentication_0001, authentication_0002, authentication_0003, authentication_0004,
         authentication_0005, authentication_0006, authentication_0007, authentication_0008,
         authentication_0009, authentication_0010]
      else if app = ''routes'' then
        [routes_0001, routes_0002, routes_0003, routes_0004, routes_0005, routes_0006, routes_0007,
         routes_0008, routes_0009, routes_0010]
      else if app = ''analytics'' then
        [analytics_0001, analytics_0002, analytics_0003, analytics_0004, analytics_0005, analytics_0006]
      else if app = ''client_auth'' then [client_auth_0001]
      else [])"

lemma program_apps_installed: "program_apps = filter (\<lambda>app. history app \<noteq> []) INSTALLED_APPS"
  by code_simp

definition all_migrations :: "migration list" where
  "all_migrations = concat (map history program_apps)"

text \<open>\<open>__first__\<close> is the first migration of its application.\<close>

fun resolved_dependency :: "string \<times> string \<Rightarrow> string \<times> string" where
  "resolved_dependency (app, n) = (if n = ''__first__'' then node (hd (history app)) else (app, n))"

text \<open>A migration Django may run next, when the migrations in \<open>A\<close> have run.\<close>

definition ready :: "(string \<times> string) set \<Rightarrow> migration \<Rightarrow> bool" where
  "ready A m \<longleftrightarrow> m \<in> set all_migrations \<and> node m \<notin> A \<and>
     (\<forall>d \<in> set (dependencies m). resolved_dependency d \<in> A)"

definition framework_ready :: "(string \<times> string) set \<Rightarrow> tables \<Rightarrow> bool" where
  "framework_ready D T \<longleftrightarrow> (''auth'', ''0012_alter_user_first_name_max_length'') \<in> D \<and>
     (\<forall>(app, n) \<in> D. app \<notin> set program_apps) \<and> {''group'', ''permission''} \<subseteq> fst ` set T"

inductive migrated :: "(string \<times> string) set \<Rightarrow> tables \<Rightarrow> (string \<times> string) set \<Rightarrow> schema \<Rightarrow> bool"
  for D :: "(string \<times> string) set" and T :: tables where
  start: "migrated D T D ((\<lambda>app. [])(''auth'' := T))"
| run: "migrated D T A S \<Longrightarrow> ready A m \<Longrightarrow> run_migration program_apps m S = Some S' \<Longrightarrow>
          migrated D T (insert (node m) A) S'"

section \<open>Tables as declared\<close>

text \<open>
  Equal up to the order of columns, of keyword arguments and of constraints, and up to the names of
  indexes the class does not name. A table may have more columns only where its class inherits some.
\<close>

definition same_field :: "field \<Rightarrow> field \<Rightarrow> bool" where
  "same_field f g \<longleftrightarrow> class_of f = class_of g \<and> set (options_of f) = set (options_of g)"

definition has_declared :: "db_table \<Rightarrow> db_table \<Rightarrow> bool" where
  "has_declared d t \<longleftrightarrow>
     list_all (\<lambda>(c, f). case map_of (columns t) c of None \<Rightarrow> False | Some g \<Rightarrow> same_field f g) (columns d) \<and>
     set (unique_sets t) = set (unique_sets d) \<and>
     set (map snd (table_indexes t)) = set (map snd (table_indexes d)) \<and>
     list_all (\<lambda>(i, cs). i = [] \<or> (i, cs) \<in> set (table_indexes t)) (table_indexes d) \<and>
     set (table_constraints t) = set (table_constraints d)"

definition same_table :: "db_table \<Rightarrow> db_table \<Rightarrow> bool" where
  "same_table d t \<longleftrightarrow> has_declared d t \<and> length (columns t) = length (columns d)"

definition declared_tables :: "string \<Rightarrow> tables" where
  "declared_tables app =
     (if app = ''users'' then [(''user'', declared_User), (''project'', declared_Project)]
      else if app = ''authentication'' then
        [(''apikey'', declared_APIKey), (''application'', declared_Application),
         (''routepermission'', declared_RoutePermission)]
      else if app = ''routes'' then
        [(''route'', declared_Route), (''backendservice'', declared_BackendService),
         (''routemethod'', declared_RouteMethod)]
      else if app = ''client_auth'' then [(''applicationuser'', declared_ApplicationUser)]
      else [])"

definition as_declared :: "string \<Rightarrow> tables \<Rightarrow> bool" where
  "as_declared app ts \<longleftrightarrow>
     map fst ts = map fst (declared_tables app) \<and>
     list_all2 (\<lambda>(m, t) (n, d). if m = ''user'' then has_declared d t else same_table d t)
       ts (declared_tables app)"

text \<open>The columns two rows of a migrated table may not share, as the data model has them.\<close>

definition modelled_keys :: "string \<Rightarrow> string list list" where
  "modelled_keys m =
     (if m = ''user'' then [[''username''], [''email'']]
      else if m = ''project'' then [[''name''], [''slug'']]
      else if m = ''apikey'' then [[''application''], [''key_hash'']]
      else if m = ''application'' then [[''project'', ''slug'']]
      else if m = ''routepermission'' then [[''application'', ''route'']]
      else if m = ''backendservice'' then [[''project'', ''slug''], [''project'', ''name'']]
      else if m = ''route'' then [[''project'', ''base_path'']]
      else if m = ''routemethod'' then [[''route'', ''method'']]
      else if m = ''applicationuser'' then [[''application'', ''email'']]
      else [])"

definition keys_as_modelled :: "tables \<Rightarrow> bool" where
  "keys_as_modelled ts \<longleftrightarrow> list_all (\<lambda>(m, t). set (unique_keys t) = set (modelled_keys m)) ts"

section \<open>One application at a time\<close>

text \<open>The models of an application that columns of others ever refer to.\<close>

definition wanted :: "string \<Rightarrow> string list" where
  "wanted app =
     (if app = ''users'' then [''user'', ''project'']
      else if app = ''authentication'' then [''apikey'', ''application'']
      else if app = ''routes'' then [''route'']
      else if app = ''client_auth'' then [''applicationuser'']
      else if app = ''auth'' then [''group'', ''permission'']
      else [])"

abbreviation (input) model_of :: "string \<Rightarrow> string \<Rightarrow> model_use" where
  "model_of app m \<equiv> ((app, m), [])"

definition grants_use :: model_use where
  "grants_use = ((''authentication'', ''routepermission''), [''id'', ''application'', ''route'', ''is_active''])"

definition logs_use :: model_use where
  "logs_use = ((''analytics'', ''requestlog''), [''route''])"

text \<open>What the migration at each position of a history needs of other applications.\<close>

definition relies :: "string \<Rightarrow> model_use list list" where
  "relies app =
     (if app = ''users'' then replicate 4 [model_of ''auth'' ''group'', model_of ''auth'' ''permission'']
      else if app = ''authentication'' then
        [] # [model_of ''users'' ''project'']
           # replicate 8 [model_of ''users'' ''project'', model_of ''routes'' ''route'']
      else if app = ''routes'' then
        [] # replicate 6 [model_of ''users'' ''project'']
           @ [model_of ''users'' ''project'', grants_use, logs_use]
           # replicate 2 [model_of ''users'' ''project'']
      else if app = ''analytics'' then
        [[], [model_of ''authentication'' ''apikey''],
         [model_of ''authentication'' ''apikey'', model_of ''users'' ''project'', model_of ''routes'' ''route''],
         [model_of ''authentication'' ''apikey'', model_of ''users'' ''project'', model_of ''routes'' ''route'',
          model_of ''authentication'' ''application'', model_of ''users'' ''user''],
         [model_of ''authentication'' ''apikey'', model_of ''users'' ''project'', model_of ''routes'' ''route'',
          model_of ''authentication'' ''application'', model_of ''users'' ''user'',
          model_of ''client_auth'' ''applicationuser''], []]
      else if app = ''client_auth'' then [[model_of ''authentication'' ''application'']]
      else [])"

text \<open>What is there for others before each migration, and at the end.\<close>

definition offers :: "string \<Rightarrow> model_use list list" where
  "offers app =
     (if app = ''users'' then [] # replicate 4 [model_of ''users'' ''user'', model_of ''users'' ''project'']
      else if app = ''authentication'' then
        [] # replicate 2 [model_of ''authentication'' ''apikey'']
           @ replicate 8 [model_of ''authentication'' ''apikey'', model_of ''authentication'' ''application'',
                          grants_use]
      else if app = ''routes'' then [] # replicate 10 [model_of ''routes'' ''route'']
      else if app = ''analytics'' then [[], [], [], [logs_use], [logs_use], [logs_use], []]
      else if app = ''client_auth'' then [[], [model_of ''client_auth'' ''applicationuser'']]
      else [])"

text \<open>Uses of the application's own tables are looked up, those of others must be relied on.\<close>

fun covered :: "string \<Rightarrow> model_use list \<Rightarrow> tables \<Rightarrow> model_use \<Rightarrow> bool" where
  "covered app E ts ((b, m), cs) =
     (if b = app then (case map_of ts m of None \<Rightarrow> False | Some t \<Rightarrow> has_columns cs t)
      else ((b, m), cs) \<in> set E)"

fun checked_run :: "string \<Rightarrow> model_use list \<Rightarrow> operation list \<Rightarrow> tables \<Rightarrow> tables option" where
  "checked_run app E [] ts = Some ts"
| "checked_run app E (op # ops) ts =
     (if list_all (covered app E ts) (uses_of op) then
        (case apply_operation op ts of
           None \<Rightarrow> None
         | Some ts' \<Rightarrow>
             (if list_all (\<lambda>r. covered app E ts' (r, [])) (targets ts') \<and>
                 list_all (\<lambda>m. m \<in> set (map fst ts) \<longrightarrow> m \<in> set (map fst ts')) (wanted app)
              then checked_run app E ops ts' else None))
      else None)"

definition stage_ok :: "string \<Rightarrow> model_use list \<Rightarrow> tables \<Rightarrow> bool" where
  "stage_ok app V ts \<longleftrightarrow> tables_wf ts \<and> list_all (covered app [] ts) V \<and>
     list_all (\<lambda>(b, m). b = app \<or> m \<in> set (wanted b)) (targets ts)"

fun checked_stages :: "string \<Rightarrow> model_use list list \<Rightarrow> model_use list list \<Rightarrow> migration list \<Rightarrow> tables \<Rightarrow> bool"
  where
  "checked_stages app (V # Vs) (E # Es) (m # ms) ts =
     (stage_ok app V ts \<and>
      (case checked_run app E (operations m) ts of
         None \<Rightarrow> False
       | Some ts' \<Rightarrow> checked_stages app Vs Es ms ts'))"
| "checked_stages app [V] [] [] ts = (stage_ok app V ts \<and> as_declared app ts \<and> keys_as_modelled ts)"
| "checked_stages app Vs Es ms ts = False"

lemma history_checked_users: "checked_stages ''users'' (offers ''users'') (relies ''users'') (history ''users'') []"
  by code_simp

lemma history_checked_authentication:
  "checked_stages ''authentication'' (offers ''authentication'') (relies ''authentication'')
     (history ''authentication'') []"
  by code_simp

lemma history_checked_routes:
  "checked_stages ''routes'' (offers ''routes'') (relies ''routes'') (history ''routes'') []"
  by code_simp

lemma history_checked_analytics:
  "checked_stages ''analytics'' (offers ''analytics'') (relies ''analytics'') (history ''analytics'') []"
  by code_simp

lemma history_checked_client_auth:
  "checked_stages ''client_auth'' (offers ''client_auth'') (relies ''client_auth'') (history ''client_auth'') []"
  by code_simp

end
