(* ===== verification/SchemaOrders.thy ===== *)
theory SchemaOrders
  imports SchemaRuns
begin

text \<open>
  From the check of each history to every order in which the migrations may run: the state is the
  position of each application in its history, and the dependencies bound the positions.
\<close>

section \<open>What a checked history gives\<close>

fun run_local :: "operation list \<Rightarrow> tables \<Rightarrow> tables option" where
  "run_local [] ts = Some ts"
| "run_local (op # ops) ts =
     (case apply_operation op ts of None \<Rightarrow> None | Some ts' \<Rightarrow> run_local ops ts')"

fun after :: "migration list \<Rightarrow> tables \<Rightarrow> tables option" where
  "after [] ts = Some ts"
| "after (m # ms) ts =
     (case run_local (operations m) ts of None \<Rightarrow> None | Some ts' \<Rightarrow> after ms ts')"

lemma checked_run_local: "checked_run app E ops ts = Some ts' \<Longrightarrow> run_local ops ts = Some ts'"
  by (induction app E ops ts rule: checked_run.induct) (auto split: if_splits option.splits)

lemma checked_stages_at:
  assumes "checked_stages app Vs Es ms ts" and "k \<le> length ms"
  shows "length Vs = Suc (length ms) \<and> length Es = length ms \<and>
    (\<exists>tk. after (take k ms) ts = Some tk \<and> stage_ok app (Vs ! k) tk \<and>
      (k < length ms \<longrightarrow> (\<exists>tk'. checked_run app (Es ! k) (operations (ms ! k)) tk = Some tk' \<and>
                              after (take (Suc k) ms) ts = Some tk')) \<and>
      (k = length ms \<longrightarrow> as_declared app tk \<and> keys_as_modelled tk))"
  using assms
proof (induction app Vs Es ms ts arbitrary: k rule: checked_stages.induct)
  case (1 app V Vs E Es m ms ts)
  obtain ts' where ts': "checked_run app E (operations m) ts = Some ts'" "checked_stages app Vs Es ms ts'"
    and ok: "stage_ok app V ts"
    using "1.prems"(1) by (auto split: option.splits)
  note local = checked_run_local [OF ts'(1)]
  show ?case
  proof (cases k)
    case 0
    then show ?thesis using "1.IH" [OF ts', of 0] ts'(1) local ok by simp
  next
    case (Suc j)
    then show ?thesis using "1.IH" [OF ts', of j] "1.prems"(2) local by simp
  qed
qed auto

lemma available_model [simp]: "available S ((app, m), []) \<longleftrightarrow> m \<in> set (map fst (S app))"
  by (auto simp: has_columns_def split: option.splits simp: map_of_eq_None_iff dest: map_of_SomeD)
     (metis map_of_eq_None_iff option.distinct(1) fst_conv image_eqI)

lemma covered_available:
  assumes "covered app E (S app) u" and "\<And>e. e \<in> set E \<Longrightarrow> available S e"
  shows "available S u"
  using assms by (cases "(app, E, S app, u)" rule: covered.cases) (auto split: if_splits)

lemma relations_resolveD:
  "relations_resolve apps S \<Longrightarrow> app \<in> set apps \<Longrightarrow> r \<in> set (targets (S app)) \<Longrightarrow> available S (r, [])"
  by (simp add: relations_resolve_def list_all_iff del: available.simps)

declare available.simps [simp del]

text \<open>A checked run succeeds in any state that offers what it relies on.\<close>

lemma run_operations_checked:
  assumes "checked_run app E ops (S app) = Some ts"
    and "\<And>b m cs. ((b, m), cs) \<in> set E \<Longrightarrow> b \<noteq> app \<and> available S ((b, m), cs)"
    and "relations_resolve apps S" and "app \<in> set apps"
    and "\<And>b m. b \<in> set apps \<Longrightarrow> b \<noteq> app \<Longrightarrow> (app, m) \<in> set (targets (S b)) \<Longrightarrow> m \<in> set (wanted app)"
  shows "run_operations apps app ops S = Some (S(app := ts)) \<and> relations_resolve apps (S(app := ts))"
  using assms
proof (induction ops arbitrary: S)
  case Nil
  then have "S(app := ts) = S" by auto
  then show ?case using Nil.prems(3) by simp
next
  case (Cons op ops)
  from Cons.prems(1) obtain ts' where ts': "apply_operation op (S app) = Some ts'"
    and uses: "list_all (covered app E (S app)) (uses_of op)"
    and own: "list_all (\<lambda>r. covered app E ts' (r, [])) (targets ts')"
    and kept: "\<forall>m \<in> set (wanted app). m \<in> set (map fst (S app)) \<longrightarrow> m \<in> set (map fst ts')"
    and rest: "checked_run app E ops ts' = Some ts"
    by (auto split: if_splits option.splits simp: list_all_iff)
  let ?S = "S(app := ts')"
  have E: "b \<noteq> app \<and> available ?S ((b, m), cs)" if "((b, m), cs) \<in> set E" for b m cs
    using Cons.prems(2) [OF that] by (simp add: available.simps)
  have relied: "available S e \<and> available ?S e" if "e \<in> set E" for e
    using Cons.prems(2) E that by (metis prod.collapse)
  have "available ?S ((b, m), [])" if b: "a \<in> set apps" "(b, m) \<in> set (targets (?S a))" for a b m
  proof (cases "a = app")
    case True
    have "covered app E (?S app) ((b, m), [])" using own b(2) True by (auto simp: list_all_iff)
    then show ?thesis by (rule covered_available) (use relied in blast)
  next
    case False
    then have "available S ((b, m), [])"
      using relations_resolveD [OF Cons.prems(3) b(1), of "(b, m)"] b(2) by auto
    then show ?thesis using Cons.prems(5) [OF b(1) False] kept b(2) False by auto
  qed
  then have resolve: "relations_resolve apps ?S"
    unfolding relations_resolve_def list_all_iff by auto
  have "list_all (available S) (uses_of op)"
    using uses covered_available [of app E S] relied unfolding list_all_iff by blast
  moreover have "run_operations apps app ops ?S = Some (?S(app := ts)) \<and> relations_resolve apps (?S(app := ts))"
  proof (rule Cons.IH)
    show "checked_run app E ops (?S app) = Some ts" using rest by simp
    show "b \<noteq> app \<and> available ?S ((b, m), cs)" if "((b, m), cs) \<in> set E" for b m cs
      by (rule E [OF that])
    show "relations_resolve apps ?S" by (rule resolve)
    show "m \<in> set (wanted app)" if "b \<in> set apps" "b \<noteq> app" "(app, m) \<in> set (targets (?S b))" for b m
      using Cons.prems(5) [OF that(1,2)] that(2,3) by simp
  qed (rule Cons.prems(4))
  ultimately show ?case using ts' resolve by (simp only: run_operations.simps fun_upd_upd option.case if_True simp_thms)
qed

section \<open>Positions\<close>

definition position :: "string list \<Rightarrow> string \<Rightarrow> nat" where
  "position ns n = length (takeWhile (\<lambda>x. x \<noteq> n) ns)"

lemma mem_take_position: "n \<in> set (take k ns) \<longleftrightarrow> position ns n < k \<and> position ns n < length ns"
proof (induction ns arbitrary: k)
  case (Cons x ns)
  then show ?case by (cases k) (auto simp: position_def)
qed (simp add: position_def)

definition names :: "string \<Rightarrow> string list" where
  "names app = map mig_name (history app)"

text \<open>How far other histories must have come before a migration of this one.\<close>

definition requires :: "string \<Rightarrow> nat \<Rightarrow> (string \<times> nat) list" where
  "requires app k =
     map (\<lambda>d. case resolved_dependency d of (b, n) \<Rightarrow> (b, Suc (position (names b) n)))
       (filter (\<lambda>d. fst d \<in> set program_apps) (dependencies (history app ! k)))"

definition framework_node :: "string \<times> string" where
  "framework_node = (''auth'', ''0012_alter_user_first_name_max_length'')"

definition well_named :: "string \<Rightarrow> nat \<Rightarrow> bool" where
  "well_named app k \<longleftrightarrow>
     mig_app (history app ! k) = app \<and> position (names app) (mig_name (history app ! k)) = k \<and>
     (k = 0 \<or> (app, k) \<in> set (requires app k)) \<and>
     list_all (\<lambda>(b, j). b \<in> set program_apps \<and> j \<le> length (history b)) (requires app k) \<and>
     list_all (\<lambda>d. fst d \<in> set program_apps \<or> d = framework_node) (dependencies (history app ! k))"

lemma histories_named:
  "list_all (well_named ''users'') [0..<4]"
  "list_all (well_named ''authentication'') [0..<10]"
  "list_all (well_named ''routes'') [0..<10]"
  "list_all (well_named ''analytics'') [0..<6]"
  "list_all (well_named ''client_auth'') [0..<1]"
  by code_simp+

lemma requirements:
  "map (requires ''users'') [0..<4] =
     [[], [(''users'', 1)], [(''users'', 2)], [(''users'', 3)]]"
  "map (requires ''authentication'') [0..<10] =
     [[], [(''authentication'', 1), (''users'', 1)],
      [(''users'', 1), (''routes'', 3), (''authentication'', 2)], [(''authentication'', 3)],
      [(''authentication'', 4)], [(''authentication'', 5)], [(''authentication'', 6)],
      [(''authentication'', 7)], [(''authentication'', 8)], [(''authentication'', 9)]]"
  "map (requires ''routes'') [0..<10] =
     [[], [(''routes'', 1), (''users'', 1)], [(''routes'', 2)], [(''users'', 1), (''routes'', 3)],
      [(''routes'', 4)], [(''routes'', 5)], [(''routes'', 6)],
      [(''routes'', 7), (''authentication'', 8), (''analytics'', 4)], [(''routes'', 8)], [(''routes'', 9)]]"
  "map (requires ''analytics'') [0..<6] =
     [[], [(''analytics'', 1), (''authentication'', 1)],
      [(''routes'', 1), (''analytics'', 2), (''users'', 1)],
      [(''users'', 1), (''authentication'', 3), (''analytics'', 3)],
      [(''analytics'', 4), (''client_auth'', 1)], [(''analytics'', 5), (''routes'', 9)]]"
  "map (requires ''client_auth'') [0..<1] = [[(''authentication'', 9)]]"
  by code_simp+

lemma listed: "map f [0..<n] = xs \<Longrightarrow> k < n \<Longrightarrow> f k = xs ! k"
  by auto

lemmas requires_listed [simp] =
  listed [OF requirements(1)] listed [OF requirements(2)] listed [OF requirements(3)]
  listed [OF requirements(4)] listed [OF requirements(5)]

lemmas history_checked =
  history_checked_users history_checked_authentication history_checked_routes history_checked_analytics
  history_checked_client_auth

lemma length_history [simp]:
  "length (history ''users'') = 4" "length (history ''authentication'') = 10"
  "length (history ''routes'') = 10" "length (history ''analytics'') = 6"
  "length (history ''client_auth'') = 1"
  by (simp_all add: history_def)

lemma program_apps_cases:
  "app \<in> set program_apps \<longleftrightarrow>
     app = ''users'' \<or> app = ''authentication'' \<or> app = ''routes'' \<or> app = ''analytics'' \<or> app = ''client_auth''"
  by (simp add: program_apps_def)

lemma checked_history:
  "app \<in> set program_apps \<Longrightarrow> checked_stages app (offers app) (relies app) (history app) []"
  using history_checked by (auto simp: program_apps_cases)

lemma named_history:
  "app \<in> set program_apps \<Longrightarrow> k < length (history app) \<Longrightarrow> well_named app k"
  using histories_named by (auto simp: program_apps_cases list_all_iff)

lemma offers_at:
  "1 \<le> j \<Longrightarrow> j \<le> 4 \<Longrightarrow> offers ''users'' ! j = [model_of ''users'' ''user'', model_of ''users'' ''project'']"
  "1 \<le> j \<Longrightarrow> j \<le> 10 \<Longrightarrow> model_of ''authentication'' ''apikey'' \<in> set (offers ''authentication'' ! j)"
  "3 \<le> j \<Longrightarrow> j \<le> 10 \<Longrightarrow> model_of ''authentication'' ''application'' \<in> set (offers ''authentication'' ! j)"
  "3 \<le> j \<Longrightarrow> j \<le> 10 \<Longrightarrow> grants_use \<in> set (offers ''authentication'' ! j)"
  "1 \<le> j \<Longrightarrow> j \<le> 10 \<Longrightarrow> model_of ''routes'' ''route'' \<in> set (offers ''routes'' ! j)"
  "3 \<le> j \<Longrightarrow> j \<le> 5 \<Longrightarrow> logs_use \<in> set (offers ''analytics'' ! j)"
  "offers ''client_auth'' ! 1 = [model_of ''client_auth'' ''applicationuser'']"
  by (auto simp: offers_def nth_Cons' nth_append)

lemma relies_at:
  "k < 4 \<Longrightarrow> u \<in> set (relies ''users'' ! k) \<Longrightarrow> u \<in> {model_of ''auth'' ''group'', model_of ''auth'' ''permission''}"
  "k < 10 \<Longrightarrow> u \<in> set (relies ''authentication'' ! k) \<Longrightarrow>
     1 \<le> k \<and> u = model_of ''users'' ''project'' \<or> 2 \<le> k \<and> u = model_of ''routes'' ''route''"
  "k < 10 \<Longrightarrow> u \<in> set (relies ''routes'' ! k) \<Longrightarrow>
     1 \<le> k \<and> u = model_of ''users'' ''project'' \<or> k = 7 \<and> u \<in> {grants_use, logs_use}"
  "k < 6 \<Longrightarrow> u \<in> set (relies ''analytics'' ! k) \<Longrightarrow>
     1 \<le> k \<and> u = model_of ''authentication'' ''apikey'' \<or>
     2 \<le> k \<and> u \<in> {model_of ''users'' ''project'', model_of ''routes'' ''route''} \<or>
     3 \<le> k \<and> u \<in> {model_of ''authentication'' ''application'', model_of ''users'' ''user''} \<or>
     4 \<le> k \<and> u = model_of ''client_auth'' ''applicationuser''"
  "k < 1 \<Longrightarrow> u \<in> set (relies ''client_auth'' ! k) \<Longrightarrow> u = model_of ''authentication'' ''application''"
  by (auto simp: relies_def nth_Cons' nth_append split: if_splits)

text \<open>The requirements of the migration at position \<open>k\<close> are met by the positions \<open>pos\<close>.\<close>

definition met :: "(string \<Rightarrow> nat) \<Rightarrow> string \<Rightarrow> nat \<Rightarrow> bool" where
  "met pos app k \<longleftrightarrow> (\<forall>(b, j) \<in> set (requires app k). j \<le> pos b)"

definition closed_positions :: "(string \<Rightarrow> nat) \<Rightarrow> bool" where
  "closed_positions pos \<longleftrightarrow>
     (\<forall>app \<in> set program_apps. pos app \<le> length (history app) \<and> (\<forall>k < pos app. met pos app k))"

lemma met_requirements:
  "met pos ''authentication'' 1 \<Longrightarrow> 1 \<le> pos ''users''"
  "met pos ''authentication'' 2 \<Longrightarrow> 3 \<le> pos ''routes''"
  "met pos ''routes'' 1 \<Longrightarrow> 1 \<le> pos ''users''"
  "met pos ''routes'' 7 \<Longrightarrow> 8 \<le> pos ''authentication'' \<and> 4 \<le> pos ''analytics''"
  "met pos ''analytics'' 1 \<Longrightarrow> 1 \<le> pos ''authentication''"
  "met pos ''analytics'' 2 \<Longrightarrow> 1 \<le> pos ''routes'' \<and> 1 \<le> pos ''users''"
  "met pos ''analytics'' 3 \<Longrightarrow> 3 \<le> pos ''authentication''"
  "met pos ''analytics'' 4 \<Longrightarrow> 1 \<le> pos ''client_auth''"
  "met pos ''analytics'' 5 \<Longrightarrow> 9 \<le> pos ''routes''"
  "met pos ''client_auth'' 0 \<Longrightarrow> 9 \<le> pos ''authentication''"
  by (simp_all add: met_def)

lemma closed_bounds:
  "closed_positions pos \<Longrightarrow> pos ''users'' \<le> 4" "closed_positions pos \<Longrightarrow> pos ''authentication'' \<le> 10"
  "closed_positions pos \<Longrightarrow> pos ''routes'' \<le> 10" "closed_positions pos \<Longrightarrow> pos ''analytics'' \<le> 6"
  "closed_positions pos \<Longrightarrow> pos ''client_auth'' \<le> 1"
  by (simp_all add: closed_positions_def program_apps_def)

lemma offered_models:
  assumes "closed_positions pos"
  shows "1 \<le> pos ''users'' \<Longrightarrow> model_of ''users'' ''user'' \<in> set (offers ''users'' ! pos ''users'')"
    and "1 \<le> pos ''users'' \<Longrightarrow> model_of ''users'' ''project'' \<in> set (offers ''users'' ! pos ''users'')"
    and "1 \<le> pos ''authentication'' \<Longrightarrow>
           model_of ''authentication'' ''apikey'' \<in> set (offers ''authentication'' ! pos ''authentication'')"
    and "3 \<le> pos ''authentication'' \<Longrightarrow>
           model_of ''authentication'' ''application'' \<in> set (offers ''authentication'' ! pos ''authentication'')"
    and "3 \<le> pos ''authentication'' \<Longrightarrow> grants_use \<in> set (offers ''authentication'' ! pos ''authentication'')"
    and "1 \<le> pos ''routes'' \<Longrightarrow> model_of ''routes'' ''route'' \<in> set (offers ''routes'' ! pos ''routes'')"
    and "3 \<le> pos ''analytics'' \<Longrightarrow> pos ''routes'' < 9 \<Longrightarrow> logs_use \<in> set (offers ''analytics'' ! pos ''analytics'')"
    and "1 \<le> pos ''client_auth'' \<Longrightarrow>
           model_of ''client_auth'' ''applicationuser'' \<in> set (offers ''client_auth'' ! pos ''client_auth'')"
proof -
  note bounds = closed_bounds [OF assms]
  show "1 \<le> pos ''users'' \<Longrightarrow> model_of ''users'' ''user'' \<in> set (offers ''users'' ! pos ''users'')"
    "1 \<le> pos ''users'' \<Longrightarrow> model_of ''users'' ''project'' \<in> set (offers ''users'' ! pos ''users'')"
    using offers_at(1) bounds(1) by simp_all
  show "1 \<le> pos ''authentication'' \<Longrightarrow>
      model_of ''authentication'' ''apikey'' \<in> set (offers ''authentication'' ! pos ''authentication'')"
    by (rule offers_at(2) [OF _ bounds(2)])
  show "3 \<le> pos ''authentication'' \<Longrightarrow>
      model_of ''authentication'' ''application'' \<in> set (offers ''authentication'' ! pos ''authentication'')"
    by (rule offers_at(3) [OF _ bounds(2)])
  show "3 \<le> pos ''authentication'' \<Longrightarrow> grants_use \<in> set (offers ''authentication'' ! pos ''authentication'')"
    by (rule offers_at(4) [OF _ bounds(2)])
  show "1 \<le> pos ''routes'' \<Longrightarrow> model_of ''routes'' ''route'' \<in> set (offers ''routes'' ! pos ''routes'')"
    by (rule offers_at(5) [OF _ bounds(3)])
  show "1 \<le> pos ''client_auth'' \<Longrightarrow>
      model_of ''client_auth'' ''applicationuser'' \<in> set (offers ''client_auth'' ! pos ''client_auth'')"
    using offers_at(7) bounds(5) by (cases "pos ''client_auth'' = 1") simp_all
  show "logs_use \<in> set (offers ''analytics'' ! pos ''analytics'')" if "3 \<le> pos ''analytics''" "pos ''routes'' < 9"
  proof (rule offers_at(6) [OF that(1)])
    have "met pos ''analytics'' 5" if "5 < pos ''analytics''"
      using assms that by (simp add: closed_positions_def program_apps_def)
    then show "pos ''analytics'' \<le> 5"
      using met_requirements(9) [of pos] that(2) by (cases "5 < pos ''analytics''") simp_all
  qed
qed

text \<open>
  Whenever a migration may run, what its application relies on is offered by the others, or is
  Django's.
\<close>

definition there_for :: "(string \<Rightarrow> nat) \<Rightarrow> string \<Rightarrow> model_use \<Rightarrow> bool" where
  "there_for pos app u \<longleftrightarrow>
     fst (fst u) \<noteq> app \<and>
     (u \<in> {model_of ''auth'' ''group'', model_of ''auth'' ''permission''} \<or>
      fst (fst u) \<in> set program_apps \<and> u \<in> set (offers (fst (fst u)) ! pos (fst (fst u))))"

lemma use_apps: "fst (fst grants_use) = ''authentication''" "fst (fst logs_use) = ''analytics''"
  by (simp_all add: grants_use_def logs_use_def)

lemma relied_offered:
  assumes pos: "closed_positions pos" and app: "app \<in> set program_apps" and k: "pos app < length (history app)"
    and met: "met pos app (pos app)" and u: "u \<in> set (relies app ! pos app)"
  shows "there_for pos app u"
proof -
  have upto: "met pos app i" if "i \<le> pos app" for i
    using pos met app that by (cases "i = pos app") (auto simp: closed_positions_def)
  note offered = offered_models [OF pos]
  note there = there_for_def program_apps_cases
  from app have "app = ''users'' \<or> app = ''authentication'' \<or> app = ''routes'' \<or> app = ''analytics'' \<or>
      app = ''client_auth''"
    by (simp only: program_apps_cases)
  then show ?thesis
  proof (elim disjE)
    assume 1: "app = ''users''"
    then show ?thesis using relies_at(1) [OF _ u [unfolded 1]] k by (auto simp: there)
  next
    assume 2: "app = ''authentication''"
    then have "1 \<le> pos app \<and> u = model_of ''users'' ''project'' \<or> 2 \<le> pos app \<and> u = model_of ''routes'' ''route''"
      using relies_at(2) [OF _ u [unfolded 2]] k by simp
    then show ?thesis
    proof (elim disjE conjE)
      assume "1 \<le> pos app" "u = model_of ''users'' ''project''"
      then show ?thesis using offered(2) met_requirements(1) [OF upto [unfolded 2]] 2 by (simp add: there)
    next
      assume "2 \<le> pos app" "u = model_of ''routes'' ''route''"
      then show ?thesis using offered(6) met_requirements(2) [OF upto [unfolded 2]] 2 by (simp add: there)
    qed
  next
    assume 3: "app = ''routes''"
    then have "1 \<le> pos app \<and> u = model_of ''users'' ''project'' \<or> pos app = 7 \<and> u \<in> {grants_use, logs_use}"
      using relies_at(3) [OF _ u [unfolded 3]] k by simp
    then show ?thesis
    proof (elim disjE conjE)
      assume "1 \<le> pos app" "u = model_of ''users'' ''project''"
      then show ?thesis using offered(2) met_requirements(3) [OF upto [unfolded 3]] 3 by (simp add: there)
    next
      assume at: "pos app = 7" "u \<in> {grants_use, logs_use}"
      then have "8 \<le> pos ''authentication''" "4 \<le> pos ''analytics''"
        using met_requirements(4) [OF upto [unfolded 3]] 3 by simp_all
      then have "grants_use \<in> set (offers ''authentication'' ! pos ''authentication'')"
        "logs_use \<in> set (offers ''analytics'' ! pos ''analytics'')"
        using offered(5,7) at(1) 3 by simp_all
      moreover have "u = grants_use \<or> u = logs_use" using at(2) by simp
      ultimately show ?thesis using 3 by (elim disjE) (simp_all add: there use_apps)
    qed
  next
    assume 4: "app = ''analytics''"
    then have "1 \<le> pos app \<and> u = model_of ''authentication'' ''apikey'' \<or>
        2 \<le> pos app \<and> u \<in> {model_of ''users'' ''project'', model_of ''routes'' ''route''} \<or>
        3 \<le> pos app \<and> u \<in> {model_of ''authentication'' ''application'', model_of ''users'' ''user''} \<or>
        4 \<le> pos app \<and> u = model_of ''client_auth'' ''applicationuser''"
      using relies_at(4) [OF _ u [unfolded 4]] k by simp
    then show ?thesis
    proof (elim disjE conjE)
      assume "1 \<le> pos app" "u = model_of ''authentication'' ''apikey''"
      then show ?thesis using offered(3) met_requirements(5) [OF upto [unfolded 4]] 4 by (simp add: there)
    next
      assume "2 \<le> pos app" "u \<in> {model_of ''users'' ''project'', model_of ''routes'' ''route''}"
      then show ?thesis
        using offered(2,6) met_requirements(6) [OF upto [unfolded 4]] 4
        unfolding insert_iff empty_iff by (elim disjE) (simp_all add: there)
    next
      assume "3 \<le> pos app" "u \<in> {model_of ''authentication'' ''application'', model_of ''users'' ''user''}"
      then show ?thesis
        using offered(1,4) met_requirements(6) [OF upto [unfolded 4]] met_requirements(7) [OF upto [unfolded 4]] 4
        unfolding insert_iff empty_iff by (elim disjE) (simp_all add: there)
    next
      assume "4 \<le> pos app" "u = model_of ''client_auth'' ''applicationuser''"
      then show ?thesis using offered(8) met_requirements(8) [OF upto [unfolded 4]] 4 by (simp add: there)
    qed
  next
    assume 5: "app = ''client_auth''"
    then have "u = model_of ''authentication'' ''application''" "9 \<le> pos ''authentication''"
      using relies_at(5) [OF _ u [unfolded 5]] k met_requirements(10) [OF upto [unfolded 5]] by simp_all
    then show ?thesis using offered(4) 5 by (simp add: there)
  qed
qed

end
