(* ===== verification/MigratedSchema.thy ===== *)
theory MigratedSchema
  imports SchemaOrders
begin

text \<open>
  Every order of the migrations: a reachable state is a position of each application in its
  history, with the tables that history builds up to there. Nothing a migration needs is ever
  missing, some migration may run until all have, and the result is the schema the classes declare,
  with the unique constraints the data model has.
\<close>

section \<open>States and positions\<close>

definition placed ::
  "(string \<times> string) set \<Rightarrow> tables \<Rightarrow> (string \<times> string) set \<Rightarrow> schema \<Rightarrow> (string \<Rightarrow> nat) \<Rightarrow> bool" where
  "placed D T A S pos \<longleftrightarrow>
     closed_positions pos \<and>
     (\<forall>app \<in> set program_apps. after (take (pos app) (history app)) [] = Some (S app)) \<and>
     A = D \<union> {(app, n). app \<in> set program_apps \<and> n \<in> set (take (pos app) (names app))} \<and>
     S ''auth'' = T \<and> relations_resolve program_apps S"

lemma placed_stage:
  assumes "placed D T A S pos" and app: "app \<in> set program_apps"
  shows "stage_ok app (offers app ! pos app) (S app)"
    and "pos app < length (history app) \<Longrightarrow>
           \<exists>ts. checked_run app (relies app ! pos app) (operations (history app ! pos app)) (S app) = Some ts \<and>
                after (take (Suc (pos app)) (history app)) [] = Some ts"
    and "pos app = length (history app) \<Longrightarrow> as_declared app (S app) \<and> keys_as_modelled (S app)"
proof -
  have "pos app \<le> length (history app)" and S: "after (take (pos app) (history app)) [] = Some (S app)"
    using assms by (auto simp: placed_def closed_positions_def)
  from checked_stages_at [OF checked_history [OF app] this(1)] S
  show "stage_ok app (offers app ! pos app) (S app)"
    and "pos app < length (history app) \<Longrightarrow>
           \<exists>ts. checked_run app (relies app ! pos app) (operations (history app ! pos app)) (S app) = Some ts \<and>
                after (take (Suc (pos app)) (history app)) [] = Some ts"
    and "pos app = length (history app) \<Longrightarrow> as_declared app (S app) \<and> keys_as_modelled (S app)"
    by auto
qed

lemma auth_not_program: "''auth'' \<notin> set program_apps"
  by (simp add: program_apps_def)

lemma placed_offers:
  assumes "placed D T A S pos" and "b \<in> set program_apps" and "u \<in> set (offers b ! pos b)" and "fst (fst u) = b"
  shows "available S u"
proof -
  have "covered b [] (S b) u" using placed_stage(1) [OF assms(1,2)] assms(3) by (simp add: stage_ok_def list_all_iff)
  then show ?thesis by (rule covered_available) simp
qed

lemma there_available:
  assumes "placed D T A S pos" and "framework_ready D T" and "there_for pos app u"
  shows "available S u"
proof (cases "fst (fst u) \<in> set program_apps")
  case True
  then have "u \<noteq> model_of ''auth'' ''group''" "u \<noteq> model_of ''auth'' ''permission''"
    using auth_not_program by auto
  then have "u \<in> set (offers (fst (fst u)) ! pos (fst (fst u)))" using assms(3) by (simp add: there_for_def)
  then show ?thesis using placed_offers [OF assms(1) True] by simp
next
  case False
  then have "u = model_of ''auth'' ''group'' \<or> u = model_of ''auth'' ''permission''"
    using assms(3) unfolding there_for_def by blast
  then show ?thesis using assms(1,2) unfolding placed_def framework_ready_def
    by (elim disjE) auto
qed

lemma names_nth: "k < length (history app) \<Longrightarrow> names app ! k = mig_name (history app ! k)"
  by (simp add: names_def)

lemma mem_placed:
  assumes "placed D T A S pos" and "framework_ready D T" and "app \<in> set program_apps"
  shows "(app, n) \<in> A \<longleftrightarrow> position (names app) n < pos app"
proof -
  have "(app, n) \<notin> D" using assms(2,3) by (auto simp: framework_ready_def)
  moreover have "pos app \<le> length (names app)"
    using assms(1,3) by (simp add: placed_def closed_positions_def names_def)
  ultimately show ?thesis
    using assms(1,3) by (auto simp: placed_def mem_take_position)
qed

lemma node_history:
  assumes "app \<in> set program_apps" and "k < length (history app)"
  shows "node (history app ! k) = (app, mig_name (history app ! k))"
    and "position (names app) (mig_name (history app ! k)) = k"
    and "k = 0 \<or> (app, k) \<in> set (requires app k)"
    and "d \<in> set (dependencies (history app ! k)) \<Longrightarrow> fst d \<in> set program_apps \<or> d = framework_node"
  using named_history [OF assms] by (auto simp: well_named_def node_def list_all_iff)

lemma history_pos: "app \<in> set program_apps \<Longrightarrow> 0 < length (history app)"
  unfolding program_apps_cases by (elim disjE) simp_all

lemma resolved_program_app:
  assumes "fst d \<in> set program_apps"
  shows "fst (resolved_dependency d) \<in> set program_apps"
proof -
  obtain b n where d: "d = (b, n)" by force
  have "0 < length (history b)" using history_pos assms by (simp add: d)
  then have "fst (node (hd (history b))) = b"
    using node_history(1) [of b 0] assms by (simp add: d hd_conv_nth)
  then show ?thesis using assms by (simp add: d)
qed

declare resolved_dependency.simps [simp del]

text \<open>The dependencies of a migration have run exactly when the positions meet its requirements.\<close>

lemma dependencies_met:
  assumes placed: "placed D T A S pos" and ready: "framework_ready D T" and app: "app \<in> set program_apps"
    and k: "k < length (history app)"
  shows "(\<forall>d \<in> set (dependencies (history app ! k)). resolved_dependency d \<in> A) \<longleftrightarrow> met pos app k"
proof -
  have one: "resolved_dependency d \<in> A \<longleftrightarrow>
      (case resolved_dependency d of (b, n) \<Rightarrow> Suc (position (names b) n) \<le> pos b)"
    if "fst d \<in> set program_apps" for d
    using mem_placed [OF placed ready resolved_program_app [OF that], of "snd (resolved_dependency d)"]
    by (simp add: case_prod_beta Suc_le_eq)
  have other: "resolved_dependency d \<in> A" if "d = framework_node" for d
    using placed ready that by (simp add: placed_def framework_ready_def framework_node_def resolved_dependency.simps)
  have "(\<forall>d \<in> set (dependencies (history app ! k)). resolved_dependency d \<in> A) \<longleftrightarrow>
      (\<forall>d \<in> set (dependencies (history app ! k)). fst d \<in> set program_apps \<longrightarrow>
        (case resolved_dependency d of (b, n) \<Rightarrow> Suc (position (names b) n) \<le> pos b))"
  proof (rule ball_cong [OF refl])
    fix d assume d: "d \<in> set (dependencies (history app ! k))"
    show "resolved_dependency d \<in> A \<longleftrightarrow> (fst d \<in> set program_apps \<longrightarrow>
        (case resolved_dependency d of (b, n) \<Rightarrow> Suc (position (names b) n) \<le> pos b))"
    proof (cases "fst d \<in> set program_apps")
      case True
      then show ?thesis using one [OF True] by simp
    next
      case False
      then show ?thesis using other [of d] node_history(4) [OF app k d] by simp
    qed
  qed
  then show ?thesis unfolding met_def requires_def by (auto simp: case_prod_beta)
qed

lemma ready_iff:
  assumes placed: "placed D T A S pos" and fw: "framework_ready D T"
  shows "ready A m \<longleftrightarrow>
    (\<exists>app \<in> set program_apps. pos app < length (history app) \<and> m = history app ! pos app \<and> met pos app (pos app))"
proof
  assume "ready A m"
  then obtain app k where app: "app \<in> set program_apps" and k: "k < length (history app)" "m = history app ! k"
    and fresh: "node m \<notin> A" and deps: "\<forall>d \<in> set (dependencies m). resolved_dependency d \<in> A"
    by (auto simp: ready_def all_migrations_def in_set_conv_nth)
  have met: "met pos app k" using dependencies_met [OF placed fw app k(1)] deps k(2) by simp
  have "pos app \<le> k"
    using fresh node_history(1,2) [OF app k(1)] mem_placed [OF placed fw app] k(2) by simp
  moreover have "k = 0 \<or> k \<le> pos app"
    using node_history(3) [OF app k(1)] met by (auto simp: met_def)
  ultimately have "k = pos app" by auto
  then show "\<exists>app \<in> set program_apps. pos app < length (history app) \<and> m = history app ! pos app \<and> met pos app (pos app)"
    using app k met by blast
next
  assume "\<exists>app \<in> set program_apps. pos app < length (history app) \<and> m = history app ! pos app \<and> met pos app (pos app)"
  then obtain app where app: "app \<in> set program_apps" and k: "pos app < length (history app)"
    and m: "m = history app ! pos app" and met: "met pos app (pos app)" by blast
  have "m \<in> set all_migrations" using app nth_mem [OF k] m by (auto simp: all_migrations_def)
  moreover have "node m \<notin> A"
    using node_history(1,2) [OF app k] mem_placed [OF placed fw app] m by simp
  ultimately show "ready A m"
    using dependencies_met [OF placed fw app k] met m by (simp add: ready_def)
qed

lemma met_mono: "met pos app k \<Longrightarrow> (\<And>b. pos b \<le> pos' b) \<Longrightarrow> met pos' app k"
  unfolding met_def by (fastforce intro: order_trans)

text \<open>A migration that may run succeeds, and moves its application on by one.\<close>

lemma placed_run:
  assumes placed: "placed D T A S pos" and fw: "framework_ready D T" and app: "app \<in> set program_apps"
    and k: "pos app < length (history app)" and met: "met pos app (pos app)"
  shows "\<exists>S'. run_migration program_apps (history app ! pos app) S = Some S' \<and>
    placed D T (insert (node (history app ! pos app)) A) S' (pos(app := Suc (pos app)))"
proof -
  let ?m = "history app ! pos app" and ?pos = "pos(app := Suc (pos app))"
  obtain ts where ts: "checked_run app (relies app ! pos app) (operations ?m) (S app) = Some ts"
    and after: "after (take (Suc (pos app)) (history app)) [] = Some ts"
    using placed_stage(2) [OF placed app k] by blast
  have closed: "closed_positions pos" and resolve: "relations_resolve program_apps S"
    and auth: "S ''auth'' = T" using placed by (simp_all add: placed_def)
  have there: "there_for pos app u" if "u \<in> set (relies app ! pos app)" for u
    by (rule relied_offered [OF closed app k met that])
  have run: "run_operations program_apps app (operations ?m) S = Some (S(app := ts)) \<and>
      relations_resolve program_apps (S(app := ts))"
  proof (rule run_operations_checked [OF ts _ resolve app])
    show "b \<noteq> app \<and> available S ((b, m), cs)" if "((b, m), cs) \<in> set (relies app ! pos app)" for b m cs
      using there [OF that] there_available [OF placed fw there [OF that]] by (simp add: there_for_def)
    show "m \<in> set (wanted app)" if "b \<in> set program_apps" "b \<noteq> app" "(app, m) \<in> set (targets (S b))" for b m
      using placed_stage(1) [OF placed that(1)] that(2,3) by (auto simp: stage_ok_def list_all_iff)
  qed
  have node: "node ?m = (app, names app ! pos app)" "mig_app ?m = app"
    using node_history(1) [OF app k] names_nth [OF k] by (simp_all add: node_def)
  have "closed_positions ?pos"
    unfolding closed_positions_def
  proof (intro ballI conjI allI impI)
    fix b assume b: "b \<in> set program_apps"
    show "?pos b \<le> length (history b)" using closed b k by (auto simp: closed_positions_def)
    fix i assume "i < ?pos b"
    then have "met pos b i" using closed b met by (auto simp: closed_positions_def less_Suc_eq split: if_splits)
    then show "met ?pos b i" by (rule met_mono) simp
  qed
  moreover have "insert (node ?m) A = D \<union> {(b, n). b \<in> set program_apps \<and> n \<in> set (take (?pos b) (names b))}"
    using placed app k node(1) by (auto simp: placed_def take_Suc_conv_app_nth names_def split: if_splits)
  moreover have "\<forall>b \<in> set program_apps. after (take (?pos b) (history b)) [] = Some ((S(app := ts)) b)"
    using placed after by (simp add: placed_def)
  moreover have "(S(app := ts)) ''auth'' = T" using app auth auth_not_program by auto
  ultimately show ?thesis
    using run node(2) unfolding run_migration_def placed_def by auto
qed

lemma migrated_placed:
  assumes "migrated D T A S" and "framework_ready D T"
  shows "\<exists>pos. placed D T A S pos"
  using assms(1)
proof (induction rule: migrated.induct)
  case start
  have "placed D T D ((\<lambda>app. [])(''auth'' := T)) (\<lambda>app. 0)"
    using auth_not_program
    by (auto simp: placed_def closed_positions_def relations_resolve_def list_all_iff targets_def map_filter_simps)
  then show ?case by blast
next
  case (run A S m S')
  then obtain pos where placed: "placed D T A S pos" by blast
  from run.hyps(2) obtain app where app: "app \<in> set program_apps" "pos app < length (history app)"
    "m = history app ! pos app" "met pos app (pos app)"
    using ready_iff [OF placed assms(2)] by blast
  show ?case
    using placed_run [OF placed assms(2) app(1,2,4)] run.hyps(3) app(3) by auto
qed

section \<open>Progress\<close>

lemma met_when:
  "k < 4 \<Longrightarrow> k \<le> pos ''users'' \<Longrightarrow> met pos ''users'' k"
  "k < 10 \<Longrightarrow> k \<le> pos ''authentication'' \<Longrightarrow> 1 \<le> pos ''users'' \<Longrightarrow> 3 \<le> pos ''routes'' \<Longrightarrow>
     met pos ''authentication'' k"
  "k < 7 \<Longrightarrow> k \<le> pos ''routes'' \<Longrightarrow> 1 \<le> pos ''users'' \<Longrightarrow> met pos ''routes'' k"
  "k < 10 \<Longrightarrow> k \<le> pos ''routes'' \<Longrightarrow> 1 \<le> pos ''users'' \<Longrightarrow> 8 \<le> pos ''authentication'' \<Longrightarrow>
     4 \<le> pos ''analytics'' \<Longrightarrow> met pos ''routes'' k"
  "k < 6 \<Longrightarrow> k \<le> pos ''analytics'' \<Longrightarrow> 1 \<le> pos ''users'' \<Longrightarrow> 3 \<le> pos ''authentication'' \<Longrightarrow>
     1 \<le> pos ''routes'' \<Longrightarrow> (4 \<le> k \<Longrightarrow> 1 \<le> pos ''client_auth'') \<Longrightarrow> (5 \<le> k \<Longrightarrow> 9 \<le> pos ''routes'') \<Longrightarrow>
     met pos ''analytics'' k"
  "9 \<le> pos ''authentication'' \<Longrightarrow> met pos ''client_auth'' 0"
  by (auto simp: met_def nth_Cons')

lemma some_met:
  assumes closed: "closed_positions pos" and left: "\<exists>app \<in> set program_apps. pos app < length (history app)"
  shows "\<exists>app \<in> set program_apps. pos app < length (history app) \<and> met pos app (pos app)"
proof -
  have apps: "''users'' \<in> set program_apps" "''authentication'' \<in> set program_apps"
    "''routes'' \<in> set program_apps" "''analytics'' \<in> set program_apps" "''client_auth'' \<in> set program_apps"
    by (simp_all add: program_apps_def)
  note bounds = closed_bounds [OF closed]
  show ?thesis
  proof (rule ccontr)
    assume "\<not> (\<exists>app \<in> set program_apps. pos app < length (history app) \<and> met pos app (pos app))"
    then have stuck: "\<not> met pos app (pos app)" if "app \<in> set program_apps" "pos app < length (history app)" for app
      using that by blast
    have u: "4 \<le> pos ''users''"
      by (rule ccontr) (use stuck [OF apps(1)] met_when(1) [of "pos ''users''" pos] in simp)
    have r: "7 \<le> pos ''routes''"
      by (rule ccontr) (use stuck [OF apps(3)] met_when(3) [of "pos ''routes''" pos] u in simp)
    have a: "10 \<le> pos ''authentication''"
      by (rule ccontr) (use stuck [OF apps(2)] met_when(2) [of "pos ''authentication''" pos] u r in simp)
    have c: "1 \<le> pos ''client_auth''"
      using stuck [OF apps(5)] met_when(6) [of pos] a by (cases "pos ''client_auth'' = 0") simp_all
    have n: "4 \<le> pos ''analytics''"
      by (rule ccontr) (use stuck [OF apps(4)] met_when(5) [of "pos ''analytics''" pos] u r a c in simp)
    have r: "10 \<le> pos ''routes''"
      by (rule ccontr) (use stuck [OF apps(3)] met_when(4) [of "pos ''routes''" pos] u a n in simp)
    have "6 \<le> pos ''analytics''"
      by (rule ccontr) (use stuck [OF apps(4)] met_when(5) [of "pos ''analytics''" pos] u r a c in simp)
    then show False using left u r a c unfolding program_apps_def by simp
  qed
qed

definition complete :: "(string \<times> string) set \<Rightarrow> bool" where
  "complete A \<longleftrightarrow> (\<forall>m \<in> set all_migrations. node m \<in> A)"

lemma complete_positions:
  assumes placed: "placed D T A S pos" and fw: "framework_ready D T" and app: "app \<in> set program_apps"
    and all: "complete A"
  shows "pos app = length (history app)"
proof (rule ccontr)
  assume "pos app \<noteq> length (history app)"
  then have k: "pos app < length (history app)"
    using placed app by (auto simp: placed_def closed_positions_def le_less)
  then have "history app ! pos app \<in> set all_migrations"
    using app by (auto simp: all_migrations_def intro!: bexI [of _ app])
  then show False
    using all node_history(1,2) [OF app k] mem_placed [OF placed fw app] by (auto simp: complete_def)
qed

lemma incomplete_left:
  assumes placed: "placed D T A S pos" and fw: "framework_ready D T" and "\<not> complete A"
  shows "\<exists>app \<in> set program_apps. pos app < length (history app)"
proof -
  obtain app k where app: "app \<in> set program_apps" "k < length (history app)" "node (history app ! k) \<notin> A"
    using assms(3) unfolding complete_def all_migrations_def by (auto simp: in_set_conv_nth [of _ "history _"])
  then have "pos app \<le> k"
    using node_history(1,2) [OF app(1,2)] mem_placed [OF placed fw app(1)] by simp
  then show ?thesis using app by (intro bexI [of _ app]) simp_all
qed

lemma migrated_progress:
  assumes "migrated D T A S" and "framework_ready D T" and "\<not> complete A"
  shows "\<exists>m S'. ready A m \<and> run_migration program_apps m S = Some S'"
proof -
  obtain pos where placed: "placed D T A S pos" using migrated_placed [OF assms(1,2)] by blast
  obtain app where app: "app \<in> set program_apps" "pos app < length (history app)" "met pos app (pos app)"
    using some_met [OF _ incomplete_left [OF placed assms(2,3)]] placed unfolding placed_def by blast
  then show ?thesis using ready_iff [OF placed assms(2)] placed_run [OF placed assms(2) app] by blast
qed

lemma migrations_complete:
  assumes "migrated D T A S" and fw: "framework_ready D T"
  shows "\<exists>A' S'. migrated D T A' S' \<and> complete A'"
  using assms(1)
proof (induction "card {m \<in> set all_migrations. node m \<notin> A}" arbitrary: A S rule: less_induct)
  case less
  show ?case
  proof (cases "complete A")
    case True
    then show ?thesis using less.prems by blast
  next
    case False
    obtain m S' where m: "ready A m" "run_migration program_apps m S = Some S'"
      using migrated_progress [OF less.prems fw False] by blast
    have "{n \<in> set all_migrations. node n \<notin> insert (node m) A} \<subset> {n \<in> set all_migrations. node n \<notin> A}"
      using m(1) by (auto simp: ready_def)
    then have "card {n \<in> set all_migrations. node n \<notin> insert (node m) A} < card {n \<in> set all_migrations. node n \<notin> A}"
      by (rule psubset_card_mono [rotated]) simp
    then show ?thesis using less.hyps migrated.run [OF less.prems m] by blast
  qed
qed

section \<open>Rows against tables\<close>

text \<open>The cells of the rows of \<open>Models\<close> that take part in a unique constraint.\<close>

datatype cell = Key_Cell pk | Text_Cell string

definition user_cell :: "user \<Rightarrow> string \<Rightarrow> cell option" where
  "user_cell u c =
     (if c = ''username'' then Some (Text_Cell (usr_username u))
      else if c = ''email'' then Some (Text_Cell (usr_email u)) else None)"

definition project_cell :: "project \<Rightarrow> string \<Rightarrow> cell option" where
  "project_cell p c =
     (if c = ''name'' then Some (Text_Cell (prj_name p))
      else if c = ''slug'' then Some (Text_Cell (prj_slug p)) else None)"

definition api_key_cell :: "api_key \<Rightarrow> string \<Rightarrow> cell option" where
  "api_key_cell k c =
     (if c = ''application'' then Some (Key_Cell (key_application k))
      else if c = ''key_hash'' then Some (Text_Cell (key_hash k)) else None)"

definition application_cell :: "application \<Rightarrow> string \<Rightarrow> cell option" where
  "application_cell a c =
     (if c = ''project'' then Some (Key_Cell (app_project a))
      else if c = ''slug'' then Some (Text_Cell (app_slug a)) else None)"

definition permission_cell :: "route_permission \<Rightarrow> string \<Rightarrow> cell option" where
  "permission_cell p c =
     (if c = ''application'' then Some (Key_Cell (perm_application p))
      else if c = ''route'' then Some (Key_Cell (perm_route p)) else None)"

definition service_cell :: "backend_service \<Rightarrow> string \<Rightarrow> cell option" where
  "service_cell s c =
     (if c = ''project'' then Some (Key_Cell (svc_project s))
      else if c = ''slug'' then Some (Text_Cell (svc_slug s))
      else if c = ''name'' then Some (Text_Cell (svc_name s)) else None)"

definition route_cell :: "route \<Rightarrow> string \<Rightarrow> cell option" where
  "route_cell r c =
     (if c = ''project'' then Some (Key_Cell (rt_project r))
      else if c = ''base_path'' then Some (Text_Cell (rt_base_path r)) else None)"

definition route_method_cell :: "route_method \<Rightarrow> string \<Rightarrow> cell option" where
  "route_method_cell m c =
     (if c = ''route'' then Some (Key_Cell (rm_route m))
      else if c = ''method'' then Some (Text_Cell (rm_method m)) else None)"

definition client_cell :: "app_user \<Rightarrow> string \<Rightarrow> cell option" where
  "client_cell u c =
     (if c = ''application'' then Some (Key_Cell (cu_application u))
      else if c = ''email'' then Some (Text_Cell (cu_email u)) else None)"

text \<open>Two rows a table refuses to hold together: they agree on all cells of one of its keys.\<close>

definition key_clash :: "('r \<Rightarrow> string \<Rightarrow> cell option) \<Rightarrow> db_table \<Rightarrow> 'r \<Rightarrow> 'r \<Rightarrow> bool" where
  "key_clash cell t a b \<longleftrightarrow>
     list_ex (\<lambda>k. list_all (\<lambda>c. cell a c \<noteq> None \<and> cell a c = cell b c) k) (unique_keys t)"

definition enforces ::
  "tables \<Rightarrow> string \<Rightarrow> ('r \<Rightarrow> string \<Rightarrow> cell option) \<Rightarrow> ('r \<Rightarrow> 'r \<Rightarrow> bool) \<Rightarrow> bool" where
  "enforces ts m cell clash \<longleftrightarrow> (\<exists>t. map_of ts m = Some t \<and> (\<forall>a b. clash a b = key_clash cell t a b))"

lemma enforces_keys:
  assumes "as_declared app ts" and "keys_as_modelled ts" and "m \<in> set (map fst (declared_tables app))"
    and "\<And>a b. clash a b \<longleftrightarrow> list_ex (\<lambda>k. list_all (\<lambda>c. cell a c \<noteq> None \<and> cell a c = cell b c) k) (modelled_keys m)"
  shows "enforces ts m cell clash"
proof -
  have "m \<in> set (map fst ts)" using assms(1,3) by (simp add: as_declared_def)
  then obtain t where t: "map_of ts m = Some t"
    by (metis map_of_eq_None_iff not_None_eq set_map)
  then have "set (unique_keys t) = set (modelled_keys m)"
    using assms(2) map_of_SomeD [OF t] unfolding keys_as_modelled_def list_all_iff by fast
  then show ?thesis using t assms(4) by (auto simp: enforces_def key_clash_def list_ex_iff)
qed

lemmas cell_defs =
  user_cell_def project_cell_def api_key_cell_def application_cell_def permission_cell_def
  service_cell_def route_cell_def route_method_cell_def client_cell_def

section \<open>Properties\<close>

text \<open>The framework as the tests and the deployment have it: Django's own \<open>auth\<close> is migrated.\<close>

definition django_auth :: tables where
  "django_auth = [(''group'', new_table [] [] []), (''permission'', new_table [] [] [])]"

lemma django_ready: "framework_ready {framework_node} django_auth"
  by (simp add: framework_ready_def framework_node_def django_auth_def program_apps_def)





text \<open>
  C33: the constraints the data model relies on are the constraints the migrated tables have. For
  each of the nine tables, two rows clash in the sense of the model exactly when they agree on all
  columns of one of the unique columns, one-to-one relations, unique sets or named constraints that
  the migrations left on the table.
\<close>

theorem model_constraints_are_migrated:
  assumes "framework_ready D T" and "migrated D T A S" and "\<forall>m \<in> set all_migrations. node m \<in> A"
  shows "enforces (S ''users'') ''user'' user_cell user_clash
    \<and> enforces (S ''users'') ''project'' project_cell project_clash
    \<and> enforces (S ''authentication'') ''apikey'' api_key_cell api_key_clash
    \<and> enforces (S ''authentication'') ''application'' application_cell application_clash
    \<and> enforces (S ''authentication'') ''routepermission'' permission_cell permission_clash
    \<and> enforces (S ''routes'') ''backendservice'' service_cell service_clash
    \<and> enforces (S ''routes'') ''route'' route_cell route_clash
    \<and> enforces (S ''routes'') ''routemethod'' route_method_cell route_method_clash
    \<and> enforces (S ''client_auth'') ''applicationuser'' client_cell client_clash"
proof -
  obtain pos where placed: "placed D T A S pos" using migrated_placed [OF assms(2,1)] by blast
  have final: "as_declared app (S app) \<and> keys_as_modelled (S app)" if "app \<in> set program_apps" for app
    using placed_stage(3) [OF placed that] complete_positions [OF placed assms(1) that] assms(3)
    by (simp add: complete_def)
  note simps = program_apps_def declared_tables_def modelled_keys_def cell_defs clash_defs
  show ?thesis
    by (intro conjI; rule enforces_keys [OF conjunct1 [OF final] conjunct2 [OF final]])
       (auto simp: simps)
qed

theorem model_constraints_are_migrated_witness:
  "\<exists>A S. migrated {framework_node} django_auth A S \<and> enforces (S ''routes'') ''route'' route_cell route_clash"
proof -
  obtain A S where run: "migrated {framework_node} django_auth A S" and all: "complete A"
    using migrations_complete [OF migrated.start django_ready] by blast
  show ?thesis
    using model_constraints_are_migrated [OF django_ready run] run all unfolding complete_def by blast
qed

end
