(* ===== verification/Redis.thy ===== *)
theory Redis
  imports Settings "HOL-Library.AList"
begin

text \<open>
  The Redis server and the client connection. The server is not part of the repository: it is
  the parameter \<open>R\<close>, a record of the commands the Lua scripts and the cache call, and
  the locale \<open>redis_server\<close> states what Redis documents of them, against a reference store
  of live keys. The repository's own test double \<open>FakeRedisClient\<close>
  (\<open>apps/gateway/test_support.py\<close>) is translated at the end and interprets the locale.
\<close>

section \<open>Reference store\<close>

text \<open>A live key holds a string and, when \<open>EXPIRE\<close> or \<open>SET .. EX\<close> gave one, its expiry.\<close>

type_synonym store = "string \<rightharpoonup> string \<times> instant option"

datatype redis_error = ConnectionFailed | ResponseError

definition store_get :: "string \<Rightarrow> store \<Rightarrow> string option" where
  "store_get k m = map_option fst (m k)"

definition store_set_ex :: "instant \<Rightarrow> string \<Rightarrow> string \<Rightarrow> int \<Rightarrow> store \<Rightarrow> store" where
  "store_set_ex t k v ttl m = m(k \<mapsto> (v, Some (t + second * ttl)))"

definition store_incr :: "string \<Rightarrow> store \<Rightarrow> (redis_error + int) \<times> store" where
  "store_incr k m =
     (case m k of
        None \<Rightarrow> (Inr 1, m(k \<mapsto> (''1'', None)))
      | Some (v, e) \<Rightarrow>
          (case int_of_str v of
             None \<Rightarrow> (Inl ResponseError, m)
           | Some n \<Rightarrow> (Inr (n + 1), m(k \<mapsto> (str_of_int (n + 1), e)))))"

definition store_expire :: "instant \<Rightarrow> string \<Rightarrow> int \<Rightarrow> store \<Rightarrow> store" where
  "store_expire t k ttl m =
     (case m k of None \<Rightarrow> m | Some (v, _) \<Rightarrow> m(k \<mapsto> (v, Some (t + second * ttl))))"

definition store_del :: "string \<Rightarrow> store \<Rightarrow> store" where
  "store_del k m = m(k := None)"

text \<open>\<open>INCR\<close> is specified on keys that are absent or hold a printed integer.\<close>

definition holds_counter :: "string \<Rightarrow> store \<Rightarrow> bool" where
  "holds_counter k m =
     (case m k of
        None \<Rightarrow> True
      | Some (v, _) \<Rightarrow> (case int_of_str v of None \<Rightarrow> False | Some n \<Rightarrow> str_of_int n = v))"

text \<open>What remains of a store when the clock has moved to \<open>t\<close>.\<close>

fun aged_entry :: "instant \<Rightarrow> (string \<times> instant option) option \<Rightarrow> (string \<times> instant option) option" where
  "aged_entry t (Some (v, Some e)) = (if t < e then Some (v, Some e) else None)"
| "aged_entry t x = x"

definition aged :: "instant \<Rightarrow> store \<Rightarrow> store" where
  "aged t m = (\<lambda>k. aged_entry t (m k))"

lemma holds_counter_iff:
  "holds_counter k m \<longleftrightarrow> m k = None \<or> (\<exists>n e. m k = Some (str_of_int n, e))"
  by (auto simp: holds_counter_def split: option.splits)

lemma aged_entry_Some:
  "aged_entry t x = Some (v, e) \<longleftrightarrow> x = Some (v, e) \<and> (\<forall>d. e = Some d \<longrightarrow> t < d)"
  by (cases "(t, x)" rule: aged_entry.cases) auto

lemma aged_persistent: "m k = Some (v, None) \<Longrightarrow> aged t m k = Some (v, None)"
  by (simp add: aged_def)

lemma aged_None: "m k = None \<Longrightarrow> aged t m k = None"
  by (simp add: aged_def)

section \<open>The server interface\<close>

record 's redis =
  r_get :: "instant \<Rightarrow> string \<Rightarrow> 's \<Rightarrow> string option \<times> 's"
  r_set_ex :: "instant \<Rightarrow> string \<Rightarrow> string \<Rightarrow> int \<Rightarrow> 's \<Rightarrow> 's"
  r_incr :: "instant \<Rightarrow> string \<Rightarrow> 's \<Rightarrow> (redis_error + int) \<times> 's"
  r_expire :: "instant \<Rightarrow> string \<Rightarrow> int \<Rightarrow> 's \<Rightarrow> 's"
  r_del :: "instant \<Rightarrow> string \<Rightarrow> 's \<Rightarrow> 's"

text \<open>
  \<open>view s t\<close> is the store a server in state \<open>s\<close> shows at time \<open>t\<close>. Every command
  acts on the view as the reference store does, and time only lets keys expire.
\<close>

locale redis_server =
  fixes R :: "'s redis"
    and view :: "'s \<Rightarrow> instant \<Rightarrow> store"
    and invar :: "'s \<Rightarrow> bool"
  assumes view_live: "invar s \<Longrightarrow> view s t k = Some (v, Some e) \<Longrightarrow> t < e"
    and view_aged: "invar s \<Longrightarrow> t \<le> t' \<Longrightarrow> view s t' = aged t' (view s t)"
    and get_value: "invar s \<Longrightarrow> fst (r_get R t k s) = store_get k (view s t)"
    and get_view: "invar s \<Longrightarrow> view (snd (r_get R t k s)) t = view s t"
    and set_view: "invar s \<Longrightarrow> 0 < ttl \<Longrightarrow>
      view (r_set_ex R t k v ttl s) t = store_set_ex t k v ttl (view s t)"
    and incr_value: "invar s \<Longrightarrow> holds_counter k (view s t) \<Longrightarrow>
      fst (r_incr R t k s) = fst (store_incr k (view s t))"
    and incr_view: "invar s \<Longrightarrow> holds_counter k (view s t) \<Longrightarrow>
      view (snd (r_incr R t k s)) t = snd (store_incr k (view s t))"
    and expire_view: "invar s \<Longrightarrow> 0 < ttl \<Longrightarrow>
      view (r_expire R t k ttl s) t = store_expire t k ttl (view s t)"
    and del_view: "invar s \<Longrightarrow> view (r_del R t k s) t = store_del k (view s t)"
    and get_invar: "invar s \<Longrightarrow> invar (snd (r_get R t k s))"
    and set_invar: "invar s \<Longrightarrow> invar (r_set_ex R t k v ttl s)"
    and incr_invar: "invar s \<Longrightarrow> invar (snd (r_incr R t k s))"
    and expire_invar: "invar s \<Longrightarrow> invar (r_expire R t k ttl s)"
    and del_invar: "invar s \<Longrightarrow> invar (r_del R t k s)"
begin

lemmas server_values = get_value incr_value
lemmas server_views = get_view set_view incr_view expire_view del_view
lemmas server_invars = get_invar set_invar incr_invar expire_invar del_invar

lemma view_idem: "invar s \<Longrightarrow> aged t (view s t) = view s t"
  using view_aged [of s t t] by simp

end

section \<open>Calls over the network\<close>

text \<open>
  A call to the server may fail in two ways the caller cannot tell apart: the request never
  arrives, or it is executed and the reply is lost. \<open>net\<close> is the schedule of what
  happens to the next calls; an empty schedule delivers everything.
  \<open>pool\<close> is the \<open>lru_cache\<close> of \<open>_cached_client\<close>.
\<close>

datatype delivery = Delivered | Request_Lost | Reply_Lost

record 's client =
  server :: 's
  net :: "delivery list"
  pool :: "(string \<times> bool) list"

definition redis_call ::
    "('s \<Rightarrow> (redis_error + 'a) \<times> 's) \<Rightarrow> 's client \<Rightarrow> (redis_error + 'a) \<times> 's client" where
  "redis_call f c =
     (case net c of
        [] \<Rightarrow> (case f (server c) of (r, s) \<Rightarrow> (r, c\<lparr>server := s\<rparr>))
      | Delivered # n \<Rightarrow> (case f (server c) of (r, s) \<Rightarrow> (r, c\<lparr>server := s, net := n\<rparr>))
      | Request_Lost # n \<Rightarrow> (Inl ConnectionFailed, c\<lparr>net := n\<rparr>)
      | Reply_Lost # n \<Rightarrow> (Inl ConnectionFailed, c\<lparr>server := snd (f (server c)), net := n\<rparr>))"

definition get_call ::
    "'s redis \<Rightarrow> instant \<Rightarrow> string \<Rightarrow> 's client \<Rightarrow> (redis_error + string option) \<times> 's client" where
  "get_call R t k = redis_call (\<lambda>s. case r_get R t k s of (v, s') \<Rightarrow> (Inr v, s'))"

text \<open>
  \<open>apps/gateway/redis_client.py\<close>: the client is built once per address and reused; only a
  cluster client contacts the network while it is built, and an exception is not cached.
\<close>

definition cached_client ::
    "string \<Rightarrow> bool \<Rightarrow> 's client \<Rightarrow> (redis_error + unit) \<times> 's client" where
  "cached_client url clustered c =
     (let key = (url, clustered);
          stored = \<lambda>d. d\<lparr>pool := take 8 (key # filter (\<lambda>k. k \<noteq> key) (pool d))\<rparr>
      in if key \<in> set (pool c) \<or> \<not> clustered then (Inr (), stored c)
         else (case redis_call (\<lambda>s. (Inr (), s)) c of
                 (Inl e, c') \<Rightarrow> (Inl e, c')
               | (Inr _, c') \<Rightarrow> (Inr (), stored c')))"

definition get_redis_client ::
    "settings \<Rightarrow> string option \<Rightarrow> 's client \<Rightarrow> (redis_error + unit) \<times> 's client" where
  "get_redis_client S url =
     (let clustered = REDIS_CLUSTER_ENABLED S;
          address = (case url of
             Some u \<Rightarrow> if u \<noteq> [] then u
                        else (if clustered then REDIS_CLUSTER_URL S else REDIS_URL S)
           | None \<Rightarrow> if clustered then REDIS_CLUSTER_URL S else REDIS_URL S)
      in cached_client address clustered)"

lemma redis_call_server:
  "server (snd (redis_call f c)) = server c \<or> server (snd (redis_call f c)) = snd (f (server c))"
  by (auto simp: redis_call_def split: list.split delivery.split prod.split)

lemma redis_call_Inr:
  "redis_call f c = (Inr a, c') \<Longrightarrow> \<exists>s'. f (server c) = (Inr a, s') \<and> server c' = s'"
  by (auto simp: redis_call_def split: list.splits delivery.splits prod.splits)

lemma redis_call_reliable:
  "net c = [] \<Longrightarrow> redis_call f c = (fst (f (server c)), c\<lparr>server := snd (f (server c))\<rparr>)"
  by (simp add: redis_call_def split: prod.split)

lemma redis_call_net:
  "net (snd (redis_call f c)) = tl (net c)"
  by (auto simp: redis_call_def split: list.split delivery.split prod.split)

lemma redis_call_pool [simp]: "pool (snd (redis_call f c)) = pool c"
  by (auto simp: redis_call_def split: list.split delivery.split prod.split)

lemma redis_call_lost:
  "net c = Request_Lost # n \<or> net c = Reply_Lost # n \<Longrightarrow> fst (redis_call f c) = Inl ConnectionFailed"
  by (auto simp: redis_call_def)

lemma cached_client_server [simp]: "server (snd (cached_client u b c)) = server c"
  using redis_call_server [of "\<lambda>s. (Inr (), s)" c]
  by (auto simp: cached_client_def Let_def split: prod.split sum.split)

lemma get_redis_client_server [simp]: "server (snd (get_redis_client S url c)) = server c"
  by (simp add: get_redis_client_def Let_def)

lemma get_redis_client_same: "get_redis_client S url c = (r, c') \<Longrightarrow> server c' = server c"
  by (metis get_redis_client_server snd_conv)

lemma get_redis_client_reliable:
  "net c = [] \<Longrightarrow> fst (get_redis_client S url c) = Inr () \<and> net (snd (get_redis_client S url c)) = []"
  by (simp add: get_redis_client_def cached_client_def Let_def redis_call_reliable)

text \<open>Any property of the server that the executed command keeps, a call keeps, however it ends.\<close>

lemma redis_call_keeps:
  assumes "P (server c)" and "\<And>s. P s \<Longrightarrow> P (snd (f s))"
  shows "P (server (snd (redis_call f c)))"
  using assms redis_call_server [of f c] by metis

section \<open>The repository's test double\<close>

record fake =
  f_data :: "(string \<times> string) list"
  f_expires :: "(string \<times> instant) list"

definition empty_fake :: fake where
  "empty_fake = \<lparr>f_data = [], f_expires = []\<rparr>"

definition fake_read :: "instant \<Rightarrow> string \<Rightarrow> fake \<Rightarrow> string option \<times> fake" where
  "fake_read now k s =
     (let s' = (case map_of (f_expires s) k of
                  Some e \<Rightarrow> if e \<le> now
                            then \<lparr>f_data = AList.delete k (f_data s),
                                  f_expires = AList.delete k (f_expires s)\<rparr>
                            else s
                | None \<Rightarrow> s)
      in (map_of (f_data s') k, s'))"

definition fake_set :: "instant \<Rightarrow> string \<Rightarrow> string \<Rightarrow> int option \<Rightarrow> fake \<Rightarrow> fake" where
  "fake_set now k v ex s =
     \<lparr>f_data = AList.update k v (f_data s),
      f_expires = (case ex of
         Some n \<Rightarrow> AList.update k (now + second * n) (f_expires s)
       | None \<Rightarrow> AList.delete k (f_expires s))\<rparr>"

definition fake_delete :: "string \<Rightarrow> fake \<Rightarrow> fake" where
  "fake_delete k s =
     \<lparr>f_data = AList.delete k (f_data s), f_expires = AList.delete k (f_expires s)\<rparr>"

text \<open>The steps of \<open>eval\<close> on one key: read, add one and store; then set the expiry.\<close>

definition fake_incr :: "instant \<Rightarrow> string \<Rightarrow> fake \<Rightarrow> (redis_error + int) \<times> fake" where
  "fake_incr now k s =
     (case fake_read now k s of (value, s') \<Rightarrow>
        (case value of
           None \<Rightarrow> (Inr 1, s'\<lparr>f_data := AList.update k (str_of_int 1) (f_data s')\<rparr>)
         | Some v \<Rightarrow>
             (case py_int v of
                None \<Rightarrow> (Inl ResponseError, s')
              | Some n \<Rightarrow>
                  (Inr (n + 1), s'\<lparr>f_data := AList.update k (str_of_int (n + 1)) (f_data s')\<rparr>))))"

definition fake_expire :: "instant \<Rightarrow> string \<Rightarrow> int \<Rightarrow> fake \<Rightarrow> fake" where
  "fake_expire now k ttl s =
     (case fake_read now k s of
        (None, s') \<Rightarrow> s'
      | (Some _, s') \<Rightarrow> s'\<lparr>f_expires := AList.update k (now + second * ttl) (f_expires s')\<rparr>)"

definition fake_redis :: "fake redis" where
  "fake_redis =
     \<lparr>r_get = fake_read,
      r_set_ex = (\<lambda>now k v ttl. fake_set now k v (Some ttl)),
      r_incr = fake_incr,
      r_expire = fake_expire,
      r_del = (\<lambda>now k. fake_delete k)\<rparr>"

definition fake_view :: "fake \<Rightarrow> instant \<Rightarrow> store" where
  "fake_view s t k =
     (case map_of (f_data s) k of
        None \<Rightarrow> None
      | Some v \<Rightarrow>
          (case map_of (f_expires s) k of
             None \<Rightarrow> Some (v, None)
           | Some e \<Rightarrow> if e \<le> t then None else Some (v, Some e)))"

text \<open>Only stored keys have an expiry.\<close>

definition fake_ok :: "fake \<Rightarrow> bool" where
  "fake_ok s \<longleftrightarrow> (\<forall>(k, e) \<in> set (f_expires s). map_of (f_data s) k \<noteq> None)"

lemma fake_ok_dom: "fake_ok s \<longleftrightarrow> dom (map_of (f_expires s)) \<subseteq> dom (map_of (f_data s))"
  by (force simp: fake_ok_def dom_map_of_conv_image_fst map_of_eq_None_iff)

lemmas fake_maps = update_conv' delete_conv'

lemma fake_read_result:
  "fst (fake_read t k s) = store_get k (fake_view s t)"
  "fake_view (snd (fake_read t k s)) t = fake_view s t"
  by (auto simp: fake_read_def fake_view_def store_get_def Let_def fake_maps fun_eq_iff
      split: option.split)

lemma fake_read_ok: "fake_ok s \<Longrightarrow> fake_ok (snd (fake_read t k s))"
  by (auto simp: fake_read_def fake_ok_dom Let_def fake_maps split: option.split)

lemma fake_read_entry:
  assumes "fake_ok s"
  shows "map_of (f_data (snd (fake_read t k s))) k = map_option fst (fake_view s t k)"
    "map_of (f_expires (snd (fake_read t k s))) k = Option.bind (fake_view s t k) snd"
  using assms
  by (auto simp: fake_read_def fake_view_def fake_ok_dom Let_def fake_maps split: option.split)

lemma fake_incr_result:
  assumes "fake_ok s" and "holds_counter k (fake_view s t)"
  shows "fst (fake_incr t k s) = fst (store_incr k (fake_view s t))"
    and "fake_view (snd (fake_incr t k s)) t = snd (store_incr k (fake_view s t))"
proof -
  obtain val s' where r: "fake_read t k s = (val, s')" by force
  have val: "val = store_get k (fake_view s t)" and view: "fake_view s' t = fake_view s t"
    and data: "map_of (f_data s') k = map_option fst (fake_view s t k)"
    and exp: "map_of (f_expires s') k = Option.bind (fake_view s t k) snd"
    using fake_read_result [of t k s] fake_read_entry [OF assms(1), of t k] r by auto
  have upd: "fake_view (s'\<lparr>f_data := AList.update k v (f_data s')\<rparr>) t =
      (fake_view s t)(k \<mapsto> (v, Option.bind (fake_view s t k) snd))" for v
  proof (rule ext)
    fix j
    have live: "fake_view s t k = Some (u, Some d) \<Longrightarrow> t < d" for u d
      by (auto simp: fake_view_def split: option.splits if_splits)
    have "fake_view (s'\<lparr>f_data := AList.update k v (f_data s')\<rparr>) t k =
        Some (v, Option.bind (fake_view s t k) snd)"
      using exp live by (cases "fake_view s t k") (auto simp: fake_view_def fake_maps split: option.split)
    moreover have "j \<noteq> k \<Longrightarrow> fake_view (s'\<lparr>f_data := AList.update k v (f_data s')\<rparr>) t j = fake_view s' t j"
      by (simp add: fake_view_def fake_maps split: option.split)
    ultimately show "fake_view (s'\<lparr>f_data := AList.update k v (f_data s')\<rparr>) t j =
        ((fake_view s t)(k \<mapsto> (v, Option.bind (fake_view s t k) snd))) j"
      using view by auto
  qed
  have one: "str_of_int 1 = ''1''" by (simp add: str_of_int_def str_of_nat.simps digit_char_def)
  show "fst (fake_incr t k s) = fst (store_incr k (fake_view s t))"
    using assms(2) by (auto simp: fake_incr_def r val store_get_def store_incr_def holds_counter_iff)
  show "fake_view (snd (fake_incr t k s)) t = snd (store_incr k (fake_view s t))"
    using assms(2) by (auto simp: fake_incr_def r val store_get_def store_incr_def holds_counter_iff upd one)
qed

lemma fake_incr_ok: "fake_ok s \<Longrightarrow> fake_ok (snd (fake_incr t k s))"
  using fake_read_ok [of s t k]
  by (fastforce simp: fake_incr_def fake_ok_dom fake_maps dom_def split: prod.split option.split)

lemma fake_expire_view:
  assumes "fake_ok s" and "0 < ttl"
  shows "fake_view (fake_expire t k ttl s) t = store_expire t k ttl (fake_view s t)"
proof -
  obtain val s' where r: "fake_read t k s = (val, s')" by force
  have val: "val = map_option fst (fake_view s t k)" and view: "fake_view s' t = fake_view s t"
    and data: "map_of (f_data s') k = map_option fst (fake_view s t k)"
    using fake_read_result [of t k s] fake_read_entry [OF assms(1), of t k] r
    by (auto simp: store_get_def)
  show ?thesis
  proof (cases "fake_view s t k")
    case None
    then show ?thesis by (simp add: fake_expire_def r val view store_expire_def)
  next
    case (Some p)
    let ?s = "s'\<lparr>f_expires := AList.update k (t + second * ttl) (f_expires s')\<rparr>"
    have "fake_view ?s t k = Some (fst p, Some (t + second * ttl))"
      using data Some assms(2) by (simp add: fake_view_def fake_maps)
    moreover have "j \<noteq> k \<Longrightarrow> fake_view ?s t j = fake_view s' t j" for j
      by (simp add: fake_view_def fake_maps split: option.split)
    ultimately have "fake_view ?s t = (fake_view s t)(k \<mapsto> (fst p, Some (t + second * ttl)))"
      using view by (auto simp: fun_eq_iff)
    with Some show ?thesis
      by (auto simp: fake_expire_def r val store_expire_def split: prod.split)
  qed
qed

lemma fake_expire_ok: "fake_ok s \<Longrightarrow> fake_ok (fake_expire t k ttl s)"
proof -
  assume ok: "fake_ok s"
  obtain val s' where r: "fake_read t k s = (val, s')" by force
  have ok': "fake_ok s'" and data: "map_of (f_data s') k = val"
    using fake_read_ok [OF ok, of t k] fake_read_entry(1) [OF ok, of t k]
      fake_read_result(1) [of t k s] r by (auto simp: store_get_def)
  then show ?thesis
    by (cases val) (auto simp: fake_expire_def r fake_ok_dom fake_maps)
qed

lemma fake_set_view:
  "0 < ttl \<Longrightarrow> fake_view (fake_set t k v (Some ttl) s) t = store_set_ex t k v ttl (fake_view s t)"
  by (auto simp: fake_set_def fake_view_def store_set_ex_def fake_maps fun_eq_iff not_le
      split: option.split)

lemma fake_set_ok: "fake_ok s \<Longrightarrow> fake_ok (fake_set t k v ex s)"
  by (auto simp: fake_set_def fake_ok_dom fake_maps split: option.split)

lemma fake_delete_view: "fake_view (fake_delete k s) t = store_del k (fake_view s t)"
  by (auto simp: fake_delete_def fake_view_def store_del_def fake_maps fun_eq_iff split: option.split)

lemma fake_delete_ok: "fake_ok s \<Longrightarrow> fake_ok (fake_delete k s)"
  by (auto simp: fake_delete_def fake_ok_dom fake_maps)

lemma fake_view_aged: "t \<le> t' \<Longrightarrow> fake_view s t' = aged t' (fake_view s t)"
  by (auto simp: aged_def fake_view_def fun_eq_iff split: option.split)

interpretation fake: redis_server fake_redis fake_view fake_ok
proof
  show "fake_ok s \<Longrightarrow> fake_view s t k = Some (v, Some e) \<Longrightarrow> t < e" for s t k v e
    by (auto simp: fake_view_def split: option.splits if_splits)
qed (simp_all add: fake_redis_def fake_view_aged fake_read_result fake_read_ok fake_set_view
    fake_set_ok fake_incr_result fake_incr_ok fake_expire_view fake_expire_ok
    fake_delete_view fake_delete_ok)

lemma empty_fake_ok: "fake_ok empty_fake" "fake_view empty_fake t = Map.empty"
  by (simp_all add: empty_fake_def fake_ok_def fake_view_def fun_eq_iff)

end
