(* ===== verification/Paths.thy ===== *)
theory Paths
  imports Models
begin

text \<open>
  How the gateway reads a request path: \<open>RouteResolver.normalize_path\<close> and the base path of
  \<open>get_route_for_request\<close> (\<open>apps/gateway/services.py\<close>), the Redis keys of a route
  (\<open>_keys\<close> in \<open>apps/gateway/route_cache.py\<close>), the destination URL
  (\<open>GatewayRequestPreview.build_target_url\<close>) and the admin check on a new base path
  (\<open>RouteSerializer.validate_base_path\<close>).
\<close>

section \<open>Definitions\<close>

definition is_slash :: "char \<Rightarrow> bool" where
  "is_slash c \<longleftrightarrow> c = CHR ''/''"

definition normalize_path :: "string \<Rightarrow> string" where
  "normalize_path path = (if path \<noteq> [] then CHR ''/'' # strip is_slash path else ''/'')"

definition request_base_path :: "string \<Rightarrow> string" where
  "request_base_path path =
     CHR ''/'' # hd (split_on (CHR ''/'') (strip is_slash (normalize_path path)))"

definition cache_keys :: "pk \<Rightarrow> string \<Rightarrow> exn + (string \<times> string)" where
  "cache_keys project_id base_path =
     (let suffix = lstrip is_slash base_path
      in if suffix = [] \<or> CHR ''/'' \<in> set suffix then Inl ValueError
         else Inr (''routeversion:{'' @ str_of_int project_id @ ''}:'' @ suffix,
                   ''route:{'' @ str_of_int project_id @ ''}:'' @ suffix))"

definition build_target_url :: "string \<Rightarrow> string \<Rightarrow> string \<Rightarrow> exn + string" where
  "build_target_url route_base_path service_base_url route_path =
     (let normalized_route = normalize_path route_base_path;
          normalized_request = normalize_path route_path
      in if normalized_request \<noteq> normalized_route
            \<and> \<not> startswith normalized_request (normalized_route @ ''/'')
         then Inl ValueError
         else Inr (rstrip is_slash service_base_url @ normalized_request))"

definition contains :: "string \<Rightarrow> string \<Rightarrow> bool" where
  "contains s w \<longleftrightarrow> list_ex (\<lambda>i. startswith (drop i s) w) [0..<Suc (length s)]"

definition validate_base_path :: "string \<Rightarrow> exn + string" where
  "validate_base_path value =
     (if value = ''/'' \<or> count_char (CHR ''/'') value \<noteq> 1
      then Inl (ValidationError ''Use a single-segment base path such as /doctors or /patients.'')
      else if \<not> startswith value ''/'' \<or> contains value ''//''
              \<or> CHR ''?'' \<in> set value \<or> CHR ''#'' \<in> set value
      then Inl (ValidationError ''Use a clean absolute API prefix such as /doctors.'')
      else if value \<noteq> ''/'' \<and> endswith value ''/''
      then Inl (ValidationError ''Do not include a trailing slash.'')
      else if char_of (92::nat) \<in> set value \<or> list_ex (\<lambda>c. code c < 33 \<or> code c = 127) value
      then Inl (ValidationError ''Invalid path characters.'')
      else if list_ex (\<lambda>part. part = ''.'' \<or> part = ''..'') (split_on (CHR ''/'') value)
      then Inl (ValidationError ''Dot segments are not allowed.'')
      else Inr value)"

section \<open>Normal forms\<close>

lemma strip_slash_Cons [simp]: "strip is_slash (CHR ''/'' # s) = strip is_slash s"
  by (simp add: strip_def lstrip_def is_slash_def)

lemma strip_normalize [simp]: "strip is_slash (normalize_path p) = strip is_slash p"
  by (simp add: normalize_path_def)

lemma normalize_path_eq: "normalize_path p = CHR ''/'' # strip is_slash p"
  by (simp add: normalize_path_def strip_def lstrip_def)

lemma normalize_segment:
  "CHR ''/'' \<notin> set w \<Longrightarrow> normalize_path (CHR ''/'' # w) = CHR ''/'' # w"
proof -
  assume w: "CHR ''/'' \<notin> set w"
  have "strip is_slash w = w"
  proof (rule strip_id)
    show "w = [] \<or> \<not> is_slash (hd w) \<and> \<not> is_slash (last w)"
      using w unfolding is_slash_def by (metis hd_in_set last_in_set)
  qed
  then show ?thesis by (simp add: normalize_path_eq)
qed

lemma request_base_path_eq:
  "request_base_path p = CHR ''/'' # takeWhile (\<lambda>c. c \<noteq> CHR ''/'') (strip is_slash p)"
  by (simp add: request_base_path_def hd_split_on)

lemma request_base_path_segment:
  "\<exists>w. request_base_path p = CHR ''/'' # w \<and> CHR ''/'' \<notin> set w"
  unfolding request_base_path_eq by (auto dest: set_takeWhileD)

lemma request_base_path_one_segment:
  "request_base_path p \<noteq> ''/'' \<Longrightarrow> one_segment (request_base_path p)"
  using request_base_path_segment [of p] by (auto simp: one_segment_iff)

lemma lstrip_segment:
  "CHR ''/'' \<notin> set w \<Longrightarrow> lstrip is_slash (CHR ''/'' # w) = w"
  by (cases w) (auto simp: lstrip_def is_slash_def)

lemma cache_keys_segment:
  assumes "w \<noteq> []" and "CHR ''/'' \<notin> set w"
  shows "cache_keys i (CHR ''/'' # w) =
      Inr (''routeversion:{'' @ str_of_int i @ ''}:'' @ w, ''route:{'' @ str_of_int i @ ''}:'' @ w)"
  using assms by (simp add: cache_keys_def lstrip_segment)

lemma cache_keys_one_segment:
  "one_segment b \<Longrightarrow> cache_keys i b =
     Inr (''routeversion:{'' @ str_of_int i @ ''}:'' @ tl b, ''route:{'' @ str_of_int i @ ''}:'' @ tl b)"
  by (auto simp: one_segment_iff cache_keys_segment)

lemma request_extends_base:
  "normalize_path p = request_base_path p \<or> startswith (normalize_path p) (request_base_path p @ ''/'')"
proof -
  let ?s = "strip is_slash p" and ?P = "\<lambda>c. c \<noteq> CHR ''/''"
  have s: "?s = takeWhile ?P ?s @ dropWhile ?P ?s" by simp
  show ?thesis
  proof (cases "dropWhile ?P ?s")
    case Nil
    with s have "?s = takeWhile ?P ?s" by (metis append_Nil2)
    then show ?thesis unfolding normalize_path_eq request_base_path_eq by argo
  next
    case (Cons c r)
    then have "c = CHR ''/''" using hd_dropWhile [of ?P ?s] by auto
    with Cons s have "?s = takeWhile ?P ?s @ ''/'' @ r" by simp
    then have "normalize_path p = (request_base_path p @ ''/'') @ r"
      by (simp add: normalize_path_eq request_base_path_eq)
    then show ?thesis by (metis startswith_append)
  qed
qed

lemma build_target_resolved:
  "build_target_url (request_base_path path) url path = Inr (rstrip is_slash url @ normalize_path path)"
proof -
  have "normalize_path (request_base_path path) = request_base_path path"
    using request_base_path_segment [of path] normalize_segment by auto
  then show ?thesis
    using request_extends_base [of path] by (auto simp: build_target_url_def Let_def)
qed

section \<open>Keys\<close>

text \<open>The part of a Redis Cluster key that decides its slot: between the first braces.\<close>

definition hash_tag :: "string \<Rightarrow> string" where
  "hash_tag k =
     takeWhile (\<lambda>c. c \<noteq> CHR ''}'') (drop 1 (dropWhile (\<lambda>c. c \<noteq> CHR ''{'') k))"

lemma brace_not_digit [simp]: "\<not> is_digit (CHR ''}'')"
  by (simp add: is_digit_def code_def)

lemma brace_not_in_int [simp]: "CHR ''}'' \<notin> set (str_of_int i)"
  by (simp add: str_of_int_sep)

lemma cache_keys_distinct:
  assumes "one_segment b" and "one_segment b'"
    and "cache_keys i b = Inr (v, k)" and "cache_keys i' b' = Inr (v', k')"
  shows "k = k' \<longleftrightarrow> i = i' \<and> b = b'" and "v = v' \<longleftrightarrow> i = i' \<and> b = b'" and "v \<noteq> k'"
proof -
  obtain w where b: "b = CHR ''/'' # w" using assms(1) by (auto simp: one_segment_iff)
  obtain w' where b': "b' = CHR ''/'' # w'" using assms(2) by (auto simp: one_segment_iff)
  have v: "v = ''routeversion:{'' @ str_of_int i @ ''}:'' @ w" "k = ''route:{'' @ str_of_int i @ ''}:'' @ w"
    using assms(1,3) by (simp_all add: cache_keys_one_segment b)
  have v': "v' = ''routeversion:{'' @ str_of_int i' @ ''}:'' @ w'" "k' = ''route:{'' @ str_of_int i' @ ''}:'' @ w'"
    using assms(2,4) by (simp_all add: cache_keys_one_segment b')
  have inj: "str_of_int i @ ''}:'' @ w = str_of_int i' @ ''}:'' @ w' \<longleftrightarrow> i = i' \<and> w = w'"
    using str_of_int_append_inject [of i "CHR ''}''" "CHR '':'' # w" i' "CHR '':'' # w'"]
    by (auto simp: is_digit_def code_def)
  then show "k = k' \<longleftrightarrow> i = i' \<and> b = b'" "v = v' \<longleftrightarrow> i = i' \<and> b = b'" "v \<noteq> k'"
    by (auto simp: v v' b b')
qed

section \<open>Properties\<close>

text \<open>
  Normalising a path twice is normalising it once, the result starts with a slash, does not
  end with one unless it is the root, and a base path is its own normal form.
\<close>

lemma normalize_path_canonical:
  "normalize_path (normalize_path p) = normalize_path p
   \<and> startswith (normalize_path p) ''/''
   \<and> (normalize_path p = ''/'' \<or> \<not> endswith (normalize_path p) ''/'')
   \<and> normalize_path (request_base_path p) = request_base_path p"
proof -
  have "normalize_path p = ''/'' \<or> \<not> endswith (normalize_path p) ''/''"
  proof (cases "strip is_slash p = []")
    case False
    then have "last (strip is_slash p) \<noteq> CHR ''/''"
      using strip_ends [of is_slash p] by (simp add: is_slash_def)
    with False show ?thesis
      by (cases "strip is_slash p" rule: rev_cases) (auto simp: normalize_path_eq endswith_def)
  qed (simp add: normalize_path_eq)
  moreover have "normalize_path (request_base_path p) = request_base_path p"
    using request_base_path_segment [of p] normalize_segment by auto
  ultimately show ?thesis by (simp add: normalize_path_eq startswith_def)
qed

text \<open>
  Whatever the request path, if the resolver looks a base path up at all then the base path
  is one that a route may be stored under, the cache keys exist, and the destination of a route
  found under it is the service's origin followed by the normalised request path: no
  \<open>ValueError\<close> can come out of key or URL construction on the gateway's path.
\<close>

lemma resolved_path_builds:
  assumes "request_base_path path \<noteq> ''/''"
  shows "one_segment (request_base_path path)
    \<and> is_ok (cache_keys pid (request_base_path path))
    \<and> build_target_url (request_base_path path) url path
        = Inr (rstrip is_slash url @ normalize_path path)"
  using request_base_path_one_segment [OF assms] build_target_resolved [of path url]
  by (simp add: cache_keys_one_segment)

text \<open>
  Two projects, or two base paths, never share a cache entry: the data key determines the
  project and the base path, a version key is never a data key, and both keys of a route carry
  the same cluster hash tag, the project id.
\<close>

lemma cache_keys_separate:
  assumes "one_segment b" and "one_segment b'"
    and "cache_keys i b = Inr (v, k)" and "cache_keys i' b' = Inr (v', k')"
  shows "(k = k' \<longleftrightarrow> i = i' \<and> b = b') \<and> (v = v' \<longleftrightarrow> i = i' \<and> b = b') \<and> v \<noteq> k'
    \<and> hash_tag v = str_of_int i \<and> hash_tag k = str_of_int i"
  using cache_keys_distinct [OF assms] cache_keys_one_segment [OF assms(1), of i] assms(3)
  by (auto simp: hash_tag_def)

text \<open>
  a base path the admin API accepts may be stored (\<open>Route.save\<close> takes it), is the base
  path the resolver computes for it, with or without a trailing slash and for every longer
  request below it, and holds no query, fragment, backslash or control character.
\<close>

lemma accepted_base_path_reachable:
  assumes "validate_base_path b = Inr b'"
  shows "b' = b \<and> one_segment b \<and> request_base_path b = b
    \<and> request_base_path (b @ ''/'' @ rest) = b
    \<and> list_all (\<lambda>c. 33 \<le> code c \<and> code c \<noteq> 127 \<and> c \<noteq> CHR ''?'' \<and> c \<noteq> CHR ''#'') b
    \<and> tl b \<notin> {''.'', ''..''}"
proof -
  from assms have b': "b' = b" and ne: "b \<noteq> ''/''" and one: "count_char (CHR ''/'') b = 1"
    and st: "startswith b ''/''" and q: "CHR ''?'' \<notin> set b" "CHR ''#'' \<notin> set b"
    and c: "\<not> list_ex (\<lambda>c. code c < 33 \<or> code c = 127) b"
    and dots: "\<not> list_ex (\<lambda>part. part = ''.'' \<or> part = ''..'') (split_on (CHR ''/'') b)"
    by (auto simp: validate_base_path_def split: if_splits)
  have seg: "one_segment b" using ne one st by (auto simp: one_segment_def count_char_def)
  then obtain w where w: "b = CHR ''/'' # w" "w \<noteq> []" "CHR ''/'' \<notin> set w"
    by (auto simp: one_segment_iff)
  have sw: "strip is_slash (w @ r) = w @ rstrip is_slash r" if "r = [] \<or> hd r = CHR ''/''" for r
  proof -
    have l: "lstrip is_slash (w @ r) = w @ r" using w(2,3) by (cases w) (auto simp: lstrip_def is_slash_def)
    have "\<not> list_all is_slash (rev w) \<and> last w \<noteq> CHR ''/''" 
      using w(2,3) by (metis is_slash_def last_in_set list_all_iff set_rev)
    then have "dropWhile is_slash (rev w) = rev w"
      using w(2) by (cases w rule: rev_cases) (auto simp: is_slash_def)
    then have "rstrip is_slash (w @ r) = w @ rstrip is_slash r"
      using w(2) by (auto simp: rstrip_def dropWhile_append)
    with l show ?thesis by (simp add: strip_def)
  qed
  have tw: "takeWhile (\<lambda>c. c \<noteq> CHR ''/'') (w @ rstrip is_slash (CHR ''/'' # rest)) = w" for rest
  proof (cases "rstrip is_slash (CHR ''/'' # rest)")
    case Nil
    then show ?thesis using w(3) by simp
  next
    case (Cons a r)
    obtain t where "CHR ''/'' # rest = rstrip is_slash (CHR ''/'' # rest) @ t"
      using rstrip_prefix by blast
    with Cons have "a = CHR ''/''" by simp
    with Cons w(3) show ?thesis by simp
  qed
  have "request_base_path b = b"
    using sw [of "[]"] w(3) by (simp add: request_base_path_eq w(1))
  moreover have "request_base_path (b @ ''/'' @ rest) = b"
    using sw [of "CHR ''/'' # rest"] tw [of rest] by (simp add: request_base_path_eq w(1))
  moreover have "tl b \<notin> {''.'', ''..''}"
    using dots w by (simp add: split_on_single)
  ultimately show ?thesis using b' seg q c by (auto simp: list_all_iff list_ex_iff not_less)
qed

end
