(* ===== verification/Json.thy ===== *)
theory Json
  imports PyStr
begin

text \<open>
  The standard library's \<open>json\<close> module as the gateway uses it: \<open>dumps\<close> with its default
  options and \<open>loads\<close>, on values whose strings stay below code point 256. A float is kept as
  its literal. An object is the list of its members in insertion order; reading a repeated member
  name overwrites the earlier value, as a \<open>dict\<close> does.
\<close>

section \<open>Values\<close>

datatype json =
    JNull
  | JBool bool
  | JInt int
  | JFloat string
  | JStr string
  | JList "json list"
  | JObj "(string \<times> json) list"

fun jget :: "string \<Rightarrow> json \<Rightarrow> json option" where
  "jget k (JObj ms) = map_of ms k"
| "jget k _ = None"

section \<open>Writing\<close>

definition hex_digit :: "nat \<Rightarrow> char" where
  "hex_digit n = ''0123456789abcdef'' ! n"

definition quote_char :: char where "quote_char = CHR 0x22"
definition backslash :: char where "backslash = CHR 0x5C"

definition escape_char :: "char \<Rightarrow> string" where
  "escape_char c =
     (let n = code c
      in if c = quote_char \<or> c = backslash then [backslash, c]
         else if n = 10 then [backslash, CHR ''n'']
         else if n = 13 then [backslash, CHR ''r'']
         else if n = 9 then [backslash, CHR ''t'']
         else if n = 12 then [backslash, CHR ''f'']
         else if n = 8 then [backslash, CHR ''b'']
         else if n < 32 \<or> 126 < n
         then [backslash, CHR ''u'', CHR ''0'', CHR ''0'', hex_digit (n div 16), hex_digit (n mod 16)]
         else [c])"

definition dump_string :: "string \<Rightarrow> string" where
  "dump_string s = quote_char # concat (map escape_char s) @ [quote_char]"

fun dumps :: "json \<Rightarrow> string" where
  "dumps JNull = ''null''"
| "dumps (JBool b) = (if b then ''true'' else ''false'')"
| "dumps (JInt i) = str_of_int i"
| "dumps (JFloat s) = s"
| "dumps (JStr s) = dump_string s"
| "dumps (JList []) = ''[]''"
| "dumps (JList (x # xs)) =
     CHR ''['' # dumps x @ concat (map (\<lambda>y. '', '' @ dumps y) xs) @ '']''"
| "dumps (JObj []) = ''{}''"
| "dumps (JObj ((k, v) # ms)) =
     CHR ''{'' # dump_string k @ '': '' @ dumps v
       @ concat (map (\<lambda>(k, v). '', '' @ dump_string k @ '': '' @ dumps v) ms) @ ''}''"

section \<open>Reading\<close>

definition json_ws :: "char \<Rightarrow> bool" where
  "json_ws c \<longleftrightarrow> code c \<in> {32, 9, 10, 13}"

definition skip_ws :: "string \<Rightarrow> string" where
  "skip_ws s = dropWhile json_ws s"

definition hex_val :: "char \<Rightarrow> nat option" where
  "hex_val c =
     (let n = code c
      in if 48 \<le> n \<and> n \<le> 57 then Some (n - 48)
         else if 97 \<le> n \<and> n \<le> 102 then Some (n - 87)
         else if 65 \<le> n \<and> n \<le> 70 then Some (n - 55)
         else None)"

definition simple_escape :: "char \<Rightarrow> char option" where
  "simple_escape c =
     (if c = quote_char \<or> c = backslash \<or> c = CHR ''/'' then Some c
      else if c = CHR ''n'' then Some (CHR 0x0A)
      else if c = CHR ''r'' then Some (CHR 0x0D)
      else if c = CHR ''t'' then Some (CHR 0x09)
      else if c = CHR ''f'' then Some (CHR 0x0C)
      else if c = CHR ''b'' then Some (CHR 0x08)
      else None)"

definition unicode_escape :: "char \<Rightarrow> char \<Rightarrow> char \<Rightarrow> char \<Rightarrow> char option" where
  "unicode_escape a b c d =
     (case (hex_val a, hex_val b, hex_val c, hex_val d) of
        (Some i, Some j, Some k, Some l) \<Rightarrow>
          if i = 0 \<and> j = 0 then Some (char_of (16 * k + l)) else None
      | _ \<Rightarrow> None)"

definition push_char :: "char option \<Rightarrow> (string \<times> string) option \<Rightarrow> (string \<times> string) option" where
  "push_char x r =
     (case (x, r) of (Some c, Some (s, rest)) \<Rightarrow> Some (c # s, rest) | _ \<Rightarrow> None)"

text \<open>The characters of a string after its opening quote, and what follows the closing one.\<close>

fun parse_chars :: "string \<Rightarrow> (string \<times> string) option" where
  "parse_chars [] = None"
| "parse_chars (c # r) =
     (if c = quote_char then Some ([], r)
      else if c = backslash
      then (case r of
              [] \<Rightarrow> None
            | e # r1 \<Rightarrow>
                if e = CHR ''u''
                then (case r1 of
                        a # b # c' # d # r2 \<Rightarrow> push_char (unicode_escape a b c' d) (parse_chars r2)
                      | _ \<Rightarrow> None)
                else push_char (simple_escape e) (parse_chars r1))
      else if code c < 32 then None
      else push_char (Some c) (parse_chars r))"

text \<open>\<open>(-?(?:0|[1-9][0-9]*))(\.[0-9]+)?([eE][-+]?[0-9]+)?\<close>\<close>

definition digits_prefix :: "string \<Rightarrow> string" where
  "digits_prefix s = takeWhile is_digit s"

definition int_part :: "string \<Rightarrow> string option" where
  "int_part s =
     (let (sign, r) = (if startswith s ''-'' then (''-'', drop 1 s) else ([], s))
      in if startswith r ''0'' then Some (sign @ ''0'')
         else if digits_prefix r \<noteq> [] then Some (sign @ digits_prefix r)
         else None)"

definition frac_part :: "string \<Rightarrow> string" where
  "frac_part s =
     (if startswith s ''.'' \<and> digits_prefix (drop 1 s) \<noteq> [] then ''.'' @ digits_prefix (drop 1 s) else [])"

definition exp_part :: "string \<Rightarrow> string" where
  "exp_part s =
     (if startswith s ''e'' \<or> startswith s ''E''
      then (let r = drop 1 s;
                sign = (if startswith r ''-'' \<or> startswith r ''+'' then take 1 r else []);
                ds = digits_prefix (drop (length sign) r)
            in if ds \<noteq> [] then take 1 s @ sign @ ds else [])
      else [])"

definition parse_number :: "string \<Rightarrow> (json \<times> string) option" where
  "parse_number s =
     (case int_part s of
        None \<Rightarrow> None
      | Some i \<Rightarrow>
          (let r1 = drop (length i) s; f = frac_part r1;
               r2 = drop (length f) r1; e = exp_part r2;
               r3 = drop (length e) r2
           in if f = [] \<and> e = []
              then map_option (\<lambda>n. (JInt n, r3)) (int_of_str i)
              else Some (JFloat (i @ f @ e), r3)))"

text \<open>A later member of the same name replaces the value and keeps the earlier position.\<close>

fun put_member :: "string \<Rightarrow> json \<Rightarrow> (string \<times> json) list \<Rightarrow> (string \<times> json) list" where
  "put_member k v [] = [(k, v)]"
| "put_member k v ((k', v') # ms) =
     (if k = k' then (k, v) # ms else (k', v') # put_member k v ms)"

definition parse_literal :: "string \<Rightarrow> (json \<times> string) option" where
  "parse_literal s =
     (if startswith s ''null'' then Some (JNull, drop 4 s)
      else if startswith s ''true'' then Some (JBool True, drop 4 s)
      else if startswith s ''false'' then Some (JBool False, drop 5 s)
      else if parse_number s \<noteq> None then parse_number s
      else if startswith s ''NaN'' then Some (JFloat ''NaN'', drop 3 s)
      else if startswith s ''Infinity'' then Some (JFloat ''Infinity'', drop 8 s)
      else if startswith s ''-Infinity'' then Some (JFloat ''-Infinity'', drop 9 s)
      else None)"

text \<open>The nesting depth and the length of a text are bounded by its length, which is the fuel.\<close>

fun parse_value :: "nat \<Rightarrow> string \<Rightarrow> (json \<times> string) option"
  and parse_items :: "nat \<Rightarrow> json list \<Rightarrow> string \<Rightarrow> (json \<times> string) option"
  and parse_members :: "nat \<Rightarrow> (string \<times> json) list \<Rightarrow> string \<Rightarrow> (json \<times> string) option" where
  "parse_value 0 s = None"
| "parse_value (Suc n) s =
     (case s of
        [] \<Rightarrow> None
      | c # r \<Rightarrow>
          if c = quote_char
          then (case parse_chars r of None \<Rightarrow> None | Some (w, r1) \<Rightarrow> Some (JStr w, r1))
          else if c = CHR ''{''
          then (if startswith (skip_ws r) ''}'' then Some (JObj [], drop 1 (skip_ws r))
                else parse_members n [] (skip_ws r))
          else if c = CHR ''[''
          then (if startswith (skip_ws r) '']'' then Some (JList [], drop 1 (skip_ws r))
                else parse_items n [] (skip_ws r))
          else parse_literal s)"
| "parse_items 0 acc s = None"
| "parse_items (Suc n) acc s =
     (case parse_value n s of
        None \<Rightarrow> None
      | Some (v, r) \<Rightarrow>
          (case skip_ws r of
             [] \<Rightarrow> None
           | c # r1 \<Rightarrow>
               if c = CHR '']'' then Some (JList (acc @ [v]), r1)
               else if c = CHR '','' then parse_items n (acc @ [v]) (skip_ws r1)
               else None))"
| "parse_members 0 acc s = None"
| "parse_members (Suc n) acc s =
     (if \<not> startswith s [quote_char] then None
      else case parse_chars (drop 1 s) of
             None \<Rightarrow> None
           | Some (k, r) \<Rightarrow>
               if \<not> startswith (skip_ws r) '':'' then None
               else (case parse_value n (skip_ws (drop 1 (skip_ws r))) of
                       None \<Rightarrow> None
                     | Some (v, r1) \<Rightarrow>
                         (case skip_ws r1 of
                            [] \<Rightarrow> None
                          | c # r2 \<Rightarrow>
                              if c = CHR ''}'' then Some (JObj (put_member k v acc), r2)
                              else if c = CHR '','' then parse_members n (put_member k v acc) (skip_ws r2)
                              else None)))"

definition loads :: "string \<Rightarrow> json option" where
  "loads s =
     (case parse_value (Suc (length s)) (skip_ws s) of
        None \<Rightarrow> None
      | Some (j, r) \<Rightarrow> if skip_ws r = [] then Some j else None)"

section \<open>Reading back what was written\<close>

text \<open>Values without floats whose objects have distinct member names.\<close>

fun plain :: "json \<Rightarrow> bool" where
  "plain (JFloat _) = False"
| "plain (JList xs) = list_all plain xs"
| "plain (JObj ms) = (distinct (map fst ms) \<and> list_all (\<lambda>(_, v). plain v) ms)"
| "plain _ = True"

lemma special_chars [simp]:
  "quote_char \<noteq> backslash" "backslash \<noteq> quote_char"
  "code quote_char = 34" "code backslash = 92"
  by (simp_all add: quote_char_def backslash_def code_def)

lemma hex_val_digit: "n < 16 \<Longrightarrow> hex_val (hex_digit n) = Some n"
proof -
  assume "n < 16"
  then have "n \<in> {0, 1, 2, 3, 4, 5, 6, 7, 8, 9, 10, 11, 12, 13, 14, 15}"
    unfolding insert_iff empty_iff by presburger
  then show ?thesis
    unfolding hex_digit_def hex_val_def code_def Let_def by (auto simp: nth_Cons')
qed

lemma letters_not_special:
  "CHR ''n'' \<noteq> quote_char" "CHR ''r'' \<noteq> quote_char" "CHR ''t'' \<noteq> quote_char"
  "CHR ''f'' \<noteq> quote_char" "CHR ''b'' \<noteq> quote_char"
  "CHR ''n'' \<noteq> backslash" "CHR ''r'' \<noteq> backslash" "CHR ''t'' \<noteq> backslash"
  "CHR ''f'' \<noteq> backslash" "CHR ''b'' \<noteq> backslash" "quote_char \<noteq> CHR ''u''" "backslash \<noteq> CHR ''u''"
  by (simp_all add: quote_char_def backslash_def)

lemma char_codes:
  "code c = 10 \<longleftrightarrow> c = CHR 0x0A" "code c = 13 \<longleftrightarrow> c = CHR 0x0D" "code c = 9 \<longleftrightarrow> c = CHR 0x09"
  "code c = 12 \<longleftrightarrow> c = CHR 0x0C" "code c = 8 \<longleftrightarrow> c = CHR 0x08"
proof -
  have "code c = code d \<longleftrightarrow> c = d" for d by (rule code_inject)
  from this [of "CHR 0x0A"] this [of "CHR 0x0D"] this [of "CHR 0x09"] this [of "CHR 0x0C"]
    this [of "CHR 0x08"]
  show "code c = 10 \<longleftrightarrow> c = CHR 0x0A" "code c = 13 \<longleftrightarrow> c = CHR 0x0D" "code c = 9 \<longleftrightarrow> c = CHR 0x09"
    "code c = 12 \<longleftrightarrow> c = CHR 0x0C" "code c = 8 \<longleftrightarrow> c = CHR 0x08"
    by (simp_all add: code_def)
qed

lemma parse_escape_char: "parse_chars (escape_char c @ r) = push_char (Some c) (parse_chars r)"
proof -
  have hx: "hex_val (CHR ''0'') = Some 0" by (simp add: hex_val_def code_def)
  have n: "code c div 16 < 16" using code_less [of c] by (simp add: less_mult_imp_div_less)
  have u: "unicode_escape (CHR ''0'') (CHR ''0'') (hex_digit (code c div 16)) (hex_digit (code c mod 16)) = Some c"
    using n by (simp add: unicode_escape_def hx hex_val_digit) (simp add: code_def)
  show ?thesis
    unfolding escape_char_def Let_def
    by (simp add: u simple_escape_def letters_not_special char_codes)
qed

lemma parse_dump_string:
  "parse_chars (concat (map escape_char s) @ quote_char # r) = Some (s, r)"
  by (induction s) (simp_all add: parse_escape_char push_char_def)


text \<open>What may follow a value inside an object or an array.\<close>

definition value_stop :: "string \<Rightarrow> bool" where
  "value_stop r \<longleftrightarrow> r = [] \<or> hd r \<in> {CHR '','', CHR '']'', CHR ''}''}"

lemma value_stop_simps [simp]:
  "value_stop []" "value_stop (CHR '','' # r)" "value_stop (CHR '']'' # r)" "value_stop (CHR ''}'' # r)"
  by (simp_all add: value_stop_def)

lemma stop_no_number:
  assumes "value_stop r"
  shows "frac_part r = []" "exp_part r = []" "r = [] \<or> \<not> is_digit (hd r)"
  using assms
  by (cases r; auto simp: value_stop_def frac_part_def exp_part_def is_digit_def code_def)+

lemma digits_prefix_stop:
  assumes "list_all is_digit s" and "r = [] \<or> \<not> is_digit (hd r)"
  shows "digits_prefix (s @ r) = s"
  using assms by (cases r) (auto simp: digits_prefix_def list_all_iff takeWhile_append)

lemma hd_str_of_nat: "0 < n \<Longrightarrow> hd (str_of_nat n) \<noteq> CHR ''0''"
proof (induction n rule: str_of_nat.induct)
  case (1 n)
  show ?case
  proof (cases "n < 10")
    case True
    with 1(2) have "n \<in> {1, 2, 3, 4, 5, 6, 7, 8, 9}" using below_ten [of n] by auto
    then show ?thesis by (subst str_of_nat.simps) (auto simp: digit_char_def)
  next
    case False
    with 1(1) have "hd (str_of_nat (n div 10)) \<noteq> CHR ''0''" by (simp add: div_greater_zero_iff)
    with False show ?thesis by (subst str_of_nat.simps) simp
  qed
qed

lemma int_part_nat:
  assumes "r = [] \<or> \<not> is_digit (hd r)"
  shows "int_part (str_of_nat n @ r) = Some (str_of_nat n)"
proof -
  obtain c w where cw: "str_of_nat n = c # w" by (cases "str_of_nat n") auto
  have minus: "c \<noteq> CHR ''-''" by (rule str_of_nat_no_minus [OF cw])
  have ds: "digits_prefix (str_of_nat n @ r) = str_of_nat n"
    using str_of_nat_digits assms by (rule digits_prefix_stop)
  show ?thesis
  proof (cases "n = 0")
    case True
    then have "str_of_nat n = ''0''" by (simp add: str_of_nat.simps digit_char_def)
    then show ?thesis by (simp add: int_part_def)
  next
    case False
    then have "c \<noteq> CHR ''0''" using hd_str_of_nat [of n] cw by simp
    with minus ds cw show ?thesis by (simp add: int_part_def)
  qed
qed

lemma int_part_int:
  assumes "r = [] \<or> \<not> is_digit (hd r)"
  shows "int_part (str_of_int i @ r) = Some (str_of_int i)"
proof (cases "i < 0")
  case True
  have nat: "int_part (str_of_nat (nat (- i)) @ r) = Some (str_of_nat (nat (- i)))"
    using assms by (rule int_part_nat)
  obtain c w where cw: "str_of_nat (nat (- i)) = c # w" by (cases "str_of_nat (nat (- i))") auto
  have "c \<noteq> CHR ''-''" by (rule str_of_nat_no_minus [OF cw])
  with nat cw True show ?thesis
    by (auto simp: int_part_def str_of_int_def split: if_splits)
next
  case False
  then show ?thesis using int_part_nat [OF assms] by (simp add: str_of_int_def)
qed

lemma parse_number_int:
  "value_stop r \<Longrightarrow> parse_number (str_of_int i @ r) = Some (JInt i, r)"
  by (simp add: parse_number_def int_part_int stop_no_number)

lemma str_of_int_hd: "\<exists>c w. str_of_int i = c # w \<and> (c = CHR ''-'' \<or> is_digit c)"
proof -
  obtain c w where cw: "str_of_int i = c # w" by (cases "str_of_int i") (auto simp: str_of_int_def split: if_splits)
  have "\<not> is_digit c \<Longrightarrow> c \<noteq> CHR ''-'' \<Longrightarrow> c \<notin> set (str_of_int i)" by simp
  with cw show ?thesis by auto
qed

lemma digit_codes: "is_digit c \<Longrightarrow> c \<noteq> d" if "\<not> is_digit d" for c d
  using that by auto

lemma hd_dumps:
  assumes "plain j"
  shows "\<exists>c w. dumps j = c # w \<and> \<not> json_ws c \<and> c \<noteq> CHR '']'' \<and> c \<noteq> CHR ''}''"
proof (cases j)
  case (JInt i)
  with str_of_int_hd [of i] show ?thesis
    by (auto simp: json_ws_def is_digit_def code_def)
next
  case (JBool b)
  then show ?thesis by (cases b) (simp_all add: json_ws_def code_def)
next
  case (JList xs)
  then show ?thesis by (cases xs) (simp_all add: json_ws_def code_def)
next
  case (JObj ms)
  then show ?thesis by (cases ms) (auto simp: json_ws_def code_def)
next
  case (JStr s)
  then show ?thesis by (simp add: dump_string_def json_ws_def) (simp add: quote_char_def)
next
  case (JFloat s)
  with assms show ?thesis by simp
qed (simp add: json_ws_def code_def)

lemma skip_ws_simps [simp]:
  "skip_ws (CHR '' '' # r) = skip_ws r" "skip_ws (CHR '','' # r) = CHR '','' # r"
  "skip_ws (CHR '']'' # r) = CHR '']'' # r" "skip_ws (CHR ''}'' # r) = CHR ''}'' # r"
  "skip_ws (CHR '':'' # r) = CHR '':'' # r" "skip_ws (quote_char # r) = quote_char # r"
  "skip_ws [] = []"
  by (simp_all add: skip_ws_def json_ws_def) (simp_all add: code_def)

lemma skip_ws_dumps: "plain j \<Longrightarrow> skip_ws (dumps j @ r) = dumps j @ r"
  using hd_dumps [of j] by (auto simp: skip_ws_def)

lemma dumps_not_close:
  "plain j \<Longrightarrow> \<not> startswith (dumps j @ r) '']''" 
  using hd_dumps [of j] by auto

lemma put_member_new: "k \<notin> fst ` set ms \<Longrightarrow> put_member k v ms = ms @ [(k, v)]"
  by (induction ms) auto

definition reads :: "json \<Rightarrow> bool" where
  "reads j \<longleftrightarrow>
     (\<forall>n r. length (dumps j) \<le> n \<longrightarrow> value_stop r \<longrightarrow> parse_value n (dumps j @ r) = Some (j, r))"

lemma readsD:
  "reads j \<Longrightarrow> length (dumps j) \<le> n \<Longrightarrow> value_stop r \<Longrightarrow> parse_value n (dumps j @ r) = Some (j, r)"
  by (simp add: reads_def)

lemma parse_items_dumps:
  assumes "\<forall>y \<in> set (x # xs). plain y \<and> reads y"
    and "length (dumps x @ concat (map (\<lambda>y. '', '' @ dumps y) xs)) < n"
  shows "parse_items n acc (dumps x @ concat (map (\<lambda>y. '', '' @ dumps y) xs) @ CHR '']'' # r)
     = Some (JList (acc @ x # xs), r)"
  using assms
proof (induction xs arbitrary: x acc n)
  case Nil
  then obtain m where n: "n = Suc m" by (cases n) auto
  have "parse_value m (dumps x @ CHR '']'' # r) = Some (x, CHR '']'' # r)"
    using Nil n by (intro readsD) auto
  then show ?case by (simp add: n)
next
  case (Cons y ys)
  then obtain m where n: "n = Suc m" by (cases n) auto
  let ?rest = "dumps y @ concat (map (\<lambda>y. '', '' @ dumps y) ys) @ CHR '']'' # r"
  have "parse_value m (dumps x @ CHR '','' # CHR '' '' # ?rest) = Some (x, CHR '','' # CHR '' '' # ?rest)"
    using Cons.prems n by (intro readsD) auto
  moreover have "skip_ws ?rest = ?rest" using Cons.prems(1) by (simp add: skip_ws_dumps)
  moreover have "parse_items m (acc @ [x]) ?rest = Some (JList ((acc @ [x]) @ y # ys), r)"
    using Cons.prems n by (intro Cons.IH) auto
  ultimately show ?case by (simp add: n)
qed

definition dump_member :: "string \<times> json \<Rightarrow> string" where
  "dump_member m = dump_string (fst m) @ '': '' @ dumps (snd m)"

lemma dumps_object:
  "dumps (JObj (m # ms)) = CHR ''{'' # dump_member m @ concat (map (\<lambda>x. '', '' @ dump_member x) ms) @ ''}''"
  by (cases m) (simp add: dump_member_def case_prod_unfold)

lemma dump_member_open: "\<exists>w. dump_member m = quote_char # w"
  by (simp add: dump_member_def dump_string_def)

lemma parse_members_dumps:
  assumes "\<forall>y \<in> set (m # ms). plain (snd y) \<and> reads (snd y)"
    and "length (dump_member m @ concat (map (\<lambda>x. '', '' @ dump_member x) ms)) < n"
    and "distinct (map fst (acc @ m # ms))"
  shows "parse_members n acc (dump_member m @ concat (map (\<lambda>x. '', '' @ dump_member x) ms) @ CHR ''}'' # r)
     = Some (JObj (acc @ m # ms), r)"
  using assms
proof (induction ms arbitrary: m acc n)
  case Nil
  then obtain l where n: "n = Suc l" by (cases n) auto
  have "parse_value l (dumps (snd m) @ CHR ''}'' # r) = Some (snd m, CHR ''}'' # r)"
    using Nil n by (intro readsD) (auto simp: dump_member_def)
  then show ?case
    using Nil by (simp add: n dump_member_def dump_string_def parse_dump_string skip_ws_dumps put_member_new)
next
  case (Cons y ys)
  then obtain l where n: "n = Suc l" by (cases n) auto
  let ?rest = "dump_member y @ concat (map (\<lambda>x. '', '' @ dump_member x) ys) @ CHR ''}'' # r"
  have "parse_value l (dumps (snd m) @ CHR '','' # CHR '' '' # ?rest)
      = Some (snd m, CHR '','' # CHR '' '' # ?rest)"
    using Cons.prems n by (intro readsD) (auto simp: dump_member_def)
  moreover have "skip_ws ?rest = ?rest" using dump_member_open [of y] by auto
  moreover have "parse_members l (acc @ [m]) ?rest = Some (JObj ((acc @ [m]) @ y # ys), r)"
    using Cons.prems n by (intro Cons.IH) auto
  moreover have "put_member (fst m) (snd m) acc = acc @ [m]"
    using Cons.prems(3) by (simp add: put_member_new)
  moreover have "dump_member m @ concat (map (\<lambda>x. '', '' @ dump_member x) (y # ys)) @ CHR ''}'' # r
      = quote_char # concat (map escape_char (fst m)) @ quote_char # CHR '':'' # CHR '' '' # dumps (snd m)
          @ CHR '','' # CHR '' '' # ?rest"
    by (simp add: dump_member_def dump_string_def)
  ultimately show ?case
    using Cons.prems(1) by (simp add: n parse_dump_string skip_ws_dumps)
qed

lemma not_quote [simp]:
  "CHR ''{'' \<noteq> quote_char" "CHR ''['' \<noteq> quote_char" "CHR ''n'' \<noteq> quote_char" "CHR ''t'' \<noteq> quote_char"
  "CHR ''f'' \<noteq> quote_char" "CHR ''-'' \<noteq> quote_char"
  by (simp_all add: quote_char_def)

lemma length_dumps_pos: "plain j \<Longrightarrow> 0 < length (dumps j)"
  using hd_dumps [of j] by auto

lemma reads_literal:
  assumes "dumps j = c # w" and "c \<noteq> quote_char" and "c \<noteq> CHR ''{''" and "c \<noteq> CHR ''[''"
    and "\<And>r. value_stop r \<Longrightarrow> parse_literal (dumps j @ r) = Some (j, r)"
  shows "reads j"
  unfolding reads_def
proof (intro allI impI)
  fix n r assume "length (dumps j) \<le> n" and r: "value_stop r"
  then obtain m where "n = Suc m" using assms(1) by (cases n) auto
  then show "parse_value n (dumps j @ r) = Some (j, r)" using assms r by simp
qed

lemma reads_dumps: "plain j \<Longrightarrow> reads j"
proof (induction j)
  case JNull
  show ?case
    by (rule reads_literal [of _ "CHR ''n''" "''ull''"]) (simp_all add: parse_literal_def)
next
  case (JBool b)
  have "reads (JBool True)"
    by (rule reads_literal [of _ "CHR ''t''" "''rue''"]) (simp_all add: parse_literal_def)
  moreover have "reads (JBool False)"
    by (rule reads_literal [of _ "CHR ''f''" "''alse''"]) (simp_all add: parse_literal_def)
  ultimately show ?case by (cases b) simp_all
next
  case (JInt i)
  obtain c w where cw: "str_of_int i = c # w" "c = CHR ''-'' \<or> is_digit c"
    using str_of_int_hd by blast
  show ?case
  proof (rule reads_literal)
    show "dumps (JInt i) = c # w" using cw by simp
    show "c \<noteq> quote_char" "c \<noteq> CHR ''{''" "c \<noteq> CHR ''[''"
      using cw(2) by (auto simp: is_digit_def quote_char_def code_def)
    have "c \<noteq> CHR ''n''" "c \<noteq> CHR ''t''" "c \<noteq> CHR ''f''"
      using cw(2) by (auto simp: is_digit_def code_def)
    then show "value_stop r \<Longrightarrow> parse_literal (dumps (JInt i) @ r) = Some (JInt i, r)" for r
      using parse_number_int [of r i] by (simp add: parse_literal_def cw)
  qed
next
  case (JFloat s)
  then show ?case by simp
next
  case (JStr s)
  have "parse_value n (dumps (JStr s) @ r) = Some (JStr s, r)"
    if "length (dumps (JStr s)) \<le> n" for n r
    using that by (cases n) (simp_all add: dump_string_def parse_dump_string)
  then show ?case by (simp add: reads_def)
next
  case (JList xs)
  have "parse_value n (dumps (JList xs) @ r) = Some (JList xs, r)"
    if n: "length (dumps (JList xs)) \<le> n" for n r
  proof (cases xs)
    case Nil
    with n show ?thesis by (cases n) (simp_all)
  next
    case (Cons x ys)
    with n obtain m where m: "n = Suc m" by (cases n) auto
    have "plain x" using JList.prems Cons by simp
    then have opens: "skip_ws (dumps x @ w) = dumps x @ w" "\<not> startswith (dumps x @ w) '']''" for w
      by (simp_all add: skip_ws_dumps dumps_not_close)
    have "parse_items m [] (dumps x @ concat (map (\<lambda>y. '', '' @ dumps y) ys) @ CHR '']'' # r)
        = Some (JList ([] @ x # ys), r)"
      using JList Cons n m by (intro parse_items_dumps) (auto simp: list_all_iff)
    then show ?thesis by (simp add: Cons m opens)
  qed
  then show ?case by (simp add: reads_def)
next
  case (JObj ms)
  have "parse_value n (dumps (JObj ms) @ r) = Some (JObj ms, r)"
    if n: "length (dumps (JObj ms)) \<le> n" for n r
  proof (cases ms)
    case Nil
    with n show ?thesis by (cases n) (simp_all)
  next
    case (Cons x ys)
    with n obtain m where m: "n = Suc m" by (cases n) (auto simp: dumps_object simp del: dumps.simps)
    obtain w where "dump_member x = quote_char # w" using dump_member_open by blast
    then have opens: "skip_ws (dump_member x @ w) = dump_member x @ w"
      "\<not> startswith (dump_member x @ w) ''}''" for w
      by (simp_all add: quote_char_def skip_ws_def json_ws_def code_def)
    have "parse_members m [] (dump_member x @ concat (map (\<lambda>y. '', '' @ dump_member y) ys) @ CHR ''}'' # r)
        = Some (JObj ([] @ x # ys), r)"
    proof (rule parse_members_dumps)
      show "\<forall>y \<in> set (x # ys). plain (snd y) \<and> reads (snd y)"
        using JObj Cons by (fastforce simp: list_all_iff)
      show "length (dump_member x @ concat (map (\<lambda>y. '', '' @ dump_member y) ys)) < m"
        using n by (simp add: Cons m dumps_object del: dumps.simps)
      show "distinct (map fst ([] @ x # ys))" using JObj.prems Cons by simp
    qed
    then show ?thesis by (simp add: Cons m opens dumps_object del: dumps.simps)
  qed
  then show ?case by (simp add: reads_def)
qed

lemma loads_dumps_plain:
  assumes "plain j"
  shows "loads (dumps j) = Some j"
proof -
  have "parse_value (Suc (length (dumps j))) (dumps j @ []) = Some (j, [])"
    by (rule readsD [OF reads_dumps [OF assms]]) simp_all
  then show ?thesis
    using skip_ws_dumps [OF assms, of "[]"] by (simp add: loads_def)
qed

end
