(* ===== verification/RouteCache.thy ===== *)
theory RouteCache
  imports Redis Paths Json
begin

text \<open>
  \<open>apps/gateway/route_cache.py\<close>: the two Lua scripts, the snapshot of a route in MySQL, the
  cached lookup with its three attempts, the invalidations, and the model objects rebuilt from a
  snapshot. A snapshot is the Python value \<open>json\<close> carries; \<open>JNull\<close> is \<open>None\<close>.

  \<open>get_route\<close> is the function as it runs alone. \<open>reader_step\<close> cuts the same function at
  its calls to Redis and to the database, so that the next theory can interleave lookups with
  writers; \<open>reader_run_is_get_route\<close> shows that the pieces compose to the function.
\<close>

section \<open>Scripts\<close>

definition ROUTE_CACHE_TTL_SECONDS :: int where
  "ROUTE_CACHE_TTL_SECONDS = 60"

definition publish_if_current ::
    "'s redis \<Rightarrow> instant \<Rightarrow> string \<Rightarrow> string \<Rightarrow> string \<Rightarrow> string \<Rightarrow> int \<Rightarrow> 's \<Rightarrow> (redis_error + int) \<times> 's" where
  "publish_if_current R t version_key data_key expected payload ttl s =
     (case r_get R t version_key s of (v, s1) \<Rightarrow>
        (let generation = (case v of None \<Rightarrow> ''0'' | Some g \<Rightarrow> g)
         in if generation \<noteq> expected then (Inr 0, s1)
            else (Inr 1, r_set_ex R t data_key payload ttl s1)))"

definition invalidate_script ::
    "'s redis \<Rightarrow> instant \<Rightarrow> string \<Rightarrow> string \<Rightarrow> 's \<Rightarrow> (redis_error + int) \<times> 's" where
  "invalidate_script R t version_key data_key s =
     (case r_incr R t version_key s of
        (Inl e, s1) \<Rightarrow> (Inl e, s1)
      | (Inr _, s1) \<Rightarrow> (Inr 1, r_del R t data_key s1))"

section \<open>Snapshots\<close>

text \<open>The \<open>filter\<close> of \<open>_read_route\<close>; the service is reached through an outer join.\<close>

definition route_visible :: "db \<Rightarrow> pk \<Rightarrow> string \<Rightarrow> route \<Rightarrow> bool" where
  "route_visible d project_id base_path r \<longleftrightarrow>
     (rt_backend_service r = None
      \<or> (case Option.bind (rt_backend_service r) (service_of d) of
           None \<Rightarrow> False
         | Some s \<Rightarrow> svc_project s = project_id \<and> svc_is_active s))
     \<and> rt_project r = project_id \<and> rt_base_path r = base_path \<and> rt_is_active r"

definition service_entry :: "backend_service option \<Rightarrow> json" where
  "service_entry service =
     (case service of
        None \<Rightarrow> JNull
      | Some s \<Rightarrow> JObj [(''id'', JInt (svc_id s)), (''base_url'', JStr (svc_base_url s))])"

definition route_entry :: "route \<Rightarrow> backend_service option \<Rightarrow> json" where
  "route_entry r service =
     JObj [(''id'', JInt (rt_id r)), (''path'', JStr (rt_base_path r)),
           (''service'', service_entry service)]"

definition read_route :: "db \<Rightarrow> pk \<Rightarrow> string \<Rightarrow> json" where
  "read_route d project_id base_path =
     (case objects_first (route_visible d project_id base_path) (routes d) of
        None \<Rightarrow> JNull
      | Some r \<Rightarrow> route_entry r (Option.bind (rt_backend_service r) (service_of d)))"

section \<open>The cached lookup\<close>

text \<open>
  \<open>client.get(version_key) or '0'\<close> in Python, where the empty string is false as well.
\<close>

definition generation_of :: "string option \<Rightarrow> string" where
  "generation_of v = (case v of None \<Rightarrow> ''0'' | Some g \<Rightarrow> if g = [] then ''0'' else g)"

text \<open>The body of the loop for the remaining attempts; \<open>Inl\<close> is an exception the
  \<open>except\<close> clause of \<open>get_route\<close> catches.\<close>

fun cache_attempts ::
    "'s redis \<Rightarrow> instant \<Rightarrow> db \<Rightarrow> pk \<Rightarrow> string \<Rightarrow> string \<Rightarrow> string \<Rightarrow> nat \<Rightarrow> 's client
       \<Rightarrow> (unit + json) \<times> 's client" where
  "cache_attempts R t d project_id base_path version_key data_key 0 c =
     (Inr (read_route d project_id base_path), c)"
| "cache_attempts R t d project_id base_path version_key data_key (Suc n) c =
     (case get_call R t data_key c of
        (Inl _, c1) \<Rightarrow> (Inl (), c1)
      | (Inr (Some cached), c1) \<Rightarrow>
          (case loads cached of None \<Rightarrow> (Inl (), c1) | Some entry \<Rightarrow> (Inr entry, c1))
      | (Inr None, c1) \<Rightarrow>
          (case get_call R t version_key c1 of
             (Inl _, c2) \<Rightarrow> (Inl (), c2)
           | (Inr v, c2) \<Rightarrow>
               (let entry = read_route d project_id base_path
                in if entry = JNull then (Inr JNull, c2)
                   else case redis_call (publish_if_current R t version_key data_key
                               (generation_of v) (dumps entry) ROUTE_CACHE_TTL_SECONDS) c2 of
                          (Inl _, c3) \<Rightarrow> (Inl (), c3)
                        | (Inr published, c3) \<Rightarrow>
                            if published = 1 then (Inr entry, c3)
                            else cache_attempts R t d project_id base_path version_key data_key n c3)))"

definition get_route ::
    "settings \<Rightarrow> 's redis \<Rightarrow> instant \<Rightarrow> db \<Rightarrow> pk \<Rightarrow> string \<Rightarrow> 's client \<Rightarrow> json \<times> 's client" where
  "get_route S R t d project_id base_path c =
     (case cache_keys project_id base_path of
        Inl _ \<Rightarrow> (read_route d project_id base_path, c)
      | Inr (version_key, data_key) \<Rightarrow>
          (case get_redis_client S None c of
             (Inl _, c1) \<Rightarrow> (read_route d project_id base_path, c1)
           | (Inr _, c1) \<Rightarrow>
               (case cache_attempts R t d project_id base_path version_key data_key 3 c1 of
                  (Inl _, c2) \<Rightarrow> (read_route d project_id base_path, c2)
                | (Inr entry, c2) \<Rightarrow> (entry, c2))))"

text \<open>\<open>invalidate_route\<close>; the flag is the warning that the invalidation failed.\<close>

definition invalidate_route ::
    "settings \<Rightarrow> 's redis \<Rightarrow> instant \<Rightarrow> pk option \<Rightarrow> string \<Rightarrow> 's client \<Rightarrow> bool \<times> 's client" where
  "invalidate_route S R t project_id base_path c =
     (case project_id of
        None \<Rightarrow> (False, c)
      | Some pid \<Rightarrow>
          if base_path = [] then (False, c)
          else case cache_keys pid base_path of
                 Inl _ \<Rightarrow> (True, c)
               | Inr (version_key, data_key) \<Rightarrow>
                   (case get_redis_client S None c of
                      (Inl _, c1) \<Rightarrow> (True, c1)
                    | (Inr _, c1) \<Rightarrow>
                        (case redis_call (invalidate_script R t version_key data_key) c1 of
                           (Inl _, c2) \<Rightarrow> (True, c2)
                         | (Inr _, c2) \<Rightarrow> (False, c2))))"

fun invalidate_paths ::
    "settings \<Rightarrow> 's redis \<Rightarrow> instant \<Rightarrow> pk \<Rightarrow> string list \<Rightarrow> 's client \<Rightarrow> 's client" where
  "invalidate_paths S R t project_id [] c = c"
| "invalidate_paths S R t project_id (p # ps) c =
     invalidate_paths S R t project_id ps (snd (invalidate_route S R t (Some project_id) p c))"

definition invalidate_project_routes ::
    "settings \<Rightarrow> 's redis \<Rightarrow> instant \<Rightarrow> db \<Rightarrow> pk option \<Rightarrow> 's client \<Rightarrow> 's client" where
  "invalidate_project_routes S R t d project_id c =
     (case project_id of
        None \<Rightarrow> c
      | Some pid \<Rightarrow>
          invalidate_paths S R t pid
            (map rt_base_path (objects_filter (\<lambda>r. rt_project r = pid) (routes d))) c)"

section \<open>Objects rebuilt from a snapshot\<close>

text \<open>
  An entry without the expected members raises \<open>KeyError\<close>; members of other types than the
  gateway writes are not modelled beyond that (\<open>TypeError\<close>). Columns the snapshot does not
  carry keep the defaults of an unsaved object.
\<close>

type_synonym resolved_route = "route \<times> backend_service option"

definition snapshot_route :: "pk \<Rightarrow> pk \<Rightarrow> string \<Rightarrow> backend_service option \<Rightarrow> route" where
  "snapshot_route project_id i base_path service =
     \<lparr>rt_id = i, rt_project = project_id, rt_backend_service = map_option svc_id service,
      rt_name = [], rt_base_path = base_path, rt_is_active = True,
      rt_created_at = 0, rt_updated_at = 0\<rparr>"

definition snapshot_service :: "pk \<Rightarrow> pk \<Rightarrow> string \<Rightarrow> backend_service" where
  "snapshot_service project_id i base_url =
     \<lparr>svc_id = i, svc_project = project_id, svc_name = [], svc_slug = [], svc_description = [],
      svc_base_url = base_url, svc_is_active = True, svc_created_at = 0, svc_updated_at = 0\<rparr>"

definition service_from_snapshot :: "pk \<Rightarrow> json \<Rightarrow> exn + backend_service option" where
  "service_from_snapshot project_id service_data =
     (if service_data = JNull then Inr None
      else case (jget ''id'' service_data, jget ''base_url'' service_data) of
             (Some (JInt i), Some (JStr u)) \<Rightarrow> Inr (Some (snapshot_service project_id i u))
           | (Some _, Some _) \<Rightarrow> Inl TypeError
           | _ \<Rightarrow> Inl KeyError)"

definition route_from_snapshot :: "pk \<Rightarrow> json \<Rightarrow> exn + resolved_route" where
  "route_from_snapshot project_id entry =
     (case jget ''service'' entry of
        None \<Rightarrow> Inl KeyError
      | Some service_data \<Rightarrow>
          and_then (service_from_snapshot project_id service_data) (\<lambda>service.
            (case (jget ''id'' entry, jget ''path'' entry) of
               (Some (JInt i), Some (JStr b)) \<Rightarrow> Inr (snapshot_route project_id i b service, service)
             | (Some _, Some _) \<Rightarrow> Inl TypeError
             | _ \<Rightarrow> Inl KeyError)))"

text \<open>\<open>RouteResolver.get_route_for_request\<close>; the method is not used by the lookup.\<close>

definition get_route_for_request ::
    "settings \<Rightarrow> 's redis \<Rightarrow> instant \<Rightarrow> db \<Rightarrow> pk \<Rightarrow> string \<Rightarrow> 's client
       \<Rightarrow> (exn + resolved_route option) \<times> 's client" where
  "get_route_for_request S R t d project_id path c =
     (let base_path = request_base_path path
      in if base_path = ''/'' then (Inr None, c)
         else case get_route S R t d project_id base_path c of
                (entry, c') \<Rightarrow>
                  (if entry = JNull then Inr None
                   else case route_from_snapshot project_id entry of
                          Inl e \<Rightarrow> Inl e | Inr r \<Rightarrow> Inr (Some r), c'))"

section \<open>The lookup, step by step\<close>

text \<open>Where a lookup is: what it calls next, and what it remembers.\<close>

datatype pc =
    AtClient
  | AtData nat
  | AtVersion nat
  | AtRead nat string
  | AtPublish nat string json
  | AtFallback
  | Finished json

definition version_key_of :: "pk \<Rightarrow> string \<Rightarrow> string" where
  "version_key_of project_id base_path =
     (case cache_keys project_id base_path of Inl _ \<Rightarrow> [] | Inr (v, _) \<Rightarrow> v)"

definition data_key_of :: "pk \<Rightarrow> string \<Rightarrow> string" where
  "data_key_of project_id base_path =
     (case cache_keys project_id base_path of Inl _ \<Rightarrow> [] | Inr (_, k) \<Rightarrow> k)"

fun reader_step ::
    "settings \<Rightarrow> 's redis \<Rightarrow> instant \<Rightarrow> db \<Rightarrow> pk \<Rightarrow> string \<Rightarrow> pc \<Rightarrow> 's client \<Rightarrow> pc \<times> 's client" where
  "reader_step S R t d i b AtClient c =
     (case cache_keys i b of
        Inl _ \<Rightarrow> (AtFallback, c)
      | Inr _ \<Rightarrow> (case get_redis_client S None c of
                   (Inl _, c1) \<Rightarrow> (AtFallback, c1) | (Inr _, c1) \<Rightarrow> (AtData 3, c1)))"
| "reader_step S R t d i b (AtData 0) c = (Finished (read_route d i b), c)"
| "reader_step S R t d i b (AtData (Suc n)) c =
     (case get_call R t (data_key_of i b) c of
        (Inl _, c1) \<Rightarrow> (AtFallback, c1)
      | (Inr (Some cached), c1) \<Rightarrow>
          (case loads cached of None \<Rightarrow> (AtFallback, c1) | Some entry \<Rightarrow> (Finished entry, c1))
      | (Inr None, c1) \<Rightarrow> (AtVersion n, c1))"
| "reader_step S R t d i b (AtVersion n) c =
     (case get_call R t (version_key_of i b) c of
        (Inl _, c1) \<Rightarrow> (AtFallback, c1)
      | (Inr v, c1) \<Rightarrow> (AtRead n (generation_of v), c1))"
| "reader_step S R t d i b (AtRead n g) c =
     (let entry = read_route d i b
      in (if entry = JNull then Finished JNull else AtPublish n g entry, c))"
| "reader_step S R t d i b (AtPublish n g entry) c =
     (case redis_call (publish_if_current R t (version_key_of i b) (data_key_of i b) g
             (dumps entry) ROUTE_CACHE_TTL_SECONDS) c of
        (Inl _, c1) \<Rightarrow> (AtFallback, c1)
      | (Inr published, c1) \<Rightarrow> (if published = 1 then Finished entry else AtData n, c1))"
| "reader_step S R t d i b AtFallback c = (Finished (read_route d i b), c)"
| "reader_step S R t d i b (Finished entry) c = (Finished entry, c)"

fun reader_run ::
    "settings \<Rightarrow> 's redis \<Rightarrow> instant \<Rightarrow> db \<Rightarrow> pk \<Rightarrow> string \<Rightarrow> nat \<Rightarrow> pc \<Rightarrow> 's client \<Rightarrow> pc \<times> 's client" where
  "reader_run S R t d i b 0 p c = (p, c)"
| "reader_run S R t d i b (Suc k) p c =
     (case reader_step S R t d i b p c of (p', c') \<Rightarrow> reader_run S R t d i b k p' c')"

text \<open>An upper bound on the steps a lookup still takes, whatever others do in between.\<close>

fun steps_left :: "pc \<Rightarrow> nat" where
  "steps_left AtClient = 14"
| "steps_left (AtData n) = 4 * n + 1"
| "steps_left (AtVersion n) = 4 * n + 4"
| "steps_left (AtRead n _) = 4 * n + 3"
| "steps_left (AtPublish n _ _) = 4 * n + 2"
| "steps_left AtFallback = 1"
| "steps_left (Finished _) = 0"

lemma reader_run_finished [simp]: "reader_run S R t d i b k (Finished e) c = (Finished e, c)"
  by (induction k) auto

lemma reader_run_fallback [simp]:
  "0 < k \<Longrightarrow> reader_run S R t d i b k AtFallback c = (Finished (read_route d i b), c)"
  by (cases k) auto

lemma steps_left_decreases:
  "p = Finished e \<or> steps_left (fst (reader_step S R t d i b p c)) < steps_left p" if "\<nexists>e. p = Finished e"
  using that
  by (cases "(S, R, t, d, i, b, p, c)" rule: reader_step.cases)
    (auto simp: Let_def split: sum.split option.split prod.split)

lemma steps_left_zero: "steps_left p = 0 \<longleftrightarrow> (\<exists>e. p = Finished e)"
  by (cases p) auto

lemma reader_run_attempts:
  assumes "version_key_of i b = vk" and "data_key_of i b = dk"
  shows "reader_run S R t d i b (4 * n + 1) (AtData n) c =
     (case cache_attempts R t d i b vk dk n c of
        (Inl _, c') \<Rightarrow> (Finished (read_route d i b), c')
      | (Inr e, c') \<Rightarrow> (Finished e, c'))"
proof (induction n arbitrary: c)
  case (Suc n)
  obtain m where m: "4 * n + 1 = m" and pos: "0 < m" by simp
  have k: "4 * Suc n + 1 = Suc (Suc (Suc (Suc m)))" using m by simp
  note IH = Suc [unfolded m]
  show ?case
    unfolding k using pos
    by (auto simp: IH Let_def assms split: sum.split option.split prod.split)
qed simp


lemma version_data_keys:
  "cache_keys i b = Inr (vk, dk) \<Longrightarrow> version_key_of i b = vk \<and> data_key_of i b = dk"
  by (simp add: version_key_of_def data_key_of_def)

lemma plain_read_route [simp]: "plain (read_route d i b)"
  by (auto simp: read_route_def route_entry_def service_entry_def split: option.split)

lemma loads_read_route [simp]: "loads (dumps (read_route d i b)) = Some (read_route d i b)"
  using loads_dumps_plain by simp

lemma reader_run_is_get_route:
  "reader_run S R t d i b 14 AtClient c =
     (case get_route S R t d i b c of (entry, c') \<Rightarrow> (Finished entry, c'))"
proof (cases "cache_keys i b")
  case (Inl e)
  have k: "(14::nat) = Suc (Suc 12)" by simp
  show ?thesis unfolding k reader_run.simps by (simp add: Inl get_route_def)
next
  case (Inr ks)
  then obtain vk dk where ks: "cache_keys i b = Inr (vk, dk)" by (cases ks) auto
  then have "version_key_of i b = vk" "data_key_of i b = dk" by (simp_all add: version_data_keys)
  note run = reader_run_attempts [OF this, where n = 3, simplified]
  have k: "(14::nat) = Suc 13" by simp
  show ?thesis
    unfolding k reader_run.simps
    by (auto simp: ks get_route_def run simp del: cache_attempts.simps
        split: sum.split prod.split)
qed

lemma reader_run_add:
  "reader_run S R t d i b (m + k) p c =
     (case reader_run S R t d i b m p c of (p', c') \<Rightarrow> reader_run S R t d i b k p' c')"
  by (induction m arbitrary: p c) (auto split: prod.split)

text \<open>A snapshot that is not null was taken of a visible row and rebuilds its objects.\<close>

lemma snapshot_of_row:
  assumes "read_route d i b = entry" and "entry \<noteq> JNull"
  shows "\<exists>r s. r \<in> set (rows (routes d)) \<and> route_visible d i b r
         \<and> s = Option.bind (rt_backend_service r) (service_of d)
         \<and> route_from_snapshot i entry =
             Inr (snapshot_route (rt_project r) (rt_id r) (rt_base_path r)
                    (map_option (\<lambda>x. snapshot_service i (svc_id x) (svc_base_url x)) s),
                  map_option (\<lambda>x. snapshot_service i (svc_id x) (svc_base_url x)) s)"
proof -
  obtain r where r: "objects_first (route_visible d i b) (routes d) = Some r"
    and e: "entry = route_entry r (Option.bind (rt_backend_service r) (service_of d))"
    using assms by (auto simp: read_route_def split: option.splits)
  have in_r: "r \<in> set (rows (routes d))" "route_visible d i b r"
    using objects_first_Some [OF r] by auto
  have "rt_project r = i" using in_r(2) by (simp add: route_visible_def)
  then have "route_from_snapshot i entry =
      Inr (snapshot_route (rt_project r) (rt_id r) (rt_base_path r)
             (map_option (\<lambda>x. snapshot_service i (svc_id x) (svc_base_url x))
                (Option.bind (rt_backend_service r) (service_of d))),
           map_option (\<lambda>x. snapshot_service i (svc_id x) (svc_base_url x))
             (Option.bind (rt_backend_service r) (service_of d)))"
    by (cases "Option.bind (rt_backend_service r) (service_of d)")
      (simp_all add: e route_from_snapshot_def service_from_snapshot_def route_entry_def
        service_entry_def)
  with in_r show ?thesis by auto
qed

section \<open>Properties\<close>

text \<open>
  The step machine is the function: started at its first call and run for fourteen or more
  steps with nobody interfering, it has finished with the result and the client state of
  \<open>get_route\<close>.
\<close>

lemma steps_compose_to_get_route:
  assumes "14 \<le> k"
  shows "reader_run S R t d i b k AtClient c =
     (case get_route S R t d i b c of (entry, c') \<Rightarrow> (Finished entry, c'))"
proof -
  have "reader_run S R t d i b (14 + m) AtClient c =
      (case reader_run S R t d i b 14 AtClient c of (p, c') \<Rightarrow> reader_run S R t d i b m p c')" for m
    by (rule reader_run_add)
  from this [of "k - 14"] assms show ?thesis
    by (simp add: reader_run_is_get_route split: prod.split)
qed

fun lookup_under ::
    "settings \<Rightarrow> 's redis \<Rightarrow> pk \<Rightarrow> string \<Rightarrow> (instant \<times> db \<times> 's client) list \<Rightarrow> pc \<Rightarrow> pc" where
  "lookup_under S R i b [] p = p"
| "lookup_under S R i b ((t, d, c) # env) p =
     lookup_under S R i b env (fst (reader_step S R t d i b p c))"

lemma lookup_under_finished [simp]: "lookup_under S R i b env (Finished e) = Finished e"
  by (induction env) auto

lemma lookup_under_finishes:
  "steps_left p \<le> length env \<Longrightarrow> \<exists>e. lookup_under S R i b env p = Finished e"
proof (induction env arbitrary: p)
  case Nil
  then show ?case by (simp add: steps_left_zero)
next
  case (Cons x env)
  obtain t d c where x: "x = (t, d, c)" by (cases x)
  show ?case
  proof (cases "\<exists>e. p = Finished e")
    case True
    then show ?thesis by (auto simp: x)
  next
    case False
    then have "steps_left (fst (reader_step S R t d i b p c)) < steps_left p"
      using steps_left_decreases [of p] by blast
    with Cons.prems have "steps_left (fst (reader_step S R t d i b p c)) \<le> length env" by simp
    from Cons.IH [OF this] show ?thesis by (simp add: x)
  qed
qed

text \<open>
  A lookup always returns, within fourteen calls of its own, whatever the database, the
  clock and the Redis server (its contents and its failures) are at each of them.
\<close>

lemma lookup_terminates:
  assumes "14 \<le> length env"
  shows "\<exists>entry. lookup_under S R i b env AtClient = Finished entry"
  using assms by (intro lookup_under_finishes) simp

text \<open>
  C39: the objects rebuilt from a snapshot, also after a round trip through the cache as text,
  agree with the rows in every field the gateway goes on to use: the route's key, project and
  base path, the service's key and base URL; and there is a snapshot exactly when the project has
  an active route of that base path with no service or an active service of the same project.
\<close>

theorem snapshot_faithful:
  assumes "read_route d i b = entry" and "entry \<noteq> JNull"
  shows "loads (dumps entry) = Some entry
    \<and> (\<exists>r s. r \<in> set (rows (routes d)) \<and> route_visible d i b r
         \<and> s = Option.bind (rt_backend_service r) (service_of d)
         \<and> route_from_snapshot i entry =
             Inr (snapshot_route (rt_project r) (rt_id r) (rt_base_path r)
                    (map_option (\<lambda>x. snapshot_service i (svc_id x) (svc_base_url x)) s),
                  map_option (\<lambda>x. snapshot_service i (svc_id x) (svc_base_url x)) s))"
  using snapshot_of_row [OF assms] assms(1) by auto

definition sample_service :: backend_service where
  "sample_service = \<lparr>svc_id = 5, svc_project = 1, svc_name = ''s'', svc_slug = ''s'',
     svc_description = [], svc_base_url = ''http://d:8000'', svc_is_active = True,
     svc_created_at = 0, svc_updated_at = 0\<rparr>"

definition sample_route :: route where
  "sample_route = \<lparr>rt_id = 7, rt_project = 1, rt_backend_service = Some 5, rt_name = ''doctors'',
     rt_base_path = ''/doctors'', rt_is_active = True, rt_created_at = 0, rt_updated_at = 0\<rparr>"

definition sample_routes_db :: db where
  "sample_routes_db = empty_db\<lparr>services := \<lparr>rows = [sample_service], last_pk = 5\<rparr>,
     routes := \<lparr>rows = [sample_route], last_pk = 7\<rparr>\<rparr>"

lemma sample_read_route:
  "read_route sample_routes_db 1 ''/doctors'' = route_entry sample_route (Some sample_service)"
  by (simp add: read_route_def objects_first_def route_visible_def service_of_def
      sample_routes_db_def sample_route_def sample_service_def)

theorem snapshot_faithful_witness:
  "\<exists>r s. route_from_snapshot 1 (route_entry sample_route (Some sample_service)) = Inr (r, Some s)
     \<and> rt_id r = 7 \<and> svc_base_url s = ''http://d:8000''"
proof -
  have "route_entry sample_route (Some sample_service) \<noteq> JNull" by (simp add: route_entry_def)
  from snapshot_faithful [OF sample_read_route this] obtain r where
    "r \<in> set (rows (routes sample_routes_db))"
    and "route_from_snapshot 1 (route_entry sample_route (Some sample_service)) =
      Inr (snapshot_route (rt_project r) (rt_id r) (rt_base_path r)
             (map_option (\<lambda>x. snapshot_service 1 (svc_id x) (svc_base_url x))
               (Option.bind (rt_backend_service r) (service_of sample_routes_db))),
           map_option (\<lambda>x. snapshot_service 1 (svc_id x) (svc_base_url x))
             (Option.bind (rt_backend_service r) (service_of sample_routes_db)))"
    by blast
  then show ?thesis
    by (simp add: sample_routes_db_def sample_route_def sample_service_def service_of_def
        objects_first_def snapshot_route_def snapshot_service_def)
qed

end
