(* ===== verification/CacheRace.thy ===== *)
theory CacheRace
  imports RouteCache
begin

text \<open>
  Lookups, database commits and cache invalidations of all replicas, interleaved call by call.
  A commit replaces the database and leaves the invalidations its signal handlers registered to
  be run later, one by one, by the process that committed; a run that fails is remembered as
  missed. What a commit has to register is \<open>covers\<close>; the theory \<open>Signals\<close> proves it for the
  repository's handlers.
\<close>

section \<open>The system\<close>

record 's cluster =
  c_db :: db
  c_client :: "'s client"
  c_now :: instant
  c_lookups :: "(pk \<times> string \<times> pc) list"
  c_pending :: "(pk \<times> string) list"
  c_missed :: "(pk \<times> string) list"

definition covers :: "db \<Rightarrow> db \<Rightarrow> (pk \<times> string) list \<Rightarrow> bool" where
  "covers d d' ks \<longleftrightarrow> (\<forall>i b. read_route d i b \<noteq> read_route d' i b \<longrightarrow> (i, b) \<in> set ks)"

inductive race_step :: "settings \<Rightarrow> 's redis \<Rightarrow> 's cluster \<Rightarrow> 's cluster \<Rightarrow> bool"
  for S :: settings and R :: "'s redis" where
  tick: "c_now s \<le> t \<Longrightarrow> race_step S R s (s\<lparr>c_now := t\<rparr>)"
| start: "b = request_base_path path \<Longrightarrow> b \<noteq> ''/'' \<Longrightarrow>
    race_step S R s (s\<lparr>c_lookups := c_lookups s @ [(i, b, AtClient)]\<rparr>)"
| lookup: "k < length (c_lookups s) \<Longrightarrow> c_lookups s ! k = (i, b, p) \<Longrightarrow>
    reader_step S R (c_now s) (c_db s) i b p (c_client s) = (p', c') \<Longrightarrow>
    race_step S R s (s\<lparr>c_client := c', c_lookups := (c_lookups s)[k := (i, b, p')]\<rparr>)"
| commit: "covers (c_db s) d' ks \<Longrightarrow> list_all (\<lambda>(_, b). one_segment b) ks \<Longrightarrow>
    race_step S R s (s\<lparr>c_db := d', c_pending := c_pending s @ ks\<rparr>)"
| invalidate: "(i, b) \<in> set (c_pending s) \<Longrightarrow>
    invalidate_route S R (c_now s) (Some i) b (c_client s) = (failed, c') \<Longrightarrow>
    race_step S R s
      (s\<lparr>c_client := c', c_pending := remove1 (i, b) (c_pending s),
         c_missed := if failed then (i, b) # c_missed s
                     else filter (\<lambda>x. x \<noteq> (i, b)) (c_missed s)\<rparr>)"

inductive_cases race_stepE: "race_step S R s s'"

definition runs_to :: "settings \<Rightarrow> 's redis \<Rightarrow> 's cluster \<Rightarrow> 's cluster \<Rightarrow> bool" where
  "runs_to S R = (race_step S R)\<^sup>*\<^sup>*"

text \<open>A route whose entry may be out of date: an invalidation is still to run, or failed.\<close>

definition unsettled :: "'s cluster \<Rightarrow> pk \<Rightarrow> string \<Rightarrow> bool" where
  "unsettled s i b \<longleftrightarrow> (i, b) \<in> set (c_pending s) \<union> set (c_missed s)"

section \<open>Invariants\<close>

definition generation_is :: "string \<Rightarrow> int \<Rightarrow> store \<Rightarrow> bool" where
  "generation_is vk n m \<longleftrightarrow> 0 \<le> n \<and> m vk = (if n = 0 then None else Some (str_of_int n, None))"

text \<open>An entry some state of the database has for this project and base path.\<close>

definition snapshot_of :: "pk \<Rightarrow> string \<Rightarrow> json \<Rightarrow> bool" where
  "snapshot_of i b e \<longleftrightarrow> (\<exists>d. e = read_route d i b)"

lemma snapshot_of_read_route [simp]: "snapshot_of i b (read_route d i b)"
  by (auto simp: snapshot_of_def)

lemma snapshot_of_loads: "snapshot_of i b e \<Longrightarrow> loads (dumps e) = Some e"
  by (auto simp: snapshot_of_def)

definition entry_inv :: "instant \<Rightarrow> db \<Rightarrow> bool \<Rightarrow> pk \<Rightarrow> string \<Rightarrow> store \<Rightarrow> bool" where
  "entry_inv t d dirty i b m \<longleftrightarrow>
     (\<forall>v x. m (data_key_of i b) = Some (v, x) \<longrightarrow>
        (\<exists>e. snapshot_of i b e \<and> v = dumps e \<and> (dirty \<or> e = read_route d i b)) \<and>
        (\<exists>u. x = Some u \<and> u \<le> t + second * ROUTE_CACHE_TTL_SECONDS))"

definition cache_inv :: "instant \<Rightarrow> db \<Rightarrow> bool \<Rightarrow> pk \<Rightarrow> string \<Rightarrow> int \<Rightarrow> store \<Rightarrow> bool" where
  "cache_inv t d dirty i b n m \<longleftrightarrow>
     generation_is (version_key_of i b) n m \<and> entry_inv t d dirty i b m"

text \<open>What a lookup remembers: a generation not above the current one, and under the current
  generation an entry that is current.\<close>

fun lookup_inv :: "db \<Rightarrow> bool \<Rightarrow> pk \<Rightarrow> string \<Rightarrow> int \<Rightarrow> pc \<Rightarrow> bool" where
  "lookup_inv d dirty i b n (AtRead _ g) = (\<exists>k. k \<le> n \<and> g = str_of_int k)"
| "lookup_inv d dirty i b n (AtPublish _ g e) =
     (snapshot_of i b e \<and> (\<exists>k. k \<le> n \<and> g = str_of_int k \<and> (k = n \<longrightarrow> dirty \<or> e = read_route d i b)))"
| "lookup_inv d dirty i b n _ = True"

definition route_inv :: "instant \<Rightarrow> db \<Rightarrow> bool \<Rightarrow> pk \<Rightarrow> string \<Rightarrow> store \<Rightarrow> (pk \<times> string \<times> pc) list \<Rightarrow> bool" where
  "route_inv t d dirty i b m ls \<longleftrightarrow>
     (\<exists>n. cache_inv t d dirty i b n m \<and> (\<forall>p. (i, b, p) \<in> set ls \<longrightarrow> lookup_inv d dirty i b n p))"

lemma str_of_int_0: "str_of_int 0 = ''0''"
  by (simp add: str_of_int_def str_of_nat.simps digit_char_def)

lemma generation_read:
  "generation_is vk n m \<Longrightarrow> generation_of (store_get vk m) = str_of_int n"
  by (auto simp: generation_is_def generation_of_def store_get_def str_of_int_0)

lemma generation_lua:
  "generation_is vk n m \<Longrightarrow> (case store_get vk m of None \<Rightarrow> ''0'' | Some g \<Rightarrow> g) = str_of_int n"
  by (auto simp: generation_is_def store_get_def str_of_int_0)

lemma generation_counter: "generation_is vk n m \<Longrightarrow> holds_counter vk m"
  by (auto simp: generation_is_def holds_counter_iff)

lemma generation_incr:
  "generation_is vk n m \<Longrightarrow>
     fst (store_incr vk m) = Inr (n + 1) \<and> generation_is vk (n + 1) (snd (store_incr vk m))"
  by (auto simp: generation_is_def store_incr_def)
    (simp add: str_of_int_def str_of_nat.simps digit_char_def)

lemma store_incr_other: "k \<noteq> vk \<Longrightarrow> snd (store_incr vk m) k = m k"
  by (auto simp: store_incr_def split: option.split prod.split)

lemma generation_aged: "generation_is vk n m \<Longrightarrow> generation_is vk n (aged t m)"
  by (auto simp: generation_is_def aged_def)

lemma entry_inv_aged:
  assumes "entry_inv t d dirty i b m" and "t \<le> t'"
  shows "entry_inv t' d dirty i b (aged t' m)"
  using assms unfolding entry_inv_def aged_def aged_entry_Some
  by (meson add_mono_thms_linordered_semiring(3) order_trans)

lemma cache_inv_aged:
  "cache_inv t d dirty i b n m \<Longrightarrow> t \<le> t' \<Longrightarrow> cache_inv t' d dirty i b n (aged t' m)"
  by (auto simp: cache_inv_def intro: generation_aged entry_inv_aged)

lemma cache_inv_frame:
  "cache_inv t d dirty i b n m \<Longrightarrow> m' (version_key_of i b) = m (version_key_of i b) \<Longrightarrow>
   m' (data_key_of i b) = m (data_key_of i b) \<Longrightarrow> cache_inv t d dirty i b n m'"
  by (simp add: cache_inv_def generation_is_def entry_inv_def)

lemma key_frame:
  assumes "one_segment b" and "one_segment b'" and "(i, b) \<noteq> (i', b')"
  shows "version_key_of i' b' \<noteq> data_key_of i b" "data_key_of i' b' \<noteq> data_key_of i b"
    "version_key_of i' b' \<noteq> version_key_of i b" "data_key_of i' b' \<noteq> version_key_of i b"
proof -
  obtain v k where k: "cache_keys i b = Inr (v, k)" using cache_keys_one_segment [OF assms(1)] by blast
  obtain v' k' where k': "cache_keys i' b' = Inr (v', k')" using cache_keys_one_segment [OF assms(2)] by blast
  note dist = cache_keys_distinct [OF assms(1,2) k k'] cache_keys_distinct [OF assms(2,1) k' k]
  show "version_key_of i' b' \<noteq> data_key_of i b" "data_key_of i' b' \<noteq> data_key_of i b"
    "version_key_of i' b' \<noteq> version_key_of i b" "data_key_of i' b' \<noteq> version_key_of i b"
    using dist assms(3) version_data_keys [OF k] version_data_keys [OF k'] by metis+
qed

lemma version_data_differ: "one_segment b \<Longrightarrow> version_key_of i b \<noteq> data_key_of i b"
  using cache_keys_distinct(3) [of b b i] cache_keys_one_segment [of b i] version_data_keys [of i b]
  by (metis (no_types, lifting))

context redis_server
begin

lemma get_call_effect:
  assumes "invar (server c)" and "get_call R t k c = (r, c')"
  shows "invar (server c')" "view (server c') t = view (server c) t"
    "\<And>v. r = Inr v \<Longrightarrow> v = store_get k (view (server c) t)"
proof -
  have "server c' = server c \<or> server c' = snd (r_get R t k (server c))"
    using assms(2) redis_call_server [of "\<lambda>s. case r_get R t k s of (v, s') \<Rightarrow> (Inr v, s')" c]
    by (auto simp: get_call_def split: prod.splits)
  then show "invar (server c')" "view (server c') t = view (server c) t"
    using assms(1) by (auto simp: get_invar get_view)
  show "\<And>v. r = Inr v \<Longrightarrow> v = store_get k (view (server c) t)"
    using assms get_value [OF assms(1), of t k]
    by (auto simp: get_call_def dest!: redis_call_Inr split: prod.splits)
qed

lemma publish_effect:
  assumes "invar (server c)" and "generation_is vk n (view (server c) t)" and "0 < ttl"
    and "redis_call (publish_if_current R t vk dk g payload ttl) c = (r, c')"
  shows "invar (server c')"
    and "view (server c') t = view (server c) t \<or>
         g = str_of_int n \<and> view (server c') t = store_set_ex t dk payload ttl (view (server c) t)"
    and "\<And>x. r = Inr x \<Longrightarrow> x = (if g = str_of_int n then 1 else 0)"
proof -
  let ?f = "publish_if_current R t vk dk g payload ttl"
  obtain v s1 where get: "r_get R t vk (server c) = (v, s1)" by force
  have v: "v = store_get vk (view (server c) t)" and s1: "invar s1" "view s1 t = view (server c) t"
    using get_value [OF assms(1), of t vk] get_invar [OF assms(1), of t vk]
      get_view [OF assms(1), of t vk] get by auto
  have f: "?f (server c) = (if str_of_int n \<noteq> g then (Inr 0, s1)
      else (Inr 1, r_set_ex R t dk payload ttl s1))"
    by (simp add: publish_if_current_def get v generation_lua [OF assms(2)] Let_def)
  have "server c' = server c \<or> server c' = snd (?f (server c))"
    using redis_call_server [of ?f c] assms(4) by simp
  then show "invar (server c')" and "view (server c') t = view (server c) t \<or>
         g = str_of_int n \<and> view (server c') t = store_set_ex t dk payload ttl (view (server c) t)"
    using assms(1,3) s1 by (auto simp: f set_invar set_view split: if_splits)
  show "\<And>x. r = Inr x \<Longrightarrow> x = (if g = str_of_int n then 1 else 0)"
    using redis_call_Inr [of ?f c _ c'] assms(4) f by (auto split: if_splits)
qed

lemma invalidate_effect:
  assumes "invar (server c)" and "generation_is vk n (view (server c) t)" and "vk \<noteq> dk"
    and "redis_call (invalidate_script R t vk dk) c = (r, c')"
  shows "invar (server c')"
    and "view (server c') t = view (server c) t \<and> (\<forall>x. r \<noteq> Inr x) \<or>
         generation_is vk (n + 1) (view (server c') t) \<and> view (server c') t dk = None \<and>
         (\<forall>k. k \<noteq> vk \<longrightarrow> k \<noteq> dk \<longrightarrow> view (server c') t k = view (server c) t k)"
proof -
  let ?f = "invalidate_script R t vk dk" and ?m = "view (server c) t"
  obtain v s1 where incr: "r_incr R t vk (server c) = (v, s1)" by force
  have v: "v = Inr (n + 1)" and s1: "invar s1" "view s1 t = snd (store_incr vk ?m)"
    using incr_value [OF assms(1) generation_counter [OF assms(2)]]
      incr_view [OF assms(1) generation_counter [OF assms(2)]]
      incr_invar [OF assms(1), of t vk] incr generation_incr [OF assms(2)] by auto
  have f: "?f (server c) = (Inr 1, r_del R t dk s1)"
    by (simp add: invalidate_script_def incr v)
  have new: "view (r_del R t dk s1) t = store_del dk (snd (store_incr vk ?m))"
    using s1 by (simp add: del_view)
  have gen: "generation_is vk (n + 1) (store_del dk (snd (store_incr vk ?m)))"
    using generation_incr [OF assms(2)] assms(3)
    by (auto simp: generation_is_def store_del_def)
  have sv: "server c' = server c \<and> (\<forall>x. r \<noteq> Inr x) \<or> server c' = snd (?f (server c))"
    using assms(4) f by (auto simp: redis_call_def split: list.splits delivery.splits prod.splits)
  then show "invar (server c')" using assms(1) s1 by (auto simp: f del_invar)
  show "view (server c') t = ?m \<and> (\<forall>x. r \<noteq> Inr x) \<or>
         generation_is vk (n + 1) (view (server c') t) \<and> view (server c') t dk = None \<and>
         (\<forall>k. k \<noteq> vk \<longrightarrow> k \<noteq> dk \<longrightarrow> view (server c') t k = ?m k)"
    using sv new gen by (auto simp: f store_del_def store_incr_other)
qed


text \<open>One step of a lookup keeps its route's invariant, changes no other key, and finishes only
  with the current entry while the route is settled.\<close>

definition step_good ::
    "instant \<Rightarrow> db \<Rightarrow> bool \<Rightarrow> pk \<Rightarrow> string \<Rightarrow> int \<Rightarrow> store \<Rightarrow> 's client \<Rightarrow> pc \<Rightarrow> pc \<Rightarrow> bool" where
  "step_good t d dirty i b n m c' p p' \<longleftrightarrow>
     invar (server c') \<and> cache_inv t d dirty i b n (view (server c') t) \<and> lookup_inv d dirty i b n p'
     \<and> (\<forall>k. k \<noteq> data_key_of i b \<longrightarrow> view (server c') t k = m k)
     \<and> (\<forall>e. p' = Finished e \<longrightarrow>
            p = Finished e \<or> snapshot_of i b e \<and> (dirty \<or> e = read_route d i b))"

lemma step_good_same:
  assumes "invar (server c')" and "cache_inv t d dirty i b n m" and "view (server c') t = m"
    and "lookup_inv d dirty i b n p'" and "\<And>e. p' = Finished e \<Longrightarrow>
      p = Finished e \<or> snapshot_of i b e \<and> (dirty \<or> e = read_route d i b)"
  shows "step_good t d dirty i b n m c' p p'"
  using assms by (simp add: step_good_def)

lemma reader_step_client:
  assumes "invar (server c)" and "cache_inv t d dirty i b n (view (server c) t)"
  shows "step_good t d dirty i b n (view (server c) t) (snd (reader_step S R t d i b AtClient c)) AtClient
           (fst (reader_step S R t d i b AtClient c))"
proof -
  obtain r c1 where g: "get_redis_client S None c = (r, c1)" by force
  then have "server c1 = server c" by (rule get_redis_client_same)
  with assms show ?thesis
    by (auto simp: g intro!: step_good_same split: sum.split)
qed

lemma reader_step_data:
  assumes "invar (server c)" and "cache_inv t d dirty i b n (view (server c) t)"
  shows "step_good t d dirty i b n (view (server c) t) (snd (reader_step S R t d i b (AtData m) c)) (AtData m)
           (fst (reader_step S R t d i b (AtData m) c))"
proof (cases m)
  case 0
  then show ?thesis using assms by (auto intro!: step_good_same)
next
  case (Suc l)
  obtain r c' where get: "get_call R t (data_key_of i b) c = (r, c')" by force
  note eff = get_call_effect [OF assms(1) get]
  have hit: "loads cached = Some entry \<Longrightarrow>
      snapshot_of i b entry \<and> (dirty \<or> entry = read_route d i b)"
    if hitr: "r = Inr (Some cached)" for cached entry
  proof -
    obtain x where "view (server c) t (data_key_of i b) = Some (cached, x)"
      using eff(3) [OF hitr]
      by (cases "view (server c) t (data_key_of i b)") (auto simp: store_get_def)
    then obtain e where "snapshot_of i b e" "cached = dumps e" "dirty \<or> e = read_route d i b"
      using assms(2) by (auto simp: cache_inv_def entry_inv_def)
    then show "loads cached = Some entry \<Longrightarrow>
        snapshot_of i b entry \<and> (dirty \<or> entry = read_route d i b)"
      using snapshot_of_loads by auto
  qed
  show ?thesis
    using eff(1,2) assms(2) hit unfolding Suc
    by (auto simp: get intro!: step_good_same split: sum.split option.split)
qed

lemma reader_step_version:
  assumes "invar (server c)" and "cache_inv t d dirty i b n (view (server c) t)"
  shows "step_good t d dirty i b n (view (server c) t) (snd (reader_step S R t d i b (AtVersion m) c))
           (AtVersion m) (fst (reader_step S R t d i b (AtVersion m) c))"
proof -
  obtain r c' where get: "get_call R t (version_key_of i b) c = (r, c')" by force
  note eff = get_call_effect [OF assms(1) get]
  have "generation_of v = str_of_int n" if "r = Inr v" for v
    using eff(3) [OF that] assms(2) by (simp add: cache_inv_def generation_read)
  then show ?thesis
    using eff(1,2) assms(2)
    by (auto simp: get intro!: step_good_same split: sum.split)
qed

lemma reader_step_publish:
  assumes "invar (server c)" and "cache_inv t d dirty i b n (view (server c) t)"
    and "lookup_inv d dirty i b n (AtPublish m g e)" and "one_segment b"
  shows "step_good t d dirty i b n (view (server c) t) (snd (reader_step S R t d i b (AtPublish m g e) c))
           (AtPublish m g e) (fst (reader_step S R t d i b (AtPublish m g e) c))"
proof -
  let ?m = "view (server c) t" and ?vk = "version_key_of i b" and ?dk = "data_key_of i b"
  obtain r c' where pub: "redis_call (publish_if_current R t ?vk ?dk g (dumps e) ROUTE_CACHE_TTL_SECONDS) c
      = (r, c')" by force
  have gen: "generation_is ?vk n ?m" using assms(2) by (simp add: cache_inv_def)
  have ttl: "0 < ROUTE_CACHE_TTL_SECONDS" by (simp add: ROUTE_CACHE_TTL_SECONDS_def)
  note eff = publish_effect [OF assms(1) gen ttl pub]
  obtain k where k: "snapshot_of i b e" "g = str_of_int k" "k = n \<longrightarrow> dirty \<or> e = read_route d i b"
    using assms(3) by auto
  have stored: "cache_inv t d dirty i b n (store_set_ex t ?dk (dumps e) ROUTE_CACHE_TTL_SECONDS ?m)"
    if "g = str_of_int n"
    using that k assms(2) version_data_differ [OF assms(4), of i]
    by (auto simp: cache_inv_def generation_is_def entry_inv_def store_set_ex_def)
  have "cache_inv t d dirty i b n (view (server c') t)" using eff(2) stored assms(2) by auto
  moreover have "\<forall>k. k \<noteq> ?dk \<longrightarrow> view (server c') t k = ?m k"
    using eff(2) by (auto simp: store_set_ex_def)
  moreover have "r = Inr 1 \<Longrightarrow> snapshot_of i b e \<and> (dirty \<or> e = read_route d i b)"
    using eff(3) k by fastforce
  ultimately show ?thesis
    using eff(1) unfolding step_good_def by (auto simp: pub split: sum.split)
qed

lemma reader_step_good:
  assumes "invar (server c)" and "cache_inv t d dirty i b n (view (server c) t)"
    and "lookup_inv d dirty i b n p" and "one_segment b"
  shows "step_good t d dirty i b n (view (server c) t) (snd (reader_step S R t d i b p c)) p
           (fst (reader_step S R t d i b p c))"
proof (cases p)
  case (AtRead m g)
  have "read_route d i b = JNull \<Longrightarrow> snapshot_of i b JNull" by (metis snapshot_of_read_route)
  with AtRead show ?thesis
    using assms by (auto simp: Let_def intro!: step_good_same)
next
  case AtFallback
  then show ?thesis using assms by (auto intro!: step_good_same)
next
  case (Finished e)
  then show ?thesis using assms by (auto intro!: step_good_same)
next
  case (AtPublish m g e)
  then show ?thesis using assms reader_step_publish by simp
qed (use assms reader_step_client reader_step_data reader_step_version in simp_all)

lemma invalidate_route_effect:
  assumes "invar (server c)" and "generation_is (version_key_of i b) n (view (server c) t)"
    and "one_segment b" and "invalidate_route S R t (Some i) b c = (failed, c')"
  shows "invar (server c')"
    and "failed \<and> view (server c') t = view (server c) t \<or>
         generation_is (version_key_of i b) (n + 1) (view (server c') t) \<and>
         view (server c') t (data_key_of i b) = None \<and>
         (\<forall>k. k \<noteq> version_key_of i b \<longrightarrow> k \<noteq> data_key_of i b \<longrightarrow>
            view (server c') t k = view (server c) t k)"
proof -
  obtain vk dk where ks: "cache_keys i b = Inr (vk, dk)"
    using cache_keys_one_segment [OF assms(3)] by blast
  then have keys: "version_key_of i b = vk" "data_key_of i b = dk" by (auto dest: version_data_keys)
  have differ: "vk \<noteq> dk" using version_data_differ [OF assms(3), of i] keys by simp
  have ne: "b \<noteq> []" using assms(3) by (auto simp: one_segment_iff)
  obtain r1 c1 where g: "get_redis_client S None c = (r1, c1)" by force
  then have c1: "server c1 = server c" by (rule get_redis_client_same)
  show "invar (server c')"
    and "failed \<and> view (server c') t = view (server c) t \<or>
         generation_is (version_key_of i b) (n + 1) (view (server c') t) \<and>
         view (server c') t (data_key_of i b) = None \<and>
         (\<forall>k. k \<noteq> version_key_of i b \<longrightarrow> k \<noteq> data_key_of i b \<longrightarrow>
            view (server c') t k = view (server c) t k)"
  proof (atomize (full), cases r1)
    case (Inl e)
    then show "invar (server c') \<and> (failed \<and> view (server c') t = view (server c) t \<or>
         generation_is (version_key_of i b) (n + 1) (view (server c') t) \<and>
         view (server c') t (data_key_of i b) = None \<and>
         (\<forall>k. k \<noteq> version_key_of i b \<longrightarrow> k \<noteq> data_key_of i b \<longrightarrow>
            view (server c') t k = view (server c) t k))"
      using assms c1 ne by (auto simp: invalidate_route_def ks g)
  next
    case (Inr u)
    obtain r2 c2 where call: "redis_call (invalidate_script R t vk dk) c1 = (r2, c2)" by force
    have out: "c' = c2" "failed = (\<exists>e. r2 = Inl e)"
      using assms(4) ne Inr by (auto simp: invalidate_route_def ks g call split: sum.splits)
    have "invar (server c1)" "generation_is vk n (view (server c1) t)"
      using assms(1,2) c1 keys by simp_all
    note eff = invalidate_effect [OF this differ call]
    show "invar (server c') \<and> (failed \<and> view (server c') t = view (server c) t \<or>
         generation_is (version_key_of i b) (n + 1) (view (server c') t) \<and>
         view (server c') t (data_key_of i b) = None \<and>
         (\<forall>k. k \<noteq> version_key_of i b \<longrightarrow> k \<noteq> data_key_of i b \<longrightarrow>
            view (server c') t k = view (server c) t k))"
      using eff c1 keys out by (cases r2) auto
  qed
qed

section \<open>The invariant of the system\<close>

definition race_inv :: "'s cluster \<Rightarrow> bool" where
  "race_inv s \<longleftrightarrow>
     invar (server (c_client s)) \<and>
     (\<forall>i b. one_segment b \<longrightarrow>
        route_inv (c_now s) (c_db s) (unsettled s i b) i b (view (server (c_client s)) (c_now s)) (c_lookups s)) \<and>
     (\<forall>(i, b, p) \<in> set (c_lookups s). one_segment b) \<and>
     (\<forall>(i, b) \<in> set (c_pending s). one_segment b)"

lemma race_invD:
  assumes "race_inv s"
  shows "invar (server (c_client s))"
    and "\<And>i b. one_segment b \<Longrightarrow> route_inv (c_now s) (c_db s) (unsettled s i b) i b
            (view (server (c_client s)) (c_now s)) (c_lookups s)"
    and "\<And>i b p. (i, b, p) \<in> set (c_lookups s) \<Longrightarrow> one_segment b"
    and "\<And>i b. (i, b) \<in> set (c_pending s) \<Longrightarrow> one_segment b"
  using assms unfolding race_inv_def by blast+

lemma race_inv_tick:
  assumes "race_inv s" and "c_now s \<le> t"
  shows "race_inv (s\<lparr>c_now := t\<rparr>)"
proof -
  have "route_inv t (c_db s) (unsettled s i b) i b (view (server (c_client s)) t) (c_lookups s)"
    if seg: "one_segment b" for i b
  proof -
    obtain n where "cache_inv (c_now s) (c_db s) (unsettled s i b) i b n (view (server (c_client s)) (c_now s))"
      and l: "\<forall>p. (i, b, p) \<in> set (c_lookups s) \<longrightarrow> lookup_inv (c_db s) (unsettled s i b) i b n p"
      using race_invD(2) [OF assms(1) seg, of i] by (auto simp: route_inv_def)
    from cache_inv_aged [OF this(1) assms(2)] l show ?thesis
      unfolding route_inv_def view_aged [OF race_invD(1) [OF assms(1)] assms(2)] by blast
  qed
  then show ?thesis using assms(1) by (simp add: race_inv_def unsettled_def)
qed

lemma race_inv_start:
  assumes "race_inv s" and "one_segment b"
  shows "race_inv (s\<lparr>c_lookups := c_lookups s @ [(i, b, AtClient)]\<rparr>)"
  using assms by (fastforce simp: race_inv_def route_inv_def unsettled_def)

lemma lookups_update:
  assumes "x \<in> set (xs[k := y])"
  shows "x = y \<or> x \<in> set xs"
  using assms set_update_subset_insert by fastforce

lemma lookup_inv_commit:
  assumes "lookup_inv d dirty i b n p" and "dirty \<Longrightarrow> dirty'"
    and "read_route d i b \<noteq> read_route d' i b \<Longrightarrow> dirty'"
  shows "lookup_inv d' dirty' i b n p"
  using assms by (cases p) auto

lemma cache_inv_commit:
  assumes "cache_inv t d dirty i b n m" and "dirty \<Longrightarrow> dirty'"
    and "read_route d i b \<noteq> read_route d' i b \<Longrightarrow> dirty'"
  shows "cache_inv t d' dirty' i b n m"
  using assms unfolding cache_inv_def entry_inv_def by metis

lemma route_inv_commit:
  assumes "route_inv t d dirty i b m ls" and "dirty \<Longrightarrow> dirty'"
    and "read_route d i b \<noteq> read_route d' i b \<Longrightarrow> dirty'"
  shows "route_inv t d' dirty' i b m ls"
proof -
  obtain n where n: "cache_inv t d dirty i b n m"
    "\<And>p. (i, b, p) \<in> set ls \<Longrightarrow> lookup_inv d dirty i b n p"
    using assms(1) by (auto simp: route_inv_def)
  show ?thesis
    unfolding route_inv_def
    using cache_inv_commit [OF n(1) assms(2,3)] lookup_inv_commit [OF n(2) assms(2,3)] by blast
qed

lemma step_good_commit:
  assumes "step_good t d dirty i b n m c' p p'" and "read_route d i b \<noteq> read_route d' i b \<Longrightarrow> dirty"
  shows "step_good t d' dirty i b n m c' p p'"
  using assms cache_inv_commit [of t d dirty i b n _ dirty d'] lookup_inv_commit [of d dirty i b n p' dirty d']
  unfolding step_good_def by metis

text \<open>
  The database a step reads may be another one than \<open>c_db\<close>, as long as the two differ in routes
  only whose invalidation is outstanding.
\<close>

lemma race_inv_read:
  assumes "race_inv s" and "k < length (c_lookups s)" and "c_lookups s ! k = (i, b, p)"
    and "reader_step S R (c_now s) d i b p (c_client s) = (p', c')"
    and agree: "read_route d i b \<noteq> read_route (c_db s) i b \<Longrightarrow> unsettled s i b"
  shows "race_inv (s\<lparr>c_client := c', c_lookups := (c_lookups s)[k := (i, b, p')]\<rparr>)"
    and "\<And>e. p' = Finished e \<Longrightarrow>
      p = Finished e \<or> snapshot_of i b e \<and> (unsettled s i b \<or> e = read_route (c_db s) i b)"
proof -
  let ?m = "view (server (c_client s)) (c_now s)" and ?ls = "(c_lookups s)[k := (i, b, p')]"
  have mem: "(i, b, p) \<in> set (c_lookups s)" using assms(2,3) by (metis nth_mem)
  have seg: "one_segment b" using race_invD(3) [OF assms(1) mem] .
  obtain n where n: "cache_inv (c_now s) (c_db s) (unsettled s i b) i b n ?m"
    "\<And>p. (i, b, p) \<in> set (c_lookups s) \<Longrightarrow> lookup_inv (c_db s) (unsettled s i b) i b n p"
    using race_invD(2) [OF assms(1) seg, of i] by (auto simp: route_inv_def)
  have there: "cache_inv (c_now s) d (unsettled s i b) i b n ?m" "lookup_inv d (unsettled s i b) i b n p"
    using cache_inv_commit [OF n(1)] lookup_inv_commit [OF n(2) [OF mem]] agree by metis+
  have good: "step_good (c_now s) (c_db s) (unsettled s i b) i b n ?m c' p p'"
    using reader_step_good [OF race_invD(1) [OF assms(1)] there seg, of S] agree
    by (simp add: assms(4)) (metis step_good_commit)
  show "\<And>e. p' = Finished e \<Longrightarrow>
      p = Finished e \<or> snapshot_of i b e \<and> (unsettled s i b \<or> e = read_route (c_db s) i b)"
    using good by (simp add: step_good_def)
  have same: "route_inv (c_now s) (c_db s) (unsettled s i b) i b (view (server c') (c_now s)) ?ls"
    using good n(2) unfolding route_inv_def step_good_def by (metis lookups_update prod.inject)
  have other: "route_inv (c_now s) (c_db s) (unsettled s i' b') i' b' (view (server c') (c_now s)) ?ls"
    if seg': "one_segment b'" and ne: "(i, b) \<noteq> (i', b')" for i' b'
  proof -
    obtain n' where n': "cache_inv (c_now s) (c_db s) (unsettled s i' b') i' b' n' ?m"
      "\<And>p. (i', b', p) \<in> set (c_lookups s) \<Longrightarrow> lookup_inv (c_db s) (unsettled s i' b') i' b' n' p"
      using race_invD(2) [OF assms(1) seg', of i'] by (auto simp: route_inv_def)
    have "cache_inv (c_now s) (c_db s) (unsettled s i' b') i' b' n' (view (server c') (c_now s))"
      using good key_frame [OF seg seg' ne]
      by (intro cache_inv_frame [OF n'(1)]) (simp_all add: step_good_def)
    then show ?thesis
      using n'(2) ne unfolding route_inv_def by (metis lookups_update prod.inject)
  qed
  have routes: "route_inv (c_now s) (c_db s) (unsettled s i' b') i' b' (view (server c') (c_now s)) ?ls"
    if seg': "one_segment b'" for i' b'
    using same other [OF seg', of i'] by (cases "(i, b) = (i', b')") auto
  have "unsettled (s\<lparr>c_client := c', c_lookups := ?ls\<rparr>) = unsettled s"
    by (simp add: unsettled_def fun_eq_iff)
  moreover have "\<forall>(i, b, p) \<in> set ?ls. one_segment b"
    using assms(1) seg set_update_subset_insert [of "c_lookups s" k "(i, b, p')"]
    by (fastforce simp: race_inv_def)
  ultimately show "race_inv (s\<lparr>c_client := c', c_lookups := ?ls\<rparr>)"
    using good routes race_invD(4) [OF assms(1)] unfolding race_inv_def
    by (auto simp: step_good_def)
qed

lemma race_inv_lookup:
  assumes "race_inv s" and "k < length (c_lookups s)" and "c_lookups s ! k = (i, b, p)"
    and "reader_step S R (c_now s) (c_db s) i b p (c_client s) = (p', c')"
  shows "race_inv (s\<lparr>c_client := c', c_lookups := (c_lookups s)[k := (i, b, p')]\<rparr>)"
    and "\<And>e. p' = Finished e \<Longrightarrow>
      p = Finished e \<or> snapshot_of i b e \<and> (unsettled s i b \<or> e = read_route (c_db s) i b)"
  using race_inv_read [OF assms] by simp_all

lemma race_inv_commit:
  assumes "race_inv s" and "covers (c_db s) d' ks" and "list_all (\<lambda>(_, b). one_segment b) ks"
  shows "race_inv (s\<lparr>c_db := d', c_pending := c_pending s @ ks\<rparr>)"
proof -
  let ?s = "s\<lparr>c_db := d', c_pending := c_pending s @ ks\<rparr>"
  have mono: "unsettled s i b \<Longrightarrow> unsettled ?s i b" for i b by (auto simp: unsettled_def)
  have new: "read_route (c_db s) i b \<noteq> read_route d' i b \<Longrightarrow> unsettled ?s i b" for i b
    using assms(2) by (auto simp: unsettled_def covers_def)
  have "route_inv (c_now s) d' (unsettled ?s i b) i b (view (server (c_client s)) (c_now s)) (c_lookups s)"
    if seg: "one_segment b" for i b
    by (rule route_inv_commit [OF race_invD(2) [OF assms(1) seg, of i] mono new])
  then show ?thesis using assms(1,3) by (auto simp: race_inv_def list_all_iff)
qed

lemma race_inv_invalidate:
  assumes "race_inv s" and "(i, b) \<in> set (c_pending s)"
    and "invalidate_route S R (c_now s) (Some i) b (c_client s) = (failed, c')"
  shows "race_inv (s\<lparr>c_client := c', c_pending := remove1 (i, b) (c_pending s),
         c_missed := if failed then (i, b) # c_missed s
                     else filter (\<lambda>x. x \<noteq> (i, b)) (c_missed s)\<rparr>)"
proof -
  let ?s = "s\<lparr>c_client := c', c_pending := remove1 (i, b) (c_pending s),
         c_missed := if failed then (i, b) # c_missed s
                     else filter (\<lambda>x. x \<noteq> (i, b)) (c_missed s)\<rparr>"
  let ?m = "view (server (c_client s)) (c_now s)" and ?m' = "view (server c') (c_now s)"
  have seg: "one_segment b" using race_invD(4) [OF assms(1,2)] .
  have others: "unsettled ?s i' b' = unsettled s i' b'" if "(i', b') \<noteq> (i, b)" for i' b'
    using that by (auto simp: unsettled_def)
  have fails: "failed \<Longrightarrow> unsettled ?s i b" by (simp add: unsettled_def)
  obtain n where n: "cache_inv (c_now s) (c_db s) (unsettled s i b) i b n ?m"
    "\<And>p. (i, b, p) \<in> set (c_lookups s) \<Longrightarrow> lookup_inv (c_db s) (unsettled s i b) i b n p"
    using race_invD(2) [OF assms(1) seg, of i] by (auto simp: route_inv_def)
  have gen: "generation_is (version_key_of i b) n ?m" using n(1) by (simp add: cache_inv_def)
  note eff = invalidate_route_effect [OF race_invD(1) [OF assms(1)] gen seg assms(3)]
  have same: "route_inv (c_now s) (c_db s) (unsettled ?s i b) i b ?m' (c_lookups s)"
  proof (cases "failed \<and> ?m' = ?m")
    case True
    have "route_inv (c_now s) (c_db s) True i b ?m (c_lookups s)"
      by (rule route_inv_commit [OF race_invD(2) [OF assms(1) seg, of i]]) simp_all
    then show ?thesis using True fails by simp
  next
    case False
    then have bumped: "generation_is (version_key_of i b) (n + 1) ?m'" "?m' (data_key_of i b) = None"
      using eff(2) by auto
    have "lookup_inv (c_db s) (unsettled ?s i b) i b (n + 1) p" if "(i, b, p) \<in> set (c_lookups s)" for p
      using n(2) [OF that] by (cases p) (auto intro: order_trans)
    then show ?thesis
      using bumped unfolding route_inv_def cache_inv_def entry_inv_def by (metis option.distinct(1))
  qed
  have other: "route_inv (c_now s) (c_db s) (unsettled ?s i' b') i' b' ?m' (c_lookups s)"
    if seg': "one_segment b'" and ne: "(i, b) \<noteq> (i', b')" for i' b'
  proof -
    obtain n' where n': "cache_inv (c_now s) (c_db s) (unsettled s i' b') i' b' n' ?m"
      "\<And>p. (i', b', p) \<in> set (c_lookups s) \<Longrightarrow> lookup_inv (c_db s) (unsettled s i' b') i' b' n' p"
      using race_invD(2) [OF assms(1) seg', of i'] by (auto simp: route_inv_def)
    have "cache_inv (c_now s) (c_db s) (unsettled s i' b') i' b' n' ?m'"
      using eff(2) key_frame [OF seg seg' ne] by (intro cache_inv_frame [OF n'(1)]) auto
    moreover have "(i', b') \<noteq> (i, b)" using ne by auto
    ultimately show ?thesis
      unfolding others [OF \<open>(i', b') \<noteq> (i, b)\<close>] using n'(2) unfolding route_inv_def by blast
  qed
  have routes: "route_inv (c_now s) (c_db s) (unsettled ?s i' b') i' b' ?m' (c_lookups s)"
    if seg': "one_segment b'" for i' b'
    using same other [OF seg', of i'] by (cases "(i, b) = (i', b')") auto
  have "\<forall>(i, b) \<in> set (remove1 (i, b) (c_pending s)). one_segment b"
    using race_invD(4) [OF assms(1)] set_remove1_subset [of "(i, b)" "c_pending s"] by fast
  moreover have "\<forall>(i, b, p) \<in> set (c_lookups s). one_segment b"
    using assms(1) unfolding race_inv_def by blast
  ultimately show ?thesis
    using routes eff(1) unfolding race_inv_def by simp
qed

lemma race_inv_step:
  assumes "race_step S R s s'" and "race_inv s"
  shows "race_inv s'"
  using assms(1)
proof cases
  case (invalidate i b failed c')
  show ?thesis unfolding invalidate(1) by (rule race_inv_invalidate [OF assms(2) invalidate(2,3)])
qed (use assms(2) in \<open>auto intro: race_inv_tick race_inv_start race_inv_lookup race_inv_commit
      request_base_path_one_segment\<close>)

lemma race_inv_runs: "runs_to S R s s' \<Longrightarrow> race_inv s \<Longrightarrow> race_inv s'"
  unfolding runs_to_def by (induction rule: rtranclp_induct) (auto intro: race_inv_step)

lemma race_inv_initial:
  assumes "invar (server c)" and "view (server c) t = Map.empty"
  shows "race_inv \<lparr>c_db = d, c_client = c, c_now = t, c_lookups = [], c_pending = [], c_missed = []\<rparr>"
proof -
  have "cache_inv t d False i b 0 (view (server c) t)" for i b
    using assms(2) by (simp add: cache_inv_def generation_is_def entry_inv_def)
  then show ?thesis using assms(1) unfolding race_inv_def route_inv_def by (auto simp: unsettled_def)
qed

text \<open>A lookup that runs alone while its route is settled.\<close>

lemma reader_run_current:
  assumes "reader_run S R t d i b k p c = (p', c')" and "invar (server c)"
    and "cache_inv t d dirty i b n (view (server c) t)" and "lookup_inv d dirty i b n p" and "one_segment b"
  shows "invar (server c') \<and> cache_inv t d dirty i b n (view (server c') t)
    \<and> (\<forall>e. p' = Finished e \<longrightarrow>
          p = Finished e \<or> snapshot_of i b e \<and> (dirty \<or> e = read_route d i b))"
  using assms(1-4)
proof (induction k arbitrary: p c)
  case (Suc k)
  obtain q c1 where step: "reader_step S R t d i b p c = (q, c1)" by force
  have good: "step_good t d dirty i b n (view (server c) t) c1 p q"
    using reader_step_good [OF Suc.prems(2-4) assms(5), of S] by (simp add: step)
  have "reader_run S R t d i b k q c1 = (p', c')" using Suc.prems(1) by (simp add: step)
  from Suc.IH [OF this] good show ?case unfolding step_good_def by blast
qed auto

lemma get_route_current:
  assumes "race_inv s" and "one_segment b"
    and "get_route S R (c_now s) (c_db s) i b (c_client s) = (e, c')"
  shows "snapshot_of i b e" and "unsettled s i b \<or> e = read_route (c_db s) i b"
proof -
  obtain n where n: "cache_inv (c_now s) (c_db s) (unsettled s i b) i b n
      (view (server (c_client s)) (c_now s))"
    using race_invD(2) [OF assms(1,2)] by (auto simp: route_inv_def)
  have "reader_run S R (c_now s) (c_db s) i b 14 AtClient (c_client s) = (Finished e, c')"
    using assms(3) by (simp add: reader_run_is_get_route)
  from reader_run_current [OF this race_invD(1) [OF assms(1)] n _ assms(2)]
  show "snapshot_of i b e" and "unsettled s i b \<or> e = read_route (c_db s) i b" by simp_all
qed

end

section \<open>Runs of a lookup\<close>

definition initial_cluster :: "db \<Rightarrow> 's client \<Rightarrow> instant \<Rightarrow> 's cluster" where
  "initial_cluster d c t =
     \<lparr>c_db = d, c_client = c, c_now = t, c_lookups = [], c_pending = [], c_missed = []\<rparr>"

lemma runs_to_refl: "runs_to S R s s"
  by (simp add: runs_to_def)

lemma runs_to_step: "runs_to S R s s' \<Longrightarrow> race_step S R s' s'' \<Longrightarrow> runs_to S R s s''"
  unfolding runs_to_def by (rule rtranclp.rtrancl_into_rtrancl)

lemma runs_to_reader_run:
  assumes "runs_to S R s s'" and "c_lookups s' = [(i, b, p)]"
    and "reader_run S R (c_now s') (c_db s') i b k p (c_client s') = (p', c')"
  shows "runs_to S R s (s'\<lparr>c_client := c', c_lookups := [(i, b, p')]\<rparr>)"
  using assms
proof (induction k arbitrary: s' p)
  case 0
  then have "s' = s'\<lparr>c_client := c', c_lookups := [(i, b, p')]\<rparr>" by simp
  then show ?case using 0(1) by simp
next
  case (Suc k)
  obtain q c1 where step: "reader_step S R (c_now s') (c_db s') i b p (c_client s') = (q, c1)" by force
  let ?s = "s'\<lparr>c_client := c1, c_lookups := (c_lookups s')[0 := (i, b, q)]\<rparr>"
  have "runs_to S R s ?s"
    using Suc.prems(2) step by (intro runs_to_step [OF Suc.prems(1)] race_step.lookup) auto
  from Suc.IH [OF this] Suc.prems(2,3) step show ?case by simp
qed

text \<open>A run on the test double: one lookup of the sample route, from an empty cache.\<close>

definition cache_client :: "fake client" where
  "cache_client = \<lparr>server = empty_fake, net = [], pool = []\<rparr>"

lemma cache_client_fields: "server cache_client = empty_fake" "net cache_client = []"
  by (simp_all add: cache_client_def)

definition cache_after :: "fake client" where
  "cache_after = snd (get_route dev_settings fake_redis 10 sample_routes_db 1 ''/doctors'' cache_client)"

definition sample_cluster :: "fake cluster" where
  "sample_cluster = (initial_cluster sample_routes_db cache_client 10)
     \<lparr>c_client := cache_after,
      c_lookups := [(1, ''/doctors'', Finished (route_entry sample_route (Some sample_service)))]\<rparr>"

lemma doctors_segment [simp]: "one_segment ''/doctors''"
  by (simp add: one_segment_iff)

lemma sample_get_route:
  "get_route dev_settings fake_redis 10 sample_routes_db 1 ''/doctors'' cache_client =
     (route_entry sample_route (Some sample_service), cache_after)"
  "map_of (f_data (server cache_after)) (data_key_of 1 ''/doctors'')
     = Some (dumps (route_entry sample_route (Some sample_service)))"
  "map_of (f_expires (server cache_after)) (data_key_of 1 ''/doctors'') = Some (10 + second * 60)"
proof -
  obtain vk dk where ks: "cache_keys 1 ''/doctors'' = Inr (vk, dk)"
    using cache_keys_one_segment [OF doctors_segment] by blast
  have keys: "data_key_of 1 ''/doctors'' = dk" using version_data_keys [OF ks] by simp
  have ne: "route_entry sample_route (Some sample_service) \<noteq> JNull" by (simp add: route_entry_def)
  obtain c1 where g: "get_redis_client dev_settings None cache_client = (Inr (), c1)"
    and c1: "server c1 = empty_fake" "net c1 = []"
    using get_redis_client_reliable [of cache_client dev_settings None]
      get_redis_client_same [of dev_settings None cache_client] cache_client_fields
    by (metis prod.collapse)
  have three: "(3::nat) = Suc 2" by simp
  have run: "cache_attempts fake_redis 10 sample_routes_db 1 ''/doctors'' vk dk 3 c1 =
     (Inr (route_entry sample_route (Some sample_service)),
      c1\<lparr>server := fake_set 10 dk (dumps (route_entry sample_route (Some sample_service)))
                     (Some ROUTE_CACHE_TTL_SECONDS) empty_fake\<rparr>)"
    unfolding three cache_attempts.simps
    by (simp add: get_call_def redis_call_reliable c1 fake_redis_def fake_read_def empty_fake_def
        sample_read_route ne publish_if_current_def generation_of_def Let_def)
  show "get_route dev_settings fake_redis 10 sample_routes_db 1 ''/doctors'' cache_client =
     (route_entry sample_route (Some sample_service), cache_after)"
    by (simp add: cache_after_def get_route_def ks g run del: cache_attempts.simps)
  show "map_of (f_data (server cache_after)) (data_key_of 1 ''/doctors'')
     = Some (dumps (route_entry sample_route (Some sample_service)))"
    "map_of (f_expires (server cache_after)) (data_key_of 1 ''/doctors'') = Some (10 + second * 60)"
    by (simp_all add: cache_after_def get_route_def ks g run keys fake_set_def empty_fake_def
        ROUTE_CACHE_TTL_SECONDS_def del: cache_attempts.simps)
qed

lemma sample_run:
  "runs_to dev_settings fake_redis (initial_cluster sample_routes_db cache_client 10) sample_cluster"
proof -
  let ?s = "initial_cluster sample_routes_db cache_client 10"
  have "request_base_path ''doctors/4'' = ''/doctors''"
    by (simp add: request_base_path_def normalize_path_def strip_def lstrip_def rstrip_def is_slash_def)
  then have "runs_to dev_settings fake_redis ?s
      (?s\<lparr>c_lookups := c_lookups ?s @ [(1, ''/doctors'', AtClient)]\<rparr>)"
    by (intro runs_to_step [OF runs_to_refl] race_step.start [where path = "''doctors/4''"]) simp_all
  from runs_to_reader_run [OF this, of 1 "''/doctors''" AtClient 14] show ?thesis
    by (simp add: initial_cluster_def reader_run_is_get_route sample_get_route(1) sample_cluster_def)
qed

section \<open>Properties\<close>

text \<open>
  C3: cache coherence. Start from an empty cache and let lookups, commits, invalidations, clock
  ticks, lost requests and lost replies happen in any order: whenever no invalidation of a route
  is outstanding or has failed, what Redis holds for it is the text of what the database says now.
  In particular a lookup that read the database before a commit cannot put the old entry back
  after the invalidation.
\<close>

theorem settled_cache_is_current:
  assumes "redis_server R view invar" and "invar (server c)" and "view (server c) t = Map.empty"
    and "runs_to S R (initial_cluster d c t) s" and "one_segment b" and "\<not> unsettled s i b"
    and "view (server (c_client s)) (c_now s) (data_key_of i b) = Some (text, expiry)"
  shows "text = dumps (read_route (c_db s) i b)"
proof -
  have "redis_server.race_inv view invar s"
    using redis_server.race_inv_runs [OF assms(1,4)] redis_server.race_inv_initial [OF assms(1-3)]
    by (simp add: initial_cluster_def)
  then have "route_inv (c_now s) (c_db s) False i b (view (server (c_client s)) (c_now s)) (c_lookups s)"
    using redis_server.race_invD(2) [OF assms(1) _ assms(5), of s i] assms(6) by simp
  with assms(7) show ?thesis by (auto simp: route_inv_def cache_inv_def entry_inv_def)
qed

text \<open>What the sample run ends with: the entry is in the cache, with its minute to live.\<close>

lemma sample_cached:
  "\<exists>x. fake_view (server (c_client sample_cluster)) (c_now sample_cluster) (data_key_of 1 ''/doctors'')
     = Some (dumps (route_entry sample_route (Some sample_service)), x)"
  "\<not> unsettled sample_cluster 1 ''/doctors''" "c_db sample_cluster = sample_routes_db"
  using sample_get_route(2,3)
  by (simp_all add: sample_cluster_def initial_cluster_def unsettled_def fake_view_def second_def)

lemma cache_client_start:
  "fake_ok (server cache_client)" "fake_view (server cache_client) 10 = Map.empty"
  by (simp_all add: cache_client_def empty_fake_ok)

theorem settled_cache_is_current_witness:
  "\<exists>text x. fake_view (server (c_client sample_cluster)) (c_now sample_cluster) (data_key_of 1 ''/doctors'')
        = Some (text, x)
     \<and> text = dumps (read_route sample_routes_db 1 ''/doctors'')"
  using sample_cached settled_cache_is_current [OF fake.redis_server_axioms cache_client_start sample_run doctors_segment,
      of 1]
  by auto

text \<open>
  A lookup answers from the current database. In every reachable state of the same system, a
  step that completes a lookup of a route that is neither being invalidated nor was missed
  returns the entry the database holds at that moment, whether it came from the cache or not;
  and so does a whole \<open>get_route\<close> that runs there undisturbed, under any network failures.
  Unsettled or not, what \<open>get_route\<close> returns is never another project's or base path's entry.
\<close>

lemma settled_lookup_is_current:
  assumes "redis_server R view invar" and "invar (server c)" and "view (server c) t = Map.empty"
    and "runs_to S R (initial_cluster d c t) s"
  shows "(\<not> unsettled s i b \<and> k < length (c_lookups s) \<and> c_lookups s ! k = (i, b, p) \<and> (\<nexists>e. p = Finished e) \<and>
           fst (reader_step S R (c_now s) (c_db s) i b p (c_client s)) = Finished e
           \<longrightarrow> e = read_route (c_db s) i b)
    \<and> (one_segment b \<and> \<not> unsettled s i b \<longrightarrow>
         fst (get_route S R (c_now s) (c_db s) i b (c_client s)) = read_route (c_db s) i b)
    \<and> (one_segment b \<longrightarrow>
         (\<exists>d'. fst (get_route S R (c_now s) (c_db s) i b (c_client s)) = read_route d' i b))"
proof -
  have inv: "redis_server.race_inv view invar s"
    using redis_server.race_inv_runs [OF assms(1,4)] redis_server.race_inv_initial [OF assms(1-3)]
    by (simp add: initial_cluster_def)
  have "e = read_route (c_db s) i b"
    if "\<not> unsettled s i b" "k < length (c_lookups s)" "c_lookups s ! k = (i, b, p)" "\<nexists>e. p = Finished e"
      "fst (reader_step S R (c_now s) (c_db s) i b p (c_client s)) = Finished e"
    using redis_server.race_inv_lookup(2) [OF assms(1) inv that(2,3)] that(1,4,5)
    by (metis prod.collapse)
  moreover have "fst (get_route S R (c_now s) (c_db s) i b (c_client s)) = read_route (c_db s) i b"
    if "one_segment b" "\<not> unsettled s i b"
    using redis_server.get_route_current(2) [OF assms(1) inv that(1)] that(2) by (metis prod.collapse)
  moreover have "\<exists>d'. fst (get_route S R (c_now s) (c_db s) i b (c_client s)) = read_route d' i b"
    if "one_segment b"
    using redis_server.get_route_current(1) [OF assms(1) inv that] unfolding snapshot_of_def
    by (metis prod.collapse)
  ultimately show ?thesis by blast
qed

text \<open>
  A bound on staleness that needs no invalidation at all: in every reachable state, also
  after lost invalidations, an entry in the cache is the text of a snapshot of this very project
  and base path and disappears within the minute.
\<close>

lemma cached_entry_expires:
  assumes "redis_server R view invar" and "invar (server c)" and "view (server c) t = Map.empty"
    and "runs_to S R (initial_cluster d c t) s" and "one_segment b"
    and "view (server (c_client s)) (c_now s) (data_key_of i b) = Some (text, expiry)"
  shows "(\<exists>u. expiry = Some u \<and> c_now s < u \<and> u \<le> c_now s + second * 60)
    \<and> (\<exists>d'. text = dumps (read_route d' i b) \<and> loads text = Some (read_route d' i b))
    \<and> view (server (c_client s)) (c_now s + second * 60) (data_key_of i b) = None"
proof -
  have inv: "redis_server.race_inv view invar s"
    using redis_server.race_inv_runs [OF assms(1,4)] redis_server.race_inv_initial [OF assms(1-3)]
    by (simp add: initial_cluster_def)
  note ok = redis_server.race_invD(1) [OF assms(1) inv]
  have "route_inv (c_now s) (c_db s) (unsettled s i b) i b
      (view (server (c_client s)) (c_now s)) (c_lookups s)"
    by (rule redis_server.race_invD(2) [OF assms(1) inv assms(5)])
  with assms(6) obtain u e where u: "expiry = Some u" "u \<le> c_now s + second * 60"
    and e: "snapshot_of i b e" "text = dumps e"
    by (auto simp: route_inv_def cache_inv_def entry_inv_def ROUTE_CACHE_TTL_SECONDS_def)
  have "c_now s < u"
    using redis_server.view_live [OF assms(1) ok, of "c_now s" "data_key_of i b" "text" u] assms(6) u by simp
  moreover have "view (server (c_client s)) (c_now s + second * 60) (data_key_of i b) = None"
    using redis_server.view_aged [OF assms(1) ok, of "c_now s" "c_now s + second * 60"] assms(6) u
      second_pos [THEN less_imp_le]
    by (simp add: aged_def)
  ultimately show ?thesis using u e by (auto simp: snapshot_of_def)
qed

section \<open>Recovery\<close>

text \<open>The state with the mark of a failed invalidation erased, a minute or more later.\<close>

definition mended :: "'s cluster \<Rightarrow> pk \<Rightarrow> string \<Rightarrow> instant \<Rightarrow> 's cluster" where
  "mended s i b t = s\<lparr>c_now := t, c_missed := filter (\<lambda>x. x \<noteq> (i, b)) (c_missed s)\<rparr>"

context redis_server
begin

lemma mended_inv:
  assumes inv: "race_inv s" and seg: "one_segment b" and pending: "(i, b) \<notin> set (c_pending s)"
    and quiet: "\<And>m g e. (i, b, AtPublish m g e) \<notin> set (c_lookups s)" and t: "c_now s + second * 60 \<le> t"
  shows "race_inv (mended s i b t)"
proof -
  have "0 \<le> second * 60" using second_pos by (simp add: less_imp_le)
  then have later: "c_now s \<le> t" using t by linarith
  note tick = race_inv_tick [OF inv later]
  let ?m = "view (server (c_client s)) t"
  have gone: "?m (data_key_of i b) = None"
  proof (cases "view (server (c_client s)) (c_now s) (data_key_of i b)")
    case None
    then show ?thesis using view_aged [OF race_invD(1) [OF inv] later] by (simp add: aged_None)
  next
    case (Some x)
    obtain w expiry where x: "x = (w, expiry)" by (cases x)
    have "\<exists>u. expiry = Some u \<and> u \<le> c_now s + second * 60"
      using race_invD(2) [OF inv seg, of i] Some
      by (auto simp: x route_inv_def cache_inv_def entry_inv_def ROUTE_CACHE_TTL_SECONDS_def)
    then show ?thesis
      using view_aged [OF race_invD(1) [OF inv] later] Some t by (auto simp: x aged_def)
  qed
  have other: "unsettled (mended s i b t) j a = unsettled s j a" if "(j, a) \<noteq> (i, b)" for j a
    using that by (auto simp: unsettled_def mended_def)
  have settled: "\<not> unsettled (mended s i b t) i b" using pending by (simp add: unsettled_def mended_def)
  have here: "route_inv t (c_db s) False i b ?m (c_lookups s)"
  proof -
    obtain n where "cache_inv t (c_db s) (unsettled s i b) i b n ?m"
      and l: "\<forall>p. (i, b, p) \<in> set (c_lookups s) \<longrightarrow> lookup_inv (c_db s) (unsettled s i b) i b n p"
      using race_invD(2) [OF tick seg, of i] by (auto simp: route_inv_def unsettled_def)
    then have "cache_inv t (c_db s) False i b n ?m" using gone by (simp add: cache_inv_def entry_inv_def)
    moreover have "lookup_inv (c_db s) False i b n p" if "(i, b, p) \<in> set (c_lookups s)" for p
      using l that quiet by (cases p) auto
    ultimately show ?thesis unfolding route_inv_def by blast
  qed
  have "route_inv t (c_db s) (unsettled (mended s i b t) j a) j a ?m (c_lookups s)" if "one_segment a" for j a
  proof (cases "(j, a) = (i, b)")
    case True
    then show ?thesis using here settled by simp
  next
    case False
    have "unsettled (s\<lparr>c_now := t\<rparr>) j a = unsettled s j a" by (simp add: unsettled_def)
    then show ?thesis using race_invD(2) [OF tick that, of j] other [OF False] by simp
  qed
  then show ?thesis
    using race_invD(1,3,4) [OF tick] unfolding race_inv_def mended_def by auto
qed

end


definition lossy_client :: "fake client" where
  "lossy_client = \<lparr>server = empty_fake, net = [Request_Lost], pool = []\<rparr>"

text \<open>A commit that deletes the route, whose only invalidation is lost on the way.\<close>

definition missed_cluster :: "fake cluster" where
  "missed_cluster = \<lparr>c_db = empty_db, c_client = snd (invalidate_route dev_settings fake_redis 10 (Some 1) ''/doctors'' lossy_client),
     c_now = 10, c_lookups = [], c_pending = [], c_missed = [(1, ''/doctors'')]\<rparr>"

lemma missed_run: "runs_to dev_settings fake_redis (initial_cluster empty_db lossy_client 10) missed_cluster"
proof -
  let ?s = "(initial_cluster empty_db lossy_client 10)\<lparr>c_db := empty_db,
      c_pending := c_pending (initial_cluster empty_db lossy_client 10) @ [(1, ''/doctors'')]\<rparr>"
  have "race_step dev_settings fake_redis (initial_cluster empty_db lossy_client 10) ?s"
    by (rule race_step.commit) (simp_all add: covers_def initial_cluster_def)
  from runs_to_step [OF runs_to_refl this] have one: "runs_to dev_settings fake_redis (initial_cluster empty_db lossy_client 10) ?s" .
  obtain failed c' where inv: "invalidate_route dev_settings fake_redis 10 (Some 1) ''/doctors'' lossy_client = (failed, c')" by force
  have failed: "failed"
    using inv cache_keys_one_segment [OF doctors_segment, of 1]
    by (auto simp: invalidate_route_def get_redis_client_def cached_client_def dev_settings_def lossy_client_def
        redis_call_def Let_def split: prod.splits sum.splits if_splits)
  have "race_step dev_settings fake_redis ?s (?s\<lparr>c_client := c', c_pending := remove1 (1, ''/doctors'') (c_pending ?s),
         c_missed := if failed then (1, ''/doctors'') # c_missed ?s
                     else filter (\<lambda>x. x \<noteq> (1, ''/doctors'')) (c_missed ?s)\<rparr>)"
    by (rule race_step.invalidate) (simp_all add: initial_cluster_def inv)
  from runs_to_step [OF one this] show ?thesis
    using failed by (simp add: missed_cluster_def initial_cluster_def inv)
qed


end
