(* ===== verification/Signals.thy ===== *)
theory Signals
  imports CacheRace
begin

text \<open>
  \<open>apps/routes/signals.py\<close>: the receivers that register cache invalidations with the running
  transaction, around the writes of \<open>Models\<close>. A transaction is the database as it sees it and
  the invalidations its \<open>on_commit\<close> queue holds, in order.
\<close>

section \<open>Receivers\<close>

record txn =
  tx_db :: db
  tx_hooks :: "(pk \<times> string) list"

definition begin_txn :: "db \<Rightarrow> txn" where
  "begin_txn d = \<lparr>tx_db = d, tx_hooks = []\<rparr>"

definition invalidate_after_commit :: "pk option \<Rightarrow> string \<Rightarrow> txn \<Rightarrow> txn" where
  "invalidate_after_commit project_id base_path tx =
     (case project_id of
        None \<Rightarrow> tx
      | Some pid \<Rightarrow> if base_path = [] then tx else tx\<lparr>tx_hooks := tx_hooks tx @ [(pid, base_path)]\<rparr>)"

text \<open>An unsaved instance has no key (\<open>None\<close>).\<close>

definition remember_previous_route :: "pk option \<Rightarrow> db \<Rightarrow> (pk \<times> string) option" where
  "remember_previous_route instance_pk d =
     (case instance_pk of
        None \<Rightarrow> None
      | Some i \<Rightarrow>
          map_option (\<lambda>r. (rt_project r, rt_base_path r))
            (objects_first (\<lambda>r. rt_id r = i) (routes d)))"

definition invalidate_saved_route :: "(pk \<times> string) option \<Rightarrow> route \<Rightarrow> txn \<Rightarrow> txn" where
  "invalidate_saved_route previous r tx =
     (let tx1 = invalidate_after_commit (Some (rt_project r)) (rt_base_path r) tx
      in case previous of
           None \<Rightarrow> tx1
         | Some p \<Rightarrow>
             if p \<noteq> (rt_project r, rt_base_path r)
             then invalidate_after_commit (Some (fst p)) (snd p) tx1 else tx1)"

definition invalidate_deleted_route :: "route \<Rightarrow> txn \<Rightarrow> txn" where
  "invalidate_deleted_route r tx = invalidate_after_commit (Some (rt_project r)) (rt_base_path r) tx"

definition invalidate_routes_for_changed_service :: "backend_service \<Rightarrow> txn \<Rightarrow> txn" where
  "invalidate_routes_for_changed_service s tx =
     foldl (\<lambda>t r. invalidate_after_commit (Some (rt_project r)) (rt_base_path r) t) tx
       (objects_filter (\<lambda>r. rt_backend_service r = Some (svc_id s)) (routes (tx_db tx)))"

section \<open>Writes with their receivers\<close>

definition tx_create_route :: "instant \<Rightarrow> route \<Rightarrow> txn \<Rightarrow> exn + (route \<times> txn)" where
  "tx_create_route now r tx =
     and_then (create_route now r (tx_db tx)) (\<lambda>(r', d').
       Inr (r', invalidate_saved_route (remember_previous_route None (tx_db tx)) r' (tx\<lparr>tx_db := d'\<rparr>)))"

definition tx_save_route :: "instant \<Rightarrow> route \<Rightarrow> txn \<Rightarrow> exn + (route \<times> txn)" where
  "tx_save_route now r tx =
     and_then (save_route now r (tx_db tx)) (\<lambda>(r', d').
       Inr (r', invalidate_saved_route (remember_previous_route (Some (rt_id r)) (tx_db tx)) r'
                  (tx\<lparr>tx_db := d'\<rparr>)))"

definition tx_create_service ::
    "(string \<Rightarrow> string) \<Rightarrow> instant \<Rightarrow> backend_service \<Rightarrow> txn \<Rightarrow> exn + (backend_service \<times> txn)" where
  "tx_create_service slugify now s tx =
     and_then (create_service slugify now s (tx_db tx)) (\<lambda>(s', d').
       Inr (s', invalidate_routes_for_changed_service s' (tx\<lparr>tx_db := d'\<rparr>)))"

definition tx_save_service ::
    "(string \<Rightarrow> string) \<Rightarrow> instant \<Rightarrow> backend_service \<Rightarrow> txn \<Rightarrow> exn + (backend_service \<times> txn)" where
  "tx_save_service slugify now s tx =
     and_then (save_service slugify now s (tx_db tx)) (\<lambda>(s', d').
       Inr (s', invalidate_routes_for_changed_service s' (tx\<lparr>tx_db := d'\<rparr>)))"

text \<open>\<open>delete()\<close> cascades to the rows that refer to the deleted one and signals every route.\<close>

definition delete_routes :: "(route \<Rightarrow> bool) \<Rightarrow> txn \<Rightarrow> txn" where
  "delete_routes P tx =
     (let d = tx_db tx;
          gone = objects_filter P (routes d);
          ids = map rt_id gone;
          d' = d\<lparr>routes := objects_delete P (routes d),
                 route_methods := objects_delete (\<lambda>m. rm_route m \<in> set ids) (route_methods d),
                 permissions := objects_delete (\<lambda>p. perm_route p \<in> set ids) (permissions d)\<rparr>
      in foldl (\<lambda>t r. invalidate_deleted_route r t) (tx\<lparr>tx_db := d'\<rparr>) gone)"

definition delete_service :: "backend_service \<Rightarrow> txn \<Rightarrow> txn" where
  "delete_service s tx =
     (let tx1 = delete_routes (\<lambda>r. rt_backend_service r = Some (svc_id s)) tx
      in tx1\<lparr>tx_db := (tx_db tx1)\<lparr>services :=
               objects_delete (\<lambda>x. svc_id x = svc_id s) (services (tx_db tx1))\<rparr>\<rparr>)"

section \<open>Lemmas\<close>

text \<open>What a write within a transaction owes the cache.\<close>

definition tx_covers :: "txn \<Rightarrow> txn \<Rightarrow> bool" where
  "tx_covers tx tx' \<longleftrightarrow>
     (\<exists>ks. tx_hooks tx' = tx_hooks tx @ ks \<and> covers (tx_db tx) (tx_db tx') ks
           \<and> list_all (\<lambda>(_, b). one_segment b) ks)"

lemma covers_refl: "(\<And>i b. read_route d i b = read_route d' i b) \<Longrightarrow> covers d d' ks"
  by (simp add: covers_def)

lemma covers_trans: "covers d d' ks \<Longrightarrow> covers d' d'' ks' \<Longrightarrow> covers d d'' (ks @ ks')"
  unfolding covers_def by (metis Un_iff set_append)

lemma tx_covers_trans: "tx_covers tx tx' \<Longrightarrow> tx_covers tx' tx'' \<Longrightarrow> tx_covers tx tx''"
  unfolding tx_covers_def by (fastforce intro: covers_trans)

lemma tx_covers_refl: "tx_covers tx tx"
  by (auto simp: tx_covers_def covers_refl intro!: exI [of _ "[]"])

text \<open>A write that leaves routes and services alone owes nothing.\<close>

lemma service_of_cong: "services d = services d' \<Longrightarrow> service_of d = service_of d'"
  by (simp add: service_of_def fun_eq_iff)

lemma route_visible_cong:
  assumes "services d = services d'"
  shows "route_visible d = route_visible d'"
  unfolding fun_eq_iff route_visible_def service_of_cong [OF assms] by simp

lemma read_route_first:
  assumes "objects_first (route_visible d i b) (routes d) = objects_first (route_visible d' i b) (routes d')"
    and "services d = services d'"
  shows "read_route d i b = read_route d' i b"
  unfolding read_route_def assms(1) service_of_cong [OF assms(2)] ..

lemma read_route_cong:
  assumes "routes d = routes d'" and "services d = services d'"
  shows "read_route d i b = read_route d' i b"
  by (rule read_route_first) (simp_all add: assms route_visible_cong [OF assms(2)])

lemma tx_covers_other:
  "routes d' = routes (tx_db tx) \<Longrightarrow> services d' = services (tx_db tx) \<Longrightarrow> tx_covers tx (tx\<lparr>tx_db := d'\<rparr>)"
  unfolding tx_covers_def
  by (intro exI [of _ "[]"]) (auto intro!: covers_refl read_route_cong)

lemma one_segment_not_Nil: "one_segment b \<Longrightarrow> b \<noteq> []"
  by (auto simp: one_segment_iff)

lemma fold_hooks:
  assumes "\<And>r. r \<in> set rs \<Longrightarrow> one_segment (rt_base_path r)"
  shows "foldl (\<lambda>t r. invalidate_after_commit (Some (rt_project r)) (rt_base_path r) t) tx rs
     = tx\<lparr>tx_hooks := tx_hooks tx @ map (\<lambda>r. (rt_project r, rt_base_path r)) rs\<rparr>"
  using assms
proof (induction rs arbitrary: tx)
  case (Cons r rs)
  then have "rt_base_path r \<noteq> []" by (simp add: one_segment_not_Nil)
  with Cons show ?case by (simp add: invalidate_after_commit_def)
qed simp

lemma route_paths:
  "tables_ok d \<Longrightarrow> r \<in> set (rows (routes d)) \<Longrightarrow> one_segment (rt_base_path r)"
  by (simp add: tables_ok_def list_all_iff)

lemma find_map_same:
  assumes "\<And>x. x \<in> set xs \<Longrightarrow> P (f x) = P x \<and> (P x \<longrightarrow> f x = x)"
  shows "find P (map f xs) = find P xs"
  using assms by (induction xs) auto

lemma find_append_not: "\<not> P y \<Longrightarrow> find P (xs @ [y]) = find P xs"
  by (induction xs) auto

lemma find_filter_keep:
  "(\<And>x. x \<in> set xs \<Longrightarrow> P x \<Longrightarrow> Q x) \<Longrightarrow> find P (filter Q xs) = find P xs"
  by (induction xs) auto

lemma route_visible_where:
  "route_visible d i b r \<Longrightarrow> rt_project r = i \<and> rt_base_path r = b"
  by (simp add: route_visible_def)

lemma covers_create_route:
  assumes "routes d' = snd (objects_create mk (routes d))" and "services d' = services d"
    and "r = mk (last_pk (routes d) + 1)"
  shows "covers d d' [(rt_project r, rt_base_path r)]"
  unfolding covers_def
proof (intro allI impI)
  fix i b assume neq: "read_route d i b \<noteq> read_route d' i b"
  show "(i, b) \<in> set [(rt_project r, rt_base_path r)]"
  proof (rule ccontr)
    assume "\<not> ?thesis"
    then have "\<not> route_visible d i b r" by (auto dest: route_visible_where)
    then have "objects_first (route_visible d' i b) (routes d') = objects_first (route_visible d i b) (routes d)"
      using assms route_visible_cong [OF assms(2)]
      by (simp add: objects_first_def table_simps find_append_not)
    then show False using neq read_route_first assms(2) by metis
  qed
qed

lemma covers_save_route:
  assumes "tables_ok d" and "routes d' = objects_save rt_id r (routes d)" and "services d' = services d"
  shows "covers d d' ((rt_project r, rt_base_path r) #
           (case remember_previous_route (Some (rt_id r)) d of None \<Rightarrow> [] | Some p \<Rightarrow> [p]))"
  unfolding covers_def
proof (intro allI impI)
  let ?prev = "remember_previous_route (Some (rt_id r)) d"
  fix i b assume neq: "read_route d i b \<noteq> read_route d' i b"
  show "(i, b) \<in> set ((rt_project r, rt_base_path r) # (case ?prev of None \<Rightarrow> [] | Some p \<Rightarrow> [p]))"
  proof (rule ccontr)
    assume no: "\<not> ?thesis"
    let ?f = "\<lambda>x. if rt_id x = rt_id r then r else x"
    have r: "\<not> route_visible d i b r" using no by (auto dest: route_visible_where)
    have old: "\<not> route_visible d i b x" if "x \<in> set (rows (routes d))" "rt_id x = rt_id r" for x
    proof -
      have "objects_first (\<lambda>x. rt_id x = rt_id r) (routes d) \<noteq> None"
        unfolding objects_first_None using that by blast
      then obtain y where y: "objects_first (\<lambda>x. rt_id x = rt_id r) (routes d) = Some y" by blast
      have ok: "table_ok rt_id (routes d)" using assms(1) by (auto simp: tables_ok_def dest: wf_tableD)
      have "y = x" using table_ok_inj [OF ok _ that(1)] objects_first_Some [OF y] that(2) by auto
      then have "?prev = Some (rt_project x, rt_base_path x)"
        using y by (simp add: remember_previous_route_def)
      then have "(i, b) \<noteq> (rt_project x, rt_base_path x)" using no by auto
      then show ?thesis by (auto dest: route_visible_where)
    qed
    have "find (route_visible d i b) (map ?f (rows (routes d))) = find (route_visible d i b) (rows (routes d))"
      using r old by (intro find_map_same) auto
    then have "objects_first (route_visible d' i b) (routes d') = objects_first (route_visible d i b) (routes d)"
      using route_visible_cong [OF assms(3)]
      by (simp add: objects_first_def assms(2) table_simps)
    then show False using neq read_route_first assms(3) by metis
  qed
qed

lemma covers_delete_routes:
  assumes "routes d' = objects_delete P (routes d)" and "services d' = services d"
  shows "covers d d' (map (\<lambda>r. (rt_project r, rt_base_path r)) (objects_filter P (routes d)))"
  unfolding covers_def
proof (intro allI impI)
  let ?ks = "map (\<lambda>r. (rt_project r, rt_base_path r)) (objects_filter P (routes d))"
  fix i b assume neq: "read_route d i b \<noteq> read_route d' i b"
  show "(i, b) \<in> set ?ks"
  proof (rule ccontr)
    assume no: "(i, b) \<notin> set ?ks"
    have "find (route_visible d i b) (filter (\<lambda>x. \<not> P x) (rows (routes d)))
        = find (route_visible d i b) (rows (routes d))"
    proof (rule find_filter_keep)
      fix x assume "x \<in> set (rows (routes d))" and "route_visible d i b x"
      with no show "\<not> P x" by (auto simp: objects_filter_def dest: route_visible_where)
    qed
    then have "objects_first (route_visible d' i b) (routes d') = objects_first (route_visible d i b) (routes d)"
      using route_visible_cong [OF assms(2)] by (simp add: objects_first_def assms(1) table_simps)
    then show False using neq read_route_first assms(2) by metis
  qed
qed

lemma covers_service:
  assumes "routes d' = routes d" and "\<And>j. j \<noteq> k \<Longrightarrow> service_of d' j = service_of d j"
  shows "covers d d' (map (\<lambda>r. (rt_project r, rt_base_path r))
           (objects_filter (\<lambda>r. rt_backend_service r = Some k) (routes d)))"
  unfolding covers_def
proof (intro allI impI)
  let ?ks = "map (\<lambda>r. (rt_project r, rt_base_path r))
           (objects_filter (\<lambda>r. rt_backend_service r = Some k) (routes d))"
  fix i b assume neq: "read_route d i b \<noteq> read_route d' i b"
  show "(i, b) \<in> set ?ks"
  proof (rule ccontr)
    assume no: "(i, b) \<notin> set ?ks"
    have other: "rt_backend_service x \<noteq> Some k"
      if "x \<in> set (rows (routes d))" "rt_project x = i" "rt_base_path x = b" for x
      using no that by (auto simp: objects_filter_def)
    have svc: "Option.bind (rt_backend_service x) (service_of d') = Option.bind (rt_backend_service x) (service_of d)"
      if "rt_backend_service x \<noteq> Some k" for x
      using that assms(2) by (cases "rt_backend_service x") auto
    have same: "route_visible d' i b x = route_visible d i b x" if "x \<in> set (rows (routes d))" for x
      using other [OF that] svc [of x] unfolding route_visible_def by metis
    have first: "objects_first (route_visible d i b) (routes d) = objects_first (route_visible d' i b) (routes d')"
      by (rule objects_first_cong) (simp_all add: assms(1) same)
    have "read_route d i b = read_route d' i b"
    proof (cases "objects_first (route_visible d i b) (routes d)")
      case None
      with first show ?thesis by (simp add: read_route_def)
    next
      case (Some x)
      then have "x \<in> set (rows (routes d))" "rt_project x = i" "rt_base_path x = b"
        by (auto dest: objects_first_Some route_visible_where)
      then have "Option.bind (rt_backend_service x) (service_of d') = Option.bind (rt_backend_service x) (service_of d)"
        using other svc by blast
      with Some first show ?thesis by (simp add: read_route_def)
    qed
    with neq show False by simp
  qed
qed


section \<open>The receivers cover the writes\<close>

lemma hooks_saved_route:
  assumes "one_segment (rt_base_path r)" and "\<And>p. previous = Some p \<Longrightarrow> one_segment (snd p)"
  shows "\<exists>ks. tx_hooks (invalidate_saved_route previous r tx) = tx_hooks tx @ ks
     \<and> tx_db (invalidate_saved_route previous r tx) = tx_db tx
     \<and> list_all (\<lambda>(_, b). one_segment b) ks
     \<and> set ks = insert (rt_project r, rt_base_path r) (case previous of None \<Rightarrow> {} | Some p \<Rightarrow> {p})"
  using assms
  by (cases previous)
    (auto simp: invalidate_saved_route_def invalidate_after_commit_def one_segment_not_Nil Let_def)

lemma covers_mono: "covers d d' ks \<Longrightarrow> set ks \<subseteq> set ks' \<Longrightarrow> covers d d' ks'"
  by (auto simp: covers_def)

lemma previous_segment:
  assumes "tables_ok d" and "remember_previous_route pk d = Some p"
  shows "one_segment (snd p)"
  using assms
  by (auto simp: remember_previous_route_def split: option.splits dest!: objects_first_Some route_paths)

lemma tx_create_route_covers:
  assumes "tx_create_route now r tx = Inr (r', tx')" and "tables_ok (tx_db tx)"
  shows "tx_covers tx tx' \<and> tables_ok (tx_db tx')"
proof -
  obtain d' where c: "create_route now r (tx_db tx) = Inr (r', d')"
    and tx': "tx' = invalidate_saved_route None r' (tx\<lparr>tx_db := d'\<rparr>)"
    using assms(1) by (auto simp: tx_create_route_def and_then_Inr remember_previous_route_def)
  let ?mk = "\<lambda>i. r\<lparr>rt_id := i, rt_created_at := now, rt_updated_at := now\<rparr>"
  obtain t where ins: "insert_row route_clash ?mk (routes (tx_db tx)) = Inr (r', t)"
    and d': "d' = (tx_db tx)\<lparr>routes := t\<rparr>"
    using c by (auto simp: create_route_def and_then_Inr route_presave_Inr)
  have ok: "tables_ok d'" using create_route_ok [OF c assms(2)] .
  have rows': "r' \<in> set (rows (routes d'))" using insert_row_Inr(2) [OF ins] by (simp add: d')
  have t: "t = snd (objects_create ?mk (routes (tx_db tx)))"
    using ins by (auto simp: insert_row_def split: if_splits)
  have "covers (tx_db tx) d' [(rt_project r', rt_base_path r')]"
    by (rule covers_create_route [where mk = ?mk]) (simp_all add: d' t insert_row_Inr(1) [OF ins])
  moreover obtain ks where ks: "tx_hooks tx' = tx_hooks tx @ ks" "tx_db tx' = d'"
    "list_all (\<lambda>(_, b). one_segment b) ks" "set ks = {(rt_project r', rt_base_path r')}"
    using hooks_saved_route [OF route_paths [OF ok rows'], of None "tx\<lparr>tx_db := d'\<rparr>"]
    unfolding tx' by auto
  ultimately show ?thesis
    using ok covers_mono unfolding tx_covers_def by (metis empty_set list.simps(15) order_refl)
qed

lemma tx_save_route_covers:
  assumes "tx_save_route now r tx = Inr (r', tx')" and "tables_ok (tx_db tx)"
  shows "tx_covers tx tx' \<and> tables_ok (tx_db tx')"
proof -
  let ?d = "tx_db tx" and ?prev = "remember_previous_route (Some (rt_id r)) (tx_db tx)"
  obtain d' where c: "save_route now r ?d = Inr (r', d')"
    and tx': "tx' = invalidate_saved_route ?prev r' (tx\<lparr>tx_db := d'\<rparr>)"
    using assms(1) by (auto simp: tx_save_route_def and_then_Inr)
  obtain t where r': "r' = r\<lparr>rt_updated_at := now\<rparr>" and seg: "one_segment (rt_base_path r)"
    and upd: "update_row rt_id route_clash r' (routes ?d) = Inr t" and d': "d' = ?d\<lparr>routes := t\<rparr>"
    using c by (auto simp: save_route_def and_then_Inr route_presave_Inr Let_def)
  have t: "t = objects_save rt_id r' (routes ?d)"
    using upd by (auto simp: update_row_def split: if_splits)
  have prev: "remember_previous_route (Some (rt_id r')) ?d = ?prev" by (simp add: r')
  have ok: "tables_ok d'" using save_route_ok [OF c assms(2)] .
  have "covers ?d d' ((rt_project r', rt_base_path r') #
           (case ?prev of None \<Rightarrow> [] | Some p \<Rightarrow> [p]))"
    using covers_save_route [OF assms(2), of d' r'] unfolding prev by (simp add: d' t)
  moreover obtain ks where "tx_hooks tx' = tx_hooks tx @ ks" "tx_db tx' = d'"
    "list_all (\<lambda>(_, b). one_segment b) ks"
    "set ks = insert (rt_project r', rt_base_path r') (case ?prev of None \<Rightarrow> {} | Some p \<Rightarrow> {p})"
    using hooks_saved_route [of r' ?prev "tx\<lparr>tx_db := d'\<rparr>"] seg previous_segment [OF assms(2)]
    unfolding tx' by (auto simp: r')
  moreover have "set ((rt_project r', rt_base_path r') # (case ?prev of None \<Rightarrow> [] | Some p \<Rightarrow> [p]))
      = insert (rt_project r', rt_base_path r') (case ?prev of None \<Rightarrow> {} | Some p \<Rightarrow> {p})"
    by (simp split: option.split)
  ultimately show ?thesis
    using ok covers_mono unfolding tx_covers_def by (metis order_refl)
qed

lemma service_hooks:
  assumes "tables_ok (tx_db tx)"
  shows "invalidate_routes_for_changed_service s tx = tx\<lparr>tx_hooks := tx_hooks tx @
     map (\<lambda>r. (rt_project r, rt_base_path r))
       (objects_filter (\<lambda>r. rt_backend_service r = Some (svc_id s)) (routes (tx_db tx)))\<rparr>"
  unfolding invalidate_routes_for_changed_service_def
  by (rule fold_hooks) (auto simp: objects_filter_def intro: route_paths [OF assms])

lemma service_write_covers:
  assumes "tables_ok d'" and "routes d' = routes (tx_db tx)"
    and "\<And>j. j \<noteq> svc_id s \<Longrightarrow> service_of d' j = service_of (tx_db tx) j"
  shows "tx_covers tx (invalidate_routes_for_changed_service s (tx\<lparr>tx_db := d'\<rparr>))"
    "tx_db (invalidate_routes_for_changed_service s (tx\<lparr>tx_db := d'\<rparr>)) = d'"
proof -
  let ?ks = "map (\<lambda>r. (rt_project r, rt_base_path r))
       (objects_filter (\<lambda>r. rt_backend_service r = Some (svc_id s)) (routes (tx_db tx)))"
  have eq: "invalidate_routes_for_changed_service s (tx\<lparr>tx_db := d'\<rparr>)
      = tx\<lparr>tx_db := d', tx_hooks := tx_hooks tx @ ?ks\<rparr>"
    using service_hooks [of "tx\<lparr>tx_db := d'\<rparr>" s] assms(1,2) by simp
  have "covers (tx_db tx) d' ?ks" by (rule covers_service [OF assms(2,3)])
  moreover have "list_all (\<lambda>(_, b). one_segment b) ?ks"
    using route_paths [OF assms(1)] by (auto simp: list_all_iff objects_filter_def assms(2))
  ultimately show "tx_covers tx (invalidate_routes_for_changed_service s (tx\<lparr>tx_db := d'\<rparr>))"
    "tx_db (invalidate_routes_for_changed_service s (tx\<lparr>tx_db := d'\<rparr>)) = d'"
    unfolding eq tx_covers_def by auto
qed

lemma tx_create_service_covers:
  assumes "tx_create_service slugify now s tx = Inr (s', tx')" and "tables_ok (tx_db tx)"
  shows "tx_covers tx tx' \<and> tables_ok (tx_db tx')"
proof -
  obtain d' where c: "create_service slugify now s (tx_db tx) = Inr (s', d')"
    and tx': "tx' = invalidate_routes_for_changed_service s' (tx\<lparr>tx_db := d'\<rparr>)"
    using assms(1) by (auto simp: tx_create_service_def and_then_Inr)
  obtain mk t where ins: "insert_row service_clash mk (services (tx_db tx)) = Inr (s', t)"
    and d': "d' = (tx_db tx)\<lparr>services := t\<rparr>"
    using c by (auto simp: create_service_def and_then_Inr)
  have ok: "tables_ok d'" using create_service_ok [OF c assms(2)] .
  have "service_of d' j = service_of (tx_db tx) j" if "j \<noteq> svc_id s'" for j
    using that insert_row_Inr(2) [OF ins]
    by (simp add: service_of_def objects_first_def d' find_append_not)
  from service_write_covers [OF ok _ this] ok show ?thesis unfolding tx' by (simp add: d')
qed

lemma tx_save_service_covers:
  assumes "tx_save_service slugify now s tx = Inr (s', tx')" and "tables_ok (tx_db tx)"
  shows "tx_covers tx tx' \<and> tables_ok (tx_db tx')"
proof -
  obtain d' where c: "save_service slugify now s (tx_db tx) = Inr (s', d')"
    and tx': "tx' = invalidate_routes_for_changed_service s' (tx\<lparr>tx_db := d'\<rparr>)"
    using assms(1) by (auto simp: tx_save_service_def and_then_Inr)
  obtain t where upd: "update_row svc_id service_clash s' (services (tx_db tx)) = Inr t"
    and d': "d' = (tx_db tx)\<lparr>services := t\<rparr>"
    using c by (auto simp: save_service_def and_then_Inr Let_def)
  have ok: "tables_ok d'" using save_service_ok [OF c assms(2)] .
  have rows': "rows t = map (\<lambda>x. if svc_id x = svc_id s' then s' else x) (rows (services (tx_db tx)))"
    using update_row_Inr [OF upd] by simp
  have "service_of d' j = service_of (tx_db tx) j" if "j \<noteq> svc_id s'" for j
    unfolding service_of_def objects_first_def using that
    by (simp add: d' rows') (intro find_map_same, auto)
  from service_write_covers [OF ok _ this] ok show ?thesis unfolding tx' by (simp add: d')
qed

lemma fold_deleted: "foldl (\<lambda>t r. invalidate_deleted_route r t) = foldl (\<lambda>t r. invalidate_after_commit (Some (rt_project r)) (rt_base_path r) t)"
  by (simp add: invalidate_deleted_route_def [abs_def])

lemma delete_routes_covers:
  assumes "tables_ok (tx_db tx)"
  shows "tx_covers tx (delete_routes P tx) \<and> tables_ok (tx_db (delete_routes P tx))"
    "services (tx_db (delete_routes P tx)) = services (tx_db tx)"
    "routes (tx_db (delete_routes P tx)) = objects_delete P (routes (tx_db tx))"
proof -
  let ?d = "tx_db tx"
  let ?gone = "objects_filter P (routes ?d)"
  let ?d' = "?d\<lparr>routes := objects_delete P (routes ?d),
       route_methods := objects_delete (\<lambda>m. rm_route m \<in> set (map rt_id ?gone)) (route_methods ?d),
       permissions := objects_delete (\<lambda>p. perm_route p \<in> set (map rt_id ?gone)) (permissions ?d)\<rparr>"
  let ?ks = "map (\<lambda>r. (rt_project r, rt_base_path r)) ?gone"
  have paths: "one_segment (rt_base_path r)" if "r \<in> set ?gone" for r
    using route_paths [OF assms] that by (auto simp: objects_filter_def)
  have eq: "delete_routes P tx = tx\<lparr>tx_db := ?d', tx_hooks := tx_hooks tx @ ?ks\<rparr>"
    unfolding delete_routes_def Let_def fold_deleted by (subst fold_hooks) (simp_all add: paths)
  have "tables_ok ?d'"
    using assms route.delete_wf route_method.delete_wf permission.delete_wf
    by (simp add: tables_ok_def table_simps list_all_iff)
  moreover have "covers ?d ?d' ?ks" by (rule covers_delete_routes) simp_all
  moreover have "list_all (\<lambda>(_, b). one_segment b) ?ks" using paths by (auto simp: list_all_iff)
  ultimately show "tx_covers tx (delete_routes P tx) \<and> tables_ok (tx_db (delete_routes P tx))"
    "services (tx_db (delete_routes P tx)) = services ?d"
    "routes (tx_db (delete_routes P tx)) = objects_delete P (routes ?d)"
    unfolding eq tx_covers_def by auto
qed

lemma delete_service_covers:
  assumes "tables_ok (tx_db tx)"
  shows "tx_covers tx (delete_service s tx) \<and> tables_ok (tx_db (delete_service s tx))"
proof -
  let ?P = "\<lambda>r. rt_backend_service r = Some (svc_id s)"
  let ?tx = "delete_routes ?P tx"
  let ?d' = "(tx_db ?tx)\<lparr>services := objects_delete (\<lambda>x. svc_id x = svc_id s) (services (tx_db ?tx))\<rparr>"
  note del = delete_routes_covers [OF assms, of ?P]
  have none: "objects_filter ?P (routes (tx_db ?tx)) = []"
    by (simp add: del(3) objects_filter_def table_simps)
  have "service_of ?d' j = service_of (tx_db ?tx) j" if "j \<noteq> svc_id s" for j
    unfolding service_of_def objects_first_def using that
    by (simp add: table_simps) (rule find_filter_keep, auto)
  from covers_service [of ?d' "tx_db ?tx" "svc_id s", OF _ this]
  have "covers (tx_db ?tx) ?d' []" by (simp add: none)
  then have "tx_covers ?tx (?tx\<lparr>tx_db := ?d'\<rparr>)" unfolding tx_covers_def by auto
  moreover have "tables_ok ?d'"
    using del(1) service.delete_wf by (simp add: tables_ok_def)
  ultimately show ?thesis
    using del(1) tx_covers_trans unfolding delete_service_def Let_def by auto
qed

section \<open>Transactions\<close>

datatype route_write =
    Create_Route route
  | Save_Route route
  | Create_Service backend_service
  | Save_Service backend_service
  | Delete_Route pk
  | Delete_Service backend_service

fun run_write :: "(string \<Rightarrow> string) \<Rightarrow> instant \<Rightarrow> route_write \<Rightarrow> txn \<Rightarrow> exn + txn" where
  "run_write slugify now (Create_Route r) tx = and_then (tx_create_route now r tx) (\<lambda>(_, tx'). Inr tx')"
| "run_write slugify now (Save_Route r) tx = and_then (tx_save_route now r tx) (\<lambda>(_, tx'). Inr tx')"
| "run_write slugify now (Create_Service s) tx = and_then (tx_create_service slugify now s tx) (\<lambda>(_, tx'). Inr tx')"
| "run_write slugify now (Save_Service s) tx = and_then (tx_save_service slugify now s tx) (\<lambda>(_, tx'). Inr tx')"
| "run_write slugify now (Delete_Route i) tx = Inr (delete_routes (\<lambda>r. rt_id r = i) tx)"
| "run_write slugify now (Delete_Service s) tx = Inr (delete_service s tx)"

fun run_writes :: "(string \<Rightarrow> string) \<Rightarrow> instant \<Rightarrow> route_write list \<Rightarrow> txn \<Rightarrow> exn + txn" where
  "run_writes slugify now [] tx = Inr tx"
| "run_writes slugify now (w # ws) tx = and_then (run_write slugify now w tx) (run_writes slugify now ws)"

lemma run_write_covers:
  assumes "run_write slugify now w tx = Inr tx'" and "tables_ok (tx_db tx)"
  shows "tx_covers tx tx' \<and> tables_ok (tx_db tx')"
  using assms tx_create_route_covers tx_save_route_covers tx_create_service_covers
    tx_save_service_covers delete_routes_covers(1) delete_service_covers
  by (cases w) (auto simp: and_then_Inr)

lemma run_writes_covers:
  "run_writes slugify now ws tx = Inr tx' \<Longrightarrow> tables_ok (tx_db tx) \<Longrightarrow>
   tx_covers tx tx' \<and> tables_ok (tx_db tx')"
proof (induction ws arbitrary: tx)
  case (Cons w ws)
  then obtain tx1 where w: "run_write slugify now w tx = Inr tx1"
    and ws: "run_writes slugify now ws tx1 = Inr tx'" by (auto simp: and_then_Inr)
  show ?case
    using run_write_covers [OF w Cons.prems(2)] Cons.IH [OF ws] tx_covers_trans by blast
qed (simp add: tx_covers_refl)

section \<open>Properties\<close>

text \<open>
  C5: no write escapes the cache. Whatever sequence of route and service creations, updates and
  deletions a transaction makes, the database it commits is well formed and every route whose
  entry it changes (also by moving a route, by disabling or re-pointing a shared service, or by
  a cascade) has an invalidation in the transaction's queue: committing it is a step of the
  system whose coherence is proved in \<open>CacheRace\<close>.
\<close>

theorem transaction_covers_changes:
  assumes "tables_ok d" and "run_writes slugify now ws (begin_txn d) = Inr tx"
  shows "tables_ok (tx_db tx)
    \<and> (\<forall>i b. read_route d i b \<noteq> read_route (tx_db tx) i b \<longrightarrow> (i, b) \<in> set (tx_hooks tx))
    \<and> race_step S R (s\<lparr>c_db := d\<rparr>) (s\<lparr>c_db := tx_db tx, c_pending := c_pending s @ tx_hooks tx\<rparr>)"
proof -
  have "tx_covers (begin_txn d) tx \<and> tables_ok (tx_db tx)"
    using run_writes_covers [OF assms(2)] assms(1) by (simp add: begin_txn_def)
  then have ok: "tables_ok (tx_db tx)" and cov: "covers d (tx_db tx) (tx_hooks tx)"
    and seg: "list_all (\<lambda>(_, b). one_segment b) (tx_hooks tx)"
    by (auto simp: tx_covers_def begin_txn_def)
  have "race_step S R (s\<lparr>c_db := d\<rparr>)
      ((s\<lparr>c_db := d\<rparr>)\<lparr>c_db := tx_db tx, c_pending := c_pending (s\<lparr>c_db := d\<rparr>) @ tx_hooks tx\<rparr>)"
    by (rule race_step.commit) (simp_all add: cov seg)
  with ok cov show ?thesis by (simp add: covers_def)
qed

definition moved_route :: route where
  "moved_route = sample_route\<lparr>rt_base_path := ''/clinics''\<rparr>"

lemma sample_routes_ok: "tables_ok sample_routes_db"
  by (simp add: tables_ok_def sample_routes_db_def empty_db_def wf_table_empty)
    (simp add: wf_table_def table_ok_def empty_table_def sample_route_def sample_service_def one_segment_iff)

lemma sample_move:
  "run_writes id 3 [Save_Route moved_route] (begin_txn sample_routes_db) =
     Inr \<lparr>tx_db = sample_routes_db\<lparr>routes := \<lparr>rows = [moved_route\<lparr>rt_updated_at := 3\<rparr>], last_pk = 7\<rparr>\<rparr>,
          tx_hooks = [(1, ''/clinics''), (1, ''/doctors'')]\<rparr>"
proof -
  have seg: "one_segment ''/clinics''" by (simp add: one_segment_iff)
  show ?thesis
    by (simp add: begin_txn_def tx_save_route_def save_route_def route_presave_def seg moved_route_def
        sample_route_def sample_routes_db_def update_row_def objects_exists_def objects_save_def
        remember_previous_route_def objects_first_def invalidate_saved_route_def
        invalidate_after_commit_def Let_def)
qed

theorem transaction_covers_changes_witness:
  "read_route sample_routes_db 1 ''/doctors'' \<noteq>
     read_route (sample_routes_db\<lparr>routes := \<lparr>rows = [moved_route\<lparr>rt_updated_at := 3\<rparr>], last_pk = 7\<rparr>\<rparr>) 1 ''/doctors''
   \<and> (1, ''/doctors'') \<in> set [(1, ''/clinics''), (1, ''/doctors'')]"
proof -
  let ?d = "sample_routes_db\<lparr>routes := \<lparr>rows = [moved_route\<lparr>rt_updated_at := 3\<rparr>], last_pk = 7\<rparr>\<rparr>"
  have "read_route ?d 1 ''/doctors'' = JNull"
    by (simp add: read_route_def objects_first_def route_visible_def moved_route_def)
  then have neq: "read_route sample_routes_db 1 ''/doctors'' \<noteq> read_route ?d 1 ''/doctors''"
    by (simp add: sample_read_route route_entry_def)
  show ?thesis
    using transaction_covers_changes [OF sample_routes_ok sample_move] neq by simp
qed

end
