(* ===== verification/Sha256.thy ===== *)
theory Sha256
  imports PyStr "HOL-Library.Word"
begin

unbundle bit_operations_syntax

text \<open>
  The standard library's encoders the gateway uses: \<open>str.encode('utf-8')\<close> on the code points
  below 256, and \<open>hashlib.sha256(bytes).hexdigest()\<close> (FIPS 180-4) on 32-bit words.
\<close>

section \<open>UTF-8\<close>

type_synonym byte = "8 word"

definition utf8_char :: "char \<Rightarrow> byte list" where
  "utf8_char c =
     (let n = code c
      in if n < 128 then [word_of_nat n]
         else [word_of_nat (192 + n div 64), word_of_nat (128 + n mod 64)])"

definition utf8_encode :: "string \<Rightarrow> byte list" where
  "utf8_encode s = concat (map utf8_char s)"

section \<open>SHA-256\<close>

type_synonym w32 = "32 word"

definition round_constants :: "w32 list" where
  "round_constants =
    [1116352408, 1899447441, 3049323471, 3921009573, 961987163, 1508970993, 2453635748, 2870763221,
     3624381080, 310598401, 607225278, 1426881987, 1925078388, 2162078206, 2614888103, 3248222580,
     3835390401, 4022224774, 264347078, 604807628, 770255983, 1249150122, 1555081692, 1996064986,
     2554220882, 2821834349, 2952996808, 3210313671, 3336571891, 3584528711, 113926993, 338241895,
     666307205, 773529912, 1294757372, 1396182291, 1695183700, 1986661051, 2177026350, 2456956037,
     2730485921, 2820302411, 3259730800, 3345764771, 3516065817, 3600352804, 4094571909, 275423344,
     430227734, 506948616, 659060556, 883997877, 958139571, 1322822218, 1537002063, 1747873779,
     1955562222, 2024104815, 2227730452, 2361852424, 2428436474, 2756734187, 3204031479, 3329325298]"

record hash_state =
  h0 :: w32
  h1 :: w32
  h2 :: w32
  h3 :: w32
  h4 :: w32
  h5 :: w32
  h6 :: w32
  h7 :: w32

definition initial_hash :: hash_state where
  "initial_hash =
     \<lparr>h0 = 1779033703, h1 = 3144134277, h2 = 1013904242, h3 = 2773480762,
      h4 = 1359893119, h5 = 2600822924, h6 = 528734635, h7 = 1541459225\<rparr>"

definition rotr :: "nat \<Rightarrow> w32 \<Rightarrow> w32" where
  "rotr n x = (drop_bit n x) OR (push_bit (32 - n) x)"

definition small_sigma0 :: "w32 \<Rightarrow> w32" where
  "small_sigma0 x = rotr 7 x XOR rotr 18 x XOR drop_bit 3 x"

definition small_sigma1 :: "w32 \<Rightarrow> w32" where
  "small_sigma1 x = rotr 17 x XOR rotr 19 x XOR drop_bit 10 x"

definition big_sigma0 :: "w32 \<Rightarrow> w32" where
  "big_sigma0 x = rotr 2 x XOR rotr 13 x XOR rotr 22 x"

definition big_sigma1 :: "w32 \<Rightarrow> w32" where
  "big_sigma1 x = rotr 6 x XOR rotr 11 x XOR rotr 25 x"

definition choose_bits :: "w32 \<Rightarrow> w32 \<Rightarrow> w32 \<Rightarrow> w32" where
  "choose_bits x y z = (x AND y) XOR (NOT x AND z)"

definition majority_bits :: "w32 \<Rightarrow> w32 \<Rightarrow> w32 \<Rightarrow> w32" where
  "majority_bits x y z = (x AND y) XOR (x AND z) XOR (y AND z)"

text \<open>The schedule is kept as the window of the last sixteen words.\<close>

definition next_word :: "w32 list \<Rightarrow> w32" where
  "next_word w = small_sigma1 (w ! 14) + w ! 9 + small_sigma0 (w ! 1) + w ! 0"

definition round_step :: "w32 \<Rightarrow> w32 \<Rightarrow> hash_state \<Rightarrow> hash_state" where
  "round_step k w s =
     (let t1 = h7 s + big_sigma1 (h4 s) + choose_bits (h4 s) (h5 s) (h6 s) + k + w;
          t2 = big_sigma0 (h0 s) + majority_bits (h0 s) (h1 s) (h2 s)
      in \<lparr>h0 = t1 + t2, h1 = h0 s, h2 = h1 s, h3 = h2 s,
          h4 = h3 s + t1, h5 = h4 s, h6 = h5 s, h7 = h6 s\<rparr>)"

fun rounds :: "w32 list \<Rightarrow> w32 list \<Rightarrow> hash_state \<Rightarrow> hash_state" where
  "rounds [] w s = s"
| "rounds (k # ks) w s = rounds ks (tl w @ [next_word w]) (round_step k (w ! 0) s)"

definition add_hash :: "hash_state \<Rightarrow> hash_state \<Rightarrow> hash_state" where
  "add_hash a b =
     \<lparr>h0 = h0 a + h0 b, h1 = h1 a + h1 b, h2 = h2 a + h2 b, h3 = h3 a + h3 b,
      h4 = h4 a + h4 b, h5 = h5 a + h5 b, h6 = h6 a + h6 b, h7 = h7 a + h7 b\<rparr>"

fun words_of_bytes :: "byte list \<Rightarrow> w32 list" where
  "words_of_bytes (a # b # c # d # bs) =
     (push_bit 24 (ucast a) OR push_bit 16 (ucast b) OR push_bit 8 (ucast c) OR ucast d)
       # words_of_bytes bs"
| "words_of_bytes _ = []"

fun compress_blocks :: "w32 list list \<Rightarrow> hash_state \<Rightarrow> hash_state" where
  "compress_blocks [] s = s"
| "compress_blocks (w # ws) s = compress_blocks ws (add_hash s (rounds round_constants w s))"

fun chunks :: "nat \<Rightarrow> w32 list \<Rightarrow> w32 list list" where
  "chunks 0 xs = []"
| "chunks (Suc n) xs = take 16 xs # chunks n (drop 16 xs)"

text \<open>Padding: a one bit, zeros up to 56 modulo 64 bytes, the bit length in eight bytes.\<close>

definition bytes_of_length :: "nat \<Rightarrow> byte list" where
  "bytes_of_length n =
     map (\<lambda>i. ucast (drop_bit (8 * i) (word_of_nat n :: 64 word))) [7, 6, 5, 4, 3, 2, 1, 0]"

definition pad_message :: "byte list \<Rightarrow> byte list" where
  "pad_message bs =
     bs @ 128 # replicate ((119 - length bs mod 64) mod 64) 0 @ bytes_of_length (8 * length bs)"

definition sha256 :: "byte list \<Rightarrow> hash_state" where
  "sha256 bs =
     (let ws = words_of_bytes (pad_message bs)
      in compress_blocks (chunks (length ws div 16) ws) initial_hash)"

definition hex_char :: "nat \<Rightarrow> char" where
  "hex_char n = ''0123456789abcdef'' ! (n mod 16)"

definition hex_word :: "w32 \<Rightarrow> string" where
  "hex_word w = map (\<lambda>i. hex_char (unat (drop_bit (4 * i) w AND 15))) [7, 6, 5, 4, 3, 2, 1, 0]"

definition hexdigest :: "hash_state \<Rightarrow> string" where
  "hexdigest s =
     hex_word (h0 s) @ hex_word (h1 s) @ hex_word (h2 s) @ hex_word (h3 s) @
     hex_word (h4 s) @ hex_word (h5 s) @ hex_word (h6 s) @ hex_word (h7 s)"

text \<open>\<open>hashlib.sha256(s.encode('utf-8')).hexdigest()\<close>.\<close>

definition sha256_hex :: "string \<Rightarrow> string" where
  "sha256_hex s = hexdigest (sha256 (utf8_encode s))"

lemma length_sha256_hex [simp]: "length (sha256_hex s) = 64"
  by (simp add: sha256_hex_def hexdigest_def hex_word_def)

end
