(* ===== verification/ApiKeys.thy ===== *)
theory ApiKeys
  imports Models Sha256
begin

text \<open>
  \<open>apps/authentication/models.py\<close>: API keys, their validation, rotation and revocation, and
  the route permissions of an application. \<open>token\<close> is the text \<open>secrets.token_urlsafe(32)\<close>
  returned; a validated key comes with the application and project rows that
  \<open>select_related\<close> joined to it.
\<close>

section \<open>Definitions\<close>

definition hash_key :: "string \<Rightarrow> string" where
  "hash_key raw_key = sha256_hex raw_key"

definition key_is_active :: "instant \<Rightarrow> api_key \<Rightarrow> bool" where
  "key_is_active now k =
     (if key_revoked_at k \<noteq> None then False
      else case key_expires_at k of
             Some e \<Rightarrow> if e < now then False else True
           | None \<Rightarrow> True)"

definition validate_key ::
    "instant \<Rightarrow> string \<Rightarrow> db \<Rightarrow> (api_key \<times> application \<times> project) option" where
  "validate_key now raw_key d =
     (if raw_key = [] then None
      else case objects_first (\<lambda>k. key_hash k = hash_key raw_key) (api_keys d) of
             None \<Rightarrow> None
           | Some k \<Rightarrow>
               (case application_of d (key_application k) of
                  None \<Rightarrow> None
                | Some a \<Rightarrow>
                    (case project_of d (app_project a) of
                       None \<Rightarrow> None
                     | Some p \<Rightarrow>
                         if key_revoked_at k \<noteq> None then None
                         else if \<not> app_is_active a then None
                         else if (case key_expires_at k of Some e \<Rightarrow> e < now | None \<Rightarrow> False) then None
                         else Some (k, a, p))))"

definition days :: "int \<Rightarrow> instant" where
  "days n = n * 86400 * second"

definition create_for_application ::
    "string \<Rightarrow> instant \<Rightarrow> pk \<Rightarrow> string \<Rightarrow> int \<Rightarrow> db \<Rightarrow> exn + ((api_key \<times> string) \<times> db)" where
  "create_for_application token now application name expires_days d =
     (let raw_key = ''ak_live_'' @ token;
          hashed = hash_key raw_key;
          expires = now + days expires_days
      in case objects_first (\<lambda>k. key_application k = application) (api_keys d) of
           None \<Rightarrow>
             and_then (insert_row api_key_clash
                 (\<lambda>i. \<lparr>key_id = i, key_application = application, key_name = name,
                       key_hash = hashed, key_created_at = now, key_expires_at = Some expires,
                       key_revoked_at = None\<rparr>) (api_keys d))
               (\<lambda>(k, t). Inr ((k, raw_key), d\<lparr>api_keys := t\<rparr>))
         | Some k \<Rightarrow>
             let k' = k\<lparr>key_name := name, key_hash := hashed, key_expires_at := Some expires,
                        key_revoked_at := None\<rparr>
             in and_then (update_row key_id api_key_clash k' (api_keys d))
                  (\<lambda>t. Inr ((k', raw_key), d\<lparr>api_keys := t\<rparr>)))"

definition create_for_project ::
    "(string \<Rightarrow> string) \<Rightarrow> string \<Rightarrow> instant \<Rightarrow> pk \<Rightarrow> string \<Rightarrow> int \<Rightarrow> db
       \<Rightarrow> exn + ((api_key \<times> string) \<times> db)" where
  "create_for_project slugify token now prj name expires_days d =
     (case objects_first (\<lambda>a. app_project a = prj) (applications d) of
        Some a \<Rightarrow> create_for_application token now (app_id a) name expires_days d
      | None \<Rightarrow>
          and_then (create_application slugify now
              \<lparr>app_id = 0, app_project = prj, app_name = ''Default Application'',
               app_slug = ''default-application'', app_plan = PLAN_NORMAL, app_is_active = True,
               app_created_at = now, app_updated_at = now\<rparr> d)
            (\<lambda>(a, d'). create_for_application token now (app_id a) name expires_days d'))"

definition revoke :: "instant \<Rightarrow> api_key \<Rightarrow> db \<Rightarrow> api_key \<times> db" where
  "revoke now k d =
     (k\<lparr>key_revoked_at := Some now\<rparr>,
      d\<lparr>api_keys := objects_update key_id (key_id k)
                     (\<lambda>x. x\<lparr>key_revoked_at := Some now\<rparr>) (api_keys d)\<rparr>)"

definition has_permission :: "db \<Rightarrow> application \<Rightarrow> route \<Rightarrow> bool" where
  "has_permission d a r =
     (if rt_project r \<noteq> app_project a \<or> \<not> app_is_active a then False
      else if \<not> objects_exists (\<lambda>p. perm_application p = app_id a) (permissions d) then True
      else objects_exists
             (\<lambda>p. perm_application p = app_id a \<and> perm_route p = rt_id r \<and> perm_is_active p)
             (permissions d))"

text \<open>\<open>APIKey.can_access\<close> asks the key's application.\<close>

definition can_access :: "db \<Rightarrow> application \<Rightarrow> route \<Rightarrow> bool" where
  "can_access d key_app r = has_permission d key_app r"

section \<open>Lemmas\<close>

text \<open>Reading the tables: a key column that is unique finds exactly the row.\<close>

lemma tables_ok_keys:
  assumes "tables_ok d"
  shows "wf_table key_id api_key_clash (api_keys d)"
  using assms by (simp add: tables_ok_def)

lemma first_key_iff:
  assumes "wf_table key_id api_key_clash t"
  shows "objects_first (\<lambda>k. key_hash k = h) t = Some k \<longleftrightarrow> k \<in> set (rows t) \<and> key_hash k = h"
proof
  assume k: "k \<in> set (rows t) \<and> key_hash k = h"
  show "objects_first (\<lambda>k. key_hash k = h) t = Some k"
  proof (rule objects_first_unique)
    fix x assume "x \<in> set (rows t)" "key_hash x = h"
    with k show "x = k" using wf_tableD(2) [OF assms] by (auto simp: api_key_clash_def)
  qed (use k in auto)
qed (auto dest: objects_first_Some)

lemma validate_key_Some:
  assumes "wf_table key_id api_key_clash (api_keys d)"
  shows "validate_key now raw d = Some (k, a, p) \<longleftrightarrow>
     raw \<noteq> [] \<and> k \<in> set (rows (api_keys d)) \<and> key_hash k = hash_key raw
     \<and> application_of d (key_application k) = Some a \<and> project_of d (app_project a) = Some p
     \<and> app_is_active a \<and> key_is_active now k"
proof (cases "objects_first (\<lambda>k. key_hash k = hash_key raw) (api_keys d)")
  case None
  then have "\<forall>r \<in> set (rows (api_keys d)). key_hash r \<noteq> hash_key raw"
    by (simp add: objects_first_None)
  moreover have "validate_key now raw d = None" using None by (simp add: validate_key_def)
  ultimately show ?thesis by auto
next
  case (Some x)
  then have x: "x \<in> set (rows (api_keys d))" "key_hash x = hash_key raw"
    by (auto dest: objects_first_Some)
  have same: "k = x" if "k \<in> set (rows (api_keys d))" "key_hash k = hash_key raw"
    using wf_tableD(2) [OF assms that(1) x(1)] that(2) x(2) by (simp add: api_key_clash_def)
  show ?thesis
    using Some x same
    by (auto simp: validate_key_def key_is_active_def split: option.splits)
qed

text \<open>What issuing a key does to the table: one row of the application, all others as before.\<close>

definition new_key :: "instant \<Rightarrow> pk \<Rightarrow> string \<Rightarrow> int \<Rightarrow> string \<Rightarrow> api_key \<Rightarrow> bool" where
  "new_key now application name expires_days raw k \<longleftrightarrow>
     key_application k = application \<and> key_name k = name \<and> key_hash k = hash_key raw
     \<and> key_expires_at k = Some (now + days expires_days) \<and> key_revoked_at k = None"

lemma create_for_application_effect:
  assumes "create_for_application token now app name n d = Inr ((k, raw), d')"
    and "wf_table key_id api_key_clash (api_keys d)"
  obtains t where "raw = ''ak_live_'' @ token"
    and "new_key now app name n raw k"
    and "wf_table key_id api_key_clash t"
    and "d' = d\<lparr>api_keys := t\<rparr>"
    and "set (rows t) = insert k {x \<in> set (rows (api_keys d)). key_application x \<noteq> app}"
proof -
  let ?P = "\<lambda>k. key_application k = app"
  let ?mk = "\<lambda>i. \<lparr>key_id = i, key_application = app, key_name = name,
     key_hash = hash_key (''ak_live_'' @ token), key_created_at = now,
     key_expires_at = Some (now + days n), key_revoked_at = None\<rparr>"
  have raw: "raw = ''ak_live_'' @ token"
    using assms(1)
    by (auto simp: create_for_application_def Let_def and_then_Inr split: option.splits)
  show ?thesis
  proof (cases "objects_first ?P (api_keys d)")
    case None
    then obtain t where ins: "insert_row api_key_clash ?mk (api_keys d) = Inr (k, t)"
      and d': "d' = d\<lparr>api_keys := t\<rparr>"
      using assms(1) by (auto simp: create_for_application_def Let_def and_then_Inr)
    have none: "\<forall>x \<in> set (rows (api_keys d)). key_application x \<noteq> app"
      using None by (simp add: objects_first_None)
    have "wf_table key_id api_key_clash t"
      by (rule api_key.insert_wf [OF assms(2) ins]) simp
    moreover have "new_key now app name n raw k"
      using insert_row_Inr(1) [OF ins] by (simp add: new_key_def raw)
    moreover have "set (rows t) = insert k {x \<in> set (rows (api_keys d)). key_application x \<noteq> app}"
      using insert_row_Inr(2) [OF ins] none by auto
    ultimately show ?thesis using that raw d' by blast
  next
    case (Some x)
    then have x: "x \<in> set (rows (api_keys d))" "key_application x = app"
      by (auto dest: objects_first_Some)
    obtain t where k: "k = x\<lparr>key_name := name, key_hash := hash_key raw,
          key_expires_at := Some (now + days n), key_revoked_at := None\<rparr>"
      and upd: "update_row key_id api_key_clash k (api_keys d) = Inr t"
      and d': "d' = d\<lparr>api_keys := t\<rparr>"
      using assms(1) Some
      by (auto simp: create_for_application_def Let_def and_then_Inr)
    have same: "y = x" if "y \<in> set (rows (api_keys d))" "key_application y = app" for y
      using wf_tableD(2) [OF assms(2) that(1) x(1)] that(2) x(2) by (simp add: api_key_clash_def)
    have keys: "key_id y = key_id k \<longleftrightarrow> y = x" if "y \<in> set (rows (api_keys d))" for y
      using table_ok_inj [OF wf_tableD(1) [OF assms(2)] that x(1)] by (auto simp: k)
    have "rows t = map (\<lambda>y. if key_id y = key_id k then k else y) (rows (api_keys d))"
      using update_row_Inr [OF upd] by simp
    then have "set (rows t) = (\<lambda>y. if y = x then k else y) ` set (rows (api_keys d))"
      using keys by (simp cong: image_cong)
    also have "\<dots> = insert k (set (rows (api_keys d)) - {x})" using x(1) by auto
    also have "set (rows (api_keys d)) - {x} = {y \<in> set (rows (api_keys d)). key_application y \<noteq> app}"
      using x same by blast
    finally have "set (rows t) = insert k {y \<in> set (rows (api_keys d)). key_application y \<noteq> app}" .
    moreover have "new_key now app name n raw k" using x(2) by (simp add: new_key_def k)
    ultimately show ?thesis
      using that raw d' api_key.update_wf [OF assms(2) upd] by blast
  qed
qed

lemma create_for_application_ok:
  assumes "create_for_application token now app name n d = Inr (r, d')" and "tables_ok d"
  shows "tables_ok d'"
proof -
  obtain k raw where r: "r = (k, raw)" by (cases r)
  show ?thesis
    using assms(2)
    by (rule_tac create_for_application_effect [OF assms(1) [unfolded r] tables_ok_keys [OF assms(2)]])
      (simp add: tables_ok_def)
qed

lemma create_for_project_ok:
  assumes "create_for_project slugify token now prj name n d = Inr (r, d')" and "tables_ok d"
  shows "tables_ok d'"
  using assms
  by (auto simp: create_for_project_def and_then_Inr split: option.splits
      elim!: create_for_application_ok create_application_ok)

lemma revoke_keys:
  "api_keys (snd (revoke now k d)) =
     objects_update key_id (key_id k) (\<lambda>x. x\<lparr>key_revoked_at := Some now\<rparr>) (api_keys d)"
  "snd (revoke now k d) = d\<lparr>api_keys := api_keys (snd (revoke now k d))\<rparr>"
  by (simp_all add: revoke_def)

lemma revoke_ok: "tables_ok d \<Longrightarrow> tables_ok (snd (revoke now k d))"
  by (auto simp: tables_ok_def revoke_def api_key_clash_def intro!: api_key.update_fields_wf)

lemma relations_api_keys [simp]:
  "application_of (d\<lparr>api_keys := t\<rparr>) i = application_of d i"
  "project_of (d\<lparr>api_keys := t\<rparr>) i = project_of d i"
  by (simp_all add: application_of_def project_of_def)


section \<open>Properties\<close>

text \<open>
  C6: a key is accepted exactly when it is the preimage of the hash of an active key
  (\<open>APIKey.is_active\<close>) whose application is active, and the application and project
  returned are those of that key: the inlined checks of \<open>validate_key\<close> agree with
  \<open>is_active\<close>.
\<close>

theorem validate_key_exact:
  assumes "tables_ok d"
  shows "validate_key now raw d = Some (k, a, p) \<longleftrightarrow>
     raw \<noteq> [] \<and> k \<in> set (rows (api_keys d)) \<and> key_hash k = hash_key raw \<and> key_is_active now k
     \<and> application_of d (key_application k) = Some a \<and> app_is_active a
     \<and> project_of d (app_project a) = Some p"
  unfolding validate_key_Some [OF tables_ok_keys [OF assms]] by blast

text \<open>A database with one project, one application and the key whose text is \<open>ak_live_t\<close>.\<close>

definition sample_project :: project where
  "sample_project = \<lparr>prj_id = 1, prj_owner = 1, prj_name = ''p'', prj_slug = ''p'',
     prj_description = [], prj_created_at = 0, prj_updated_at = 0\<rparr>"

definition sample_application :: application where
  "sample_application = \<lparr>app_id = 1, app_project = 1, app_name = ''a'', app_slug = ''a'',
     app_plan = PLAN_NORMAL, app_is_active = True, app_created_at = 0, app_updated_at = 0\<rparr>"

definition sample_key :: api_key where
  "sample_key = \<lparr>key_id = 1, key_application = 1, key_name = ''k'',
     key_hash = hash_key ''ak_live_t'', key_created_at = 0, key_expires_at = Some (days 365),
     key_revoked_at = None\<rparr>"

definition sample_db :: db where
  "sample_db = empty_db\<lparr>projects := \<lparr>rows = [sample_project], last_pk = 1\<rparr>,
     applications := \<lparr>rows = [sample_application], last_pk = 1\<rparr>,
     api_keys := \<lparr>rows = [sample_key], last_pk = 1\<rparr>\<rparr>"

lemmas sample_defs = sample_project_def sample_application_def sample_key_def sample_db_def

lemma sample_db_ok: "tables_ok sample_db"
  by (simp add: tables_ok_def sample_defs empty_db_def wf_table_empty)
    (simp add: wf_table_def table_ok_def empty_table_def)

lemma sample_relations:
  "application_of sample_db 1 = Some sample_application" "project_of sample_db 1 = Some sample_project"
  by (simp_all add: application_of_def project_of_def objects_first_def sample_defs)

lemma sample_fields [simp]:
  "rows (api_keys sample_db) = [sample_key]" "key_id sample_key = 1"
  "key_application sample_key = 1" "key_hash sample_key = hash_key ''ak_live_t''"
  "key_expires_at sample_key = Some (days 365)" "key_revoked_at sample_key = None"
  "app_project sample_application = 1" "app_is_active sample_application"
  "app_id sample_application = 1"
  by (simp_all add: sample_defs)

theorem validate_key_exact_witness:
  "validate_key 0 ''ak_live_t'' sample_db = Some (sample_key, sample_application, sample_project)"
  unfolding validate_key_exact [OF sample_db_ok]
  by (simp add: sample_relations key_is_active_def days_def second_def)

text \<open>
  C21: issuing a key for an application rotates. The database stays well formed (so the
  application has one key); the text returned is accepted, for exactly the application it was
  issued to, from the moment of issue to the end of its lifetime and not one microsecond longer;
  no other text is accepted for that application at any time; and every other application's keys
  are accepted as before.
\<close>

theorem issued_key_rotates:
  assumes "tables_ok d" and "application_of d app = Some a" and "app_is_active a"
    and "project_of d (app_project a) = Some p"
    and "create_for_application token now app name n d = Inr ((k, raw), d')"
  shows "tables_ok d'
    \<and> (\<forall>t. validate_key t raw d' = (if t \<le> now + days n then Some (k, a, p) else None))
    \<and> (\<forall>t raw' k' a' p'. validate_key t raw' d' = Some (k', a', p') \<longrightarrow>
         (if key_application k' = app then hash_key raw' = hash_key raw
          else validate_key t raw' d = Some (k', a', p')))"
proof -
  obtain s where raw: "raw = ''ak_live_'' @ token" and k: "new_key now app name n raw k"
    and wf: "wf_table key_id api_key_clash s" and d': "d' = d\<lparr>api_keys := s\<rparr>"
    and rows: "set (rows s) = insert k {x \<in> set (rows (api_keys d)). key_application x \<noteq> app}"
    using create_for_application_effect [OF assms(5) tables_ok_keys [OF assms(1)]] .
  have wf': "wf_table key_id api_key_clash (api_keys d')" by (simp add: d' wf)
  note iff = validate_key_Some [OF wf'] validate_key_Some [OF tables_ok_keys [OF assms(1)]]
  have "validate_key t raw d' = (if t \<le> now + days n then Some (k, a, p) else None)" for t
  proof (cases "t \<le> now + days n")
    case True
    have "k \<in> set (rows (api_keys d'))" by (simp add: d' rows)
    with True show ?thesis
      unfolding if_P [OF True] iff(1)
      using k assms(2-4) raw by (auto simp: d' new_key_def key_is_active_def)
  next
    case False
    have "validate_key t raw d' = Some (k', a', p') \<Longrightarrow> k' = k" for k' a' p'
      using wf_tableD(2) [OF wf, of k' k] validate_key_Some [OF wf', of t raw k' a' p'] k
      by (simp add: d' rows new_key_def api_key_clash_def)
    moreover have "validate_key t raw d' \<noteq> Some (k, a', p')" for a' p'
      using k False by (auto simp: iff(1) new_key_def key_is_active_def)
    ultimately show ?thesis using False by (metis option.exhaust prod_cases3)
  qed
  moreover have "if key_application k' = app then hash_key raw' = hash_key raw
      else validate_key t raw' d = Some (k', a', p')"
    if "validate_key t raw' d' = Some (k', a', p')" for t raw' k' a' p'
    using that k unfolding iff by (auto simp: d' rows new_key_def)
  ultimately show ?thesis using create_for_application_ok [OF assms(5,1)] by blast
qed

lemma sample_issue:
  assumes "hash_key ''ak_live_u'' = h"
  shows "create_for_application ''u'' 5 1 ''n'' 365 sample_db =
     Inr ((sample_key\<lparr>key_name := ''n'', key_hash := h, key_expires_at := Some (5 + days 365)\<rparr>,
           ''ak_live_u''),
          sample_db\<lparr>api_keys := \<lparr>rows = [sample_key\<lparr>key_name := ''n'', key_hash := h,
                       key_expires_at := Some (5 + days 365)\<rparr>], last_pk = 1\<rparr>\<rparr>)"
  using assms
  by (simp add: create_for_application_def Let_def objects_first_def sample_defs update_row_def
      objects_exists_def objects_save_def)

theorem issued_key_rotates_witness:
  "\<exists>k d'. create_for_application ''u'' 5 1 ''n'' 365 sample_db = Inr ((k, ''ak_live_u''), d')
     \<and> validate_key 6 ''ak_live_u'' d' = Some (k, sample_application, sample_project)
     \<and> validate_key (6 + days 365) ''ak_live_u'' d' = None"
proof -
  obtain k d' where iss: "create_for_application ''u'' 5 1 ''n'' 365 sample_db = Inr ((k, ''ak_live_u''), d')"
    using sample_issue [OF refl] by blast
  have p: "project_of sample_db (app_project sample_application) = Some sample_project"
    and a: "app_is_active sample_application"
    by (simp_all add: sample_relations)
  show ?thesis
    using iss issued_key_rotates [OF sample_db_ok sample_relations(1) a p iss]
    by (auto simp: days_def second_def)
qed

text \<open>
  Revoking is immediate and final: from then on no text is accepted for the revoked row, and
  every other key is accepted exactly as before.
\<close>

lemma revoked_key_rejected:
  assumes "tables_ok d" and "k \<in> set (rows (api_keys d))"
  shows "tables_ok (snd (revoke now k d))
    \<and> (validate_key t raw (snd (revoke now k d)) = Some (k', a', p') \<longleftrightarrow>
         validate_key t raw d = Some (k', a', p') \<and> key_id k' \<noteq> key_id k)"
proof -
  let ?d = "snd (revoke now k d)" and ?f = "\<lambda>x. x\<lparr>key_revoked_at := Some now\<rparr>"
  have ok: "tables_ok ?d" using revoke_ok [OF assms(1)] .
  have rows: "set (rows (api_keys ?d)) =
      (\<lambda>x. if key_id x = key_id k then ?f x else x) ` set (rows (api_keys d))"
    by (simp add: revoke_def table_simps)
  have "k' \<in> set (rows (api_keys ?d)) \<and> key_is_active t k' \<longleftrightarrow>
      k' \<in> set (rows (api_keys d)) \<and> key_is_active t k' \<and> key_id k' \<noteq> key_id k"
    unfolding rows by (auto simp: key_is_active_def)
  moreover have "application_of ?d i = application_of d i" "project_of ?d i = project_of d i" for i
    by (simp_all add: revoke_def)
  ultimately show ?thesis
    using ok by (auto simp: validate_key_Some tables_ok_keys assms(1))
qed

definition deactivate_permissions :: "(route_permission \<Rightarrow> bool) \<Rightarrow> db \<Rightarrow> db" where
  "deactivate_permissions P d =
     d\<lparr>permissions := (permissions d)\<lparr>rows :=
        map (\<lambda>p. if P p then p\<lparr>perm_is_active := False\<rparr> else p) (rows (permissions d))\<rparr>\<rparr>"

text \<open>
  An application without permission rows may use every route of its project, one with
  permission rows only the routes it has an active row for; deactivating rows never widens
  access, however many are left.
\<close>

lemma permission_narrowing:
  "(can_access d a r \<longrightarrow> rt_project r = app_project a \<and> app_is_active a)
   \<and> ((\<forall>p \<in> set (rows (permissions d)). perm_application p \<noteq> app_id a) \<longrightarrow>
        can_access d a r = (rt_project r = app_project a \<and> app_is_active a))
   \<and> (can_access (deactivate_permissions P d) a r \<longrightarrow> can_access d a r)"
proof -
  let ?g = "\<lambda>p. if P p then p\<lparr>perm_is_active := False\<rparr> else p"
  have rows: "set (rows (permissions (deactivate_permissions P d))) = ?g ` set (rows (permissions d))"
    by (simp add: deactivate_permissions_def)
  have g: "perm_application (?g p) = perm_application p" "perm_route (?g p) = perm_route p"
    "perm_is_active (?g p) \<Longrightarrow> perm_is_active p" for p
    by (auto split: if_splits)
  have "can_access (deactivate_permissions P d) a r \<Longrightarrow> can_access d a r"
    unfolding can_access_def has_permission_def objects_exists_iff rows bex_simps(7) g(1,2)
    using g(3) by metis
  moreover have "can_access d a r \<Longrightarrow> rt_project r = app_project a \<and> app_is_active a"
    by (auto simp: can_access_def has_permission_def split: if_splits)
  moreover have "\<forall>p \<in> set (rows (permissions d)). perm_application p \<noteq> app_id a
      \<Longrightarrow> can_access d a r = (rt_project r = app_project a \<and> app_is_active a)"
    by (simp add: can_access_def has_permission_def objects_exists_iff)
  ultimately show ?thesis by blast
qed

end
