(* ===== verification/Tenancy.thy ===== *)
theory Tenancy
  imports Signals ApiKeys
begin

text \<open>
  What the administrators' views share: the part of the database that belongs to one project (its
  tenant), the references between rows that every view keeps, and the transaction a view runs in.
  \<open>links_ok\<close> holds the foreign keys together with the program's own rule that a route, its
  service and the applications allowed to call it belong to one project.
\<close>

section \<open>Tenants\<close>

record tenant =
  tn_applications :: "application list"
  tn_keys :: "api_key list"
  tn_clients :: "app_user list"
  tn_services :: "backend_service list"
  tn_routes :: "route list"
  tn_methods :: "route_method list"
  tn_permissions :: "route_permission list"

definition application_in :: "db \<Rightarrow> pk \<Rightarrow> pk \<Rightarrow> bool" where
  "application_in d i a = objects_exists (\<lambda>x. app_id x = a \<and> app_project x = i) (applications d)"

definition route_in :: "db \<Rightarrow> pk \<Rightarrow> pk \<Rightarrow> bool" where
  "route_in d i r = objects_exists (\<lambda>x. rt_id x = r \<and> rt_project x = i) (routes d)"

definition tenant_of :: "db \<Rightarrow> pk \<Rightarrow> tenant" where
  "tenant_of d i =
     \<lparr>tn_applications = objects_filter (\<lambda>a. app_project a = i) (applications d),
      tn_keys = objects_filter (\<lambda>k. application_in d i (key_application k)) (api_keys d),
      tn_clients = objects_filter (\<lambda>u. application_in d i (cu_application u)) (clients d),
      tn_services = objects_filter (\<lambda>s. svc_project s = i) (services d),
      tn_routes = objects_filter (\<lambda>r. rt_project r = i) (routes d),
      tn_methods = objects_filter (\<lambda>m. route_in d i (rm_route m)) (route_methods d),
      tn_permissions = objects_filter (\<lambda>q. application_in d i (perm_application q)) (permissions d)\<rparr>"

section \<open>References\<close>

definition service_link :: "db \<Rightarrow> route \<Rightarrow> bool" where
  "service_link d r \<longleftrightarrow>
     (case rt_backend_service r of
        None \<Rightarrow> True
      | Some s \<Rightarrow> objects_exists (\<lambda>x. svc_id x = s \<and> svc_project x = rt_project r) (services d))"

definition permission_link :: "db \<Rightarrow> route_permission \<Rightarrow> bool" where
  "permission_link d q \<longleftrightarrow>
     objects_exists (\<lambda>a. app_id a = perm_application q \<and> route_in d (app_project a) (perm_route q)) (applications d)"

definition project_exists :: "db \<Rightarrow> pk \<Rightarrow> bool" where
  "project_exists d i = objects_exists (\<lambda>p. prj_id p = i) (projects d)"

definition application_exists :: "db \<Rightarrow> pk \<Rightarrow> bool" where
  "application_exists d i = objects_exists (\<lambda>a. app_id a = i) (applications d)"

definition route_exists :: "db \<Rightarrow> pk \<Rightarrow> bool" where
  "route_exists d i = objects_exists (\<lambda>r. rt_id r = i) (routes d)"

definition links_ok :: "db \<Rightarrow> bool" where
  "links_ok d \<longleftrightarrow>
     list_all (\<lambda>p. objects_exists (\<lambda>u. usr_id u = prj_owner p) (users d)) (rows (projects d)) \<and>
     list_all (\<lambda>a. project_exists d (app_project a)) (rows (applications d)) \<and>
     list_all (\<lambda>k. application_exists d (key_application k)) (rows (api_keys d)) \<and>
     list_all (\<lambda>u. application_exists d (cu_application u)) (rows (clients d)) \<and>
     list_all (\<lambda>s. project_exists d (svc_project s)) (rows (services d)) \<and>
     list_all (\<lambda>r. project_exists d (rt_project r) \<and> service_link d r) (rows (routes d)) \<and>
     list_all (\<lambda>m. route_exists d (rm_route m)) (rows (route_methods d)) \<and>
     list_all (permission_link d) (rows (permissions d))"

named_theorems link_defs \<open>the references between tables and the queries that read them\<close>

lemmas link_definitions [link_defs] =
  links_ok_def service_link_def permission_link_def project_exists_def application_exists_def
  route_exists_def application_in_def route_in_def objects_exists_iff list_all_iff

lemma links_ok_empty: "links_ok empty_db"
  by (simp add: links_ok_def empty_db_def empty_table_def)

section \<open>Transactions of a view\<close>

text \<open>\<open>transaction.atomic\<close>: an exception rolls everything back, invalidations included.\<close>

definition atomic :: "(txn \<Rightarrow> exn + 'a \<times> txn) \<Rightarrow> db \<Rightarrow> (exn + 'a) \<times> db \<times> (pk \<times> string) list" where
  "atomic body d =
     (case body (begin_txn d) of
        Inl e \<Rightarrow> (Inl e, d, [])
      | Inr (a, tx) \<Rightarrow> (Inr a, tx_db tx, tx_hooks tx))"

section \<open>Lemmas\<close>

text \<open>The receivers touch the queue only.\<close>

lemma tx_db_hooks [simp]:
  "tx_db (invalidate_after_commit i b tx) = tx_db tx"
  "tx_db (invalidate_saved_route q r tx) = tx_db tx"
  by (simp_all add: invalidate_after_commit_def invalidate_saved_route_def Let_def split: option.splits)

lemma tx_db_fold [simp]:
  "tx_db (foldl (\<lambda>t r. invalidate_after_commit (f r) (g r) t) tx rs) = tx_db tx"
  by (induction rs arbitrary: tx) simp_all

lemma tx_db_service_hooks [simp]: "tx_db (invalidate_routes_for_changed_service s tx) = tx_db tx"
  by (simp add: invalidate_routes_for_changed_service_def)

text \<open>What each write leaves in the database.\<close>

lemma tx_create_route_db:
  assumes "tx_create_route now r tx = Inr (r', tx')"
  shows "\<exists>t. tx_db tx' = (tx_db tx)\<lparr>routes := t\<rparr> \<and> rows t = rows (routes (tx_db tx)) @ [r']"
    and "r' = r\<lparr>rt_id := last_pk (routes (tx_db tx)) + 1, rt_created_at := now, rt_updated_at := now\<rparr>"
  using assms
  by (auto simp: tx_create_route_def create_route_def route_presave_Inr and_then_Inr dest: insert_row_Inr)

lemma tx_save_route_db:
  assumes "tx_save_route now r tx = Inr (r', tx')"
  shows "\<exists>t. tx_db tx' = (tx_db tx)\<lparr>routes := t\<rparr>
      \<and> rows t = map (\<lambda>x. if rt_id x = rt_id r' then r' else x) (rows (routes (tx_db tx)))"
    and "r' = r\<lparr>rt_updated_at := now\<rparr>"
  using assms
  by (auto simp: tx_save_route_def save_route_def route_presave_Inr and_then_Inr Let_def dest: update_row_Inr)

lemma tx_create_service_db:
  assumes "tx_create_service slugify now s tx = Inr (s', tx')"
  shows "\<exists>t. tx_db tx' = (tx_db tx)\<lparr>services := t\<rparr> \<and> rows t = rows (services (tx_db tx)) @ [s']"
    and "s' = (service_presave slugify s)\<lparr>svc_id := last_pk (services (tx_db tx)) + 1,
                 svc_created_at := now, svc_updated_at := now\<rparr>"
  using assms by (auto simp: tx_create_service_def create_service_def and_then_Inr dest: insert_row_Inr)

lemma tx_save_service_db:
  assumes "tx_save_service slugify now s tx = Inr (s', tx')"
  shows "\<exists>t. tx_db tx' = (tx_db tx)\<lparr>services := t\<rparr>
      \<and> rows t = map (\<lambda>x. if svc_id x = svc_id s' then s' else x) (rows (services (tx_db tx)))"
    and "s' = (service_presave slugify s)\<lparr>svc_updated_at := now\<rparr>"
  using assms by (auto simp: tx_save_service_def save_service_def and_then_Inr Let_def dest: update_row_Inr)

lemma service_presave_simps [simp]:
  "svc_id (service_presave slugify s) = svc_id s" "svc_project (service_presave slugify s) = svc_project s"
  "svc_name (service_presave slugify s) = svc_name s" "svc_base_url (service_presave slugify s) = svc_base_url s"
  "svc_is_active (service_presave slugify s) = svc_is_active s"
  by (simp_all add: service_presave_def)

text \<open>Relations and tenants read their own tables only.\<close>

lemma relations_cong:
  "applications d = applications d' \<Longrightarrow> application_in d = application_in d'"
  "routes d = routes d' \<Longrightarrow> route_in d = route_in d'"
  "projects d = projects d' \<Longrightarrow> owns_project d = owns_project d'"
  "projects d = projects d' \<Longrightarrow> project_exists d = project_exists d'"
  "applications d = applications d' \<Longrightarrow> application_exists d = application_exists d'"
  by (simp_all add: fun_eq_iff application_in_def route_in_def owns_project_def project_exists_def
      application_exists_def)

lemma owns_project_iff:
  "owns_project d u i \<longleftrightarrow> (\<exists>p \<in> set (rows (projects d)). prj_id p = i \<and> prj_owner p = u)"
  by (simp add: owns_project_def objects_exists_iff)

lemma owns_projectI:
  "p \<in> set (rows (projects d)) \<Longrightarrow> prj_owner p = u \<Longrightarrow> owns_project d u (prj_id p)"
  by (auto simp: owns_project_iff)

lemma owns_project_exists: "owns_project d u i \<Longrightarrow> project_exists d i"
  by (auto simp: owns_project_iff project_exists_def objects_exists_iff)

lemma last_pk_fresh: "table_ok key t \<Longrightarrow> x \<in> set (rows t) \<Longrightarrow> key x \<noteq> last_pk t + 1"
  by (auto simp: table_ok_def list_all_iff)

text \<open>Rows of one project are out of reach of a write to another project's row.\<close>

lemma tenant_add_service:
  assumes "rows t = rows (services d) @ [s]" and "svc_project s \<noteq> i"
  shows "tenant_of (d\<lparr>services := t\<rparr>) i = tenant_of d i"
  using assms by (simp add: tenant_of_def objects_filter_def application_in_def route_in_def)

lemma tenant_save_service:
  assumes "rows t = map (\<lambda>x. if svc_id x = svc_id s then s else x) (rows (services d))"
    and "svc_project s \<noteq> i"
    and "\<And>x. x \<in> set (rows (services d)) \<Longrightarrow> svc_id x = svc_id s \<Longrightarrow> svc_project x \<noteq> i"
  shows "tenant_of (d\<lparr>services := t\<rparr>) i = tenant_of d i"
  using assms
  by (simp add: tenant_of_def objects_filter_def application_in_def route_in_def filter_save_other)

lemma tenant_add_route:
  assumes "rows t = rows (routes d) @ [r]" and "rt_project r \<noteq> i"
  shows "tenant_of (d\<lparr>routes := t\<rparr>) i = tenant_of d i"
  using assms by (simp add: tenant_of_def objects_filter_def application_in_def route_in_def objects_exists_def)

lemma tenant_save_route:
  assumes "rows t = map (\<lambda>x. if rt_id x = rt_id r then r else x) (rows (routes d))"
    and "rt_project r \<noteq> i"
    and "\<And>x. x \<in> set (rows (routes d)) \<Longrightarrow> rt_id x = rt_id r \<Longrightarrow> rt_project x \<noteq> i"
  shows "tenant_of (d\<lparr>routes := t\<rparr>) i = tenant_of d i"
proof -
  have "route_in (d\<lparr>routes := t\<rparr>) i j = route_in d i j" for j
    using assms(2,3) by (auto simp: route_in_def objects_exists_iff assms(1))
  then show ?thesis using assms
    by (simp add: tenant_of_def objects_filter_def application_in_def filter_save_other)
qed

lemma tenant_add_method:
  assumes "rows t = rows (route_methods d) @ [m]" and "\<not> route_in d i (rm_route m)"
  shows "tenant_of (d\<lparr>route_methods := t\<rparr>) i = tenant_of d i"
  using assms by (simp add: tenant_of_def objects_filter_def application_in_def route_in_def)

lemma tenant_save_method:
  assumes "rows t = map (\<lambda>x. if rm_id x = rm_id m then m else x) (rows (route_methods d))"
    and "\<not> route_in d i (rm_route m)"
    and "\<And>x. x \<in> set (rows (route_methods d)) \<Longrightarrow> rm_id x = rm_id m \<Longrightarrow> \<not> route_in d i (rm_route x)"
  shows "tenant_of (d\<lparr>route_methods := t\<rparr>) i = tenant_of d i"
  using assms by (simp add: tenant_of_def objects_filter_def application_in_def route_in_def filter_save_other)

lemma tenant_add_permission:
  assumes "rows t = rows (permissions d) @ [q]" and "\<not> application_in d i (perm_application q)"
  shows "tenant_of (d\<lparr>permissions := t\<rparr>) i = tenant_of d i"
  using assms by (simp add: tenant_of_def objects_filter_def application_in_def route_in_def)

lemma tenant_save_permission:
  assumes "rows t = map (\<lambda>x. if perm_id x = perm_id q then q else x) (rows (permissions d))"
    and "\<not> application_in d i (perm_application q)"
    and "\<And>x. x \<in> set (rows (permissions d)) \<Longrightarrow> perm_id x = perm_id q
           \<Longrightarrow> \<not> application_in d i (perm_application x)"
  shows "tenant_of (d\<lparr>permissions := t\<rparr>) i = tenant_of d i"
  using assms by (simp add: tenant_of_def objects_filter_def application_in_def route_in_def filter_save_other)

lemma exists_saved:
  assumes "y \<in> set xs" and "P y" and "key y = key r \<Longrightarrow> P r"
  shows "\<exists>x \<in> set (map (\<lambda>x. if key x = key r then r else x) xs). P x"
proof (cases "key y = key r")
  case True
  then show ?thesis using assms(1,3) by (intro bexI [of _ r]) (auto intro!: image_eqI [of _ _ y])
next
  case False
  then show ?thesis using assms(1,2) by (intro bexI [of _ y]) (auto intro!: image_eqI [of _ _ y])
qed

text \<open>References survive a new row, and a save that keeps the row's project.\<close>

lemma links_add_service:
  "links_ok d \<Longrightarrow> rows t = rows (services d) @ [s] \<Longrightarrow> project_exists d (svc_project s)
   \<Longrightarrow> links_ok (d\<lparr>services := t\<rparr>)"
  by (fastforce simp: link_defs split: option.splits)

lemma links_save_service:
  assumes "links_ok d" and "rows t = map (\<lambda>x. if svc_id x = svc_id s then s else x) (rows (services d))"
    and "\<And>x. x \<in> set (rows (services d)) \<Longrightarrow> svc_id x = svc_id s \<Longrightarrow> svc_project x = svc_project s"
    and "project_exists d (svc_project s)"
  shows "links_ok (d\<lparr>services := t\<rparr>)"
proof -
  have "objects_exists (\<lambda>x. svc_id x = j \<and> svc_project x = i) (services d) \<Longrightarrow>
      objects_exists (\<lambda>x. svc_id x = j \<and> svc_project x = i) t" for i j
    unfolding objects_exists_iff assms(2)
    by (erule bexE, rule exists_saved, assumption, assumption) (auto dest: assms(3))
  then have link: "service_link d r \<Longrightarrow> service_link (d\<lparr>services := t\<rparr>) r" for r
    by (simp add: service_link_def split: option.splits)
  have "list_all (\<lambda>s. project_exists d (svc_project s)) (rows t)"
    using assms(1,4) by (auto simp: assms(2) links_ok_def list_all_iff)
  with assms(1) link show ?thesis
    by (simp add: links_ok_def list_all_iff project_exists_def application_exists_def route_exists_def
        permission_link_def [abs_def] route_in_def)
qed

lemma links_add_route:
  "links_ok d \<Longrightarrow> rows t = rows (routes d) @ [r] \<Longrightarrow> project_exists d (rt_project r) \<Longrightarrow> service_link d r
   \<Longrightarrow> links_ok (d\<lparr>routes := t\<rparr>)"
  by (fastforce simp: link_defs split: option.splits)

lemma links_save_route:
  assumes "links_ok d" and "rows t = map (\<lambda>x. if rt_id x = rt_id r then r else x) (rows (routes d))"
    and "\<And>x. x \<in> set (rows (routes d)) \<Longrightarrow> rt_id x = rt_id r \<Longrightarrow> rt_project x = rt_project r"
    and "project_exists d (rt_project r)" and "service_link d r"
  shows "links_ok (d\<lparr>routes := t\<rparr>)"
proof -
  have rows': "rows (routes (d\<lparr>routes := t\<rparr>)) = map (\<lambda>x. if rt_id x = rt_id r then r else x) (rows (routes d))"
    by (simp add: assms(2))
  have "route_in d i j \<Longrightarrow> route_in (d\<lparr>routes := t\<rparr>) i j" for i j
    unfolding route_in_def objects_exists_iff rows'
    by (erule bexE, rule exists_saved, assumption, assumption) (auto dest: assms(3))
  then have perm: "permission_link d q \<Longrightarrow> permission_link (d\<lparr>routes := t\<rparr>) q" for q
    by (auto simp: permission_link_def objects_exists_iff)
  have ex: "route_exists d j \<Longrightarrow> route_exists (d\<lparr>routes := t\<rparr>) j" for j
    unfolding route_exists_def objects_exists_iff rows'
    by (erule bexE, rule exists_saved, assumption, assumption) simp
  have "list_all (\<lambda>r. project_exists d (rt_project r) \<and> service_link d r) (rows t)"
    using assms(1,4,5) by (auto simp: assms(2) links_ok_def list_all_iff)
  with assms(1) perm ex show ?thesis
    by (simp add: links_ok_def list_all_iff project_exists_def application_exists_def service_link_def
        cong: option.case_cong)
qed

lemma links_methods:
  "links_ok d \<Longrightarrow> \<forall>m \<in> set (rows t). route_exists d (rm_route m) \<Longrightarrow> links_ok (d\<lparr>route_methods := t\<rparr>)"
  by (simp add: links_ok_def list_all_iff project_exists_def application_exists_def route_exists_def
      service_link_def permission_link_def [abs_def] route_in_def cong: option.case_cong)

lemma links_permissions:
  "links_ok d \<Longrightarrow> \<forall>q \<in> set (rows t). permission_link d q \<Longrightarrow> links_ok (d\<lparr>permissions := t\<rparr>)"
  by (simp add: links_ok_def list_all_iff project_exists_def application_exists_def route_exists_def
      service_link_def permission_link_def [abs_def] route_in_def cong: option.case_cong)

end
