(* ===== verification/Destinations.thy ===== *)
theory Destinations
  imports Settings Paths
begin

text \<open>
  \<open>apps/routes/destinations.py\<close>: which destinations a backend service may have. The first
  sections are the standard library's \<open>urllib.parse.urlsplit\<close> (scheme, authority, path,
  query, fragment; host, port and user of the authority) and the validity checks of
  \<open>ipaddress\<close> it and \<open>_origin\<close> use; \<open>None\<close> is a \<open>ValueError\<close>. On the
  modelled characters the NFKC check of the authority never fails.
\<close>

section \<open>IP addresses\<close>

definition is_hex :: "char \<Rightarrow> bool" where
  "is_hex c \<longleftrightarrow> is_digit c \<or> 97 \<le> code c \<and> code c \<le> 102 \<or> 65 \<le> code c \<and> code c \<le> 70"

definition octet_ok :: "string \<Rightarrow> bool" where
  "octet_ok s \<longleftrightarrow>
     isdecimal s \<and> length s \<le> 3 \<and> (s = ''0'' \<or> hd s \<noteq> CHR ''0'') \<and> val_digits s \<le> 255"

definition ipv4_ok :: "string \<Rightarrow> bool" where
  "ipv4_ok s \<longleftrightarrow>
     CHR ''/'' \<notin> set s \<and>
     (let octets = split_on (CHR ''.'') s in length octets = 4 \<and> list_all octet_ok octets)"

definition hextet_ok :: "string \<Rightarrow> bool" where
  "hextet_ok s \<longleftrightarrow> s \<noteq> [] \<and> list_all is_hex s \<and> length s \<le> 4"

text \<open>The indices of the inner empty parts: the \<open>::\<close> of the address.\<close>

definition empty_parts :: "string list \<Rightarrow> nat list" where
  "empty_parts parts = filter (\<lambda>i. parts ! i = []) [1..<length parts - 1]"

definition ipv6_parts_ok :: "string list \<Rightarrow> bool" where
  "ipv6_parts_ok parts =
     (case empty_parts parts of
        [] \<Rightarrow> length parts = 8 \<and> list_all hextet_ok parts
      | [skip] \<Rightarrow>
          (let hi = (if hd parts = [] then skip - 1 else skip);
               lo = (if last parts = [] then length parts - skip - 2 else length parts - skip - 1)
           in (hd parts = [] \<longrightarrow> hi = 0) \<and> (last parts = [] \<longrightarrow> lo = 0) \<and> 1 \<le> 8 - (hi + lo) \<and>
              list_all hextet_ok (take hi parts) \<and>
              list_all hextet_ok (drop (length parts - lo) parts))
      | _ \<Rightarrow> False)"

definition ipv6_ok :: "string \<Rightarrow> bool" where
  "ipv6_ok s \<longleftrightarrow>
     CHR ''/'' \<notin> set s \<and>
     (let (addr, sep, scope) = partition_at (CHR ''%'') s;
          parts = split_on (CHR '':'') addr;
          dotted = CHR ''.'' \<in> set (last parts);
          parts' = (if dotted then butlast parts @ [''0'', ''0''] else parts)
      in (sep \<longrightarrow> scope \<noteq> [] \<and> CHR ''%'' \<notin> set scope) \<and> addr \<noteq> [] \<and> 3 \<le> length parts \<and>
         (dotted \<longrightarrow> ipv4_ok (last parts)) \<and> length parts' \<le> 9 \<and> ipv6_parts_ok parts')"

section \<open>\<open>urlsplit\<close>\<close>

record url =
  u_scheme :: string
  u_netloc :: string
  u_path :: string
  u_query :: string
  u_fragment :: string

definition is_c0_or_space :: "char \<Rightarrow> bool" where
  "is_c0_or_space c \<longleftrightarrow> code c \<le> 32"

definition is_unsafe_byte :: "char \<Rightarrow> bool" where
  "is_unsafe_byte c \<longleftrightarrow> code c = 9 \<or> code c = 13 \<or> code c = 10"

definition scheme_char :: "char \<Rightarrow> bool" where
  "scheme_char c \<longleftrightarrow>
     is_ascii_alpha c \<or> is_digit c \<or> c = CHR ''+'' \<or> c = CHR ''-'' \<or> c = CHR ''.''"

definition split_scheme :: "string \<Rightarrow> string \<times> string" where
  "split_scheme u =
     (let pre = takeWhile (\<lambda>c. c \<noteq> CHR '':'') u
      in if CHR '':'' \<in> set u \<and> pre \<noteq> [] \<and> is_ascii_alpha (hd u) \<and> list_all scheme_char pre
         then (py_lower pre, drop (Suc (length pre)) u) else ([], u))"

definition is_delim :: "char \<Rightarrow> bool" where
  "is_delim c \<longleftrightarrow> c = CHR ''/'' \<or> c = CHR ''?'' \<or> c = CHR ''#''"

definition split_netloc :: "string \<Rightarrow> string \<times> string" where
  "split_netloc u =
     (if startswith u ''//''
      then (takeWhile (\<lambda>c. \<not> is_delim c) (drop 2 u), dropWhile (\<lambda>c. \<not> is_delim c) (drop 2 u))
      else ([], u))"

definition bracketed_host_ok :: "string \<Rightarrow> bool" where
  "bracketed_host_ok h =
     (if startswith h ''v''
      then (let r = dropWhile is_hex (drop 1 h)
            in takeWhile is_hex (drop 1 h) \<noteq> [] \<and> startswith r ''.'' \<and> 2 \<le> length r)
      else \<not> ipv4_ok h \<and> ipv6_ok h)"

definition brackets_ok :: "string \<Rightarrow> bool" where
  "brackets_ok netloc =
     (if CHR ''['' \<in> set netloc \<and> CHR '']'' \<in> set netloc
      then bracketed_host_ok (fst (partition_at (CHR '']'') (snd (snd (partition_at (CHR ''['') netloc)))))
      else CHR ''['' \<notin> set netloc \<and> CHR '']'' \<notin> set netloc)"

definition urlsplit :: "string \<Rightarrow> url option" where
  "urlsplit value =
     (let u = filter (\<lambda>c. \<not> is_unsafe_byte c) (lstrip is_c0_or_space value);
          (scheme, u1) = split_scheme u;
          (netloc, u2) = split_netloc u1;
          (u3, _, fragment) = partition_at (CHR ''#'') u2;
          (path, _, query) = partition_at (CHR ''?'') u3
      in if brackets_ok netloc
         then Some \<lparr>u_scheme = scheme, u_netloc = netloc, u_path = path, u_query = query,
                    u_fragment = fragment\<rparr>
         else None)"

text \<open>The properties \<open>username\<close>, \<open>password\<close>, \<open>hostname\<close> and \<open>port\<close> of a split URL.\<close>

definition url_userinfo :: "url \<Rightarrow> string option \<times> string option" where
  "url_userinfo u =
     (let (userinfo, have_info, _) = rpartition_at (CHR ''@'') (u_netloc u);
          (username, have_password, password) = partition_at (CHR '':'') userinfo
      in if have_info then (Some username, if have_password then Some password else None)
         else (None, None))"

definition url_hostinfo :: "url \<Rightarrow> string \<times> string option" where
  "url_hostinfo u =
     (let (_, _, hostinfo) = rpartition_at (CHR ''@'') (u_netloc u);
          (_, have_open_br, bracketed) = partition_at (CHR ''['') hostinfo;
          (hostname, port) =
            (if have_open_br
             then (let (h, _, p) = partition_at (CHR '']'') bracketed
                   in (h, snd (snd (partition_at (CHR '':'') p))))
             else (let (h, _, p) = partition_at (CHR '':'') hostinfo in (h, p)))
      in (hostname, if port = [] then None else Some port))"

definition url_hostname :: "url \<Rightarrow> string option" where
  "url_hostname u =
     (let hostname = fst (url_hostinfo u);
          (name, percent, zone) = partition_at (CHR ''%'') hostname
      in if hostname = [] then None
         else Some (py_lower name @ (if percent then CHR ''%'' # zone else [])))"

definition url_port :: "url \<Rightarrow> int option option" where
  "url_port u =
     (case snd (url_hostinfo u) of
        None \<Rightarrow> Some None
      | Some p \<Rightarrow>
          if isdecimal p \<and> val_digits p \<le> 65535 then Some (Some (int (val_digits p))) else None)"

section \<open>Destinations\<close>

definition host_char :: "char \<Rightarrow> bool" where
  "host_char c \<longleftrightarrow> 97 \<le> code c \<and> code c \<le> 122 \<or> is_digit c"

text \<open>\<open>re.fullmatch(r'[a-z0-9]+(?:[a-z0-9.-]*[a-z0-9])?', host)\<close>\<close>

definition host_ok :: "string \<Rightarrow> bool" where
  "host_ok h \<longleftrightarrow>
     h \<noteq> [] \<and> host_char (hd h) \<and> host_char (last h) \<and>
     list_all (\<lambda>c. host_char c \<or> c = CHR ''.'' \<or> c = CHR ''-'') h"

definition bad_url_char :: "char \<Rightarrow> bool" where
  "bad_url_char c \<longleftrightarrow> code c = 92 \<or> py_isspace c \<or> code c < 32 \<or> code c = 127"

type_synonym origin = "string \<times> string \<times> int"

definition origin_of :: "string \<Rightarrow> origin option" where
  "origin_of value =
     (if list_ex bad_url_char value then None
      else case urlsplit value of
             None \<Rightarrow> None
           | Some parsed \<Rightarrow>
               (case url_hostname parsed of
                  None \<Rightarrow> None
                | Some hostname \<Rightarrow>
                    if u_scheme parsed \<notin> {''http'', ''https''}
                       \<or> fst (url_userinfo parsed) \<noteq> None \<or> snd (url_userinfo parsed) \<noteq> None
                       \<or> u_fragment parsed \<noteq> []
                    then None
                    else
                      (let host = py_lower hostname
                       in if (if CHR '':'' \<in> set host then \<not> ipv6_ok host else \<not> host_ok host) then None
                          else case url_port parsed of
                                 None \<Rightarrow> None
                               | Some port \<Rightarrow>
                                   Some (u_scheme parsed, host,
                                     case port of Some p \<Rightarrow> p
                                     | None \<Rightarrow> if u_scheme parsed = ''https'' then 443 else 80))))"

definition unapproved :: exn where
  "unapproved = ValidationError ''Backend destination must use an operator-approved HTTP(S) origin.''"

definition validate_target_url :: "settings \<Rightarrow> string \<Rightarrow> exn + string" where
  "validate_target_url S value =
     (if value = [] then Inr value
      else case origin_of value of
             None \<Rightarrow> Inl unapproved
           | Some origin \<Rightarrow>
               (let allowed = map origin_of (GATEWAY_ALLOWED_BACKEND_ORIGINS S)
                in if None \<in> set allowed then Inl unapproved
                   else if Some origin \<notin> set allowed then Inl unapproved
                   else Inr value))"

definition validate_backend_base_url :: "settings \<Rightarrow> string \<Rightarrow> exn + string" where
  "validate_backend_base_url S value =
     (if value = [] then Inr value
      else case urlsplit value of
             None \<Rightarrow> Inl ValueError
           | Some parsed \<Rightarrow>
               if u_path parsed \<noteq> [] \<or> u_query parsed \<noteq> [] \<or> u_fragment parsed \<noteq> []
                  \<or> endswith value ''/''
               then Inl (ValidationError ''Backend base URL must contain only an approved origin without a path or query.'')
               else validate_target_url S value)"

section \<open>Lemmas\<close>

lemma validate_target_Inr:
  "validate_target_url S v = Inr w \<longleftrightarrow>
     w = v \<and> (v = [] \<or> (\<exists>orig. origin_of v = Some orig
       \<and> Some orig \<in> set (map origin_of (GATEWAY_ALLOWED_BACKEND_ORIGINS S))
       \<and> None \<notin> set (map origin_of (GATEWAY_ALLOWED_BACKEND_ORIGINS S))))"
  by (cases "origin_of v") (auto simp: validate_target_url_def Let_def)

lemma validate_base_Inr:
  "validate_backend_base_url S v = Inr w \<Longrightarrow> v \<noteq> [] \<Longrightarrow>
     \<exists>u. urlsplit v = Some u \<and> u_path u = [] \<and> u_query u = [] \<and> u_fragment u = []
       \<and> \<not> endswith v ''/'' \<and> validate_target_url S v = Inr w"
  by (auto simp: validate_backend_base_url_def split: option.splits if_splits)

lemma origin_of_Some:
  assumes "origin_of v = Some orig"
  shows "\<not> list_ex bad_url_char v"
    and "\<exists>u. urlsplit v = Some u \<and> fst (url_hostinfo u) \<noteq> [] \<and> u_scheme u \<in> {''http'', ''https''}"
  using assms
  by (auto simp: origin_of_def url_hostname_def Let_def split: option.splits if_splits prod.splits)

text \<open>Without the characters \<open>_origin\<close> rejects, \<open>urlsplit\<close> drops nothing.\<close>

lemma clean_kept:
  assumes "\<not> list_ex bad_url_char v"
  shows "filter (\<lambda>c. \<not> is_unsafe_byte c) (lstrip is_c0_or_space v) = v"
proof -
  have ok: "\<not> is_c0_or_space c \<and> \<not> is_unsafe_byte c" if "c \<in> set v" for c
  proof -
    have "\<not> bad_url_char c" using assms that by (simp add: list_ex_iff)
    then have "code c \<noteq> 32" "\<not> code c < 32" by (auto simp: bad_url_char_def py_isspace_def)
    then show ?thesis by (simp add: is_c0_or_space_def is_unsafe_byte_def)
  qed
  then have "lstrip is_c0_or_space v = v"
    by (cases v) (auto intro!: lstrip_id)
  with ok show ?thesis by (simp add: filter_id_conv)
qed

text \<open>The part of \<open>urlsplit\<close> after the removals.\<close>

definition split_clean :: "string \<Rightarrow> url option" where
  "split_clean u =
     (let (scheme, u1) = split_scheme u;
          (netloc, u2) = split_netloc u1;
          (u3, _, fragment) = partition_at (CHR ''#'') u2;
          (path, _, query) = partition_at (CHR ''?'') u3
      in if brackets_ok netloc
         then Some \<lparr>u_scheme = scheme, u_netloc = netloc, u_path = path, u_query = query,
                    u_fragment = fragment\<rparr>
         else None)"

lemma urlsplit_clean: "\<not> list_ex bad_url_char v \<Longrightarrow> urlsplit v = split_clean v"
  by (simp add: urlsplit_def split_clean_def clean_kept)

lemma split_scheme_append:
  assumes "CHR '':'' \<in> set u"
  shows "split_scheme (u @ w) = (fst (split_scheme u),
           (if fst (split_scheme u) = [] then u @ w else snd (split_scheme u) @ w))"
proof -
  let ?P = "\<lambda>c. c \<noteq> CHR '':''"
  have t: "takeWhile ?P (u @ w) = takeWhile ?P u" using assms by (induction u) auto
  have l: "length (takeWhile ?P u) < length u"
    using assms by (induction u) auto
  have h: "hd (u @ w) = hd u" using assms by (cases u) auto
  have lower: "py_lower x = [] \<longleftrightarrow> x = []" for x by (simp add: py_lower_def)
  show ?thesis
    using assms l by (simp add: split_scheme_def t h Let_def lower Suc_leI)
qed

lemma split_scheme_colon: "fst (split_scheme u) \<noteq> [] \<Longrightarrow> CHR '':'' \<in> set u"
  by (auto simp: split_scheme_def Let_def split: if_splits)

text \<open>A URL that is a bare origin: scheme, two slashes, authority.\<close>

lemma bare_origin_shape:
  assumes "split_clean v = Some u" and "u_path u = []" and "CHR ''?'' \<notin> set v" and "CHR ''#'' \<notin> set v"
    and "u_netloc u \<noteq> []" and "u_scheme u \<noteq> []"
  shows "snd (split_scheme v) = CHR ''/'' # CHR ''/'' # u_netloc u"
    and "list_all (\<lambda>c. \<not> is_delim c) (u_netloc u)"
proof -
  obtain sch u1 where s: "split_scheme v = (sch, u1)" by force
  obtain net u2 where n: "split_netloc u1 = (net, u2)" by force
  have net: "u_netloc u = net" and path: "u_path u = fst (partition_at (CHR ''?'') (fst (partition_at (CHR ''#'') u2)))"
    using assms(1) s n
    by (auto simp: split_clean_def partition_at_def Let_def split: if_splits)
  have u1: "startswith u1 ''//''" using assms(5) n net by (auto simp: split_netloc_def split: if_splits)
  then obtain r where r: "u1 = CHR ''/'' # CHR ''/'' # r" by (auto simp: startswith_iff)
  have nr: "net = takeWhile (\<lambda>c. \<not> is_delim c) r" "u2 = dropWhile (\<lambda>c. \<not> is_delim c) r"
    using n r by (simp_all add: split_netloc_def)
  have "set u1 \<subseteq> set v"
    using s by (auto simp: split_scheme_def Let_def split: if_splits dest: in_set_dropD)
  moreover have "set u2 \<subseteq> set u1" using nr r by (auto dest: set_dropWhileD)
  ultimately have "CHR ''?'' \<notin> set u2" "CHR ''#'' \<notin> set u2" using assms(3,4) by auto
  then have "u2 = []" using assms(2) path by (simp add: partition_at_def)
  then have "r = net" using nr by (metis append_Nil2 takeWhile_dropWhile_id)
  then show "snd (split_scheme v) = CHR ''/'' # CHR ''/'' # u_netloc u" using s r net by simp
  show "list_all (\<lambda>c. \<not> is_delim c) (u_netloc u)"
    using nr net by (auto simp: list_all_iff dest: set_takeWhileD)
qed

lemma split_appended_path:
  assumes "split_clean v = Some u" and "u_path u = []" and "CHR ''?'' \<notin> set v" and "CHR ''#'' \<notin> set v"
    and "u_netloc u \<noteq> []" and "u_scheme u \<noteq> []"
  shows "\<exists>u'. split_clean (v @ CHR ''/'' # w) = Some u' \<and> u_scheme u' = u_scheme u
    \<and> u_netloc u' = u_netloc u \<and> (CHR ''#'' \<notin> set w \<longrightarrow> u_fragment u' = [])
    \<and> startswith (u_path u') ''/''"
proof -
  note shape = bare_origin_shape [OF assms]
  have sch: "fst (split_scheme v) = u_scheme u" and ok: "brackets_ok (u_netloc u)"
    using assms(1) by (auto simp: split_clean_def Let_def partition_at_def split: prod.splits if_splits)
  have colon: "CHR '':'' \<in> set v" using split_scheme_colon [of v] sch assms(6) by simp
  have s: "split_scheme (v @ CHR ''/'' # w) =
      (u_scheme u, CHR ''/'' # CHR ''/'' # u_netloc u @ CHR ''/'' # w)"
    using split_scheme_append [OF colon, of "CHR ''/'' # w"] sch assms(6) shape(1) by simp
  have "takeWhile (\<lambda>c. \<not> is_delim c) (u_netloc u @ CHR ''/'' # w) = u_netloc u"
    "dropWhile (\<lambda>c. \<not> is_delim c) (u_netloc u @ CHR ''/'' # w) = CHR ''/'' # w"
    using shape(2) by (auto simp: takeWhile_append dropWhile_append list_all_iff is_delim_def)
  then have n: "split_netloc (CHR ''/'' # CHR ''/'' # u_netloc u @ CHR ''/'' # w) = (u_netloc u, CHR ''/'' # w)"
    by (simp add: split_netloc_def)
  show ?thesis
    by (auto simp: split_clean_def s n ok partition_at_def)
qed

text \<open>\<open>_origin\<close> looks at the scheme, the authority and whether there is a fragment.\<close>

lemma origin_of_cong:
  assumes "\<not> list_ex bad_url_char v" and "\<not> list_ex bad_url_char v'"
    and "urlsplit v = Some u" and "urlsplit v' = Some u'"
    and "u_scheme u = u_scheme u'" and "u_netloc u = u_netloc u'"
    and "u_fragment u = []" and "u_fragment u' = []"
  shows "origin_of v = origin_of v'"
proof -
  have i: "url_userinfo u = url_userinfo u'" "url_hostinfo u = url_hostinfo u'"
    using assms(6) by (simp_all add: url_userinfo_def url_hostinfo_def)
  then have h: "url_hostname u = url_hostname u'" "url_port u = url_port u'"
    by (simp_all add: url_hostname_def url_port_def)
  have b: "list_ex bad_url_char v = False" "list_ex bad_url_char v' = False"
    using assms(1,2) by simp_all
  show ?thesis
    unfolding origin_of_def assms(3,4) option.case i(1) h b assms(5,7,8) ..
qed

lemma netloc_not_Nil: "fst (url_hostinfo u) \<noteq> [] \<Longrightarrow> u_netloc u \<noteq> []"
  by (auto simp: url_hostinfo_def rpartition_at_def partition_at_def)

lemma endswith_slash: "endswith s ''/'' \<longleftrightarrow> s \<noteq> [] \<and> last s = CHR ''/''"
  by (cases s rule: rev_cases) (auto simp: endswith_def)

lemma bad_char_simps: "\<not> bad_url_char (CHR ''/'')"
  by (simp add: bad_url_char_def py_isspace_def code_def)

lemma normalize_clean: "\<not> list_ex bad_url_char p \<Longrightarrow> \<not> list_ex bad_url_char (normalize_path p)"
  using set_strip [of is_slash p] by (auto simp: normalize_path_eq list_ex_iff bad_char_simps)

section \<open>Properties\<close>


definition sample_settings :: settings where
  "sample_settings = dev_settings\<lparr>GATEWAY_ALLOWED_BACKEND_ORIGINS := [''http://d:8000'']\<rparr>"

lemmas url_defs =
  origin_of_def urlsplit_def url_hostname_def url_hostinfo_def url_userinfo_def url_port_def
  split_scheme_def split_netloc_def brackets_ok_def partition_at_def rpartition_at_def
  lstrip_def is_c0_or_space_def is_unsafe_byte_def scheme_char_def is_ascii_alpha_def is_digit_def
  is_delim_def host_ok_def host_char_def bad_url_char_def py_isspace_def code_def py_lower_def
  lower_char_def isdecimal_def val_digits_def digit_val_def Let_def

lemma sample_origin: "origin_of ''http://d:8000'' = Some (''http'', ''d'', 8000)"
  by (simp add: url_defs)

lemma sample_base: "validate_backend_base_url sample_settings ''http://d:8000'' = Inr ''http://d:8000''"
proof -
  obtain u where "urlsplit ''http://d:8000'' = Some u" "u_path u = []" "u_query u = []" "u_fragment u = []"
    by (simp add: url_defs)
  then show ?thesis
    by (simp add: validate_backend_base_url_def endswith_def validate_target_url_def sample_origin
        sample_settings_def)
qed


text \<open>
  The allow list fails closed. With an empty list, or with one entry that is not a
  well-formed origin, no destination at all is accepted.
\<close>

lemma allow_list_fails_closed:
  assumes "GATEWAY_ALLOWED_BACKEND_ORIGINS S = []
      \<or> (\<exists>item \<in> set (GATEWAY_ALLOWED_BACKEND_ORIGINS S). origin_of item = None)"
    and "value \<noteq> []"
  shows "\<not> is_ok (validate_target_url S value) \<and> \<not> is_ok (validate_backend_base_url S value)"
proof -
  have no: "validate_target_url S value \<noteq> Inr w" for w
    using assms unfolding validate_target_Inr by (metis image_eqI list.set_map list.simps(15) map_is_Nil_conv empty_iff list.set(1))
  moreover have "validate_backend_base_url S value \<noteq> Inr w" for w
    using validate_base_Inr [of S "value" w] assms(2) no by blast
  ultimately show ?thesis by (simp add: is_ok_iff)
qed

text \<open>
  A base URL with an empty query, such as \<open>http://d:8000?\<close>, passes the check for a bare
  origin; the path appended to it ends up in the query, and the destination is accepted.
\<close>

lemma empty_query_swallows_path:
  "validate_backend_base_url sample_settings ''http://d:8000?'' = Inr ''http://d:8000?''
   \<and> build_target_url ''/doctors'' ''http://d:8000?'' ''doctors/4'' = Inr ''http://d:8000?/doctors/4''
   \<and> validate_target_url sample_settings ''http://d:8000?/doctors/4'' = Inr ''http://d:8000?/doctors/4''
   \<and> map_option u_path (urlsplit ''http://d:8000?/doctors/4'') = Some []
   \<and> map_option u_query (urlsplit ''http://d:8000?/doctors/4'') = Some ''/doctors/4''"
proof -
  have a: "origin_of ''http://d:8000?'' = Some (''http'', ''d'', 8000)"
    "origin_of ''http://d:8000?/doctors/4'' = Some (''http'', ''d'', 8000)"
    by (simp_all add: url_defs)
  obtain u where u: "urlsplit ''http://d:8000?'' = Some u" "u_path u = []" "u_query u = []" "u_fragment u = []"
    by (simp add: url_defs)
  have b: "map_option u_path (urlsplit ''http://d:8000?/doctors/4'') = Some []"
    "map_option u_query (urlsplit ''http://d:8000?/doctors/4'') = Some ''/doctors/4''"
    by (simp_all add: url_defs)
  have c: "build_target_url ''/doctors'' ''http://d:8000?'' ''doctors/4'' = Inr ''http://d:8000?/doctors/4''"
    by (simp add: build_target_url_def normalize_path_def strip_def lstrip_def rstrip_def is_slash_def Let_def)
  show ?thesis
    using u a b c
    by (simp add: validate_backend_base_url_def endswith_def validate_target_url_def sample_origin
        sample_settings_def)
qed

text \<open>
  A base URL with an unbalanced or malformed bracketed host makes the admin API's validator
  raise a bare \<open>ValueError\<close> instead of the \<open>ValidationError\<close> it raises for every other
  unacceptable text, under any settings.
\<close>

lemma malformed_base_url_raises:
  "validate_backend_base_url S ''http://[x'' = Inl ValueError
   \<and> validate_target_url S ''http://[x'' = Inl unapproved"
proof -
  have "urlsplit ''http://[x'' = None" by (simp add: url_defs)
  then show ?thesis
    by (simp add: validate_backend_base_url_def validate_target_url_def origin_of_def)
qed

end
