(* ===== verification/AdminRoutes.thy ===== *)
theory AdminRoutes
  imports Tenancy Destinations "HOL-Library.Char_ord" "HOL-Library.List_Lexorder"
begin

text \<open>
  \<open>apps/routes/views.py\<close> and \<open>serializers.py\<close>: the administrators' views of backend services,
  routes, method policies and route permissions. \<open>admin\<close> is the key of the staff user the
  framework has authenticated.

  The field classes of the REST framework turn the request's members into values; an input record
  holds those values, \<open>None\<close> for an absent member. The forms below add what the serializers
  declare: required fields, choices, validators, and the uniqueness checks the framework derives
  from \<open>unique_together\<close> when every field of the constraint can be written. A rejected form is
  a \<open>ValidationError\<close>, which the framework answers with status 400, as it answers \<open>Http404\<close>
  with 404; any other exception becomes a 500. A view reads and writes one database, the primary.
\<close>

section \<open>Values\<close>

text \<open>
  \<open>int(value)\<close> of a member. Reading a binary floating-point number is a parameter: it yields
  \<open>OverflowError\<close> for an infinity.
\<close>

definition json_int :: "(string \<Rightarrow> exn + int) \<Rightarrow> json \<Rightarrow> exn + int" where
  "json_int float_int v =
     (case v of
        JInt i \<Rightarrow> Inr i
      | JBool b \<Rightarrow> Inr (if b then 1 else 0)
      | JFloat x \<Rightarrow> float_int x
      | JStr s \<Rightarrow> (case py_int s of None \<Rightarrow> Inl ValueError | Some i \<Rightarrow> Inr i)
      | _ \<Rightarrow> Inl TypeError)"

definition given :: "'a option \<Rightarrow> 'a \<Rightarrow> 'a" where
  "given x current = (case x of None \<Rightarrow> current | Some y \<Rightarrow> y)"

text \<open>\<open>str.title\<close> on the letters a slug may hold: the first letter of each run of letters.\<close>

definition upper_char :: "char \<Rightarrow> char" where
  "upper_char c = (let n = code c in if 97 \<le> n \<and> n \<le> 122 then char_of (n - 32) else c)"

fun py_title :: "bool \<Rightarrow> string \<Rightarrow> string" where
  "py_title inside [] = []"
| "py_title inside (c # cs) =
     (if is_ascii_alpha c then (if inside then lower_char c else upper_char c) # py_title True cs
      else c # py_title False cs)"

definition rejected :: exn where
  "rejected = ValidationError ''fields''"

section \<open>The project of a request\<close>

definition project_argument :: "(string \<Rightarrow> exn + int) \<Rightarrow> json option \<Rightarrow> exn + int option" where
  "project_argument float_int member =
     (case member of
        None \<Rightarrow> Inr None
      | Some JNull \<Rightarrow> Inr None
      | Some v \<Rightarrow>
          (case json_int float_int v of
             Inl e \<Rightarrow>
               if e = TypeError \<or> e = ValueError
               then Inl (ValidationError ''A numeric project ID is required.'') else Inl e
           | Inr i \<Rightarrow>
               if i \<le> 0 then Inl (ValidationError ''A positive project ID is required.'')
               else Inr (Some i)))"

definition own_project :: "pk \<Rightarrow> int option \<Rightarrow> db \<Rightarrow> project option" where
  "own_project admin project_id d =
     (case project_id of
        Some i \<Rightarrow> objects_first (\<lambda>p. prj_owner p = admin \<and> prj_id p = i) (projects d)
      | None \<Rightarrow> objects_first (\<lambda>p. prj_owner p = admin) (projects d))"

definition get_owned_project ::
    "(string \<Rightarrow> exn + int) \<Rightarrow> pk \<Rightarrow> json option \<Rightarrow> db \<Rightarrow> exn + project" where
  "get_owned_project float_int admin member d =
     and_then (project_argument float_int member) (\<lambda>project_id.
       (case own_project admin project_id d of
          None \<Rightarrow> Inl (ValidationError ''Project not found or not owned by this administrator.'')
        | Some p \<Rightarrow> Inr p))"

section \<open>Backend services\<close>

record service_input =
  si_name :: "string option"
  si_slug :: "string option"
  si_description :: "string option"
  si_base_url :: "string option"
  si_is_active :: "bool option"

definition service_form :: "settings \<Rightarrow> bool \<Rightarrow> service_input \<Rightarrow> exn + service_input" where
  "service_form S partial v =
     (if \<not> partial \<and> si_name v = None then Inl rejected
      else case si_base_url v of
             None \<Rightarrow> Inr v
           | Some u \<Rightarrow> and_then (validate_backend_base_url S u) (\<lambda>_. Inr v))"

definition services_list :: "pk \<Rightarrow> db \<Rightarrow> backend_service list" where
  "services_list admin d =
     sort_key (\<lambda>s. - svc_created_at s)
       (objects_filter (\<lambda>s. owns_project d admin (svc_project s)) (services d))"

definition service_create ::
    "settings \<Rightarrow> (string \<Rightarrow> string) \<Rightarrow> (string \<Rightarrow> exn + int) \<Rightarrow> pk \<Rightarrow> instant \<Rightarrow> json option
       \<Rightarrow> service_input \<Rightarrow> txn \<Rightarrow> exn + backend_service \<times> txn" where
  "service_create S slugify float_int admin now member v0 tx =
     and_then (service_form S False v0) (\<lambda>v.
     and_then (get_owned_project float_int admin member (tx_db tx)) (\<lambda>project.
       (let name = given (si_name v) [];
            slug = default_slug slugify ''backend-service'' (given (si_slug v) []) name
        in if objects_exists (\<lambda>s. svc_project s = prj_id project \<and> svc_slug s = slug) (services (tx_db tx))
           then Inl (ValidationError ''This service slug already exists in the project.'')
           else if objects_exists (\<lambda>s. svc_project s = prj_id project \<and> svc_name s = name) (services (tx_db tx))
           then Inl (ValidationError ''This service name already exists in the project.'')
           else tx_create_service slugify now
                  \<lparr>svc_id = 0, svc_project = prj_id project, svc_name = name, svc_slug = slug,
                   svc_description = given (si_description v) [], svc_base_url = given (si_base_url v) [],
                   svc_is_active = given (si_is_active v) True, svc_created_at = 0, svc_updated_at = 0\<rparr> tx)))"

definition service_update ::
    "settings \<Rightarrow> (string \<Rightarrow> string) \<Rightarrow> pk \<Rightarrow> instant \<Rightarrow> pk \<Rightarrow> bool \<Rightarrow> service_input \<Rightarrow> txn
       \<Rightarrow> exn + backend_service \<times> txn" where
  "service_update S slugify admin now i partial v0 tx =
     (case objects_first (\<lambda>s. svc_id s = i \<and> owns_project (tx_db tx) admin (svc_project s)) (services (tx_db tx)) of
        None \<Rightarrow> Inl Http404
      | Some s \<Rightarrow>
          and_then (service_form S partial v0) (\<lambda>v.
            tx_save_service slugify now
              (s\<lparr>svc_name := given (si_name v) (svc_name s), svc_slug := given (si_slug v) (svc_slug s),
                 svc_description := given (si_description v) (svc_description s),
                 svc_base_url := given (si_base_url v) (svc_base_url s),
                 svc_is_active := given (si_is_active v) (svc_is_active s)\<rparr>) tx))"

section \<open>Routes\<close>

text \<open>
  \<open>ri_backend_service\<close> distinguishes an absent member from \<open>null\<close>. The two names and the slug
  are read from the request's own members; an absent, null or empty one is \<open>[]\<close>.
\<close>

record route_input =
  ri_name :: "string option"
  ri_backend_service :: "pk option option"
  ri_service_name :: string
  ri_downstream :: string
  ri_service_slug :: string
  ri_base_path :: "string option"
  ri_is_active :: "bool option"

definition route_form :: "bool \<Rightarrow> route_input \<Rightarrow> db \<Rightarrow> exn + route_input" where
  "route_form partial v d =
     (if \<not> partial \<and> (ri_name v = None \<or> ri_base_path v = None) then Inl rejected
      else if (case ri_backend_service v of Some (Some s) \<Rightarrow> service_of d s = None | _ \<Rightarrow> False) then Inl rejected
      else case ri_base_path v of
             None \<Rightarrow> Inr v
           | Some b \<Rightarrow> and_then (validate_base_path b) (\<lambda>_. Inr v))"

definition routes_list :: "pk \<Rightarrow> db \<Rightarrow> route list" where
  "routes_list admin d =
     sort_key (\<lambda>r. - rt_created_at r)
       (objects_filter (\<lambda>r. owns_project d admin (rt_project r)) (routes d))"

text \<open>
  \<open>get_or_create\<close>: when the insertion violates a constraint the framework looks for the row
  again, and raises the \<open>IntegrityError\<close> when there is still none.
\<close>

definition get_or_create_service ::
    "(string \<Rightarrow> string) \<Rightarrow> instant \<Rightarrow> pk \<Rightarrow> string \<Rightarrow> string \<Rightarrow> txn \<Rightarrow> exn + backend_service \<times> txn" where
  "get_or_create_service slugify now prj slug name tx =
     (case objects_first (\<lambda>s. svc_project s = prj \<and> svc_slug s = slug) (services (tx_db tx)) of
        Some s \<Rightarrow> Inr (s, tx)
      | None \<Rightarrow>
          tx_create_service slugify now
            \<lparr>svc_id = 0, svc_project = prj, svc_name = name, svc_slug = slug, svc_description = [],
             svc_base_url = [], svc_is_active = True, svc_created_at = 0, svc_updated_at = 0\<rparr> tx)"

definition get_backend_service ::
    "(string \<Rightarrow> string) \<Rightarrow> instant \<Rightarrow> project \<Rightarrow> route_input \<Rightarrow> txn \<Rightarrow> exn + backend_service option \<times> txn" where
  "get_backend_service slugify now project v tx =
     (case ri_backend_service v of
        Some (Some i) \<Rightarrow>
          (case objects_first (\<lambda>s. svc_id s = i \<and> svc_project s = prj_id project \<and> svc_is_active s)
                  (services (tx_db tx)) of
             None \<Rightarrow> Inl (ValidationError ''Service must be active and belong to this project.'')
           | Some s \<Rightarrow> Inr (Some s, tx))
      | _ \<Rightarrow>
          (let service_name = (if ri_service_name v \<noteq> [] then ri_service_name v else ri_downstream v);
               service_slug = ri_service_slug v
           in if service_name = [] \<and> service_slug = [] then Inr (None, tx)
              else let slug = (if service_slug \<noteq> [] then service_slug else slugify service_name)
                   in and_then
                        (get_or_create_service slugify now (prj_id project) slug
                           (if service_name \<noteq> [] then service_name
                            else py_title False (map (\<lambda>c. if c = CHR ''-'' then CHR '' '' else c) slug)) tx)
                        (\<lambda>(s, tx').
                           if \<not> svc_is_active s then Inl (ValidationError ''Service must be active.'')
                           else Inr (Some s, tx'))))"

definition route_create ::
    "(string \<Rightarrow> string) \<Rightarrow> (string \<Rightarrow> exn + int) \<Rightarrow> pk \<Rightarrow> instant \<Rightarrow> json option
       \<Rightarrow> route_input \<Rightarrow> txn \<Rightarrow> exn + route \<times> txn" where
  "route_create slugify float_int admin now member v0 tx =
     and_then (route_form False v0 (tx_db tx)) (\<lambda>v.
     and_then (get_owned_project float_int admin member (tx_db tx)) (\<lambda>project.
       (let base_path = given (ri_base_path v) []
        in if objects_exists (\<lambda>r. rt_project r = prj_id project \<and> rt_base_path r = base_path) (routes (tx_db tx))
           then Inl (ValidationError ''This project already has that public base path.'')
           else and_then (get_backend_service slugify now project v tx) (\<lambda>(service, tx').
             (case service of
                None \<Rightarrow> Inl (ValidationError ''An active backend service is required.'')
              | Some s \<Rightarrow>
                  tx_create_route now
                    \<lparr>rt_id = 0, rt_project = prj_id project, rt_backend_service = Some (svc_id s),
                     rt_name = given (ri_name v) [], rt_base_path = base_path,
                     rt_is_active = given (ri_is_active v) True, rt_created_at = 0, rt_updated_at = 0\<rparr> tx')))))"

definition route_update ::
    "pk \<Rightarrow> instant \<Rightarrow> pk \<Rightarrow> bool \<Rightarrow> route_input \<Rightarrow> txn \<Rightarrow> exn + route \<times> txn" where
  "route_update admin now i partial v0 tx =
     (case objects_first (\<lambda>r. rt_id r = i \<and> owns_project (tx_db tx) admin (rt_project r)) (routes (tx_db tx)) of
        None \<Rightarrow> Inl Http404
      | Some r \<Rightarrow>
          and_then (route_form partial v0 (tx_db tx)) (\<lambda>v.
            (let chosen = given (ri_backend_service v) (rt_backend_service r);
                 service = Option.bind chosen (service_of (tx_db tx))
             in if (case service of None \<Rightarrow> False | Some s \<Rightarrow> svc_project s \<noteq> rt_project r)
                then Inl (ValidationError ''Service must belong to the same project.'')
                else if ri_backend_service v \<noteq> None \<and> (case service of None \<Rightarrow> False | Some s \<Rightarrow> \<not> svc_is_active s)
                then Inl (ValidationError ''A newly selected service must be active.'')
                else tx_save_route now
                       (r\<lparr>rt_name := given (ri_name v) (rt_name r), rt_backend_service := chosen,
                          rt_base_path := given (ri_base_path v) (rt_base_path r),
                          rt_is_active := given (ri_is_active v) (rt_is_active r)\<rparr>) tx)))"

section \<open>Method policies\<close>

record method_input =
  mi_route :: "pk option"
  mi_method :: "string option"
  mi_auth_policy :: "string option"

definition AUTH_POLICY_CHOICES :: "string list" where
  "AUTH_POLICY_CHOICES = [AUTH_API_KEY_ONLY, AUTH_API_KEY_AND_JWT]"

definition method_form :: "bool \<Rightarrow> route_method option \<Rightarrow> method_input \<Rightarrow> db \<Rightarrow> exn + method_input" where
  "method_form partial edited v d =
     (if \<not> partial \<and> (mi_route v = None \<or> mi_method v = None) then Inl rejected
      else if (case mi_route v of None \<Rightarrow> False | Some i \<Rightarrow> route_of d i = None) then Inl rejected
      else if (case mi_method v of None \<Rightarrow> False | Some m \<Rightarrow> m \<notin> set METHOD_CHOICES) then Inl rejected
      else if (case mi_auth_policy v of None \<Rightarrow> False | Some p \<Rightarrow> p \<notin> set AUTH_POLICY_CHOICES) then Inl rejected
      else let i = (case edited of None \<Rightarrow> given (mi_route v) 0 | Some e \<Rightarrow> given (mi_route v) (rm_route e));
               m = (case edited of None \<Rightarrow> given (mi_method v) [] | Some e \<Rightarrow> given (mi_method v) (rm_method e))
           in if objects_exists (\<lambda>x. rm_route x = i \<and> rm_method x = m
                     \<and> (case edited of None \<Rightarrow> True | Some e \<Rightarrow> rm_id x \<noteq> rm_id e)) (route_methods d)
              then Inl (ValidationError ''The fields route, method must make a unique set.'')
              else Inr v)"

definition route_methods_list :: "pk \<Rightarrow> db \<Rightarrow> route_method list" where
  "route_methods_list admin d =
     sort_key rm_route (sort_key rm_method
       (objects_filter (\<lambda>m. owns_route d admin (rm_route m)) (route_methods d)))"

definition route_method_create :: "pk \<Rightarrow> method_input \<Rightarrow> txn \<Rightarrow> exn + route_method \<times> txn" where
  "route_method_create admin v0 tx =
     and_then (method_form False None v0 (tx_db tx)) (\<lambda>v.
       (let i = given (mi_route v) 0; m = given (mi_method v) []
        in if \<not> owns_route (tx_db tx) admin i
           then Inl (ValidationError ''Route is not owned by this administrator.'')
           else if objects_exists (\<lambda>x. rm_route x = i \<and> rm_method x = m) (route_methods (tx_db tx))
           then Inl (ValidationError ''A policy already exists for this route and method.'')
           else and_then (create_route_method
                  \<lparr>rm_id = 0, rm_route = i, rm_method = m,
                   rm_auth_policy = given (mi_auth_policy v) AUTH_API_KEY_ONLY\<rparr> (tx_db tx))
                  (\<lambda>(x, d'). Inr (x, tx\<lparr>tx_db := d'\<rparr>))))"

definition route_method_update ::
    "pk \<Rightarrow> pk \<Rightarrow> bool \<Rightarrow> method_input \<Rightarrow> txn \<Rightarrow> exn + route_method \<times> txn" where
  "route_method_update admin i partial v0 tx =
     (case objects_first (\<lambda>m. rm_id m = i \<and> owns_route (tx_db tx) admin (rm_route m)) (route_methods (tx_db tx)) of
        None \<Rightarrow> Inl Http404
      | Some m \<Rightarrow>
          and_then (method_form partial (Some m) v0 (tx_db tx)) (\<lambda>v.
            (if given (mi_route v) (rm_route m) \<noteq> rm_route m
             then Inl (ValidationError ''A method policy cannot move between routes.'')
             else and_then (save_route_method
                    (m\<lparr>rm_method := given (mi_method v) (rm_method m),
                       rm_auth_policy := given (mi_auth_policy v) (rm_auth_policy m)\<rparr>) (tx_db tx))
                    (\<lambda>(x, d'). Inr (x, tx\<lparr>tx_db := d'\<rparr>)))))"

section \<open>Route permissions\<close>

record permission_input =
  pi_application :: "pk option"
  pi_route :: "pk option"
  pi_is_active :: "bool option"

definition permission_form ::
    "bool \<Rightarrow> route_permission option \<Rightarrow> permission_input \<Rightarrow> db \<Rightarrow> exn + permission_input" where
  "permission_form partial edited v d =
     (if \<not> partial \<and> (pi_application v = None \<or> pi_route v = None) then Inl rejected
      else if (case pi_application v of None \<Rightarrow> False | Some a \<Rightarrow> application_of d a = None) then Inl rejected
      else if (case pi_route v of None \<Rightarrow> False | Some i \<Rightarrow> route_of d i = None) then Inl rejected
      else let a = (case edited of None \<Rightarrow> given (pi_application v) 0
                    | Some e \<Rightarrow> given (pi_application v) (perm_application e));
               i = (case edited of None \<Rightarrow> given (pi_route v) 0 | Some e \<Rightarrow> given (pi_route v) (perm_route e))
           in if objects_exists (\<lambda>x. perm_application x = a \<and> perm_route x = i
                     \<and> (case edited of None \<Rightarrow> True | Some e \<Rightarrow> perm_id x \<noteq> perm_id e)) (permissions d)
              then Inl (ValidationError ''The fields application, route must make a unique set.'')
              else Inr v)"

definition permissions_list :: "pk \<Rightarrow> db \<Rightarrow> route_permission list" where
  "permissions_list admin d =
     objects_filter (\<lambda>q. owns_application d admin (perm_application q)) (permissions d)"

text \<open>
  \<open>app.project_id != route.project_id or app.project.owner_id != request.user\<close>, on the rows the
  form has found.
\<close>

definition same_owned_project :: "pk \<Rightarrow> pk \<Rightarrow> pk \<Rightarrow> db \<Rightarrow> bool" where
  "same_owned_project admin a i d =
     (case (application_of d a, route_of d i) of
        (Some app, Some r) \<Rightarrow> app_project app = rt_project r \<and> owns_project d admin (app_project app)
      | _ \<Rightarrow> False)"

definition permission_create :: "pk \<Rightarrow> instant \<Rightarrow> permission_input \<Rightarrow> txn \<Rightarrow> exn + route_permission \<times> txn" where
  "permission_create admin now v0 tx =
     and_then (permission_form False None v0 (tx_db tx)) (\<lambda>v.
       (let a = given (pi_application v) 0; i = given (pi_route v) 0
        in if \<not> same_owned_project admin a i (tx_db tx)
           then Inl (ValidationError ''Application and route must belong to an owned project.'')
           else and_then (create_permission now
                  \<lparr>perm_id = 0, perm_application = a, perm_route = i,
                   perm_is_active = given (pi_is_active v) True, perm_created_at = 0\<rparr> (tx_db tx))
                  (\<lambda>(x, d'). Inr (x, tx\<lparr>tx_db := d'\<rparr>))))"

definition permission_update ::
    "pk \<Rightarrow> pk \<Rightarrow> bool \<Rightarrow> permission_input \<Rightarrow> txn \<Rightarrow> exn + route_permission \<times> txn" where
  "permission_update admin i partial v0 tx =
     (case objects_first (\<lambda>q. perm_id q = i \<and> owns_application (tx_db tx) admin (perm_application q))
             (permissions (tx_db tx)) of
        None \<Rightarrow> Inl Http404
      | Some q \<Rightarrow>
          and_then (permission_form partial (Some q) v0 (tx_db tx)) (\<lambda>v.
            (let a = given (pi_application v) (perm_application q); r = given (pi_route v) (perm_route q)
             in if \<not> same_owned_project admin a r (tx_db tx)
                then Inl (ValidationError ''Application and route must belong to an owned project.'')
                else and_then (save_permission
                       (q\<lparr>perm_application := a, perm_route := r,
                          perm_is_active := given (pi_is_active v) (perm_is_active q)\<rparr>) (tx_db tx))
                       (\<lambda>(x, d'). Inr (x, tx\<lparr>tx_db := d'\<rparr>)))))"

section \<open>What a write of a view may touch\<close>

text \<open>
  \<open>confined\<close> collects what every view of this theory guarantees of the transaction it leaves:
  the database keeps its constraints and references, every changed cache entry has its
  invalidation queued, the accounts, applications and keys are as before, and so is everything
  that belongs to a project of another administrator.
\<close>

definition confined :: "pk \<Rightarrow> txn \<Rightarrow> txn \<Rightarrow> bool" where
  "confined admin tx tx' \<longleftrightarrow>
     tables_ok (tx_db tx') \<and> links_ok (tx_db tx') \<and> tx_covers tx tx'
     \<and> users (tx_db tx') = users (tx_db tx) \<and> projects (tx_db tx') = projects (tx_db tx)
     \<and> applications (tx_db tx') = applications (tx_db tx) \<and> api_keys (tx_db tx') = api_keys (tx_db tx)
     \<and> clients (tx_db tx') = clients (tx_db tx)
     \<and> (\<forall>i. \<not> owns_project (tx_db tx) admin i \<longrightarrow> tenant_of (tx_db tx') i = tenant_of (tx_db tx) i)"

lemma confined_refl: "tables_ok (tx_db tx) \<Longrightarrow> links_ok (tx_db tx) \<Longrightarrow> confined admin tx tx"
  by (simp add: confined_def tx_covers_refl)

lemma confined_trans:
  assumes "confined admin tx tx1" and "confined admin tx1 tx2"
  shows "confined admin tx tx2"
proof -
  have "owns_project (tx_db tx1) = owns_project (tx_db tx)"
    using assms(1) relations_cong(3) unfolding confined_def by blast
  with assms show ?thesis unfolding confined_def by (metis tx_covers_trans)
qed

text \<open>A row the administrator's own query has found.\<close>

lemma own_row:
  assumes "objects_first P t = Some x" and "table_ok key t" and "y \<in> set (rows t)" and "key y = key x"
  shows "y = x"
  using assms objects_first_Some table_ok_inj by metis

lemma service_link_cong:
  "rt_backend_service r = rt_backend_service r' \<Longrightarrow> rt_project r = rt_project r'
   \<Longrightarrow> service_link d r = service_link d r'"
  by (simp add: service_link_def cong: option.case_cong)

lemma create_service_confined:
  assumes "tx_create_service slugify now s tx = Inr (s', tx')"
    and "tables_ok (tx_db tx)" and "links_ok (tx_db tx)"
    and "owns_project (tx_db tx) admin (svc_project s)"
  shows "confined admin tx tx'"
proof -
  obtain t where d': "tx_db tx' = (tx_db tx)\<lparr>services := t\<rparr>" and t: "rows t = rows (services (tx_db tx)) @ [s']"
    using tx_create_service_db(1) [OF assms(1)] by blast
  have prj: "svc_project s' = svc_project s" using tx_create_service_db(2) [OF assms(1)] by simp
  have "links_ok (tx_db tx')"
    unfolding d' using links_add_service [OF assms(3) t] owns_project_exists [OF assms(4)] prj by simp
  moreover have "tenant_of (tx_db tx') i = tenant_of (tx_db tx) i" if "\<not> owns_project (tx_db tx) admin i" for i
    unfolding d' using tenant_add_service [OF t] assms(4) prj that by metis
  ultimately show ?thesis
    using tx_create_service_covers [OF assms(1,2)] by (simp add: confined_def d')
qed

lemma save_service_confined:
  assumes "tx_save_service slugify now s tx = Inr (s', tx')"
    and "tables_ok (tx_db tx)" and "links_ok (tx_db tx)"
    and "objects_first (\<lambda>x. svc_id x = i \<and> owns_project (tx_db tx) admin (svc_project x)) (services (tx_db tx)) = Some old"
    and "svc_id s = svc_id old" and "svc_project s = svc_project old"
  shows "confined admin tx tx'"
proof -
  obtain t where d': "tx_db tx' = (tx_db tx)\<lparr>services := t\<rparr>"
    and t: "rows t = map (\<lambda>x. if svc_id x = svc_id s' then s' else x) (rows (services (tx_db tx)))"
    using tx_save_service_db(1) [OF assms(1)] by blast
  have s': "svc_id s' = svc_id old" "svc_project s' = svc_project old"
    using tx_save_service_db(2) [OF assms(1)] assms(5,6) by simp_all
  have own: "owns_project (tx_db tx) admin (svc_project old)" using objects_first_Some [OF assms(4)] by simp
  have key: "table_ok svc_id (services (tx_db tx))" using assms(2) by (auto simp: tables_ok_def dest: wf_tableD)
  have same: "svc_project x = svc_project s'" if "x \<in> set (rows (services (tx_db tx)))" "svc_id x = svc_id s'" for x
    using own_row [OF assms(4) key that(1)] that(2) s' by simp
  have "links_ok (tx_db tx')"
    unfolding d' using links_save_service [OF assms(3) t same] owns_project_exists [OF own] s' by simp
  moreover have "tenant_of (tx_db tx') j = tenant_of (tx_db tx) j" if "\<not> owns_project (tx_db tx) admin j" for j
  proof -
    have no: "svc_project s' \<noteq> j" using own that s'(2) by metis
    show ?thesis unfolding d' by (rule tenant_save_service [OF t no]) (use same no in metis)
  qed
  ultimately show ?thesis
    using tx_save_service_covers [OF assms(1,2)] by (simp add: confined_def d')
qed

lemma create_route_confined:
  assumes "tx_create_route now r tx = Inr (r', tx')"
    and "tables_ok (tx_db tx)" and "links_ok (tx_db tx)"
    and "owns_project (tx_db tx) admin (rt_project r)" and "service_link (tx_db tx) r"
  shows "confined admin tx tx'"
proof -
  obtain t where d': "tx_db tx' = (tx_db tx)\<lparr>routes := t\<rparr>" and t: "rows t = rows (routes (tx_db tx)) @ [r']"
    using tx_create_route_db(1) [OF assms(1)] by blast
  have r': "rt_project r' = rt_project r" "rt_backend_service r' = rt_backend_service r"
    "rt_id r' = last_pk (routes (tx_db tx)) + 1"
    using tx_create_route_db(2) [OF assms(1)] by simp_all
  have link: "service_link (tx_db tx) r'" using service_link_cong [of r' r] assms(5) r' by simp
  have "links_ok (tx_db tx')"
    unfolding d' using links_add_route [OF assms(3) t] owns_project_exists [OF assms(4)] link r' by simp
  moreover have "tenant_of (tx_db tx') i = tenant_of (tx_db tx) i" if "\<not> owns_project (tx_db tx) admin i" for i
    unfolding d' using tenant_add_route [OF t] assms(4) r' that by metis
  ultimately show ?thesis
    using tx_create_route_covers [OF assms(1,2)] by (simp add: confined_def d')
qed

lemma save_route_confined:
  assumes "tx_save_route now r tx = Inr (r', tx')"
    and "tables_ok (tx_db tx)" and "links_ok (tx_db tx)"
    and "objects_first (\<lambda>x. rt_id x = i \<and> owns_project (tx_db tx) admin (rt_project x)) (routes (tx_db tx)) = Some old"
    and "rt_id r = rt_id old" and "rt_project r = rt_project old" and "service_link (tx_db tx) r"
  shows "confined admin tx tx'"
proof -
  obtain t where d': "tx_db tx' = (tx_db tx)\<lparr>routes := t\<rparr>"
    and t: "rows t = map (\<lambda>x. if rt_id x = rt_id r' then r' else x) (rows (routes (tx_db tx)))"
    using tx_save_route_db(1) [OF assms(1)] by blast
  have r': "rt_id r' = rt_id old" "rt_project r' = rt_project old"
    using tx_save_route_db(2) [OF assms(1)] assms(5,6) by simp_all
  have link: "service_link (tx_db tx) r'"
    using service_link_cong [of r' r] assms(7) tx_save_route_db(2) [OF assms(1)] by simp
  have own: "owns_project (tx_db tx) admin (rt_project old)" using objects_first_Some [OF assms(4)] by simp
  have key: "table_ok rt_id (routes (tx_db tx))" using assms(2) by (auto simp: tables_ok_def dest: wf_tableD)
  have same: "rt_project x = rt_project r'" if "x \<in> set (rows (routes (tx_db tx)))" "rt_id x = rt_id r'" for x
    using own_row [OF assms(4) key that(1)] that(2) r' by simp
  have "links_ok (tx_db tx')"
    unfolding d' using links_save_route [OF assms(3) t same] owns_project_exists [OF own] r' link by simp
  moreover have "tenant_of (tx_db tx') j = tenant_of (tx_db tx) j" if "\<not> owns_project (tx_db tx) admin j" for j
  proof -
    have no: "rt_project r' \<noteq> j" using own that r'(2) by metis
    show ?thesis unfolding d' by (rule tenant_save_route [OF t no]) (use same no in metis)
  qed
  ultimately show ?thesis
    using tx_save_route_covers [OF assms(1,2)] by (simp add: confined_def d')
qed

text \<open>A route and an application of the administrator are in no other project.\<close>

lemma own_route:
  assumes "owns_route d admin i" and "tables_ok d"
  shows "route_exists d i" and "\<not> owns_project d admin j \<Longrightarrow> \<not> route_in d j i"
proof -
  obtain r where r: "r \<in> set (rows (routes d))" "rt_id r = i" "owns_project d admin (rt_project r)"
    using assms(1) by (auto simp: owns_route_def objects_exists_iff)
  then show "route_exists d i" by (auto simp: route_exists_def objects_exists_iff)
  have key: "table_ok rt_id (routes d)" using assms(2) by (auto simp: tables_ok_def dest: wf_tableD)
  assume other: "\<not> owns_project d admin j"
  show "\<not> route_in d j i"
  proof
    assume "route_in d j i"
    then obtain x where x: "x \<in> set (rows (routes d))" "rt_id x = i" "rt_project x = j"
      by (auto simp: route_in_def objects_exists_iff)
    have "x = r" using table_ok_inj [OF key x(1) r(1)] x(2) r(2) by simp
    with x(3) r(3) other show False by simp
  qed
qed

lemma own_application:
  assumes "owns_application d admin i" and "tables_ok d" and "\<not> owns_project d admin j"
  shows "\<not> application_in d j i"
proof -
  obtain a where a: "a \<in> set (rows (applications d))" "app_id a = i" "owns_project d admin (app_project a)"
    using assms(1) by (auto simp: owns_application_def objects_exists_iff)
  have key: "table_ok app_id (applications d)" using assms(2) by (auto simp: tables_ok_def dest: wf_tableD)
  show ?thesis
  proof
    assume "application_in d j i"
    then obtain x where x: "x \<in> set (rows (applications d))" "app_id x = i" "app_project x = j"
      by (auto simp: application_in_def objects_exists_iff)
    have "x = a" using table_ok_inj [OF key x(1) a(1)] x(2) a(2) by simp
    with x(3) a(3) assms(3) show False by simp
  qed
qed

lemma same_owned_projectD:
  assumes "same_owned_project admin a i d"
  shows "owns_application d admin a" and "perm_application q = a \<Longrightarrow> perm_route q = i \<Longrightarrow> permission_link d q"
proof -
  obtain app r where "application_of d a = Some app" "route_of d i = Some r"
    and same: "app_project app = rt_project r" "owns_project d admin (app_project app)"
    using assms by (auto simp: same_owned_project_def split: option.splits)
  then have app: "app \<in> set (rows (applications d))" "app_id app = a"
    and r: "r \<in> set (rows (routes d))" "rt_id r = i"
    by (auto simp: application_of_def route_of_def dest: objects_first_Some)
  show "owns_application d admin a" using app same(2) by (auto simp: owns_application_def objects_exists_iff)
  have "route_in d (app_project app) i" using r same(1) by (auto simp: route_in_def objects_exists_iff)
  then show "permission_link d q" if "perm_application q = a" "perm_route q = i"
    using app that by (auto simp: permission_link_def objects_exists_iff)
qed

lemma confined_methods:
  assumes "tables_ok (tx_db tx)" and "links_ok (tx_db tx)" and "tables_ok ((tx_db tx)\<lparr>route_methods := t\<rparr>)"
    and "\<forall>m \<in> set (rows t). route_exists (tx_db tx) (rm_route m)"
    and "\<And>i. \<not> owns_project (tx_db tx) admin i \<Longrightarrow>
           tenant_of ((tx_db tx)\<lparr>route_methods := t\<rparr>) i = tenant_of (tx_db tx) i"
  shows "confined admin tx (tx\<lparr>tx_db := (tx_db tx)\<lparr>route_methods := t\<rparr>\<rparr>)"
  using assms links_methods [OF assms(2,4)] tx_covers_other by (simp add: confined_def)

lemma confined_permissions:
  assumes "tables_ok (tx_db tx)" and "links_ok (tx_db tx)" and "tables_ok ((tx_db tx)\<lparr>permissions := t\<rparr>)"
    and "\<forall>q \<in> set (rows t). permission_link (tx_db tx) q"
    and "\<And>i. \<not> owns_project (tx_db tx) admin i \<Longrightarrow>
           tenant_of ((tx_db tx)\<lparr>permissions := t\<rparr>) i = tenant_of (tx_db tx) i"
  shows "confined admin tx (tx\<lparr>tx_db := (tx_db tx)\<lparr>permissions := t\<rparr>\<rparr>)"
  using assms links_permissions [OF assms(2,4)] tx_covers_other by (simp add: confined_def)

section \<open>Each view is confined\<close>

lemma own_project_Some:
  "own_project admin i d = Some p \<Longrightarrow>
     p \<in> set (rows (projects d)) \<and> prj_owner p = admin \<and> owns_project d admin (prj_id p)"
  by (cases i) (auto simp: own_project_def owns_project_iff dest!: objects_first_Some)

lemma get_owned_project_Inr:
  "get_owned_project float_int admin member d = Inr p \<Longrightarrow>
     p \<in> set (rows (projects d)) \<and> prj_owner p = admin \<and> owns_project d admin (prj_id p)"
  by (auto simp: get_owned_project_def and_then_Inr split: option.splits dest: own_project_Some)

lemma service_create_confined:
  assumes "service_create S slugify float_int admin now member v tx = Inr (s, tx')"
    and "tables_ok (tx_db tx)" and "links_ok (tx_db tx)"
  shows "confined admin tx tx'"
  using assms get_owned_project_Inr
  by (auto simp: service_create_def and_then_Inr Let_def split: if_splits intro!: create_service_confined)

lemma service_update_confined:
  assumes "service_update S slugify admin now i partial v tx = Inr (s, tx')"
    and "tables_ok (tx_db tx)" and "links_ok (tx_db tx)"
  shows "confined admin tx tx'"
  using assms
  by (auto simp: service_update_def and_then_Inr split: option.splits intro!: save_service_confined)

lemma get_or_create_service_confined:
  assumes "get_or_create_service slugify now prj slug name tx = Inr (s, tx')"
    and "tables_ok (tx_db tx)" and "links_ok (tx_db tx)" and "owns_project (tx_db tx) admin prj"
  shows "confined admin tx tx'" and "s \<in> set (rows (services (tx_db tx')))" and "svc_project s = prj"
proof -
  show "confined admin tx tx'"
    using assms
    by (auto simp: get_or_create_service_def confined_refl split: option.splits intro!: create_service_confined)
  show "s \<in> set (rows (services (tx_db tx')))" "svc_project s = prj"
  proof -
    let ?new = "\<lparr>svc_id = 0, svc_project = prj, svc_name = name, svc_slug = slug, svc_description = [],
       svc_base_url = [], svc_is_active = True, svc_created_at = 0, svc_updated_at = 0\<rparr>"
    have "s \<in> set (rows (services (tx_db tx'))) \<and> svc_project s = prj"
    proof (cases "objects_first (\<lambda>s. svc_project s = prj \<and> svc_slug s = slug) (services (tx_db tx))")
      case None
      then have c: "tx_create_service slugify now ?new tx = Inr (s, tx')"
        using assms(1) by (simp add: get_or_create_service_def)
      show ?thesis using tx_create_service_db [OF c] by auto
    next
      case (Some x)
      then show ?thesis using assms(1) objects_first_Some [OF Some] by (simp add: get_or_create_service_def)
    qed
    then show "s \<in> set (rows (services (tx_db tx')))" "svc_project s = prj" by simp_all
  qed
qed

lemma get_backend_service_confined:
  assumes "get_backend_service slugify now project v tx = Inr (s, tx')"
    and "tables_ok (tx_db tx)" and "links_ok (tx_db tx)" and "owns_project (tx_db tx) admin (prj_id project)"
  shows "confined admin tx tx'"
    and "s = Some x \<Longrightarrow> x \<in> set (rows (services (tx_db tx'))) \<and> svc_project x = prj_id project \<and> svc_is_active x"
  using assms get_or_create_service_confined
  by (auto simp: get_backend_service_def confined_refl and_then_Inr Let_def
      split: option.splits if_splits dest!: objects_first_Some)

lemma forms_keep_input:
  "service_form S partial x = Inr x' \<Longrightarrow> x' = x"
  "route_form partial y d = Inr y' \<Longrightarrow> y' = y"
  "method_form partial e z d = Inr z' \<Longrightarrow> z' = z"
  "permission_form partial f u d = Inr u' \<Longrightarrow> u' = u"
  by (auto simp: service_form_def route_form_def method_form_def permission_form_def and_then_Inr Let_def
      split: if_splits option.splits)

lemma create_route_method_Inr:
  assumes "create_route_method m d = Inr (m', d')"
  shows "\<exists>t. d' = d\<lparr>route_methods := t\<rparr> \<and> rows t = rows (route_methods d) @ [m']"
    and "m' = m\<lparr>rm_id := last_pk (route_methods d) + 1\<rparr>"
  using assms by (auto simp: create_route_method_def and_then_Inr dest: insert_row_Inr)

lemma save_route_method_Inr:
  assumes "save_route_method m d = Inr (m', d')"
  shows "\<exists>t. d' = d\<lparr>route_methods := t\<rparr>
      \<and> rows t = map (\<lambda>x. if rm_id x = rm_id m' then m' else x) (rows (route_methods d))"
    and "m' = m"
  using assms by (auto simp: save_route_method_def and_then_Inr dest: update_row_Inr)

lemma create_permission_Inr:
  assumes "create_permission now q d = Inr (q', d')"
  shows "\<exists>t. d' = d\<lparr>permissions := t\<rparr> \<and> rows t = rows (permissions d) @ [q']"
    and "q' = q\<lparr>perm_id := last_pk (permissions d) + 1, perm_created_at := now\<rparr>"
  using assms by (auto simp: create_permission_def and_then_Inr dest: insert_row_Inr)

lemma save_permission_Inr:
  assumes "save_permission q d = Inr (q', d')"
  shows "\<exists>t. d' = d\<lparr>permissions := t\<rparr>
      \<and> rows t = map (\<lambda>x. if perm_id x = perm_id q' then q' else x) (rows (permissions d))"
    and "q' = q"
  using assms by (auto simp: save_permission_def and_then_Inr dest: update_row_Inr)

lemma route_create_confined:
  assumes "route_create slugify float_int admin now member v tx = Inr (r, tx')"
    and ok: "tables_ok (tx_db tx)" "links_ok (tx_db tx)"
  shows "confined admin tx tx'"
proof -
  obtain project where prj: "get_owned_project float_int admin member (tx_db tx) = Inr project"
    using assms(1) by (auto simp: route_create_def and_then_Inr)
  note own = get_owned_project_Inr [OF prj]
  obtain s tx1 where svc: "get_backend_service slugify now project v tx = Inr (Some s, tx1)"
    and new: "tx_create_route now
        \<lparr>rt_id = 0, rt_project = prj_id project, rt_backend_service = Some (svc_id s),
         rt_name = given (ri_name v) [], rt_base_path = given (ri_base_path v) [],
         rt_is_active = given (ri_is_active v) True, rt_created_at = 0, rt_updated_at = 0\<rparr> tx1 = Inr (r, tx')"
    using assms(1) prj
    by (auto simp: route_create_def route_form_def and_then_Inr Let_def split: option.splits if_splits)
  have c: "confined admin tx tx1" using get_backend_service_confined(1) [OF svc ok] own by simp
  have s: "s \<in> set (rows (services (tx_db tx1)))" "svc_project s = prj_id project"
    using get_backend_service_confined(2) [OF svc ok] own by auto
  have "projects (tx_db tx1) = projects (tx_db tx)" using c by (simp add: confined_def)
  then have own1: "owns_project (tx_db tx1) admin (prj_id project)"
    using own relations_cong(3) by metis
  have "confined admin tx1 tx'"
    using c own1 s
    by (intro create_route_confined [OF new])
      (auto simp: confined_def service_link_def objects_exists_iff)
  with c show ?thesis by (rule confined_trans)
qed

lemma route_update_confined:
  assumes "route_update admin now i partial v tx = Inr (r, tx')"
    and ok: "tables_ok (tx_db tx)" "links_ok (tx_db tx)"
  shows "confined admin tx tx'"
proof -
  let ?d = "tx_db tx"
  obtain old where old: "objects_first (\<lambda>r. rt_id r = i \<and> owns_project ?d admin (rt_project r)) (routes ?d) = Some old"
    using assms(1) by (auto simp: route_update_def split: option.splits)
  let ?chosen = "given (ri_backend_service v) (rt_backend_service old)"
  let ?new = "old\<lparr>rt_name := given (ri_name v) (rt_name old), rt_backend_service := ?chosen,
      rt_base_path := given (ri_base_path v) (rt_base_path old),
      rt_is_active := given (ri_is_active v) (rt_is_active old)\<rparr>"
  have form: "route_form partial v ?d = Inr v"
    and same: "\<And>s. Option.bind ?chosen (service_of ?d) = Some s \<Longrightarrow> svc_project s = rt_project old"
    and save: "tx_save_route now ?new tx = Inr (r, tx')"
    using assms(1)
    by (auto simp: route_update_def old route_form_def and_then_Inr Let_def split: option.splits if_splits)
  have "service_link ?d ?new"
  proof (cases "ri_backend_service v")
    case None
    have "service_link ?d old" using ok(2) objects_first_Some [OF old] by (simp add: links_ok_def list_all_iff)
    then show ?thesis using service_link_cong [of ?new old] None by (simp add: given_def)
  next
    case (Some c)
    show ?thesis
    proof (cases c)
      case None
      then show ?thesis using Some by (simp add: given_def service_link_def)
    next
      case (Some j)
      then obtain s where s: "service_of ?d j = Some s"
        using form \<open>ri_backend_service v = Some c\<close> by (auto simp: route_form_def split: if_splits)
      have "svc_project s = rt_project old" using same [of s] s Some \<open>ri_backend_service v = Some c\<close> by (simp add: given_def)
      then show ?thesis using s Some \<open>ri_backend_service v = Some c\<close>
        by (auto simp: service_link_def given_def service_of_def objects_exists_iff dest!: objects_first_Some)
    qed
  qed
  then show ?thesis by (intro save_route_confined [OF save ok old]) simp_all
qed

lemma route_method_create_confined:
  assumes "route_method_create admin v tx = Inr (m, tx')"
    and ok: "tables_ok (tx_db tx)" "links_ok (tx_db tx)"
  shows "confined admin tx tx'"
proof -
  let ?d = "tx_db tx" and ?i = "given (mi_route v) 0"
  obtain d' where own: "owns_route ?d admin ?i" and tx: "tx' = tx\<lparr>tx_db := d'\<rparr>"
    and c: "create_route_method \<lparr>rm_id = 0, rm_route = ?i, rm_method = given (mi_method v) [],
        rm_auth_policy = given (mi_auth_policy v) AUTH_API_KEY_ONLY\<rparr> ?d = Inr (m, d')"
    using assms(1)
    by (auto simp: route_method_create_def and_then_Inr Let_def split: if_splits dest!: forms_keep_input)
  obtain t where d': "d' = ?d\<lparr>route_methods := t\<rparr>" and t: "rows t = rows (route_methods ?d) @ [m]"
    using create_route_method_Inr(1) [OF c] by blast
  have new: "rm_route m = ?i" using create_route_method_Inr(2) [OF c] by simp
  note tx' = tx [unfolded d'] and ok' = create_route_method_ok [OF c ok(1), unfolded d']
  show ?thesis unfolding tx'
  proof (rule confined_methods [OF ok ok'])
    show "\<forall>x \<in> set (rows t). route_exists ?d (rm_route x)"
      using ok(2) own_route(1) [OF own ok(1)] new by (auto simp: t links_ok_def list_all_iff)
    fix j assume "\<not> owns_project ?d admin j"
    then show "tenant_of (?d\<lparr>route_methods := t\<rparr>) j = tenant_of ?d j"
      using tenant_add_method [OF t] own_route(2) [OF own ok(1)] new by metis
  qed
qed

lemma route_method_update_confined:
  assumes "route_method_update admin i partial v tx = Inr (m, tx')"
    and ok: "tables_ok (tx_db tx)" "links_ok (tx_db tx)"
  shows "confined admin tx tx'"
proof -
  let ?d = "tx_db tx"
  obtain old where old: "objects_first (\<lambda>m. rm_id m = i \<and> owns_route ?d admin (rm_route m)) (route_methods ?d) = Some old"
    using assms(1) by (auto simp: route_method_update_def split: option.splits)
  obtain d' where tx: "tx' = tx\<lparr>tx_db := d'\<rparr>"
    and c: "save_route_method (old\<lparr>rm_method := given (mi_method v) (rm_method old),
        rm_auth_policy := given (mi_auth_policy v) (rm_auth_policy old)\<rparr>) ?d = Inr (m, d')"
    using assms(1) old
    by (auto simp: route_method_update_def and_then_Inr split: if_splits dest!: forms_keep_input)
  obtain t where d': "d' = ?d\<lparr>route_methods := t\<rparr>"
    and t: "rows t = map (\<lambda>x. if rm_id x = rm_id m then m else x) (rows (route_methods ?d))"
    using save_route_method_Inr(1) [OF c] by blast
  have new: "rm_route m = rm_route old" "rm_id m = rm_id old" using save_route_method_Inr(2) [OF c] by simp_all
  note tx' = tx [unfolded d'] and ok' = save_route_method_ok [OF c ok(1), unfolded d']
  have own: "owns_route ?d admin (rm_route old)" using objects_first_Some [OF old] by simp
  have key: "table_ok rm_id (route_methods ?d)" using ok(1) by (auto simp: tables_ok_def dest: wf_tableD)
  have same: "rm_route x = rm_route m" if "x \<in> set (rows (route_methods ?d))" "rm_id x = rm_id m" for x
    using own_row [OF old key that(1)] that(2) new by simp
  show ?thesis unfolding tx'
  proof (rule confined_methods [OF ok ok'])
    show "\<forall>x \<in> set (rows t). route_exists ?d (rm_route x)"
      using ok(2) own_route(1) [OF own ok(1)] new by (auto simp: t links_ok_def list_all_iff)
    fix j assume "\<not> owns_project ?d admin j"
    then have no: "\<not> route_in ?d j (rm_route m)" using own_route(2) [OF own ok(1)] new by simp
    show "tenant_of (?d\<lparr>route_methods := t\<rparr>) j = tenant_of ?d j"
      by (rule tenant_save_method [OF t no]) (use same no in metis)
  qed
qed

lemma permission_create_confined:
  assumes "permission_create admin now v tx = Inr (q, tx')"
    and ok: "tables_ok (tx_db tx)" "links_ok (tx_db tx)"
  shows "confined admin tx tx'"
proof -
  let ?d = "tx_db tx" and ?a = "given (pi_application v) 0" and ?i = "given (pi_route v) 0"
  obtain d' where own: "same_owned_project admin ?a ?i ?d" and tx: "tx' = tx\<lparr>tx_db := d'\<rparr>"
    and c: "create_permission now \<lparr>perm_id = 0, perm_application = ?a, perm_route = ?i,
        perm_is_active = given (pi_is_active v) True, perm_created_at = 0\<rparr> ?d = Inr (q, d')"
    using assms(1)
    by (auto simp: permission_create_def and_then_Inr Let_def split: if_splits dest!: forms_keep_input)
  obtain t where d': "d' = ?d\<lparr>permissions := t\<rparr>" and t: "rows t = rows (permissions ?d) @ [q]"
    using create_permission_Inr(1) [OF c] by blast
  have new: "perm_application q = ?a" "perm_route q = ?i" using create_permission_Inr(2) [OF c] by simp_all
  note tx' = tx [unfolded d'] and ok' = create_permission_ok [OF c ok(1), unfolded d']
  show ?thesis unfolding tx'
  proof (rule confined_permissions [OF ok ok'])
    show "\<forall>x \<in> set (rows t). permission_link ?d x"
      using ok(2) same_owned_projectD(2) [OF own] new by (auto simp: t links_ok_def list_all_iff)
    fix j assume "\<not> owns_project ?d admin j"
    then show "tenant_of (?d\<lparr>permissions := t\<rparr>) j = tenant_of ?d j"
      using tenant_add_permission [OF t] own_application [OF same_owned_projectD(1) [OF own] ok(1)] new by metis
  qed
qed

lemma permission_update_confined:
  assumes "permission_update admin i partial v tx = Inr (q, tx')"
    and ok: "tables_ok (tx_db tx)" "links_ok (tx_db tx)"
  shows "confined admin tx tx'"
proof -
  let ?d = "tx_db tx"
  obtain old where old: "objects_first (\<lambda>q. perm_id q = i \<and> owns_application ?d admin (perm_application q)) (permissions ?d) = Some old"
    using assms(1) by (auto simp: permission_update_def split: option.splits)
  obtain d' where own0: "same_owned_project admin (given (pi_application v) (perm_application old))
        (given (pi_route v) (perm_route old)) ?d" and tx: "tx' = tx\<lparr>tx_db := d'\<rparr>"
    and c: "save_permission (old\<lparr>perm_application := given (pi_application v) (perm_application old),
        perm_route := given (pi_route v) (perm_route old),
        perm_is_active := given (pi_is_active v) (perm_is_active old)\<rparr>) ?d = Inr (q, d')"
    using assms(1) old
    by (auto simp: permission_update_def and_then_Inr Let_def split: if_splits dest!: forms_keep_input)
  obtain t where d': "d' = ?d\<lparr>permissions := t\<rparr>"
    and t: "rows t = map (\<lambda>x. if perm_id x = perm_id q then q else x) (rows (permissions ?d))"
    using save_permission_Inr(1) [OF c] by blast
  have new: "perm_id q = perm_id old" and own: "same_owned_project admin (perm_application q) (perm_route q) ?d"
    using save_permission_Inr(2) [OF c] own0 by simp_all
  note tx' = tx [unfolded d'] and ok' = save_permission_ok [OF c ok(1), unfolded d']
  have key: "table_ok perm_id (permissions ?d)" using ok(1) by (auto simp: tables_ok_def dest: wf_tableD)
  have was: "owns_application ?d admin (perm_application old)" using objects_first_Some [OF old] by simp
  have same: "x = old" if "x \<in> set (rows (permissions ?d))" "perm_id x = perm_id q" for x
    using own_row [OF old key that(1)] that(2) new by simp
  show ?thesis unfolding tx'
  proof (rule confined_permissions [OF ok ok'])
    show "\<forall>x \<in> set (rows t). permission_link ?d x"
      using ok(2) same_owned_projectD(2) [OF own] by (auto simp: t links_ok_def list_all_iff)
    fix j assume "\<not> owns_project ?d admin j"
    then have no: "\<not> application_in ?d j (perm_application q)" "\<not> application_in ?d j (perm_application old)"
      using own_application [OF same_owned_projectD(1) [OF own] ok(1)] own_application [OF was ok(1)] by simp_all
    show "tenant_of (?d\<lparr>permissions := t\<rparr>) j = tenant_of ?d j"
      by (rule tenant_save_permission [OF t no(1)]) (use same no(2) in metis)
  qed
qed

section \<open>The calls together\<close>

record admin_env =
  ae_settings :: settings
  ae_slugify :: "string \<Rightarrow> string"
  ae_float_int :: "string \<Rightarrow> exn + int"

text \<open>The writing requests of \<open>apps/routes/urls.py\<close>; the flag of an update is PATCH.\<close>

datatype route_call =
    Service_Create "json option" service_input
  | Service_Update pk bool service_input
  | Route_Create "json option" route_input
  | Route_Update pk bool route_input
  | Method_Create method_input
  | Method_Update pk bool method_input
  | Permission_Create permission_input
  | Permission_Update pk bool permission_input

definition left_in :: "exn + 'a \<times> txn \<Rightarrow> exn + txn" where
  "left_in r = and_then r (\<lambda>(_, tx). Inr tx)"

fun run_route_call :: "admin_env \<Rightarrow> pk \<Rightarrow> instant \<Rightarrow> route_call \<Rightarrow> txn \<Rightarrow> exn + txn" where
  "run_route_call E admin now (Service_Create m v) tx =
     left_in (service_create (ae_settings E) (ae_slugify E) (ae_float_int E) admin now m v tx)"
| "run_route_call E admin now (Service_Update i partial v) tx =
     left_in (service_update (ae_settings E) (ae_slugify E) admin now i partial v tx)"
| "run_route_call E admin now (Route_Create m v) tx =
     left_in (route_create (ae_slugify E) (ae_float_int E) admin now m v tx)"
| "run_route_call E admin now (Route_Update i partial v) tx = left_in (route_update admin now i partial v tx)"
| "run_route_call E admin now (Method_Create v) tx = left_in (route_method_create admin v tx)"
| "run_route_call E admin now (Method_Update i partial v) tx = left_in (route_method_update admin i partial v tx)"
| "run_route_call E admin now (Permission_Create v) tx = left_in (permission_create admin now v tx)"
| "run_route_call E admin now (Permission_Update i partial v) tx = left_in (permission_update admin i partial v tx)"

lemma left_in_Inr: "left_in r = Inr tx \<longleftrightarrow> (\<exists>a. r = Inr (a, tx))"
  by (auto simp: left_in_def and_then_Inr)

lemma left_in_Inl: "left_in r = Inl e \<longleftrightarrow> r = Inl e"
  by (auto simp: left_in_def and_then_Inl)

lemmas views_confined =
  service_create_confined service_update_confined route_create_confined route_update_confined
  route_method_create_confined route_method_update_confined permission_create_confined
  permission_update_confined

lemma run_route_call_confined:
  assumes "run_route_call E admin now c tx = Inr tx'" and "tables_ok (tx_db tx)" and "links_ok (tx_db tx)"
  shows "confined admin tx tx'"
  using assms by (cases c) (auto simp: left_in_Inr intro: views_confined)

section \<open>Refusals\<close>

lemma writes_Inl:
  "tx_create_service slugify now s tx = Inl e \<Longrightarrow> e = IntegrityError"
  "tx_save_service slugify now s tx = Inl e \<Longrightarrow> e = IntegrityError"
  "tx_create_route now r tx = Inl e \<Longrightarrow> e = IntegrityError \<or> (\<exists>m. e = ValidationError m)"
  "tx_save_route now r tx = Inl e \<Longrightarrow> e = IntegrityError \<or> (\<exists>m. e = ValidationError m)"
  by (auto simp: tx_create_service_def create_service_def tx_save_service_def save_service_def
      tx_create_route_def create_route_def tx_save_route_def save_route_def route_presave_def Let_def and_then_Inl
      split: if_splits dest: insert_row_Inl update_row_Inl)

lemma validate_base_path_Inl: "validate_base_path b = Inl e \<Longrightarrow> \<exists>m. e = ValidationError m"
  by (auto simp: validate_base_path_def split: if_splits)

lemma validate_backend_base_url_Inl:
  "validate_backend_base_url S u = Inl e \<Longrightarrow> (\<exists>m. e = ValidationError m) \<or> e = ValueError \<and> urlsplit u = None"
  by (auto simp: validate_backend_base_url_def validate_target_url_def unapproved_def Let_def
      split: option.splits if_splits)

lemma forms_Inl:
  "service_form S partial v = Inl e \<Longrightarrow>
     (\<exists>m. e = ValidationError m) \<or> e = ValueError \<and> (\<exists>u. si_base_url v = Some u \<and> urlsplit u = None)"
  "route_form partial y d = Inl e \<Longrightarrow> \<exists>m. e = ValidationError m"
  "method_form partial g z d = Inl e \<Longrightarrow> \<exists>m. e = ValidationError m"
  "permission_form partial f w d = Inl e \<Longrightarrow> \<exists>m. e = ValidationError m"
  by (auto simp: service_form_def route_form_def method_form_def permission_form_def rejected_def and_then_Inl Let_def
      split: if_splits option.splits dest!: validate_backend_base_url_Inl validate_base_path_Inl)

lemma get_owned_project_Inl:
  "get_owned_project float_int admin m d = Inl e \<Longrightarrow>
     (\<exists>t. e = ValidationError t) \<or> (\<exists>x. m = Some (JFloat x) \<and> float_int x = Inl e)"
  by (auto simp: get_owned_project_def project_argument_def json_int_def and_then_Inl
      split: option.splits json.splits if_splits sum.splits)

lemma default_slug_keep [simp]:
  "f \<noteq> [] \<Longrightarrow> default_slug g f (default_slug g f x n) m = default_slug g f x n"
  by (auto simp: default_slug_def)

lemma service_create_Inl:
  assumes "service_create S slugify float_int admin now m v tx = Inl e"
  shows "(\<exists>t. e = ValidationError t) \<or> e = ValueError \<and> (\<exists>u. si_base_url v = Some u \<and> urlsplit u = None)
    \<or> (\<exists>x. m = Some (JFloat x) \<and> float_int x = Inl e)"
proof (cases "service_form S False v")
  case (Inl a)
  then show ?thesis using assms forms_Inl(1) [OF Inl] by (auto simp: service_create_def)
next
  case (Inr v')
  then have v': "v' = v" by (rule forms_keep_input)
  show ?thesis
  proof (cases "get_owned_project float_int admin m (tx_db tx)")
    case (Inl b)
    then show ?thesis using assms Inr get_owned_project_Inl [OF Inl] by (auto simp: service_create_def)
  next
    case (Inr p)
    with \<open>service_form S False v = Inr v'\<close> assms show ?thesis
      by (auto simp: service_create_def Let_def tx_create_service_def create_service_def insert_row_def
          objects_exists_iff service_clash_def service_presave_def and_then_Inl split: if_splits)
  qed
qed

lemma get_backend_service_Inl:
  assumes "get_backend_service slugify now project v tx = Inl e"
  shows "(\<exists>t. e = ValidationError t) \<or> e = IntegrityError \<and> ri_backend_service v \<in> {None, Some None}
     \<and> (ri_service_name v \<noteq> [] \<or> ri_downstream v \<noteq> [] \<or> ri_service_slug v \<noteq> [])"
  using assms
  by (auto simp: get_backend_service_def get_or_create_service_def Let_def and_then_Inl
      split: option.splits if_splits dest: writes_Inl(1))

lemma get_backend_service_routes:
  assumes "get_backend_service slugify now project v tx = Inr (s, tx')"
  shows "routes (tx_db tx') = routes (tx_db tx)"
  using assms
  by (auto simp: get_backend_service_def get_or_create_service_def Let_def and_then_Inr
      split: option.splits if_splits dest!: tx_create_service_db(1))

lemma route_create_Inl:
  assumes "route_create slugify float_int admin now m v tx = Inl e"
  shows "(\<exists>t. e = ValidationError t) \<or> (\<exists>x. m = Some (JFloat x) \<and> float_int x = Inl e)
    \<or> e = IntegrityError \<and> ri_backend_service v \<in> {None, Some None}
     \<and> (ri_service_name v \<noteq> [] \<or> ri_downstream v \<noteq> [] \<or> ri_service_slug v \<noteq> [])"
proof (cases "route_form False v (tx_db tx)")
  case (Inl a)
  then show ?thesis using assms forms_Inl(2) [OF Inl] by (auto simp: route_create_def)
next
  case form: (Inr v')
  then have v': "v' = v" by (rule forms_keep_input)
  show ?thesis
  proof (cases "get_owned_project float_int admin m (tx_db tx)")
    case (Inl b)
    then show ?thesis using assms form get_owned_project_Inl [OF Inl] by (auto simp: route_create_def)
  next
    case prj: (Inr p)
    show ?thesis
    proof (cases "get_backend_service slugify now p v tx")
      case (Inl c)
      then show ?thesis using assms form prj v' get_backend_service_Inl [OF Inl]
        by (auto simp: route_create_def Let_def split: if_splits)
    next
      case (Inr st)
      obtain s tx' where st: "st = (s, tx')" by force
      have "routes (tx_db tx') = routes (tx_db tx)"
        using get_backend_service_routes Inr st by blast
      then show ?thesis using assms form prj v' Inr st
        by (auto simp: route_create_def Let_def tx_create_route_def create_route_def route_presave_def
            insert_row_def objects_exists_iff route_clash_def and_then_Inl split: if_splits option.splits)
    qed
  qed
qed

lemma method_views_Inl:
  "route_method_create admin v tx = Inl e \<Longrightarrow> \<exists>t. e = ValidationError t"
  "route_method_update admin i partial v tx = Inl e \<Longrightarrow> e = Http404 \<or> (\<exists>t. e = ValidationError t)"
proof -
  assume a: "route_method_create admin v tx = Inl e"
  show "\<exists>t. e = ValidationError t"
  proof (cases "method_form False None v (tx_db tx)")
    case (Inl x)
    then show ?thesis using a forms_Inl(3) [OF Inl] by (auto simp: route_method_create_def)
  next
    case (Inr w)
    then show ?thesis using a
      by (auto simp: route_method_create_def create_route_method_def insert_row_def objects_exists_iff
          route_method_clash_def Let_def and_then_Inl split: if_splits)
  qed
next
  assume a: "route_method_update admin i partial v tx = Inl e"
  let ?first = "objects_first (\<lambda>m. rm_id m = i \<and> owns_route (tx_db tx) admin (rm_route m)) (route_methods (tx_db tx))"
  show "e = Http404 \<or> (\<exists>t. e = ValidationError t)"
  proof (cases ?first)
    case None
    then show ?thesis using a by (simp add: route_method_update_def)
  next
    case (Some m)
    show ?thesis
    proof (cases "method_form partial (Some m) v (tx_db tx)")
      case (Inl x)
      then show ?thesis using a Some forms_Inl(3) [OF Inl] by (auto simp: route_method_update_def)
    next
      case (Inr w)
      then have w: "w = v" by (rule forms_keep_input)
      have "\<not> objects_exists (\<lambda>x. rm_route x = given (mi_route v) (rm_route m) \<and> rm_method x = given (mi_method v) (rm_method m)
               \<and> rm_id x \<noteq> rm_id m) (route_methods (tx_db tx))"
        using Inr by (auto simp: method_form_def Let_def split: if_splits)
      then show ?thesis using a Some Inr w
        by (auto simp: route_method_update_def save_route_method_def update_row_def objects_exists_iff
          route_method_clash_def and_then_Inl split: if_splits)
    qed
  qed
qed

lemma permission_views_Inl:
  "permission_create admin now v tx = Inl e \<Longrightarrow> \<exists>t. e = ValidationError t"
  "permission_update admin i partial v tx = Inl e \<Longrightarrow> e = Http404 \<or> (\<exists>t. e = ValidationError t)"
proof -
  assume a: "permission_create admin now v tx = Inl e"
  show "\<exists>t. e = ValidationError t"
  proof (cases "permission_form False None v (tx_db tx)")
    case (Inl x)
    then show ?thesis using a forms_Inl(4) [OF Inl] by (auto simp: permission_create_def)
  next
    case (Inr w)
    then have w: "w = v" by (rule forms_keep_input)
    have "\<not> objects_exists (\<lambda>x. perm_application x = given (pi_application v) 0 \<and> perm_route x = given (pi_route v) 0)
        (permissions (tx_db tx))"
      using Inr by (auto simp: permission_form_def Let_def split: if_splits)
    then show ?thesis using a Inr w
      by (auto simp: permission_create_def create_permission_def insert_row_def objects_exists_iff
          permission_clash_def Let_def and_then_Inl split: if_splits)
  qed
next
  assume a: "permission_update admin i partial v tx = Inl e"
  let ?first = "objects_first (\<lambda>q. perm_id q = i \<and> owns_application (tx_db tx) admin (perm_application q)) (permissions (tx_db tx))"
  show "e = Http404 \<or> (\<exists>t. e = ValidationError t)"
  proof (cases ?first)
    case None
    then show ?thesis using a by (simp add: permission_update_def)
  next
    case (Some q)
    show ?thesis
    proof (cases "permission_form partial (Some q) v (tx_db tx)")
      case (Inl x)
      then show ?thesis using a Some forms_Inl(4) [OF Inl] by (auto simp: permission_update_def)
    next
      case (Inr w)
      then have w: "w = v" by (rule forms_keep_input)
      have "\<not> objects_exists (\<lambda>x. perm_application x = given (pi_application v) (perm_application q)
               \<and> perm_route x = given (pi_route v) (perm_route q) \<and> perm_id x \<noteq> perm_id q) (permissions (tx_db tx))"
        using Inr by (auto simp: permission_form_def Let_def split: if_splits)
      then show ?thesis using a Some Inr w
        by (auto simp: permission_update_def save_permission_def update_row_def objects_exists_iff
          permission_clash_def Let_def and_then_Inl split: if_splits)
    qed
  qed
qed

lemma service_update_Inl:
  assumes "service_update S slugify admin now i partial v tx = Inl e"
  shows "e = Http404 \<or> (\<exists>t. e = ValidationError t) \<or> e = IntegrityError
    \<or> e = ValueError \<and> (\<exists>u. si_base_url v = Some u \<and> urlsplit u = None)"
  using assms forms_Inl(1) [of S partial v]
  by (auto simp: service_update_def and_then_Inl split: option.splits dest!: writes_Inl(2))

lemma save_route_no_clash:
  assumes "tx_save_route now r tx = Inl e" and "wf_table rt_id route_clash (routes (tx_db tx))"
    and "x \<in> set (rows (routes (tx_db tx)))" and "rt_id r = rt_id x" and "rt_project r = rt_project x"
    and "rt_base_path r = rt_base_path x"
  shows "\<exists>t. e = ValidationError t"
proof -
  have "\<not> objects_exists (\<lambda>y. rt_id y \<noteq> rt_id r \<and> route_clash (r\<lparr>rt_updated_at := now\<rparr>) y) (routes (tx_db tx))"
    using wf_tableD(2) [OF assms(2) _ assms(3)] assms(4-6)
    by (auto simp: objects_exists_iff route_clash_def)
  then show ?thesis using assms(1)
    by (auto simp: tx_save_route_def save_route_def route_presave_def update_row_def and_then_Inl Let_def split: if_splits)
qed

lemma route_update_Inl:
  assumes "route_update admin now i partial v tx = Inl e" and "tables_ok (tx_db tx)"
  shows "e = Http404 \<or> (\<exists>t. e = ValidationError t) \<or> e = IntegrityError \<and> ri_base_path v \<noteq> None"
proof (cases "objects_first (\<lambda>r. rt_id r = i \<and> owns_project (tx_db tx) admin (rt_project r)) (routes (tx_db tx))")
  case None
  then show ?thesis using assms(1) by (simp add: route_update_def)
next
  case (Some r)
  show ?thesis
  proof (cases "route_form partial v (tx_db tx)")
    case (Inl a)
    then show ?thesis using assms(1) Some forms_Inl(2) [OF Inl] by (auto simp: route_update_def)
  next
    case (Inr w)
    then have w: "w = v" by (rule forms_keep_input)
    let ?new = "r\<lparr>rt_name := given (ri_name v) (rt_name r),
        rt_backend_service := given (ri_backend_service v) (rt_backend_service r),
        rt_base_path := given (ri_base_path v) (rt_base_path r),
        rt_is_active := given (ri_is_active v) (rt_is_active r)\<rparr>"
    have e: "(\<exists>t. e = ValidationError t) \<or> tx_save_route now ?new tx = Inl e"
      using assms(1) Some Inr w by (auto simp: route_update_def Let_def split: if_splits)
    have "\<exists>t. e = ValidationError t" if "ri_base_path v = None" "tx_save_route now ?new tx = Inl e"
      using save_route_no_clash [OF that(2), of r] that(1) assms(2) objects_first_Some [OF Some]
      by (simp add: tables_ok_def given_def)
    then show ?thesis using e writes_Inl(4) by (cases "ri_base_path v") blast+
  qed
qed

fun call_project :: "route_call \<Rightarrow> json option" where
  "call_project (Service_Create m v) = m"
| "call_project (Route_Create m v) = m"
| "call_project _ = None"

fun call_base_url :: "route_call \<Rightarrow> string option" where
  "call_base_url (Service_Create m v) = si_base_url v"
| "call_base_url (Service_Update i partial v) = si_base_url v"
| "call_base_url _ = None"

text \<open>The calls that store a name, slug or path no check has compared with the other rows'.\<close>

fun stores_unchecked_key :: "route_call \<Rightarrow> bool" where
  "stores_unchecked_key (Service_Update i partial v) = True"
| "stores_unchecked_key (Route_Update i partial v) = (ri_base_path v \<noteq> None)"
| "stores_unchecked_key (Route_Create m v) =
     (ri_backend_service v \<in> {None, Some None}
      \<and> (ri_service_name v \<noteq> [] \<or> ri_downstream v \<noteq> [] \<or> ri_service_slug v \<noteq> []))"
| "stores_unchecked_key _ = False"

section \<open>Properties\<close>


definition sample_admin :: user where
  "sample_admin = \<lparr>usr_id = 1, usr_username = ''ada'', usr_email = ''ada@x'', usr_password = [], usr_is_active = True,
     usr_is_staff = True, usr_created_at = 0, usr_updated_at = 0\<rparr>"

definition other_admin :: user where
  "other_admin = sample_admin\<lparr>usr_id := 2, usr_username := ''bob'', usr_email := ''bob@x''\<rparr>"

definition other_project :: project where
  "other_project = sample_project\<lparr>prj_id := 2, prj_owner := 2, prj_name := ''q'', prj_slug := ''q''\<rparr>"

definition second_service :: backend_service where
  "second_service = sample_service\<lparr>svc_id := 6, svc_name := ''t'', svc_slug := ''t''\<rparr>"

definition sample_admin_db :: db where
  "sample_admin_db = sample_db
     \<lparr>users := \<lparr>rows = [sample_admin, other_admin], last_pk = 2\<rparr>,
      projects := \<lparr>rows = [sample_project, other_project], last_pk = 2\<rparr>,
      services := \<lparr>rows = [sample_service, second_service], last_pk = 6\<rparr>,
      routes := \<lparr>rows = [sample_route], last_pk = 7\<rparr>\<rparr>"

lemmas sample_admin_defs =
  sample_admin_db_def sample_admin_def other_admin_def other_project_def second_service_def
  sample_service_def sample_route_def sample_defs

lemma sample_admin_db_ok: "tables_ok sample_admin_db" "links_ok sample_admin_db"
proof -
  show "tables_ok sample_admin_db"
    by (simp add: tables_ok_def sample_admin_defs empty_db_def wf_table_empty)
      (simp add: wf_table_def table_ok_def empty_table_def clash_defs one_segment_iff)
  show "links_ok sample_admin_db"
    by (simp add: link_defs sample_admin_defs empty_db_def empty_table_def)
qed

definition sample_env :: admin_env where
  "sample_env = \<lparr>ae_settings = dev_settings, ae_slugify = \<lambda>s. filter is_ascii_alpha s,
     ae_float_int = \<lambda>_. Inl OverflowError\<rparr>"

definition no_service_input :: service_input where
  "no_service_input = \<lparr>si_name = None, si_slug = None, si_description = None, si_base_url = None, si_is_active = None\<rparr>"


text \<open>
  A service named by a text that slugifies to nothing can be named once. The lookup asks for the
  empty slug, the row is stored under \<open>backend-service\<close>, and every later route of the project
  that names the same service is refused with an \<open>IntegrityError\<close> instead of finding it.
\<close>

lemma unsluggable_name_works_once:
  assumes "slugify (ri_service_name v) = []" and "ri_service_name v \<noteq> []" and "ri_service_slug v = []"
    and "ri_backend_service v = None"
    and "\<forall>s \<in> set (rows (services (tx_db tx))). svc_project s = prj_id p \<longrightarrow> svc_slug s \<noteq> []"
    and "get_backend_service slugify now p v tx = Inr (x, tx1)"
  shows "\<exists>s. x = Some s \<and> s \<in> set (rows (services (tx_db tx1))) \<and> svc_project s = prj_id p
      \<and> svc_slug s = ''backend-service'' \<and> svc_name s = ri_service_name v
      \<and> get_backend_service slugify later p v tx1 = Inl IntegrityError"
proof -
  let ?row = "\<lparr>svc_id = 0, svc_project = prj_id p, svc_name = ri_service_name v, svc_slug = [], svc_description = [],
       svc_base_url = [], svc_is_active = True, svc_created_at = 0, svc_updated_at = 0\<rparr>"
  have none: "objects_first (\<lambda>s. svc_project s = prj_id p \<and> svc_slug s = []) (services (tx_db tx)) = None"
    using assms(5) by (auto simp: objects_first_None)
  obtain s where new: "tx_create_service slugify now ?row tx = Inr (s, tx1)" and x: "x = Some s"
    using assms(1-4,6) none
    by (auto simp: get_backend_service_def get_or_create_service_def Let_def and_then_Inr split: if_splits)
  obtain t where d1: "tx_db tx1 = (tx_db tx)\<lparr>services := t\<rparr>" and t: "rows t = rows (services (tx_db tx)) @ [s]"
    using tx_create_service_db(1) [OF new] by blast
  have s: "svc_project s = prj_id p" "svc_slug s = ''backend-service''" "svc_name s = ri_service_name v"
    using tx_create_service_db(2) [OF new] assms(1) by (simp_all add: service_presave_def default_slug_def)
  have "objects_first (\<lambda>s. svc_project s = prj_id p \<and> svc_slug s = []) (services (tx_db tx1)) = None"
    using assms(5) s by (auto simp: objects_first_None d1 t)
  then have "get_backend_service slugify later p v tx1 = Inl IntegrityError"
    using assms(1-4) s
    by (simp add: get_backend_service_def get_or_create_service_def tx_create_service_def create_service_def
        insert_row_def objects_exists_iff d1 t service_clash_def service_presave_def default_slug_def)
  then show ?thesis using x s by (simp add: d1 t)
qed

definition hash_input :: route_input where
  "hash_input = \<lparr>ri_name = Some ''n'', ri_backend_service = None, ri_service_name = ''###'', ri_downstream = [],
     ri_service_slug = [], ri_base_path = Some ''/x'', ri_is_active = None\<rparr>"

lemma read_own_route:
  assumes ok: "tables_ok d" and "r \<in> set (rows (routes d))"
    and "rt_backend_service r = Some (svc_id s)" and "service_of d (svc_id s) = Some s"
    and "svc_is_active s" and "svc_project s = rt_project r"
  shows "read_route d (rt_project r) (rt_base_path r) = (if rt_is_active r then route_entry r (Some s) else JNull)"
proof -
  have unique: "x = r" if "x \<in> set (rows (routes d))" "rt_project x = rt_project r" "rt_base_path x = rt_base_path r" for x
    using wf_tableD(2) [of rt_id route_clash "routes d" x r] ok that assms(2) by (simp add: tables_ok_def route_clash_def)
  show ?thesis
  proof (cases "rt_is_active r")
    case True
    then have "route_visible d (rt_project r) (rt_base_path r) r"
      using assms(3-6) by (simp add: route_visible_def)
    then have "objects_first (route_visible d (rt_project r) (rt_base_path r)) (routes d) = Some r"
      using assms(2) unique by (intro objects_first_unique) (auto dest: route_visible_where)
    then show ?thesis using True assms(3,4) by (simp add: read_route_def)
  next
    case False
    then have "objects_first (route_visible d (rt_project r) (rt_base_path r)) (routes d) = None"
      using unique by (auto simp: objects_first_None route_visible_def)
    then show ?thesis using False by (simp add: read_route_def)
  qed
qed

text \<open>
  C20: a route an administrator has created is what the gateway resolves. It belongs to a project of
  the administrator, it is stored under the requested path with an active service of the same
  project, its invalidation is queued, and when it is active the lookup of its project and path
  reads exactly this route and this service.
\<close>

theorem created_route_resolves:
  assumes "tables_ok (tx_db tx)" and "links_ok (tx_db tx)"
    and "route_create slugify float_int admin now m v tx = Inr (r, tx')"
  shows "\<exists>s. s \<in> set (rows (services (tx_db tx'))) \<and> rt_backend_service r = Some (svc_id s)
      \<and> svc_project s = rt_project r \<and> svc_is_active s \<and> owns_project (tx_db tx') admin (rt_project r)
      \<and> r \<in> set (rows (routes (tx_db tx'))) \<and> ri_base_path v = Some (rt_base_path r)
      \<and> (rt_project r, rt_base_path r) \<in> set (tx_hooks tx')
      \<and> read_route (tx_db tx') (rt_project r) (rt_base_path r) =
           (if given (ri_is_active v) True then route_entry r (Some s) else JNull)"
proof -
  obtain project where prj: "get_owned_project float_int admin m (tx_db tx) = Inr project"
    using assms(3) by (auto simp: route_create_def and_then_Inr)
  note own = get_owned_project_Inr [OF prj]
  obtain s tx1 where svc: "get_backend_service slugify now project v tx = Inr (Some s, tx1)"
    and path: "ri_base_path v \<noteq> None"
    and new: "tx_create_route now
        \<lparr>rt_id = 0, rt_project = prj_id project, rt_backend_service = Some (svc_id s),
         rt_name = given (ri_name v) [], rt_base_path = given (ri_base_path v) [],
         rt_is_active = given (ri_is_active v) True, rt_created_at = 0, rt_updated_at = 0\<rparr> tx1 = Inr (r, tx')"
    using assms(3) prj
    by (auto simp: route_create_def route_form_def and_then_Inr Let_def split: option.splits if_splits)
  have c1: "confined admin tx tx1" using get_backend_service_confined(1) [OF svc assms(1,2)] own by simp
  have s: "s \<in> set (rows (services (tx_db tx1)))" "svc_project s = prj_id project" "svc_is_active s"
    using get_backend_service_confined(2) [OF svc assms(1,2)] own by auto
  have c: "confined admin tx tx'" by (rule route_create_confined [OF assms(3,1,2)])
  then have ok: "tables_ok (tx_db tx')" and projects: "projects (tx_db tx') = projects (tx_db tx)"
    by (simp_all add: confined_def)
  obtain t where d': "tx_db tx' = (tx_db tx1)\<lparr>routes := t\<rparr>" and t: "rows t = rows (routes (tx_db tx1)) @ [r]"
    using tx_create_route_db(1) [OF new] by blast
  have r: "rt_project r = prj_id project" "rt_backend_service r = Some (svc_id s)"
    "rt_base_path r = given (ri_base_path v) []" "rt_is_active r = given (ri_is_active v) True"
    using tx_create_route_db(2) [OF new] by simp_all
  have rin: "r \<in> set (rows (routes (tx_db tx')))" by (simp add: d' t)
  have sin: "s \<in> set (rows (services (tx_db tx')))" using s(1) by (simp add: d')
  have skey: "table_ok svc_id (services (tx_db tx'))" using ok by (auto simp: tables_ok_def dest: wf_tableD)
  have sof: "service_of (tx_db tx') (svc_id s) = Some s"
    unfolding service_of_def using sin table_ok_inj [OF skey _ sin] by (intro objects_first_unique) auto
  have read: "read_route (tx_db tx') (rt_project r) (rt_base_path r) =
      (if given (ri_is_active v) True then route_entry r (Some s) else JNull)"
    using read_own_route [OF ok rin r(2) sof s(3)] s(2) r(1,4) by simp
  have "tx_hooks tx' = tx_hooks tx1 @ [(rt_project r, rt_base_path r)]"
    using new path r(3) route_paths [OF ok rin]
    by (auto simp: tx_create_route_def and_then_Inr remember_previous_route_def invalidate_saved_route_def
        invalidate_after_commit_def one_segment_iff Let_def)
  moreover have "owns_project (tx_db tx') admin (rt_project r)" using own r projects relations_cong(3) by metis
  ultimately show ?thesis
    using sin r s rin read path by (intro exI [of _ s]) (auto simp: given_def)
qed

definition clinics_input :: route_input where
  "clinics_input = \<lparr>ri_name = Some ''c'', ri_backend_service = Some (Some 6), ri_service_name = [], ri_downstream = [],
     ri_service_slug = [], ri_base_path = Some ''/clinics'', ri_is_active = None\<rparr>"

lemma sample_route_create:
  "\<exists>r tx'. route_create (ae_slugify sample_env) (ae_float_int sample_env) 1 9 None clinics_input (begin_txn sample_admin_db)
     = Inr (r, tx') \<and> rt_project r = 1 \<and> rt_base_path r = ''/clinics''"
proof -
  let ?tx = "begin_txn sample_admin_db"
  have form: "route_form False clinics_input (tx_db ?tx) = Inr clinics_input"
    by (simp add: route_form_def clinics_input_def begin_txn_def service_of_def objects_first_def sample_admin_defs)
      (simp add: validate_base_path_def count_char_def startswith_def contains_def endswith_def code_def char_of_def bit_0)
  have project: "get_owned_project (ae_float_int sample_env) 1 None (tx_db ?tx) = Inr sample_project"
    by (simp add: get_owned_project_def project_argument_def own_project_def objects_first_def begin_txn_def sample_admin_defs)
  have service: "get_backend_service (ae_slugify sample_env) 9 sample_project clinics_input ?tx = Inr (Some second_service, ?tx)"
    by (simp add: get_backend_service_def clinics_input_def objects_first_def begin_txn_def sample_admin_defs)
  have seg: "one_segment ''/clinics''" by (simp add: one_segment_iff)
  show ?thesis
    unfolding route_create_def form project and_then.simps
    by (simp add: service Let_def clinics_input_def [THEN arg_cong, of ri_base_path] objects_exists_def)
      (simp add: clinics_input_def given_def begin_txn_def sample_admin_defs tx_create_route_def create_route_def route_presave_def
        seg insert_row_def objects_exists_def route_clash_def objects_create_def Let_def)
qed

theorem created_route_resolves_witness:
  "\<exists>r s tx'. route_create (ae_slugify sample_env) (ae_float_int sample_env) 1 9 None clinics_input (begin_txn sample_admin_db)
     = Inr (r, tx') \<and> read_route (tx_db tx') 1 ''/clinics'' = route_entry r (Some s)"
proof -
  have ok: "tables_ok (tx_db (begin_txn sample_admin_db))" "links_ok (tx_db (begin_txn sample_admin_db))"
    using sample_admin_db_ok by (simp_all add: begin_txn_def)
  obtain r tx' where r: "route_create (ae_slugify sample_env) (ae_float_int sample_env) 1 9 None clinics_input
      (begin_txn sample_admin_db) = Inr (r, tx')" "rt_project r = 1" "rt_base_path r = ''/clinics''"
    using sample_route_create by blast
  have "given (ri_is_active clinics_input) True" by (simp add: clinics_input_def given_def)
  then show ?thesis using created_route_resolves [OF ok r(1)] r by auto
qed

text \<open>
  C29: granting a route restricts. A new active grant gives its application the route, and of the
  other routes of the project the application keeps exactly those it already held by a grant: an
  application that had none, and so could use every route, is left with this one.
\<close>

theorem grant_restricts:
  assumes "tables_ok (tx_db tx)" and "permission_create admin now v tx = Inr (q, tx')" and "perm_is_active q"
    and "application_of (tx_db tx) (perm_application q) = Some a" and "app_is_active a"
    and "r \<in> set (rows (routes (tx_db tx)))" and "rt_project r = app_project a"
  shows "can_access (tx_db tx') a r \<longleftrightarrow>
      rt_id r = perm_route q
      \<or> objects_exists (\<lambda>x. perm_application x = app_id a) (permissions (tx_db tx)) \<and> can_access (tx_db tx) a r"
proof -
  obtain d' where tx: "tx' = tx\<lparr>tx_db := d'\<rparr>"
    and c: "create_permission now \<lparr>perm_id = 0, perm_application = given (pi_application v) 0, perm_route = given (pi_route v) 0,
        perm_is_active = given (pi_is_active v) True, perm_created_at = 0\<rparr> (tx_db tx) = Inr (q, d')"
    using assms(2)
    by (auto simp: permission_create_def and_then_Inr Let_def split: if_splits dest!: forms_keep_input)
  obtain t where d': "d' = (tx_db tx)\<lparr>permissions := t\<rparr>" and t: "rows t = rows (permissions (tx_db tx)) @ [q]"
    using create_permission_Inr(1) [OF c] by blast
  have "app_id a = perm_application q" using assms(4) by (auto simp: application_of_def dest: objects_first_Some)
  then show ?thesis
    using assms(3,5,7) by (auto simp: can_access_def has_permission_def objects_exists_iff tx d' t)
qed

theorem grant_restricts_witness:
  "\<exists>q tx'. permission_create 1 9 \<lparr>pi_application = Some 1, pi_route = Some 7, pi_is_active = None\<rparr> (begin_txn sample_admin_db)
      = Inr (q, tx') \<and> can_access (tx_db tx') sample_application sample_route"
proof -
  let ?v = "\<lparr>pi_application = Some 1, pi_route = Some 7, pi_is_active = None\<rparr>" and ?tx = "begin_txn sample_admin_db"
  have tables: "applications sample_admin_db = \<lparr>rows = [sample_application], last_pk = 1\<rparr>"
    "routes sample_admin_db = \<lparr>rows = [sample_route], last_pk = 7\<rparr>" "permissions sample_admin_db = empty_table"
    by (simp_all add: sample_admin_defs empty_db_def)
  have found: "application_of sample_admin_db 1 = Some sample_application" "route_of sample_admin_db 7 = Some sample_route"
    by (simp_all add: application_of_def route_of_def objects_first_def tables sample_application_def sample_route_def)
  have owns: "owns_project sample_admin_db 1 1" by (simp add: owns_project_def objects_exists_def sample_admin_defs)
  have "permission_form False None ?v sample_admin_db = Inr ?v"
    by (simp add: permission_form_def found objects_exists_def tables empty_table_def)
  moreover have "same_owned_project 1 1 7 sample_admin_db"
    using owns by (simp add: same_owned_project_def found) (simp add: sample_application_def sample_route_def)
  ultimately obtain q tx' where q: "permission_create 1 9 ?v ?tx = Inr (q, tx')"
    and fields: "perm_application q = 1" "perm_route q = 7" "perm_is_active q"
    by (auto simp: permission_create_def begin_txn_def create_permission_def insert_row_def objects_exists_def
        tables empty_table_def objects_create_def given_def Let_def)
  have ok: "tables_ok (tx_db ?tx)" using sample_admin_db_ok by (simp add: begin_txn_def)
  have "can_access (tx_db tx') sample_application sample_route"
    using grant_restricts [OF ok q fields(3), of sample_application sample_route] found fields
    by (simp add: begin_txn_def tables) (simp add: sample_route_def)
  with q show ?thesis by blast
qed

end
