(* ===== verification/RateLimiter.thy ===== *)
theory RateLimiter
  imports Redis
begin

text \<open>
  \<open>RedisRateLimiter\<close> of \<open>apps/gateway/services.py\<close>: the fixed-window Lua script, the
  window key and its time to live, and \<open>allow_request\<close>. All replicas share the server;
  a run is the list of their requests in the order in which the server executes them.
\<close>

section \<open>The limiter\<close>

datatype limiter_error = RateLimitBackendUnavailable

text \<open>\<open>_FIXED_WINDOW_SCRIPT\<close>, which Redis executes atomically.\<close>

definition fixed_window_script ::
    "'s redis \<Rightarrow> instant \<Rightarrow> string \<Rightarrow> int \<Rightarrow> int \<Rightarrow> 's \<Rightarrow> (redis_error + int) \<times> 's" where
  "fixed_window_script R t key limit ttl s =
     (case r_incr R t key s of
        (Inl e, s1) \<Rightarrow> (Inl e, s1)
      | (Inr count, s1) \<Rightarrow>
          (let s2 = (if count = 1 then r_expire R t key ttl s1 else s1)
           in (Inr (if count \<le> limit then 1 else 0), s2)))"

definition window_key :: "string \<Rightarrow> int \<Rightarrow> string" where
  "window_key key window_index = key @ CHR '':'' # str_of_int window_index"

definition ttl_seconds :: "int \<Rightarrow> int \<Rightarrow> int" where
  "ttl_seconds now window = window - now mod window"

definition allow_request ::
    "'s redis \<Rightarrow> string \<Rightarrow> int \<Rightarrow> int \<Rightarrow> instant \<Rightarrow> 's client \<Rightarrow> (limiter_error + bool) \<times> 's client" where
  "allow_request R key limit window t c =
     (let now = seconds t;
          wk = window_key key (now div window);
          ttl = ttl_seconds now window
      in case redis_call (fixed_window_script R t wk limit ttl) c of
           (Inl _, c') \<Rightarrow> (Inl RateLimitBackendUnavailable, c')
         | (Inr allowed, c') \<Rightarrow> (Inr (allowed = 1), c'))"

text \<open>\<open>RedisRateLimiter(redis_url)\<close>: fail closed when the client cannot be built.\<close>

definition new_rate_limiter ::
    "settings \<Rightarrow> string option \<Rightarrow> 's client \<Rightarrow> (limiter_error + unit) \<times> 's client" where
  "new_rate_limiter S url c =
     (case get_redis_client S url c of
        (Inl _, c') \<Rightarrow> (Inl RateLimitBackendUnavailable, c')
      | (Inr _, c') \<Rightarrow> (Inr (), c'))"

text \<open>\<open>RedisRateLimiter().allow_request(key, limit, window)\<close>.\<close>

definition limited_request ::
    "settings \<Rightarrow> 's redis \<Rightarrow> string \<Rightarrow> int \<Rightarrow> int \<Rightarrow> instant \<Rightarrow> 's client
       \<Rightarrow> (limiter_error + bool) \<times> 's client" where
  "limited_request S R key limit window t c =
     (case new_rate_limiter S None c of
        (Inl e, c') \<Rightarrow> (Inl e, c')
      | (Inr _, c') \<Rightarrow> allow_request R key limit window t c')"

section \<open>Runs\<close>

record rate_request =
  q_key :: string
  q_limit :: int
  q_window :: int
  q_time :: instant

definition q_index :: "rate_request \<Rightarrow> int" where
  "q_index q = seconds (q_time q) div q_window q"

fun serve :: "'s redis \<Rightarrow> rate_request list \<Rightarrow> 's client \<Rightarrow> (limiter_error + bool) list \<times> 's client" where
  "serve R [] c = ([], c)"
| "serve R (q # qs) c =
     (case allow_request R (q_key q) (q_limit q) (q_window q) (q_time q) c of (r, c') \<Rightarrow>
        (case serve R qs c' of (rs, c'') \<Rightarrow> (r # rs, c'')))"

text \<open>How many requests of key \<open>k\<close> were admitted in window \<open>w\<close>.\<close>

definition admitted :: "string \<Rightarrow> int \<Rightarrow> rate_request list \<Rightarrow> (limiter_error + bool) list \<Rightarrow> nat" where
  "admitted k w qs rs =
     length (filter (\<lambda>(q, r). q_key q = k \<and> q_index q = w \<and> r = Inr True) (zip qs rs))"

section \<open>Windows\<close>

lemma colon_not_digit [simp]: "\<not> is_digit (CHR '':'')"
  by (simp add: is_digit_def code_def)

lemma window_key_inject [simp]:
  "window_key k i = window_key k' i' \<longleftrightarrow> k = k' \<and> i = i'"
proof
  assume eq: "window_key k i = window_key k' i'"
  have "takeWhile (\<lambda>x. x \<noteq> CHR '':'') (rev (window_key k i)) = rev (str_of_int i)" for k i
    by (simp add: window_key_def)
  then have "rev (str_of_int i) = rev (str_of_int i')" using eq by metis
  then have "i = i'" by simp
  with eq show "k = k' \<and> i = i'" by (simp add: window_key_def)
qed simp

lemma ttl_seconds_bounds:
  assumes "0 < window"
  shows "1 \<le> ttl_seconds now window" "ttl_seconds now window \<le> window"
  unfolding ttl_seconds_def
  using pos_mod_bound [OF assms, of now] pos_mod_sign [OF assms, of now] by linarith+

lemma ttl_seconds_boundary:
  "now + ttl_seconds now window = (now div window + 1) * window"
  unfolding ttl_seconds_def distrib_right
  using div_mult_mod_eq [of now window] by linarith

lemma seconds_bounds: "second * seconds t \<le> t" "t < second * (seconds t + 1)"
  unfolding seconds_def distrib_left
  using mult_div_mod_eq [of second t] pos_mod_sign [OF second_pos, of t]
    pos_mod_bound [OF second_pos, of t] by linarith+

definition window_end :: "int \<Rightarrow> int \<Rightarrow> instant" where
  "window_end window w = second * ((w + 1) * window)"

lemma expiry_after_window:
  "window_end window (seconds t div window) \<le> t + second * ttl_seconds (seconds t) window"
proof -
  have "window_end window (seconds t div window) =
      second * seconds t + second * ttl_seconds (seconds t) window"
    by (simp add: window_end_def ttl_seconds_boundary flip: distrib_left)
  then show ?thesis using seconds_bounds(1) [of t] by simp
qed

lemma before_window_end:
  assumes "0 < window"
  shows "t < window_end window (seconds t div window)"
proof -
  have "seconds t + 1 \<le> (seconds t div window + 1) * window"
    unfolding distrib_right
    using div_mult_mod_eq [of "seconds t" window] pos_mod_bound [OF assms, of "seconds t"]
    by linarith
  then have "second * (seconds t + 1) \<le> window_end window (seconds t div window)"
    unfolding window_end_def by (intro mult_left_mono) (auto simp: less_imp_le)
  then show ?thesis using seconds_bounds(2) [of t] by linarith
qed

lemma snd_allow_request:
  "snd (allow_request R k l w t c) =
     snd (redis_call (fixed_window_script R t (window_key k (seconds t div w)) l
            (ttl_seconds (seconds t) w)) c)"
  by (simp add: allow_request_def Let_def split: prod.split sum.split)

section \<open>The script against the reference store\<close>

definition counter_of :: "string \<Rightarrow> store \<Rightarrow> int" where
  "counter_of k m =
     (case m k of
        None \<Rightarrow> 0
      | Some (v, _) \<Rightarrow> (case int_of_str v of None \<Rightarrow> 0 | Some n \<Rightarrow> n))"

definition window_spec :: "instant \<Rightarrow> string \<Rightarrow> int \<Rightarrow> int \<Rightarrow> store \<Rightarrow> int \<times> store" where
  "window_spec t key limit ttl m =
     (let n = counter_of key m + 1
      in (if n \<le> limit then 1 else 0,
          m(key \<mapsto> (str_of_int n,
                    if n = 1 then Some (t + second * ttl) else Option.bind (m key) snd))))"

lemma str_of_int_1: "str_of_int 1 = ''1''"
  by (simp add: str_of_int_def str_of_nat.simps digit_char_def)

lemma counter_of_simps [simp]:
  "m k = None \<Longrightarrow> counter_of k m = 0"
  "m k = Some (str_of_int n, e) \<Longrightarrow> counter_of k m = n"
  by (simp_all add: counter_of_def)

lemma holds_counter_aged: "holds_counter k m \<Longrightarrow> holds_counter k (aged t m)"
  unfolding holds_counter_iff aged_def by (metis aged_entry.elims)

lemma holds_counter_window_spec:
  "holds_counter k m \<Longrightarrow> holds_counter k (snd (window_spec t key limit ttl m))"
  by (auto simp: holds_counter_iff window_spec_def Let_def)

context redis_server
begin

lemma script_refines:
  assumes "invar s" and "holds_counter key (view s t)" and "0 < ttl"
  shows "fst (fixed_window_script R t key limit ttl s) = Inr (fst (window_spec t key limit ttl (view s t)))"
    and "view (snd (fixed_window_script R t key limit ttl s)) t = snd (window_spec t key limit ttl (view s t))"
proof -
  let ?m = "view s t" and ?s1 = "snd (r_incr R t key s)"
  have v: "fst (r_incr R t key s) = fst (store_incr key ?m)"
    and w: "view ?s1 t = snd (store_incr key ?m)" and i: "invar ?s1"
    using assms by (auto simp: incr_value incr_view incr_invar)
  have spec: "fst (store_incr key ?m) = Inr (counter_of key ?m + 1)"
    "snd (store_incr key ?m) =
       ?m(key \<mapsto> (str_of_int (counter_of key ?m + 1), Option.bind (?m key) snd))"
    using assms(2) by (auto simp: holds_counter_iff store_incr_def str_of_int_1)
  have x: "view (r_expire R t key ttl ?s1) t = store_expire t key ttl (snd (store_incr key ?m))"
    using expire_view [OF i assms(3)] w by simp
  show "fst (fixed_window_script R t key limit ttl s) = Inr (fst (window_spec t key limit ttl ?m))"
    using v by (auto simp: fixed_window_script_def window_spec_def Let_def spec split: prod.split)
  show "view (snd (fixed_window_script R t key limit ttl s)) t = snd (window_spec t key limit ttl ?m)"
    using v w x
    by (auto simp: fixed_window_script_def window_spec_def Let_def spec store_expire_def
        split: prod.split)
qed

lemma script_invar: "invar s \<Longrightarrow> invar (snd (fixed_window_script R t key limit ttl s))"
  using incr_invar [of s t key]
  by (auto simp: fixed_window_script_def Let_def expire_invar split: prod.split sum.split)

lemma allow_request_invar:
  "invar (server c) \<Longrightarrow> invar (server (snd (allow_request R k l w t c)))"
  unfolding snd_allow_request by (erule redis_call_keeps) (rule script_invar)

text \<open>One request, seen from the store: either it was counted or the store did not change.\<close>

lemma allow_request_effect:
  assumes "invar (server c)" and "0 < window"
    and "holds_counter (window_key k (seconds t div window)) (view (server c) t)"
    and spec_def: "spec = window_spec t (window_key k (seconds t div window)) limit
                    (ttl_seconds (seconds t) window) (view (server c) t)"
  shows "view (server (snd (allow_request R k limit window t c))) t = snd spec \<and>
           fst (allow_request R k limit window t c) \<in> {Inl RateLimitBackendUnavailable, Inr (fst spec = 1)}
       \<or> view (server (snd (allow_request R k limit window t c))) t = view (server c) t \<and>
           fst (allow_request R k limit window t c) = Inl RateLimitBackendUnavailable"
proof -
  let ?f = "fixed_window_script R t (window_key k (seconds t div window)) limit
              (ttl_seconds (seconds t) window)"
  have ttl: "0 < ttl_seconds (seconds t) window"
    using ttl_seconds_bounds(1) [OF assms(2)] by (metis less_le_trans zero_less_one)
  note ref = script_refines [OF assms(1,3) ttl, of limit, folded assms(4)]
  obtain r c' where rc: "redis_call ?f c = (r, c')" by force
  have "r = Inr (fst spec) \<and> server c' = snd (?f (server c))
      \<or> r = Inl ConnectionFailed \<and> server c' \<in> {server c, snd (?f (server c))}"
    using rc ref(1)
    by (auto simp: redis_call_def split: list.splits delivery.splits prod.splits)
  with rc ref(2) show ?thesis by (auto simp: allow_request_def Let_def)
qed

end

section \<open>The bound\<close>

text \<open>
  \<open>tracks B n m\<close>: the window's key has been counted \<open>n\<close> times in store \<open>m\<close> and its
  counter lives at least until \<open>B\<close>.
\<close>

definition tracks :: "string \<Rightarrow> instant \<Rightarrow> int \<Rightarrow> store \<Rightarrow> bool" where
  "tracks wk B n m \<longleftrightarrow>
     (if n = 0 then m wk = None
      else 0 < n \<and> (\<exists>e. m wk = Some (str_of_int n, e) \<and> (\<forall>d. e = Some d \<longrightarrow> B \<le> d)))"

lemma tracks_aged: "tracks wk B n m \<Longrightarrow> t < B \<Longrightarrow> tracks wk B n (aged t m)"
  unfolding tracks_def aged_def
  by (cases "n = 0") (force simp: aged_entry_Some)+

lemma tracks_counter: "tracks wk B n m \<Longrightarrow> counter_of wk m = n \<and> holds_counter wk m \<and> 0 \<le> n"
  by (auto simp: tracks_def holds_counter_iff split: if_splits)

lemma tracks_spec:
  assumes "tracks wk B n m" and "B \<le> t + second * ttl"
  shows "tracks wk B (n + 1) (snd (window_spec t wk limit ttl m))"
proof (cases "n = 0")
  case True
  then have "m wk = None" using assms(1) by (simp add: tracks_def)
  then show ?thesis using True assms(2) by (simp add: tracks_def window_spec_def)
next
  case False
  then obtain e where e: "0 < n" "m wk = Some (str_of_int n, e)" "\<forall>d. e = Some d \<longrightarrow> B \<le> d"
    using assms(1) by (auto simp: tracks_def)
  then have "counter_of wk m = n" by simp
  with e show ?thesis by (simp add: tracks_def window_spec_def Let_def)
qed

lemma tracks_other:
  "wk \<noteq> wk' \<Longrightarrow> tracks wk B n (snd (window_spec t wk' limit ttl m)) = tracks wk B n m"
  by (auto simp: tracks_def window_spec_def Let_def)

lemma admitted_Cons:
  "admitted k w (q # qs) (r # rs) =
     (if q_key q = k \<and> q_index q = w \<and> r = Inr True then 1 else 0) + admitted k w qs rs"
  by (simp add: admitted_def)

lemma admitted_zero:
  assumes "\<forall>q \<in> set qs. \<not> (q_key q = k \<and> q_index q = w)"
  shows "admitted k w qs rs = 0"
proof -
  have "\<not> (q_key q = k \<and> q_index q = w)" if "(q, r) \<in> set (zip qs rs)" for q r
    using assms set_zip_leftD [OF that] by blast
  then show ?thesis by (auto simp: admitted_def filter_empty_conv)
qed

lemma admitted_later:
  assumes "0 < window" and "\<forall>q \<in> set qs. window_end window w \<le> q_time q"
    and "\<forall>q \<in> set qs. q_key q = k \<longrightarrow> q_window q = window"
  shows "admitted k w qs rs = 0"
proof -
  have "\<not> (q_key q = k \<and> q_index q = w)" if "q \<in> set qs" for q
    using that assms before_window_end [OF assms(1), of "q_time q"]
    by (force simp: q_index_def)
  then show ?thesis by (intro admitted_zero) blast
qed

context redis_server
begin

lemma serve_admitted:
  assumes "invar (server c)" and "sorted (t0 # map q_time qs)"
    and "\<forall>q \<in> set qs. 0 < q_window q"
    and "\<forall>q \<in> set qs. q_key q = k \<longrightarrow> q_limit q \<le> L \<and> q_window q = W"
    and "\<forall>q \<in> set qs. holds_counter (window_key (q_key q) (q_index q)) (view (server c) t0)"
    and "tracks (window_key k w) (window_end W w) n (view (server c) t0)"
  shows "int (admitted k w qs (fst (serve R qs c))) \<le> max 0 (L - n)"
  using assms
proof (induction qs arbitrary: c t0 n)
  case Nil
  then show ?case by (simp add: admitted_def)
next
  case (Cons q qs)
  let ?t = "q_time q" and ?wk = "window_key k w" and ?B = "window_end W w"
  let ?wq = "window_key (q_key q) (seconds ?t div q_window q)"
  obtain r c' where rc: "allow_request R (q_key q) (q_limit q) (q_window q) ?t c = (r, c')"
    by force
  have le: "t0 \<le> ?t" and pos: "0 < q_window q" using Cons.prems by auto
  have later: "sorted (?t # map q_time qs)" using Cons.prems(2) by simp
  let ?m = "view (server c) ?t"
  have m: "?m = aged ?t (view (server c) t0)" using view_aged [OF Cons.prems(1) le] .
  have hc: "\<forall>p \<in> set (q # qs). holds_counter (window_key (q_key p) (q_index p)) ?m"
    using Cons.prems(5) by (auto simp: m holds_counter_aged)
  then have hq: "holds_counter ?wq ?m" by (simp add: q_index_def)
  define spec where "spec = window_spec ?t ?wq (q_limit q) (ttl_seconds (seconds ?t) (q_window q)) ?m"
  have eff: "view (server c') ?t = snd spec \<and> r \<in> {Inl RateLimitBackendUnavailable, Inr (fst spec = 1)}
      \<or> view (server c') ?t = ?m \<and> r = Inl RateLimitBackendUnavailable"
    using allow_request_effect [OF Cons.prems(1) pos hq spec_def] rc
    by simp
  have inv': "invar (server c')"
    using allow_request_invar [OF Cons.prems(1), of "q_key q" "q_limit q" "q_window q" ?t] rc by simp
  have hc': "\<forall>p \<in> set qs. holds_counter (window_key (q_key p) (q_index p)) (view (server c') ?t)"
    using eff hc by (auto simp: spec_def holds_counter_window_spec)
  have "fst (serve R (q # qs) c) = r # fst (serve R qs c')"
    by (simp add: rc split: prod.split)
  then have count: "int (admitted k w (q # qs) (fst (serve R (q # qs) c))) =
      (if q_key q = k \<and> q_index q = w \<and> r = Inr True then 1 else 0)
      + int (admitted k w qs (fst (serve R qs c')))"
    by (simp add: admitted_Cons del: serve.simps)
  show ?case
  proof (cases "\<exists>p \<in> set (q # qs). q_key p = k")
    case False
    then have "admitted k w (q # qs) rs = 0" for rs
      by (intro admitted_zero) blast
    then show ?thesis by simp
  next
    case True
    then have W: "0 < W" using Cons.prems(3,4) by auto
    show ?thesis
    proof (cases "?t < ?B")
      case False
      have "\<forall>p \<in> set (q # qs). ?B \<le> q_time p" using False later by auto
      then have "admitted k w (q # qs) (fst (serve R (q # qs) c)) = 0"
        using W Cons.prems(4) by (intro admitted_later [of W]) auto
      then show ?thesis by simp
    next
      case True
      have tr: "tracks ?wk ?B n ?m" using tracks_aged [OF Cons.prems(6) True] m by simp
      have IH: "tracks ?wk ?B n' (view (server c') ?t) \<Longrightarrow>
          int (admitted k w qs (fst (serve R qs c'))) \<le> max 0 (L - n')" for n'
        using Cons.IH [OF inv' later] Cons.prems(3,4) hc' by simp
      show ?thesis
      proof (cases "q_key q = k \<and> q_index q = w")
        case hit: True
        then have wq: "?wq = ?wk" and lim: "q_limit q \<le> L" and qW: "q_window q = W"
          using Cons.prems(4) by (auto simp: q_index_def)
        have "?B \<le> ?t + second * ttl_seconds (seconds ?t) W"
          using expiry_after_window [of W ?t] hit qW by (simp add: q_index_def)
        then have tr': "tracks ?wk ?B (n + 1) (snd spec)"
          unfolding spec_def wq unfolding qW by (rule tracks_spec [OF tr])
        have ok: "fst spec = 1 \<Longrightarrow> n + 1 \<le> L"
          using lim tracks_counter [OF tr] unfolding spec_def wq
          by (auto simp: window_spec_def Let_def split: if_splits)
        show ?thesis
          unfolding count using eff IH [of "n + 1"] IH [of n] tr tr' ok hit by auto
      next
        case False
        then have "?wk \<noteq> ?wq" by (auto simp: q_index_def)
        then have "tracks ?wk ?B n (view (server c') ?t)"
          using eff tr by (auto simp: spec_def tracks_other)
        then have "int (admitted k w qs (fst (serve R qs c'))) \<le> max 0 (L - n)" by (rule IH)
        with False show ?thesis unfolding count by auto
      qed
    qed
  qed
qed

text \<open>With no fault the verdicts are exact: the first \<open>L\<close> requests of a window pass.\<close>

lemma serve_exact:
  assumes "invar (server c)" and "net c = []" and "sorted (t0 # map q_time qs)" and "0 < W"
    and "\<forall>q \<in> set qs. q_key q = k \<and> q_limit q = L \<and> q_window q = W \<and> q_index q = w"
    and "tracks (window_key k w) (window_end W w) n (view (server c) t0)"
  shows "fst (serve R qs c) = map (\<lambda>i. Inr (n + int i < L)) [0..<length qs]"
  using assms
proof (induction qs arbitrary: c t0 n)
  case Nil
  then show ?case by simp
next
  case (Cons q qs)
  let ?t = "q_time q" and ?wk = "window_key k w" and ?B = "window_end W w"
  let ?ttl = "ttl_seconds (seconds ?t) W"
  let ?f = "fixed_window_script R ?t ?wk L ?ttl"
  define c' where "c' = c\<lparr>server := snd (?f (server c))\<rparr>"
  have q: "q_key q = k" "q_limit q = L" "q_window q = W" "seconds ?t div W = w"
    using Cons.prems(5) by (auto simp: q_index_def)
  have le: "t0 \<le> ?t" and later: "sorted (?t # map q_time qs)" using Cons.prems(3) by auto
  have "?t < ?B" using before_window_end [OF Cons.prems(4), of ?t] q(4) by simp
  then have tr: "tracks ?wk ?B n (view (server c) ?t)"
    using tracks_aged [OF Cons.prems(6)] view_aged [OF Cons.prems(1) le] by simp
  have ttl: "0 < ?ttl" using ttl_seconds_bounds(1) [OF Cons.prems(4), of "seconds ?t"] by linarith
  have hc: "holds_counter ?wk (view (server c) ?t)" and cnt: "counter_of ?wk (view (server c) ?t) = n"
    using tracks_counter [OF tr] by auto
  note ref = script_refines [OF Cons.prems(1) hc ttl, of L]
  have step: "allow_request R (q_key q) (q_limit q) (q_window q) ?t c = (Inr (n < L), c')"
    using ref(1) cnt Cons.prems(2)
    by (auto simp: allow_request_def Let_def q redis_call_reliable window_spec_def c'_def)
  have "?B \<le> ?t + second * ?ttl" using expiry_after_window [of W ?t] q(4) by simp
  then have "tracks ?wk ?B (n + 1) (view (server c') ?t)"
    using tracks_spec [OF tr, of ?t ?ttl L] ref(2) by (simp add: c'_def)
  moreover have "invar (server c')" using script_invar [OF Cons.prems(1)] by (simp add: c'_def)
  moreover have "net c' = []" using Cons.prems(2) by (simp add: c'_def)
  ultimately have "fst (serve R qs c') = map (\<lambda>i. Inr (n + 1 + int i < L)) [0..<length qs]"
    using Cons.prems(4,5) later by (intro Cons.IH [of c' ?t "n + 1"]) auto
  moreover have "fst (serve R (q # qs) c) = Inr (n < L) # fst (serve R qs c')"
    by (simp add: step split: prod.split)
  moreover have "map (\<lambda>i. Inr (n + int i < L) :: limiter_error + bool) [0..<length (q # qs)] =
      Inr (n < L) # map (\<lambda>i. Inr (n + 1 + int i < L)) [0..<length qs]"
    by (simp add: map_upt_Suc add.assoc del: upt_Suc)
  ultimately show ?case by (simp only:)
qed

end

section \<open>The test double's script\<close>

text \<open>
  \<open>FakeRedisClient.eval\<close> with one key, statement by statement; \<open>None\<close> is the
  \<open>ValueError\<close> of \<open>int(value)\<close>.
\<close>

definition fake_eval_window :: "instant \<Rightarrow> string \<Rightarrow> int \<Rightarrow> int \<Rightarrow> fake \<Rightarrow> int option \<times> fake" where
  "fake_eval_window now key limit ttl s =
     (case fake_read now key s of (val, s1) \<Rightarrow>
        (case (case val of None \<Rightarrow> Some 1 | Some v \<Rightarrow> map_option (\<lambda>n. n + 1) (py_int v)) of
           None \<Rightarrow> (None, s1)
         | Some counter \<Rightarrow>
             (let s2 = s1\<lparr>f_data := AList.update key (str_of_int counter) (f_data s1)\<rparr>;
                  s3 = (if counter = 1
                        then s2\<lparr>f_expires := AList.update key (now + second * ttl) (f_expires s2)\<rparr>
                        else s2)
              in (Some (if counter \<le> limit then 1 else 0), s3))))"

lemma fake_read_alive:
  "(\<And>e. map_of (f_expires s) k = Some e \<Longrightarrow> now < e) \<Longrightarrow>
   fake_read now k s = (map_of (f_data s) k, s)"
  by (auto simp: fake_read_def Let_def split: option.split)

lemma fake_read_twice:
  assumes "fake_read now k s = (v, s')" and "map_of (f_expires s') k = Some e"
  shows "now < e"
  using assms by (auto simp: fake_read_def Let_def delete_conv' split: option.splits if_splits)

lemma fake_eval_is_script:
  assumes "fake_ok s" and "holds_counter key (fake_view s now)"
  shows "fake_eval_window now key limit ttl s =
    (case fixed_window_script fake_redis now key limit ttl s of
       (Inl _, s') \<Rightarrow> (None, s')
     | (Inr r, s') \<Rightarrow> (Some r, s'))"
proof -
  obtain v s1 where r: "fake_read now key s = (v, s1)" by force
  let ?s2 = "\<lambda>n. s1\<lparr>f_data := AList.update key (str_of_int n) (f_data s1)\<rparr>"
  have alive: "fake_read now key (?s2 n) = (Some (str_of_int n), ?s2 n)" for n
    by (subst fake_read_alive) (auto simp: update_conv' dest: fake_read_twice [OF r])
  have "v = None \<or> (\<exists>n. v = Some (str_of_int n))"
    using assms(2) fake_read_result(1) [of now key s] r
    by (auto simp: store_get_def holds_counter_iff)
  then show ?thesis
    using alive [of 1]
    by (auto simp: fake_eval_window_def fixed_window_script_def fake_redis_def fake_incr_def
        fake_expire_def r alive Let_def)
qed

section \<open>Properties\<close>

text \<open>
  C8: A key is never admitted more than its limit in one window, whatever the replicas send:
  for every sequence of requests (of any keys, in clock order), every schedule of lost requests
  and lost replies, and any Redis that keeps its documented behaviour.
\<close>

theorem rate_limit_bound:
  assumes "redis_server R view invar" and "invar (server c)"
    and "sorted (start # map q_time qs)" and "\<forall>q \<in> set qs. 0 < q_window q"
    and "\<forall>q \<in> set qs. q_key q = k \<longrightarrow> q_limit q \<le> L \<and> q_window q = W"
    and "\<forall>q \<in> set qs. holds_counter (window_key (q_key q) (q_index q)) (view (server c) start)"
    and "view (server c) start (window_key k w) = None" and "0 \<le> L"
  shows "int (admitted k w qs (fst (serve R qs c))) \<le> L"
proof -
  have "tracks (window_key k w) (window_end W w) 0 (view (server c) start)"
    using assms(7) by (simp add: tracks_def)
  then show ?thesis
    using redis_server.serve_admitted [OF assms(1-6), of w 0] assms(8) by simp
qed

definition sample_client :: "delivery list \<Rightarrow> fake client" where
  "sample_client n = \<lparr>server = empty_fake, net = n, pool = []\<rparr>"

definition sample_requests :: "rate_request list" where
  "sample_requests =
     [\<lparr>q_key = ''a'', q_limit = 1, q_window = 60, q_time = 0\<rparr>,
      \<lparr>q_key = ''b'', q_limit = 5, q_window = 60, q_time = second\<rparr>,
      \<lparr>q_key = ''a'', q_limit = 1, q_window = 60, q_time = 2 * second\<rparr>]"

lemma sample_client_ok [simp]:
  "fake_ok (server (sample_client n))" "fake_view (server (sample_client n)) t = Map.empty"
  "net (sample_client n) = n"
  by (simp_all add: sample_client_def empty_fake_ok)

lemma holds_counter_empty [simp]: "holds_counter k Map.empty"
  by (simp add: holds_counter_def)

theorem rate_limit_bound_witness:
  "int (admitted ''a'' 0 sample_requests
     (fst (serve fake_redis sample_requests (sample_client [Delivered, Reply_Lost])))) \<le> 1"
  by (rule rate_limit_bound [OF fake.redis_server_axioms, where start = 0 and W = 60])
    (simp_all add: sample_requests_def second_def)

text \<open>
  Without faults the limiter is exact: of the requests a key makes in one window, the first
  \<open>L\<close> are admitted and every later one is refused.
\<close>

lemma rate_limit_exact:
  assumes "redis_server R view invar" and "invar (server c)" and "net c = []"
    and "sorted (start # map q_time qs)" and "0 < W"
    and "\<forall>q \<in> set qs. q_key q = k \<and> q_limit q = L \<and> q_window q = W \<and> q_index q = w"
    and "view (server c) start (window_key k w) = None"
  shows "fst (serve R qs c) = map (\<lambda>i. Inr (int i < L)) [0..<length qs]"
proof -
  have "tracks (window_key k w) (window_end W w) 0 (view (server c) start)"
    using assms(7) by (simp add: tracks_def)
  then show ?thesis using redis_server.serve_exact [OF assms(1-6), of 0] by simp
qed

text \<open>
  The limiter fails closed: a request is admitted only if the shared server executed the
  script for it, which added one to the window's counter and found it within the limit.
\<close>

lemma admission_is_counted:
  assumes "redis_server R view invar" and "invar (server c)" and "0 < window"
    and "holds_counter (window_key k (seconds t div window)) (view (server c) t)"
    and "limited_request S R k limit window t c = (Inr True, c')"
  shows "counter_of (window_key k (seconds t div window)) (view (server c') t) =
           counter_of (window_key k (seconds t div window)) (view (server c) t) + 1
       \<and> counter_of (window_key k (seconds t div window)) (view (server c') t) \<le> limit"
proof -
  let ?wk = "window_key k (seconds t div window)"
  obtain c1 where c1: "allow_request R k limit window t c1 = (Inr True, c')" "server c1 = server c"
    using assms(5)
    by (auto simp: limited_request_def new_rate_limiter_def dest: get_redis_client_same
        split: prod.splits sum.splits)
  from redis_server.allow_request_effect [OF assms(1), of c1 window k t _ limit, OF _ assms(3) _ refl]
  have "view (server c') t =
      snd (window_spec t ?wk limit (ttl_seconds (seconds t) window) (view (server c) t))"
    and "fst (window_spec t ?wk limit (ttl_seconds (seconds t) window) (view (server c) t)) = 1"
    using assms(2,4) c1 by auto
  then show ?thesis by (auto simp: window_spec_def Let_def split: if_splits)
qed

text \<open>
  The test double runs the same script: on a key that is absent or holds a printed integer,
  \<open>FakeRedisClient.eval\<close> returns what the Lua script returns over the double's own
  commands, and leaves the same state.
\<close>

lemma fake_eval_window_equiv:
  assumes "fake_ok s" and "holds_counter key (fake_view s now)"
  shows "fake_eval_window now key limit ttl s =
    (case fixed_window_script fake_redis now key limit ttl s of
       (Inl _, s') \<Rightarrow> (None, s')
     | (Inr r, s') \<Rightarrow> (Some r, s'))"
  using assms by (rule fake_eval_is_script)

text \<open>
  Distinct keys or windows use distinct counters, and a counter created in a window is given
  between one second and one window to live, ending exactly at the window's boundary.
\<close>

lemma window_keys_and_ttl:
  "(window_key k i = window_key k' i' \<longleftrightarrow> k = k' \<and> i = i') \<and>
   (0 < window \<longrightarrow> 1 \<le> ttl_seconds now window \<and> ttl_seconds now window \<le> window \<and>
      now + ttl_seconds now window = (now div window + 1) * window)"
  using ttl_seconds_bounds [of window now] ttl_seconds_boundary [of now window] by simp

end
