(* ===== verification/ClientTokens.thy ===== *)
theory ClientTokens
  imports Settings ApiKeys Json
begin

text \<open>
  \<open>apps/client_auth/services.py\<close>: the tokens of an application's end users. \<open>jwt\<close> (PyJWT) is
  not part of the repository: \<open>jwt_encode\<close> and \<open>jwt_decode\<close> are parameters, and
  \<open>jwt_laws\<close> states what PyJWT documents of them for HS256. A claim value is a JSON value or an
  instant, which PyJWT writes as whole seconds; \<open>None\<close> is a \<open>PyJWTError\<close>.
\<close>

section \<open>The token library\<close>

datatype claim = ClaimJson json | ClaimTime instant

fun claim_json :: "claim \<Rightarrow> json" where
  "claim_json (ClaimJson j) = j"
| "claim_json (ClaimTime t) = JInt (seconds t)"

record jwt =
  jwt_encode :: "(string \<times> claim) list \<Rightarrow> string \<Rightarrow> string"
  jwt_decode :: "instant \<Rightarrow> string \<Rightarrow> string \<Rightarrow> string \<Rightarrow> string \<Rightarrow> string list \<Rightarrow> (string \<times> json) list option"

text \<open>The registered claims as PyJWT checks them at time \<open>now\<close>.\<close>

definition claims_valid :: "instant \<Rightarrow> string \<Rightarrow> string \<Rightarrow> string list \<Rightarrow> (string \<times> json) list \<Rightarrow> bool" where
  "claims_valid now issuer audience required cs \<longleftrightarrow>
     list_all (\<lambda>r. map_of cs r \<noteq> None) required \<and>
     map_of cs ''iss'' = Some (JStr issuer) \<and> map_of cs ''aud'' = Some (JStr audience) \<and>
     (case map_of cs ''exp'' of Some (JInt e) \<Rightarrow> now < second * e | _ \<Rightarrow> False) \<and>
     (case map_of cs ''nbf'' of Some (JInt n) \<Rightarrow> second * n \<le> now | _ \<Rightarrow> False) \<and>
     (case map_of cs ''iat'' of Some (JInt i) \<Rightarrow> second * i \<le> now | _ \<Rightarrow> False)"

definition jwt_laws :: "jwt \<Rightarrow> bool" where
  "jwt_laws J \<longleftrightarrow>
     (\<forall>cs key now issuer audience required.
        let written = map (\<lambda>(k, c). (k, claim_json c)) cs
        in distinct (map fst cs) \<longrightarrow> plain (JObj written) \<longrightarrow>
           jwt_decode J now (jwt_encode J cs key) key issuer audience required =
             (if claims_valid now issuer audience required written then Some written else None))
     \<and> (\<forall>cs key. jwt_encode J cs key \<noteq> [] \<and> list_all (\<lambda>c. \<not> py_isspace c) (jwt_encode J cs key))"

section \<open>Issuing\<close>

definition REQUIRED_CLAIMS :: "string list" where
  "REQUIRED_CLAIMS =
     [''sub'', ''application_id'', ''token_version'', ''iss'', ''aud'', ''iat'', ''nbf'', ''exp'',
      ''token_type'']"

definition token_claims :: "settings \<Rightarrow> instant \<Rightarrow> app_user \<Rightarrow> string \<Rightarrow> instant \<Rightarrow> (string \<times> claim) list" where
  "token_claims S now user token_type lifetime =
     [(''sub'', ClaimJson (JStr (str_of_int (cu_id user)))),
      (''application_id'', ClaimJson (JInt (cu_application user))),
      (''token_version'', ClaimJson (JInt (cu_token_version user))),
      (''iss'', ClaimJson (JStr (CLIENT_JWT_ISSUER S))),
      (''aud'', ClaimJson (JStr (CLIENT_JWT_AUDIENCE S))),
      (''token_type'', ClaimJson (JStr token_type)),
      (''iat'', ClaimTime now),
      (''nbf'', ClaimTime now),
      (''exp'', ClaimTime (now + lifetime))]"

definition make_token :: "jwt \<Rightarrow> settings \<Rightarrow> instant \<Rightarrow> app_user \<Rightarrow> string \<Rightarrow> instant \<Rightarrow> string" where
  "make_token J S now user token_type lifetime =
     jwt_encode J (token_claims S now user token_type lifetime) (CLIENT_JWT_SIGNING_KEY S)"

record token_pair =
  tp_access :: string
  tp_refresh :: string
  tp_token_type :: string
  tp_expires_in :: int

text \<open>The two tokens are stamped one after the other.\<close>

definition issue_token_pair :: "jwt \<Rightarrow> settings \<Rightarrow> instant \<Rightarrow> instant \<Rightarrow> app_user \<Rightarrow> token_pair" where
  "issue_token_pair J S now now' user =
     \<lparr>tp_access = make_token J S now user ''access'' (CLIENT_ACCESS_TOKEN_LIFETIME S),
      tp_refresh = make_token J S now' user ''refresh'' (CLIENT_REFRESH_TOKEN_LIFETIME S),
      tp_token_type = ''Bearer'',
      tp_expires_in = seconds (CLIENT_ACCESS_TOKEN_LIFETIME S)\<rparr>"

section \<open>Verifying\<close>

datatype client_token_error = ClientTokenError string

text \<open>A token or header that is absent or not text is \<open>None\<close>.\<close>

definition verify_client_token ::
    "jwt \<Rightarrow> settings \<Rightarrow> db \<Rightarrow> instant \<Rightarrow> string option \<Rightarrow> application \<Rightarrow> string
       \<Rightarrow> client_token_error + app_user" where
  "verify_client_token J S d now raw_token a token_type =
     (if raw_token = None \<or> raw_token = Some [] then Inl (ClientTokenError ''Missing client token.'')
      else case jwt_decode J now (the raw_token) (CLIENT_JWT_SIGNING_KEY S) (CLIENT_JWT_ISSUER S)
                  (CLIENT_JWT_AUDIENCE S) REQUIRED_CLAIMS of
             None \<Rightarrow> Inl (ClientTokenError ''Invalid or expired client token.'')
           | Some claims \<Rightarrow>
               if map_of claims ''token_type'' \<noteq> Some (JStr token_type)
               then Inl (ClientTokenError ''Incorrect client token type.'')
               else case (map_of claims ''sub'', map_of claims ''application_id'', map_of claims ''token_version'') of
                      (Some (JStr user_id), Some (JInt claimed_app), Some (JInt version)) \<Rightarrow>
                        if \<not> isdecimal user_id \<or> claimed_app \<noteq> app_id a
                        then Inl (ClientTokenError ''Client token application mismatch.'')
                        else
                          (case objects_first
                                  (\<lambda>u. cu_id u = int (val_digits user_id) \<and> cu_application u = app_id a
                                       \<and> cu_is_active u \<and> cu_token_version u = version) (clients d) of
                             None \<Rightarrow> Inl (ClientTokenError ''Client user is inactive or no longer authorized.'')
                           | Some user \<Rightarrow>
                               if \<not> app_is_active a
                               then Inl (ClientTokenError ''Client user is inactive or no longer authorized.'')
                               else Inr user)
                    | _ \<Rightarrow> Inl (ClientTokenError ''Client token application mismatch.''))"

definition authenticate_client_bearer ::
    "jwt \<Rightarrow> settings \<Rightarrow> db \<Rightarrow> instant \<Rightarrow> string option \<Rightarrow> application \<Rightarrow> client_token_error + app_user" where
  "authenticate_client_bearer J S d now authorization a =
     (case authorization of
        None \<Rightarrow> Inl (ClientTokenError ''Missing customer bearer token.'')
      | Some v \<Rightarrow>
          (case split_ws (strip py_isspace v) of
             [scheme, token] \<Rightarrow>
               if py_lower scheme \<noteq> ''bearer''
               then Inl (ClientTokenError ''Missing or malformed customer bearer token.'')
               else verify_client_token J S d now (Some token) a ''access''
           | _ \<Rightarrow> Inl (ClientTokenError ''Missing or malformed customer bearer token.'')))"

section \<open>Lemmas\<close>

definition written_claims :: "settings \<Rightarrow> instant \<Rightarrow> app_user \<Rightarrow> string \<Rightarrow> instant \<Rightarrow> (string \<times> json) list" where
  "written_claims S now user token_type lifetime =
     map (\<lambda>(k, c). (k, claim_json c)) (token_claims S now user token_type lifetime)"

lemma written_claims_of [simp]:
  "map_of (written_claims S now u ty life) ''sub'' = Some (JStr (str_of_int (cu_id u)))"
  "map_of (written_claims S now u ty life) ''application_id'' = Some (JInt (cu_application u))"
  "map_of (written_claims S now u ty life) ''token_version'' = Some (JInt (cu_token_version u))"
  "map_of (written_claims S now u ty life) ''token_type'' = Some (JStr ty)"
  by (simp_all add: written_claims_def token_claims_def)

lemma written_claims_valid:
  "claims_valid t (CLIENT_JWT_ISSUER S) (CLIENT_JWT_AUDIENCE S) REQUIRED_CLAIMS
     (written_claims S now u ty life) \<longleftrightarrow>
     t < second * seconds (now + life) \<and> second * seconds now \<le> t"
  by (simp add: claims_valid_def written_claims_def token_claims_def REQUIRED_CLAIMS_def)

lemma decode_made_token:
  assumes "jwt_laws J"
  shows "jwt_decode J t (make_token J S now u ty life) (CLIENT_JWT_SIGNING_KEY S)
       (CLIENT_JWT_ISSUER S) (CLIENT_JWT_AUDIENCE S) REQUIRED_CLAIMS =
     (if t < second * seconds (now + life) \<and> second * seconds now \<le> t
      then Some (written_claims S now u ty life) else None)"
proof -
  have law: "distinct (map fst cs) \<Longrightarrow> plain (JObj (map (\<lambda>(k, c). (k, claim_json c)) cs)) \<Longrightarrow>
      jwt_decode J now (jwt_encode J cs key) key issuer audience required =
        (if claims_valid now issuer audience required (map (\<lambda>(k, c). (k, claim_json c)) cs)
         then Some (map (\<lambda>(k, c). (k, claim_json c)) cs) else None)"
    for cs now key issuer audience required
    using assms unfolding jwt_laws_def Let_def by blast
  have "distinct (map fst (token_claims S now u ty life))"
    "plain (JObj (map (\<lambda>(k, c). (k, claim_json c)) (token_claims S now u ty life)))"
    by (simp_all add: token_claims_def)
  from law [OF this, folded written_claims_def] show ?thesis
    unfolding make_token_def by (simp add: written_claims_valid)
qed

lemma made_token_not_Nil: "jwt_laws J \<Longrightarrow> make_token J S now u ty life \<noteq> []"
  by (simp add: jwt_laws_def make_token_def)

lemma verify_InrE:
  assumes "verify_client_token J S d t tok a ty = Inr u"
  obtains raw cs s v where "tok = Some raw" "raw \<noteq> []"
    and "jwt_decode J t raw (CLIENT_JWT_SIGNING_KEY S) (CLIENT_JWT_ISSUER S) (CLIENT_JWT_AUDIENCE S) REQUIRED_CLAIMS = Some cs"
    and "map_of cs ''token_type'' = Some (JStr ty)" "map_of cs ''sub'' = Some (JStr s)"
    and "map_of cs ''application_id'' = Some (JInt (app_id a))" "map_of cs ''token_version'' = Some (JInt v)"
    and "isdecimal s" "app_is_active a"
    and "objects_first (\<lambda>u. cu_id u = int (val_digits s) \<and> cu_application u = app_id a
              \<and> cu_is_active u \<and> cu_token_version u = v) (clients d) = Some u"
  using assms unfolding verify_client_token_def
  by (auto split: option.splits if_splits json.splits)

text \<open>The user a token identifies has to exist as the token says.\<close>

lemma verify_Inr:
  assumes "verify_client_token J S d t tok a ty = Inr u"
  shows "u \<in> set (rows (clients d))" and "cu_is_active u" and "cu_application u = app_id a"
    and "app_is_active a"
    and "\<exists>raw cs. tok = Some raw \<and> raw \<noteq> [] \<and> jwt_decode J t raw (CLIENT_JWT_SIGNING_KEY S)
           (CLIENT_JWT_ISSUER S) (CLIENT_JWT_AUDIENCE S) REQUIRED_CLAIMS = Some cs
         \<and> map_of cs ''token_type'' = Some (JStr ty)
         \<and> map_of cs ''application_id'' = Some (JInt (app_id a))
         \<and> map_of cs ''token_version'' = Some (JInt (cu_token_version u))"
proof -
  obtain raw cs s v where raw: "tok = Some raw" "raw \<noteq> []"
    and cs: "jwt_decode J t raw (CLIENT_JWT_SIGNING_KEY S) (CLIENT_JWT_ISSUER S) (CLIENT_JWT_AUDIENCE S) REQUIRED_CLAIMS = Some cs"
    and ty: "map_of cs ''token_type'' = Some (JStr ty)"
    and ids: "map_of cs ''application_id'' = Some (JInt (app_id a))" "map_of cs ''token_version'' = Some (JInt v)"
    and act: "app_is_active a"
    and u: "objects_first (\<lambda>u. cu_id u = int (val_digits s) \<and> cu_application u = app_id a
              \<and> cu_is_active u \<and> cu_token_version u = v) (clients d) = Some u"
    using verify_InrE [OF assms] .
  from objects_first_Some [OF u] show "u \<in> set (rows (clients d))" "cu_is_active u"
    "cu_application u = app_id a" by auto
  show "app_is_active a" by fact
  show "\<exists>raw cs. tok = Some raw \<and> raw \<noteq> [] \<and> jwt_decode J t raw (CLIENT_JWT_SIGNING_KEY S)
           (CLIENT_JWT_ISSUER S) (CLIENT_JWT_AUDIENCE S) REQUIRED_CLAIMS = Some cs
         \<and> map_of cs ''token_type'' = Some (JStr ty)
         \<and> map_of cs ''application_id'' = Some (JInt (app_id a))
         \<and> map_of cs ''token_version'' = Some (JInt (cu_token_version u))"
    using raw cs ty ids objects_first_Some [OF u] by blast
qed

text \<open>What verification makes of a token the gateway issued.\<close>

lemma verify_made_token:
  assumes "jwt_laws J" and "0 \<le> cu_id u"
  shows "verify_client_token J S d t (Some (make_token J S now u ty life)) a ty' =
     (if \<not> (t < second * seconds (now + life) \<and> second * seconds now \<le> t)
      then Inl (ClientTokenError ''Invalid or expired client token.'')
      else if ty' \<noteq> ty then Inl (ClientTokenError ''Incorrect client token type.'')
      else if cu_application u \<noteq> app_id a then Inl (ClientTokenError ''Client token application mismatch.'')
      else case objects_first (\<lambda>x. cu_id x = cu_id u \<and> cu_application x = app_id a \<and> cu_is_active x
                    \<and> cu_token_version x = cu_token_version u) (clients d) of
             None \<Rightarrow> Inl (ClientTokenError ''Client user is inactive or no longer authorized.'')
           | Some user \<Rightarrow>
               if \<not> app_is_active a
               then Inl (ClientTokenError ''Client user is inactive or no longer authorized.'')
               else Inr user)"
proof -
  have pos: "str_of_int (cu_id u) = str_of_nat (nat (cu_id u))" using assms(2) by (simp add: str_of_int_def)
  show ?thesis
    using assms(2) made_token_not_Nil [OF assms(1)] decode_made_token [OF assms(1)]
    by (auto simp: verify_client_token_def pos split: option.split)
qed


text \<open>An instance of the laws: the signing key written beside the claims, in hexadecimal.\<close>

definition hexify :: "string \<Rightarrow> string" where
  "hexify s = concat (map (\<lambda>c. [hex_digit (code c div 16), hex_digit (code c mod 16)]) s)"

fun unhexify :: "string \<Rightarrow> string" where
  "unhexify (a # b # r) = char_of (16 * the (hex_val a) + the (hex_val b)) # unhexify r"
| "unhexify _ = []"

definition sample_jwt :: jwt where
  "sample_jwt =
     \<lparr>jwt_encode = (\<lambda>cs key. hexify (dumps (JList [JStr key, JObj (map (\<lambda>(k, c). (k, claim_json c)) cs)]))),
      jwt_decode = (\<lambda>now token key issuer audience required.
        case loads (unhexify token) of
          Some (JList [JStr k, JObj cs]) \<Rightarrow>
            if k = key \<and> claims_valid now issuer audience required cs then Some cs else None
        | _ \<Rightarrow> None)\<rparr>"

lemma hexify_chars:
  "unhexify (hexify s) = s" "list_all (\<lambda>c. \<not> py_isspace c) (hexify s)"
proof -
  have d: "code c div 16 < 16" for c using code_less [of c] by (simp add: less_mult_imp_div_less)
  have c: "char_of (code c) = c" for c by (simp add: code_def)
  show "unhexify (hexify s) = s"
    by (induction s) (simp_all add: hexify_def hex_val_digit d c)
  have "\<not> py_isspace (hex_digit n)" if "n < 16" for n
  proof -
    have "\<not> py_isspace x" if "hex_val x \<noteq> None" for x
      using that by (auto simp: hex_val_def py_isspace_def Let_def split: if_splits)
    then show ?thesis using hex_val_digit [OF that] by auto
  qed
  with d show "list_all (\<lambda>c. \<not> py_isspace c) (hexify s)" by (simp add: hexify_def list_all_iff)
qed

lemma sample_jwt_laws: "jwt_laws sample_jwt"
proof -
  have l: "loads (dumps (JList [JStr key, JObj ms])) = Some (JList [JStr key, JObj ms])"
    if "plain (JObj ms)" for key ms
    using that by (intro loads_dumps_plain) simp
  have ne: "hexify (dumps (JList (x # xs))) \<noteq> []" for x xs by (simp add: hexify_def)
  show ?thesis
    unfolding jwt_laws_def sample_jwt_def Let_def
    using l hexify_chars ne by (simp del: dumps.simps plain.simps)
qed

lemma split_ws_token:
  assumes "\<forall>c \<in> set w. \<not> py_isspace c" and "w \<noteq> []"
  shows "split_ws w = [w]"
proof -
  obtain x xs where w: "w = x # xs" using assms(2) by (cases w) auto
  have "dropWhile py_isspace w = w" using assms w by simp
  moreover have "takeWhile (\<lambda>c. \<not> py_isspace c) w = w" "dropWhile (\<lambda>c. \<not> py_isspace c) w = []"
    using assms(1) by (auto simp: takeWhile_eq_all_conv dropWhile_eq_Nil_conv)
  ultimately show ?thesis using w by (subst split_ws.simps) (simp add: split_ws.simps [of "[]"])
qed

lemma strip_bearer:
  assumes "tok \<noteq> []" and "\<forall>c \<in> set tok. \<not> py_isspace c"
  shows "split_ws (strip py_isspace (''Bearer '' @ tok)) = [''Bearer'', tok]"
proof -
  have "last tok \<in> set tok" using assms(1) by simp
  then have "\<not> py_isspace (last (''Bearer '' @ tok))" using assms by simp
  moreover have B: "\<not> py_isspace (CHR ''B'')" by (simp add: py_isspace_def code_def)
  ultimately have s: "strip py_isspace (''Bearer '' @ tok) = ''Bearer '' @ tok"
    by (intro strip_id) simp
  have chars: "\<not> py_isspace (CHR ''e'')" "\<not> py_isspace (CHR ''a'')" "\<not> py_isspace (CHR ''r'')"
    "py_isspace (CHR '' '')"
    by (simp_all add: py_isspace_def code_def)
  have "split_ws (CHR '' '' # tok) = split_ws tok"
    using chars(4) by (subst (1 2) split_ws.simps) simp
  then have "split_ws (''Bearer '' @ tok) = ''Bearer'' # split_ws tok"
    by (subst split_ws.simps) (simp add: B chars)
  then show ?thesis using s split_ws_token [OF assms(2,1)] by simp
qed

text \<open>An access token passes the bearer check of its user from issue to expiry.\<close>

lemma access_token_works:
  assumes "jwt_laws J" and "0 \<le> cu_id u" and "wf_table cu_id client_clash (clients d)"
    and "u \<in> set (rows (clients d))" and "cu_is_active u" and "cu_application u = app_id a" and "app_is_active a"
    and "now \<le> t" and "t < second * seconds (now + life)"
  shows "authenticate_client_bearer J S d t (Some (''Bearer '' @ make_token J S now u ''access'' life)) a = Inr u"
proof -
  let ?tok = "make_token J S now u ''access'' life"
  have chars: "\<forall>c \<in> set ?tok. \<not> py_isspace c"
    using assms(1) by (simp add: make_token_def jwt_laws_def list_all_iff)
  have ne: "?tok \<noteq> []" using made_token_not_Nil [OF assms(1)] by simp
  have "objects_first (\<lambda>x. cu_id x = cu_id u \<and> cu_application x = app_id a \<and> cu_is_active x
      \<and> cu_token_version x = cu_token_version u) (clients d) = Some u"
    using assms(4-6) table_ok_inj [OF wf_tableD(1) [OF assms(3)] _ assms(4)]
    by (intro objects_first_unique) auto
  moreover have "second * seconds now \<le> t"
    using assms(8) mult_div_mod_eq [of second now] pos_mod_sign [OF second_pos, of now]
    unfolding seconds_def by linarith
  ultimately have "verify_client_token J S d t (Some ?tok) a ''access'' = Inr u"
    using assms(6,7,9) unfolding verify_made_token [OF assms(1,2)] by simp
  moreover have "py_lower ''Bearer'' = ''bearer''"
    by (simp add: py_lower_def lower_char_def code_def char_of_def bit_0)
  ultimately show ?thesis
    using strip_bearer [OF ne chars] by (simp add: authenticate_client_bearer_def)
qed

section \<open>Properties\<close>


definition sample_user :: app_user where
  "sample_user = \<lparr>cu_id = 3, cu_application = 1, cu_email = ''a@b.c'', cu_password_hash = [],
     cu_is_active = True, cu_token_version = 1, cu_created_at = 0, cu_updated_at = 0\<rparr>"

definition sample_clients_db :: db where
  "sample_clients_db = sample_db\<lparr>clients := \<lparr>rows = [sample_user], last_pk = 3\<rparr>\<rparr>"

definition sample_token :: string where
  "sample_token = make_token sample_jwt dev_settings 0 sample_user ''access'' (minutes 15)"

lemma sample_verify:
  "verify_client_token sample_jwt dev_settings sample_clients_db (minutes 14) (Some sample_token)
     sample_application ''access'' = Inr sample_user"
  unfolding sample_token_def
  by (subst verify_made_token [OF sample_jwt_laws])
    (simp_all add: sample_user_def sample_clients_db_def objects_first_def minutes_def seconds_def second_def)


text \<open>
  C22: an issued pair works, for what it was issued for. From issue to expiry the access token
  passes the bearer check of the user's own application, written as any white space separated
  \<open>Bearer\<close> header; the refresh token never passes it; neither passes for another application;
  and neither passes once the user is disabled or the token version has moved on.
\<close>

theorem issued_tokens:
  assumes "jwt_laws J" and "0 \<le> cu_id u"
    and "tok = tp_access (issue_token_pair J S now now' u)"
    and "refresh = tp_refresh (issue_token_pair J S now now' u)"
  shows "(wf_table cu_id client_clash (clients d) \<and> u \<in> set (rows (clients d)) \<and> cu_is_active u
       \<and> cu_application u = app_id a \<and> app_is_active a
       \<and> now \<le> t \<and> t < second * seconds (now + CLIENT_ACCESS_TOKEN_LIFETIME S)
       \<longrightarrow> authenticate_client_bearer J S d t (Some (''Bearer '' @ tok)) a = Inr u)
    \<and> \<not> is_ok (verify_client_token J S d t (Some refresh) a ''access'')
    \<and> (cu_application u \<noteq> app_id a \<longrightarrow> \<not> is_ok (verify_client_token J S d t (Some tok) a ty)
          \<and> \<not> is_ok (verify_client_token J S d t (Some refresh) a ty))
    \<and> ((\<forall>x \<in> set (rows (clients d)). cu_id x = cu_id u \<longrightarrow>
           \<not> cu_is_active x \<or> cu_token_version x \<noteq> cu_token_version u) \<longrightarrow>
         \<not> is_ok (verify_client_token J S d t (Some tok) a ty)
          \<and> \<not> is_ok (verify_client_token J S d t (Some refresh) a ty))"
proof -
  have tok: "tok = make_token J S now u ''access'' (CLIENT_ACCESS_TOKEN_LIFETIME S)"
    and refresh: "refresh = make_token J S now' u ''refresh'' (CLIENT_REFRESH_TOKEN_LIFETIME S)"
    by (simp_all add: assms(3,4) issue_token_pair_def)
  note verify = verify_made_token [OF assms(1,2), where S = S and d = d and t = t and a = a]
  have works: "authenticate_client_bearer J S d t (Some (''Bearer '' @ tok)) a = Inr u"
    if wf: "wf_table cu_id client_clash (clients d)" and u: "u \<in> set (rows (clients d))" "cu_is_active u"
      "cu_application u = app_id a" and act: "app_is_active a"
      and time: "now \<le> t" "t < second * seconds (now + CLIENT_ACCESS_TOKEN_LIFETIME S)"
    unfolding tok by (rule access_token_works [OF assms(1,2) wf u act time])
  moreover have "\<not> is_ok (verify_client_token J S d t (Some refresh) a ''access'')"
    unfolding refresh verify by simp
  moreover have "\<not> is_ok (verify_client_token J S d t (Some tok) a ty)"
      "\<not> is_ok (verify_client_token J S d t (Some refresh) a ty)" if "cu_application u \<noteq> app_id a"
    unfolding tok refresh verify using that by simp_all
  moreover have "\<not> is_ok (verify_client_token J S d t (Some tok) a ty)"
      "\<not> is_ok (verify_client_token J S d t (Some refresh) a ty)"
    if "\<forall>x \<in> set (rows (clients d)). cu_id x = cu_id u \<longrightarrow>
           \<not> cu_is_active x \<or> cu_token_version x \<noteq> cu_token_version u"
  proof -
    have "objects_first (\<lambda>x. cu_id x = cu_id u \<and> cu_application x = app_id a \<and> cu_is_active x
        \<and> cu_token_version x = cu_token_version u) (clients d) = None"
      using that by (auto simp: objects_first_None)
    then show "\<not> is_ok (verify_client_token J S d t (Some tok) a ty)"
      "\<not> is_ok (verify_client_token J S d t (Some refresh) a ty)"
      unfolding tok refresh verify by simp_all
  qed
  ultimately show ?thesis by blast
qed

lemma sample_clients_ok: "wf_table cu_id client_clash (clients sample_clients_db)"
  by (simp add: sample_clients_db_def wf_table_def table_ok_def sample_user_def)

theorem issued_tokens_witness:
  "authenticate_client_bearer sample_jwt dev_settings sample_clients_db (minutes 14)
     (Some (''Bearer '' @ tp_access (issue_token_pair sample_jwt dev_settings 0 0 sample_user))) sample_application
   = Inr sample_user"
proof -
  have id: "0 \<le> cu_id sample_user" by (simp add: sample_user_def)
  show ?thesis
    using issued_tokens [OF sample_jwt_laws id refl refl, where d = sample_clients_db and a = sample_application
        and S = dev_settings and now = 0 and now' = 0 and t = "minutes 14" and ty = "[]"] sample_clients_ok
    by (simp add: sample_clients_db_def sample_user_def minutes_def seconds_def second_def
        sample_application_def dev_settings_def)
qed

end
