(* ===== verification/Gateway.thy ===== *)
theory Gateway
  imports RateLimiter Signals Destinations ClientTokens
begin

text \<open>
  A request to the gateway: \<open>GatewayAuthenticationMiddleware\<close>
  (\<open>apps/gateway/middleware.py\<close>), the URL patterns below \<open>/gateway/\<close>
  (\<open>apps/gateway/urls.py\<close>), \<open>GatewayProxyView.forward\<close> (\<open>apps/gateway/views.py\<close>) and
  the preview it answers with (\<open>GatewayRequestPreview.build_payload\<close>).

  An exception nobody catches is \<open>Inl\<close>. What Django makes of the raw request (path, decoded
  query, headers, body) is the record \<open>http_request\<close>; \<open>json.loads\<close> of bytes and their decoding
  are fields of \<open>gateway\<close>.
\<close>

section \<open>Requests and responses\<close>

record http_request =
  rq_method :: string
  rq_path :: string
  rq_query_string :: string
  rq_get :: "(string \<times> string list) list"
  rq_headers :: "string \<Rightarrow> string option"
  rq_content_type :: "string option"
  rq_body :: "byte list"

record response =
  rs_status :: int
  rs_body :: json

definition json_response :: "string \<Rightarrow> string \<Rightarrow> int \<Rightarrow> response" where
  "json_response error_key detail status = \<lparr>rs_status = status, rs_body = JObj [(error_key, JStr detail)]\<rparr>"

definition reject :: "string \<Rightarrow> int \<Rightarrow> response" where
  "reject detail status = json_response ''detail'' detail status"

record 's gateway =
  gw_settings :: settings
  gw_redis :: "'s redis"
  gw_jwt :: jwt
  gw_loads :: "byte list \<Rightarrow> exn + json"
  gw_decode :: "byte list \<Rightarrow> string option"

type_synonym credential = "api_key \<times> application \<times> project"

section \<open>Middleware and URLs\<close>

definition is_gateway_request :: "http_request \<Rightarrow> bool" where
  "is_gateway_request rq = startswith (rq_path rq) ''/gateway/''"

text \<open>\<open>Inl\<close> is the middleware's own answer, \<open>Inr\<close> what it attached to the request.\<close>

definition authenticate_request :: "instant \<Rightarrow> db \<Rightarrow> http_request \<Rightarrow> response + credential option" where
  "authenticate_request now d rq =
     (if is_gateway_request rq
      then (case rq_headers rq ''X-API-Key'' of
              None \<Rightarrow> Inl (reject ''Missing X-API-Key header.'' 401)
            | Some v \<Rightarrow>
                if v = [] then Inl (reject ''Missing X-API-Key header.'' 401)
                else case validate_key now v d of
                       None \<Rightarrow> Inl (reject ''Invalid or expired API key.'' 401)
                     | Some c \<Rightarrow> Inr (Some c))
      else Inr None)"

datatype endpoint = Client_Register | Client_Login | Client_Refresh | Proxy string | No_Match

text \<open>\<open>r'^(?P<route_path>.+)$'\<close>: the dot takes no line feed, the end may be before a last one.\<close>

definition gateway_endpoint :: "string \<Rightarrow> endpoint" where
  "gateway_endpoint rest =
     (if rest = ''auth/register'' then Client_Register
      else if rest = ''auth/login'' then Client_Login
      else if rest = ''auth/refresh'' then Client_Refresh
      else (let line = takeWhile (\<lambda>c. code c \<noteq> 10) rest
            in if line \<noteq> [] \<and> length rest \<le> Suc (length line) then Proxy line else No_Match))"

section \<open>The preview\<close>

definition b64_char :: "nat \<Rightarrow> char" where
  "b64_char n = ''ABCDEFGHIJKLMNOPQRSTUVWXYZabcdefghijklmnopqrstuvwxyz0123456789+/'' ! n"

text \<open>\<open>base64.b64encode\<close>: three bytes become four characters.\<close>

fun b64encode :: "byte list \<Rightarrow> string" where
  "b64encode [] = []"
| "b64encode [a] =
     [b64_char (unat a div 4), b64_char (unat a mod 4 * 16), CHR ''='', CHR ''='']"
| "b64encode [a, b] =
     [b64_char (unat a div 4), b64_char (unat a mod 4 * 16 + unat b div 16),
      b64_char (unat b mod 16 * 4), CHR ''='']"
| "b64encode (a # b # c # r) =
     [b64_char (unat a div 4), b64_char (unat a mod 4 * 16 + unat b div 16),
      b64_char (unat b mod 16 * 4 + unat c div 64), b64_char (unat c mod 64)] @ b64encode r"

text \<open>The \<open>except\<close> clause around \<open>json.loads\<close> names \<open>ValueError\<close> only.\<close>

definition body_members :: "'s gateway \<Rightarrow> http_request \<Rightarrow> exn + (string \<times> json) list" where
  "body_members G rq =
     (let body = rq_body rq;
          content_type = (case rq_content_type rq of None \<Rightarrow> [] | Some c \<Rightarrow> c);
          plain_body =
            (case gw_decode G body of
               Some s \<Rightarrow> [(''body'', JStr s), (''body_encoding'', JStr ''utf-8'')]
             | None \<Rightarrow> [(''body'', JStr (b64encode body)), (''body_encoding'', JStr ''base64'')])
      in if body = [] then Inr []
         else and_then
           (if content_type = ''application/json'' \<or> endswith content_type ''+json''
            then (case gw_loads G body of
                    Inr j \<Rightarrow> Inr [(''body'', j), (''body_encoding'', JStr ''json'')]
                  | Inl e \<Rightarrow> if e = ValueError then Inr plain_body else Inl e)
            else Inr plain_body)
           (\<lambda>members. Inr ((''content_type'', JStr content_type) # members)))"

definition build_payload ::
    "'s gateway \<Rightarrow> http_request \<Rightarrow> app_user option \<Rightarrow> project \<Rightarrow> application \<Rightarrow> resolved_route
       \<Rightarrow> string \<Rightarrow> string \<Rightarrow> exn + json" where
  "build_payload G rq client_user p a r target_url auth_policy =
     (let full_target_url =
            (if rq_query_string rq \<noteq> [] then target_url @ ''?'' @ rq_query_string rq else target_url)
      in and_then (body_members G rq) (\<lambda>members. Inr (JObj
          ([(''status'', JStr ''validated''),
            (''mode'', JStr ''preview''),
            (''forwarded'', JBool False),
            (''target_url'', JStr full_target_url),
            (''method'', JStr (rq_method rq)),
            (''path'', JStr (normalize_path (removeprefix (rq_path rq) ''/gateway''))),
            (''query_params'', JObj (map (\<lambda>(k, vs). (k, JList (map JStr vs))) (rq_get rq))),
            (''application_id'', JInt (app_id a)),
            (''project_id'', JInt (prj_id p)),
            (''route_id'', JInt (rt_id (fst r))),
            (''backend_service_id'', (case rt_backend_service (fst r) of None \<Rightarrow> JNull | Some i \<Rightarrow> JInt i)),
            (''auth_policy'', JStr auth_policy),
            (''client_user_id'', (case client_user of None \<Rightarrow> JNull | Some u \<Rightarrow> JInt (cu_id u)))]
           @ members))))"

section \<open>The view\<close>

definition destination_of :: "settings \<Rightarrow> string \<Rightarrow> string \<Rightarrow> string \<Rightarrow> exn + string" where
  "destination_of S base_url base_path route_path =
     and_then (validate_backend_base_url S base_url) (\<lambda>_.
     and_then (build_target_url base_path base_url route_path) (\<lambda>target_url.
     and_then (validate_target_url S target_url) (\<lambda>_. Inr target_url)))"

text \<open>The part of \<open>forward\<close> after the limiter.\<close>

definition preview_response ::
    "'s gateway \<Rightarrow> http_request \<Rightarrow> app_user option \<Rightarrow> project \<Rightarrow> application \<Rightarrow> resolved_route
       \<Rightarrow> string \<Rightarrow> string \<Rightarrow> exn + response" where
  "preview_response G rq client_user p a r route_path method_policy =
     (case snd r of
        None \<Rightarrow> Inr (reject ''No destination configured for this route.'' 503)
      | Some service \<Rightarrow>
          if svc_base_url service = [] then Inr (reject ''No destination configured for this route.'' 503)
          else case destination_of (gw_settings G) (svc_base_url service) (rt_base_path (fst r)) route_path of
                 Inl _ \<Rightarrow> Inr (reject ''Backend destination is not allowed.'' 403)
               | Inr target_url \<Rightarrow>
                   and_then (build_payload G rq client_user p a r target_url method_policy)
                     (\<lambda>payload. Inr \<lparr>rs_status = 200, rs_body = payload\<rparr>))"

definition rate_key :: "application \<Rightarrow> string" where
  "rate_key a = ''gateway_rate:application:'' @ str_of_int (app_id a)"

definition client_user_of ::
    "'s gateway \<Rightarrow> db \<Rightarrow> instant \<Rightarrow> http_request \<Rightarrow> application \<Rightarrow> string \<Rightarrow> client_token_error + app_user option" where
  "client_user_of G d now rq a method_policy =
     (if method_policy = AUTH_API_KEY_AND_JWT
      then and_then (authenticate_client_bearer (gw_jwt G) (gw_settings G) d now (rq_headers rq ''Authorization'') a)
             (\<lambda>u. Inr (Some u))
      else Inr None)"

definition forward ::
    "'s gateway \<Rightarrow> db \<Rightarrow> instant \<Rightarrow> http_request \<Rightarrow> credential option \<Rightarrow> string \<Rightarrow> 's client
       \<Rightarrow> (exn + response) \<times> 's client" where
  "forward G d now rq cred route_path c =
     (case cred of
        None \<Rightarrow> (Inr (reject ''No project associated with the API key.'' 401), c)
      | Some (k, a, p) \<Rightarrow>
          (case get_route_for_request (gw_settings G) (gw_redis G) now d (prj_id p) route_path c of
             (Inl e, c1) \<Rightarrow> (Inl e, c1)
           | (Inr None, c1) \<Rightarrow> (Inr (reject ''Route not found.'' 404), c1)
           | (Inr (Some r), c1) \<Rightarrow>
               (case objects_first (\<lambda>m. rm_route m = rt_id (fst r) \<and> rm_method m = rq_method rq) (route_methods d) of
                  None \<Rightarrow> (Inr (reject ''Method not allowed for this route.'' 405), c1)
                | Some m \<Rightarrow>
                    if \<not> can_access d a (fst r)
                    then (Inr (reject ''Application is not allowed to access this route.'' 403), c1)
                    else case client_user_of G d now rq a (rm_auth_policy m) of
                           Inl _ \<Rightarrow> (Inr (reject ''Invalid or missing application-user token.'' 401), c1)
                         | Inr client_user \<Rightarrow>
                             (let (limit, window_seconds) = resolved_rate_limit a
                              in case limited_request (gw_settings G) (gw_redis G) (rate_key a) limit window_seconds now c1 of
                                   (Inl _, c2) \<Rightarrow>
                                     (Inr (reject ''Rate limiting temporarily unavailable. Please retry later.'' 503), c2)
                                 | (Inr False, c2) \<Rightarrow> (Inr (json_response ''error'' ''Rate limit exceeded'' 429), c2)
                                 | (Inr True, c2) \<Rightarrow>
                                     (preview_response G rq client_user p a r route_path (rm_auth_policy m), c2)))))"

text \<open>
  A request through the middleware to the proxy view. The view answers the five methods of the
  API, and \<open>HEAD\<close> as Django answers it where there is a \<open>get\<close>; the framework answers every
  other method, and the paths of the client-user views are the theory \<open>ClientViews\<close>.
\<close>

datatype outcome = Answered response | Raised exn | Framework | Client_View endpoint credential

definition proxied_method :: "string \<Rightarrow> bool" where
  "proxied_method m \<longleftrightarrow> m \<in> {''GET'', ''POST'', ''PUT'', ''PATCH'', ''DELETE'', ''HEAD''}"

definition handle_gateway ::
    "'s gateway \<Rightarrow> db \<Rightarrow> instant \<Rightarrow> http_request \<Rightarrow> 's client \<Rightarrow> outcome \<times> 's client" where
  "handle_gateway G d now rq c =
     (case authenticate_request now d rq of
        Inl r \<Rightarrow> (Answered r, c)
      | Inr None \<Rightarrow> (Framework, c)
      | Inr (Some cred) \<Rightarrow>
          (case gateway_endpoint (removeprefix (rq_path rq) ''/gateway/'') of
             Proxy route_path \<Rightarrow>
               if proxied_method (rq_method rq)
               then (case forward G d now rq (Some cred) route_path c of
                       (Inl e, c') \<Rightarrow> (Raised e, c')
                     | (Inr r, c') \<Rightarrow> (Answered r, c'))
               else (Framework, c)
           | No_Match \<Rightarrow> (Framework, c)
           | view \<Rightarrow> (Client_View view cred, c)))"

section \<open>What an answer says about the request\<close>

lemma authenticate_Some:
  "authenticate_request now d rq = Inr (Some cred) \<longleftrightarrow>
     is_gateway_request rq \<and>
     (\<exists>raw. rq_headers rq ''X-API-Key'' = Some raw \<and> raw \<noteq> [] \<and> validate_key now raw d = Some cred)"
  by (auto simp: authenticate_request_def split: option.splits)

lemma handled_by_forward:
  assumes "handle_gateway G d now rq c = (Answered rs, c')" and "rs_status rs \<noteq> 401"
  shows "\<exists>cred path. authenticate_request now d rq = Inr (Some cred)
    \<and> gateway_endpoint (removeprefix (rq_path rq) ''/gateway/'') = Proxy path
    \<and> forward G d now rq (Some cred) path c = (Inr rs, c')"
  using assms
  by (auto simp: handle_gateway_def authenticate_request_def reject_def json_response_def
      split: sum.splits option.splits endpoint.splits if_splits prod.splits)

lemma reject_status [simp]: "rs_status (reject m s) = s" "rs_status (json_response k m s) = s"
  by (simp_all add: reject_def json_response_def)

text \<open>The three ways a request goes: refused before the limiter, an exception of the route lookup,
  or a verdict of the limiter.\<close>

definition after_limiter ::
    "'s gateway \<Rightarrow> http_request \<Rightarrow> app_user option \<Rightarrow> project \<Rightarrow> application \<Rightarrow> resolved_route
       \<Rightarrow> string \<Rightarrow> string \<Rightarrow> limiter_error + bool \<Rightarrow> exn + response" where
  "after_limiter G rq u p a r path pol verdict =
     (case verdict of
        Inl _ \<Rightarrow> Inr (reject ''Rate limiting temporarily unavailable. Please retry later.'' 503)
      | Inr False \<Rightarrow> Inr (json_response ''error'' ''Rate limit exceeded'' 429)
      | Inr True \<Rightarrow> preview_response G rq u p a r path pol)"

lemma forward_cases [consumes 1, case_names refused raised limited]:
  assumes "forward G d now rq (Some (k, a, p)) path c = (out, c')"
  obtains (refused) rs where "out = Inr rs" "rs_status rs \<in> {401, 403, 404, 405}"
      "c' = snd (get_route_for_request (gw_settings G) (gw_redis G) now d (prj_id p) path c)"
  | (raised) e where "out = Inl e"
      "get_route_for_request (gw_settings G) (gw_redis G) now d (prj_id p) path c = (Inl e, c')"
  | (limited) r c1 m u verdict where
      "get_route_for_request (gw_settings G) (gw_redis G) now d (prj_id p) path c = (Inr (Some r), c1)"
      "objects_first (\<lambda>m. rm_route m = rt_id (fst r) \<and> rm_method m = rq_method rq) (route_methods d) = Some m"
      "can_access d a (fst r)" "client_user_of G d now rq a (rm_auth_policy m) = Inr u"
      "limited_request (gw_settings G) (gw_redis G) (rate_key a) (fst (resolved_rate_limit a))
         (snd (resolved_rate_limit a)) now c1 = (verdict, c')"
      "out = after_limiter G rq u p a r path (rm_auth_policy m) verdict"
proof -
  obtain route c1 where g: "get_route_for_request (gw_settings G) (gw_redis G) now d (prj_id p) path c = (route, c1)"
    by force
  show ?thesis
  proof (cases route)
    case (Inl e)
    with assms g have "out = Inl e" "c1 = c'" by (auto simp: forward_def)
    with g Inl show ?thesis by (intro raised) auto
  next
    case ro: (Inr ro)
    show ?thesis
    proof (cases ro)
      case None
      with assms g ro show ?thesis by (intro refused [of "reject ''Route not found.'' 404"]) (auto simp: forward_def)
    next
      case r: (Some r)
      let ?m = "objects_first (\<lambda>m. rm_route m = rt_id (fst r) \<and> rm_method m = rq_method rq) (route_methods d)"
      show ?thesis
      proof (cases ?m)
        case None
        with assms g ro r show ?thesis
          by (intro refused [of "reject ''Method not allowed for this route.'' 405"]) (auto simp: forward_def)
      next
        case m: (Some m)
        show ?thesis
        proof (cases "can_access d a (fst r) \<and> (\<exists>u. client_user_of G d now rq a (rm_auth_policy m) = Inr u)")
          case False
          with assms g ro r m show ?thesis
            by (cases "can_access d a (fst r)"; cases "client_user_of G d now rq a (rm_auth_policy m)")
              (auto simp: forward_def intro: refused)
        next
          case True
          then obtain u where u: "can_access d a (fst r)" "client_user_of G d now rq a (rm_auth_policy m) = Inr u"
            by blast
          obtain L W where lw: "resolved_rate_limit a = (L, W)" by force
          obtain v c2 where l: "limited_request (gw_settings G) (gw_redis G) (rate_key a) L W now c1 = (v, c2)"
            by force
          have "c2 = c' \<and> out = after_limiter G rq u p a r path (rm_auth_policy m) v"
            using assms by (auto simp: forward_def g ro r m u lw l after_limiter_def split: sum.splits bool.splits)
          with l lw show ?thesis by (intro limited [OF g [unfolded ro r] m u]) auto
        qed
      qed
    qed
  qed
qed

lemma forward_success:
  assumes "forward G d now rq (Some (k, a, p)) path c = (Inr rs, c')" and "rs_status rs = 200"
  obtains r c1 m u where
    "get_route_for_request (gw_settings G) (gw_redis G) now d (prj_id p) path c = (Inr (Some r), c1)"
    "objects_first (\<lambda>m. rm_route m = rt_id (fst r) \<and> rm_method m = rq_method rq) (route_methods d) = Some m"
    "can_access d a (fst r)" "client_user_of G d now rq a (rm_auth_policy m) = Inr u"
    "limited_request (gw_settings G) (gw_redis G) (rate_key a) (fst (resolved_rate_limit a))
       (snd (resolved_rate_limit a)) now c1 = (Inr True, c')"
    "preview_response G rq u p a r path (rm_auth_policy m) = Inr rs"
  using assms
proof (cases rule: forward_cases)
  case (limited r c1 m u verdict)
  then have "verdict = Inr True" "preview_response G rq u p a r path (rm_auth_policy m) = Inr rs"
    using assms(2) by (auto simp: after_limiter_def split: sum.splits bool.splits)
  with limited that show ?thesis by simp
qed (use assms(2) in auto)

lemma preview_success:
  assumes "preview_response G rq u p a r path pol = Inr rs" and "rs_status rs = 200"
  obtains svc target where "snd r = Some svc" "svc_base_url svc \<noteq> []"
    "destination_of (gw_settings G) (svc_base_url svc) (rt_base_path (fst r)) path = Inr target"
    "build_payload G rq u p a r target pol = Inr (rs_body rs)"
  using assms
  by (auto simp: preview_response_def and_then_Inr reject_def json_response_def
      split: option.splits sum.splits if_splits)

lemma required_user:
  assumes "client_user_of G d now rq a pol = Inr u" and "pol = AUTH_API_KEY_AND_JWT"
  shows "\<exists>v. u = Some v \<and> v \<in> set (rows (clients d)) \<and> cu_is_active v \<and> cu_application v = app_id a"
  using assms
  by (auto simp: client_user_of_def and_then_Inr authenticate_client_bearer_def
      dest: verify_Inr(1-3) split: option.splits list.splits if_splits)

lemma destination_ok:
  assumes "destination_of S base base_path path = Inr target" and "base \<noteq> []"
  shows "build_target_url base_path base path = Inr target"
    and "\<exists>orig. origin_of target = Some orig
       \<and> Some orig \<in> set (map origin_of (GATEWAY_ALLOWED_BACKEND_ORIGINS S))"
    and "\<exists>orig. origin_of base = Some orig
       \<and> Some orig \<in> set (map origin_of (GATEWAY_ALLOWED_BACKEND_ORIGINS S))"
proof -
  from assms(1) obtain w where base: "validate_backend_base_url S base = Inr w"
    and built: "build_target_url base_path base path = Inr target"
    and ok: "validate_target_url S target = Inr target"
    by (auto simp: destination_of_def and_then_Inr validate_target_Inr)
  show "build_target_url base_path base path = Inr target" by (rule built)
  have "target \<noteq> []" using built by (auto simp: build_target_url_def Let_def normalize_path_def split: if_splits)
  with ok show "\<exists>orig. origin_of target = Some orig
       \<and> Some orig \<in> set (map origin_of (GATEWAY_ALLOWED_BACKEND_ORIGINS S))"
    by (auto simp: validate_target_Inr)
  show "\<exists>orig. origin_of base = Some orig
       \<and> Some orig \<in> set (map origin_of (GATEWAY_ALLOWED_BACKEND_ORIGINS S))"
    using validate_base_Inr [OF base assms(2)] assms(2) by (auto simp: validate_target_Inr)
qed

lemma route_from_snapshot_project: "route_from_snapshot i e = Inr r \<Longrightarrow> rt_project (fst r) = i"
  by (cases "jget ''id'' e"; cases "jget ''path'' e"; cases "the (jget ''id'' e)"; cases "the (jget ''path'' e)";
      cases "jget ''service'' e")
    (auto simp: route_from_snapshot_def snapshot_route_def and_then_Inr)

lemma resolved_project:
  assumes "get_route_for_request S R t d i path c = (Inr (Some r), c')"
  shows "rt_project (fst r) = i" and "request_base_path path \<noteq> ''/''"
    and "route_from_snapshot i (fst (get_route S R t d i (request_base_path path) c)) = Inr r"
proof -
  obtain e c1 where e: "get_route S R t d i (request_base_path path) c = (e, c1)" by force
  show "request_base_path path \<noteq> ''/''" "route_from_snapshot i (fst (get_route S R t d i (request_base_path path) c)) = Inr r"
    using assms by (auto simp: get_route_for_request_def Let_def e split: if_splits sum.splits)
  then show "rt_project (fst r) = i" by (blast dest: route_from_snapshot_project)
qed

lemma payload_members:
  assumes "build_payload G rq u p a r target pol = Inr body"
  shows "jget ''target_url'' body =
      Some (JStr (if rq_query_string rq = [] then target else target @ ''?'' @ rq_query_string rq))"
    and "jget ''application_id'' body = Some (JInt (app_id a))"
    and "jget ''project_id'' body = Some (JInt (prj_id p))"
    and "jget ''route_id'' body = Some (JInt (rt_id (fst r)))"
    and "jget ''backend_service_id'' body =
      Some (case rt_backend_service (fst r) of None \<Rightarrow> JNull | Some i \<Rightarrow> JInt i)"
    and "jget ''method'' body = Some (JStr (rq_method rq))"
    and "jget ''client_user_id'' body = Some (case u of None \<Rightarrow> JNull | Some v \<Rightarrow> JInt (cu_id v))"
    and "jget ''forwarded'' body = Some (JBool False)"
proof -
  obtain members where body: "body_members G rq = Inr members"
    using assms by (auto simp: build_payload_def and_then_Inr Let_def)
  note b = assms [unfolded build_payload_def body and_then.simps Let_def, THEN Inr_inject, symmetric]
  show "jget ''target_url'' body =
      Some (JStr (if rq_query_string rq = [] then target else target @ ''?'' @ rq_query_string rq))"
    and "jget ''application_id'' body = Some (JInt (app_id a))"
    and "jget ''project_id'' body = Some (JInt (prj_id p))"
    and "jget ''route_id'' body = Some (JInt (rt_id (fst r)))"
    and "jget ''backend_service_id'' body =
      Some (case rt_backend_service (fst r) of None \<Rightarrow> JNull | Some i \<Rightarrow> JInt i)"
    and "jget ''method'' body = Some (JStr (rq_method rq))"
    and "jget ''client_user_id'' body = Some (case u of None \<Rightarrow> JNull | Some v \<Rightarrow> JInt (cu_id v))"
    and "jget ''forwarded'' body = Some (JBool False)"
    by (simp_all add: b)
qed

section \<open>Lookups in a running system\<close>

context redis_server
begin

text \<open>A route the resolver returns is one some committed state of the database has, the present
  one while the route is settled; and the resolver never raises.\<close>

lemma resolved_from_row:
  assumes "race_inv s"
    and "get_route_for_request S R (c_now s) (c_db s) i path (c_client s) = (res, c')"
  shows "\<exists>ro. res = Inr ro"
    and "res = Inr (Some r) \<Longrightarrow> \<exists>d' row. row \<in> set (rows (routes d'))
      \<and> route_visible d' i (request_base_path path) row
      \<and> r = (let v = map_option (\<lambda>x. snapshot_service i (svc_id x) (svc_base_url x))
                        (Option.bind (rt_backend_service row) (service_of d'))
             in (snapshot_route (rt_project row) (rt_id row) (rt_base_path row) v, v))
      \<and> (unsettled s i (request_base_path path) \<or> d' = c_db s)"
proof -
  let ?b = "request_base_path path"
  have goal: "(\<exists>ro. res = Inr ro) \<and> (res = Inr (Some r) \<longrightarrow> (\<exists>d' row. row \<in> set (rows (routes d'))
      \<and> route_visible d' i ?b row
      \<and> r = (let v = map_option (\<lambda>x. snapshot_service i (svc_id x) (svc_base_url x))
                        (Option.bind (rt_backend_service row) (service_of d'))
             in (snapshot_route (rt_project row) (rt_id row) (rt_base_path row) v, v))
      \<and> (unsettled s i ?b \<or> d' = c_db s)))"
  proof (cases "?b = ''/''")
    case True
    then show ?thesis using assms(2) by (auto simp: get_route_for_request_def)
  next
    case False
    obtain e c1 where e: "get_route S R (c_now s) (c_db s) i ?b (c_client s) = (e, c1)" by force
    note cur = get_route_current [OF assms(1) request_base_path_one_segment [OF False] e]
    obtain d' where d': "read_route d' i ?b = e" "unsettled s i ?b \<or> d' = c_db s"
      using cur unfolding snapshot_of_def by metis
    have res: "res = (if e = JNull then Inr None
        else case route_from_snapshot i e of Inl x \<Rightarrow> Inl x | Inr r \<Rightarrow> Inr (Some r))"
      using assms(2) False by (auto simp: get_route_for_request_def e Let_def)
    show ?thesis
    proof (cases "e = JNull")
      case True
      then show ?thesis using res by simp
    next
      case False
      from snapshot_of_row [OF d'(1) False] obtain row v where row: "row \<in> set (rows (routes d'))"
        "route_visible d' i ?b row" "v = Option.bind (rt_backend_service row) (service_of d')"
        and snap: "route_from_snapshot i e =
             Inr (snapshot_route (rt_project row) (rt_id row) (rt_base_path row)
                    (map_option (\<lambda>x. snapshot_service i (svc_id x) (svc_base_url x)) v),
                  map_option (\<lambda>x. snapshot_service i (svc_id x) (svc_base_url x)) v)"
        by blast
      have "res = Inr (Some (snapshot_route (rt_project row) (rt_id row) (rt_base_path row)
                    (map_option (\<lambda>x. snapshot_service i (svc_id x) (svc_base_url x)) v),
                  map_option (\<lambda>x. snapshot_service i (svc_id x) (svc_base_url x)) v))"
        using res False snap by simp
      then show ?thesis using row d'(2) by (auto simp: Let_def)
    qed
  qed
  then show "\<exists>ro. res = Inr ro"
    and "res = Inr (Some r) \<Longrightarrow> \<exists>d' row. row \<in> set (rows (routes d'))
      \<and> route_visible d' i ?b row
      \<and> r = (let v = map_option (\<lambda>x. snapshot_service i (svc_id x) (svc_base_url x))
                        (Option.bind (rt_backend_service row) (service_of d'))
             in (snapshot_route (rt_project row) (rt_id row) (rt_base_path row) v, v))
      \<and> (unsettled s i ?b \<or> d' = c_db s)" by simp_all
qed

lemma race_inv_reachable:
  "invar (server c) \<Longrightarrow> view (server c) t = Map.empty \<Longrightarrow> runs_to S R (initial_cluster d c t) s \<Longrightarrow> race_inv s"
  using race_inv_runs [of S "initial_cluster d c t" s] race_inv_initial [of c t d]
  by (simp add: initial_cluster_def)

end

lemma forward_raises:
  assumes "forward G d now rq (Some (k, a, p)) path c = (Inl e, c')"
  shows "fst (get_route_for_request (gw_settings G) (gw_redis G) now d (prj_id p) path c) = Inl e
       \<or> (\<exists>u p a r pol. preview_response G rq u p a r path pol = Inl e)"
  using assms
proof (cases rule: forward_cases)
  case (limited r c1 m u verdict)
  then have "preview_response G rq u p a r path (rm_auth_policy m) = Inl e"
    by (auto simp: after_limiter_def split: sum.splits bool.splits)
  then show ?thesis by blast
qed simp_all

lemma body_raises:
  assumes "body_members G rq = Inl e"
  shows "e \<noteq> ValueError \<and> rq_body rq \<noteq> [] \<and> gw_loads G (rq_body rq) = Inl e"
  using assms
  by (cases "gw_loads G (rq_body rq)") (auto simp: body_members_def Let_def and_then_Inl split: if_splits)

lemma payload_raises: "build_payload G rq u p a r target pol = Inl e \<Longrightarrow> body_members G rq = Inl e"
  by (cases "body_members G rq") (simp_all add: build_payload_def Let_def)

lemma preview_raises:
  assumes "preview_response G rq u p a r path pol = Inl e"
  shows "e \<noteq> ValueError \<and> rq_body rq \<noteq> [] \<and> gw_loads G (rq_body rq) = Inl e"
proof -
  from assms obtain target where "build_payload G rq u p a r target pol = Inl e"
    by (auto simp: preview_response_def and_then_Inl split: option.splits sum.splits if_splits)
  then show ?thesis by (intro body_raises payload_raises)
qed

section \<open>What a request changes in Redis\<close>

definition rate_window_key :: "pk \<Rightarrow> int \<Rightarrow> string" where
  "rate_window_key application_id index =
     window_key (''gateway_rate:application:'' @ str_of_int application_id) index"

lemma rate_window_key_inject [simp]: "rate_window_key i w = rate_window_key j v \<longleftrightarrow> i = j \<and> w = v"
  by (simp add: rate_window_key_def)

lemma rate_key_window: "window_key (rate_key a) w = rate_window_key (app_id a) w"
  by (simp add: rate_window_key_def rate_key_def)

lemma rate_key_not_data [simp]: "rate_window_key i w \<noteq> data_key_of j b"
  by (simp add: rate_window_key_def window_key_def data_key_of_def cache_keys_def Let_def)

text \<open>The answers of the view that come before the limiter is asked.\<close>

definition refused_early :: "response \<Rightarrow> bool" where
  "refused_early rs \<longleftrightarrow> rs_status rs \<in> {401, 404, 405}
     \<or> rs = reject ''Application is not allowed to access this route.'' 403"

lemma after_limiter_late:
  assumes "after_limiter G rq u p a r path pol verdict = Inr rs"
  shows "\<not> refused_early rs"
proof -
  have early: "refused_early rs \<Longrightarrow> rs_status rs \<in> {401, 403, 404, 405}" by (auto simp: refused_early_def)
  have dest: "\<not> refused_early (reject ''Backend destination is not allowed.'' 403)"
    by (simp add: refused_early_def reject_def json_response_def)
  have "\<not> refused_early rs" if "preview_response G rq u p a r path pol = Inr rs"
    using that early dest
    by (auto simp: preview_response_def and_then_Inr split: option.splits sum.splits if_splits)
  then show ?thesis
    using assms early by (auto simp: after_limiter_def split: sum.splits bool.splits)
qed

context redis_server
begin

text \<open>A lookup writes at most its own data key.\<close>

definition only_data :: "instant \<Rightarrow> pk \<Rightarrow> string \<Rightarrow> 's client \<Rightarrow> 's client \<Rightarrow> bool" where
  "only_data t i b c c' \<longleftrightarrow> invar (server c')
     \<and> (\<forall>k. k \<noteq> data_key_of i b \<longrightarrow> view (server c') t k = view (server c) t k)"

lemma publish_only_data:
  assumes "invar (server c)" and "dk = data_key_of i b" and "0 < ttl"
  shows "only_data t i b c (snd (redis_call (publish_if_current R t vk dk g payload ttl) c))"
proof -
  let ?f = "publish_if_current R t vk dk g payload ttl"
  obtain v s1 where get: "r_get R t vk (server c) = (v, s1)" by force
  have s1: "invar s1" "view s1 t = view (server c) t"
    using get_invar [OF assms(1), of t vk] get_view [OF assms(1), of t vk] get by auto
  then have "invar (snd (?f (server c))) \<and>
      (\<forall>k. k \<noteq> dk \<longrightarrow> view (snd (?f (server c))) t k = view (server c) t k)"
    using assms(3) by (auto simp: publish_if_current_def get Let_def set_invar set_view store_set_ex_def)
  then show ?thesis
    using redis_call_server [of ?f c] assms(1,2) by (auto simp: only_data_def)
qed

lemma get_only_data: "invar (server c) \<Longrightarrow> only_data t i b c (snd (get_call R t k c))"
  using get_call_effect(1,2) [of c t k] by (simp add: only_data_def prod_eq_iff)

lemma reader_step_only_data:
  assumes "invar (server c)"
  shows "only_data t i b c (snd (reader_step S R t d i b p c))"
proof -
  have same: "only_data t i b c c'" if "server c' = server c" for c'
    using that assms by (simp add: only_data_def)
  have ttl: "0 < ROUTE_CACHE_TTL_SECONDS" by (simp add: ROUTE_CACHE_TTL_SECONDS_def)
  show ?thesis
  proof (cases p)
    case AtClient
    then show ?thesis
      by (auto intro!: same dest: get_redis_client_same split: sum.split prod.split)
  next
    case (AtData m)
    then show ?thesis
      using get_only_data [OF assms, of t i b "data_key_of i b"]
      by (cases m) (auto intro: same split: sum.split prod.split option.split)
  next
    case (AtVersion n)
    then show ?thesis
      using get_only_data [OF assms, of t i b "version_key_of i b"]
      by (auto split: sum.split prod.split)
  next
    case (AtPublish n g e)
    then show ?thesis
      using publish_only_data [OF assms refl ttl, of t i b "version_key_of i b" g "dumps e"]
      by (auto split: sum.split prod.split)
  qed (auto intro: same simp: Let_def)
qed

lemma reader_run_only_data:
  "invar (server c) \<Longrightarrow> only_data t i b c (snd (reader_run S R t d i b k p c))"
proof (induction k arbitrary: p c)
  case 0
  then show ?case by (simp add: only_data_def)
next
  case (Suc k)
  obtain q c1 where step: "reader_step S R t d i b p c = (q, c1)" by force
  have "only_data t i b c c1" using reader_step_only_data [OF Suc.prems, of t i b S d p] by (simp add: step)
  moreover from this have "only_data t i b c1 (snd (reader_run S R t d i b k q c1))"
    by (intro Suc.IH) (simp add: only_data_def)
  ultimately show ?case by (simp add: step only_data_def)
qed

lemma resolve_only_data:
  assumes "invar (server c)"
  shows "only_data t i (request_base_path path) c (snd (get_route_for_request S R t d i path c))"
proof -
  have "only_data t i (request_base_path path) c (snd (get_route S R t d i (request_base_path path) c))"
    using reader_run_only_data [OF assms, of t i "request_base_path path" S d 14 AtClient]
    by (simp add: reader_run_is_get_route split: prod.splits)
  then show ?thesis
    using assms by (auto simp: get_route_for_request_def Let_def only_data_def split: prod.split)
qed

text \<open>The store after a request: the rate counters are as before, or one was counted.\<close>

definition rate_effect :: "instant \<Rightarrow> pk \<Rightarrow> int \<Rightarrow> 's client \<Rightarrow> 's client \<Rightarrow> bool \<Rightarrow> bool" where
  "rate_effect t i limit c c' allowed \<longleftrightarrow> invar (server c')
     \<and> ((\<forall>j w. view (server c') t (rate_window_key j w) = view (server c) t (rate_window_key j w)) \<and> \<not> allowed
        \<or> (let spec = window_spec t (rate_window_key i (seconds t div 60)) limit (ttl_seconds (seconds t) 60)
                        (view (server c) t)
           in (\<forall>j w. view (server c') t (rate_window_key j w) = snd spec (rate_window_key j w))
              \<and> (allowed \<longrightarrow> fst spec = 1)))"

lemma limited_effect:
  assumes "only_data t j b c c1" and "holds_counter (rate_window_key (app_id a) (seconds t div 60)) (view (server c) t)"
    and "limited_request S R (rate_key a) limit 60 t c1 = (v, c')"
  shows "rate_effect t (app_id a) limit c c' (v = Inr True)"
proof -
  let ?k = "rate_window_key (app_id a) (seconds t div 60)"
  define spec where "spec = window_spec t ?k limit (ttl_seconds (seconds t) 60) (view (server c1) t)"
  have inv: "invar (server c1)" using assms(1) by (simp add: only_data_def)
  have same: "view (server c1) t (rate_window_key i w) = view (server c) t (rate_window_key i w)" for i w
    using assms(1) by (simp add: only_data_def)
  have counter: "counter_of ?k (view (server c1) t) = counter_of ?k (view (server c) t)"
    by (simp add: counter_of_def same)
  have holds: "holds_counter ?k (view (server c1) t)" using assms(2) by (simp add: holds_counter_def same)
  have spec: "fst spec = fst (window_spec t ?k limit (ttl_seconds (seconds t) 60) (view (server c) t))"
    "snd spec (rate_window_key i w) = snd (window_spec t ?k limit (ttl_seconds (seconds t) 60) (view (server c) t))
       (rate_window_key i w)" for i w
    by (simp_all add: spec_def window_spec_def counter same Let_def)
  obtain u c2 where lim: "new_rate_limiter S None c1 = (u, c2)" by force
  then have c2: "server c2 = server c1"
    using get_redis_client_same [of S None c1] by (auto simp: new_rate_limiter_def split: sum.splits prod.splits)
  show ?thesis
  proof (cases u)
    case (Inl e)
    then show ?thesis
      using assms(3) inv same c2 by (auto simp: limited_request_def lim rate_effect_def)
  next
    case (Inr x)
    then have call: "allow_request R (rate_key a) limit 60 t c2 = (v, c')"
      using assms(3) by (simp add: limited_request_def lim)
    have "view (server c') t = snd spec \<and> v \<in> {Inl RateLimitBackendUnavailable, Inr (fst spec = 1)}
       \<or> view (server c') t = view (server c1) t \<and> v = Inl RateLimitBackendUnavailable"
      using allow_request_effect [of c2 60 "rate_key a" t spec limit] inv holds call
      by (simp add: c2 rate_key_window spec_def)
    moreover have "invar (server c')"
      using allow_request_invar [of c2 "rate_key a" limit 60 t] inv by (simp add: call c2)
    ultimately show ?thesis
      using same spec by (auto simp: rate_effect_def Let_def)
  qed
qed

lemma forward_effect:
  assumes "invar (server c)" and "gw_redis G = R"
    and "holds_counter (rate_window_key (app_id a) (seconds t div 60)) (view (server c) t)"
    and "forward G d t rq (Some (k, a, p)) path c = (out, c')"
  shows "rate_effect t (app_id a) (fst (resolved_rate_limit a)) c c' (\<exists>rs. out = Inr rs \<and> rs_status rs = 200)"
proof -
  let ?look = "get_route_for_request (gw_settings G) (gw_redis G) t d (prj_id p) path c"
  have look: "only_data t (prj_id p) (request_base_path path) c (snd ?look)"
    using resolve_only_data [OF assms(1), of t "prj_id p" path "gw_settings G" d] assms(2) by simp
  then have same: "invar (server (snd ?look))"
    "view (server (snd ?look)) t (rate_window_key j w) = view (server c) t (rate_window_key j w)" for j w
    by (simp_all add: only_data_def)
  from assms(4) show ?thesis
  proof (cases rule: forward_cases)
    case (refused rs)
    then show ?thesis using same by (auto simp: rate_effect_def)
  next
    case (raised e)
    then show ?thesis using same by (auto simp: rate_effect_def)
  next
    case (limited r c1 m u verdict)
    have "rate_effect t (app_id a) (fst (resolved_rate_limit a)) c c' (verdict = Inr True)"
    proof (rule limited_effect [OF _ assms(3)])
      show "only_data t (prj_id p) (request_base_path path) c c1" using look limited(1) by simp
      show "limited_request (gw_settings G) R (rate_key a) (fst (resolved_rate_limit a)) 60 t c1 = (verdict, c')"
        using limited(5) assms(2) by (simp add: resolved_rate_limit_cases split: if_splits)
    qed
    moreover have "(\<exists>rs. out = Inr rs \<and> rs_status rs = 200) \<Longrightarrow> verdict = Inr True"
      using limited(6) by (auto simp: after_limiter_def split: sum.splits bool.splits)
    ultimately show ?thesis by (auto simp: rate_effect_def Let_def)
  qed
qed

lemma forward_refused_early:
  assumes "invar (server c)" and "gw_redis G = R" and "forward G d t rq (Some (k, a, p)) path c = (Inr rs, c')"
    and "refused_early rs"
  shows "view (server c') t (rate_window_key j w) = view (server c) t (rate_window_key j w)"
  using assms(3)
proof (cases rule: forward_cases)
  case (refused rs)
  then show ?thesis
    using resolve_only_data [OF assms(1), of t "prj_id p" path "gw_settings G" d] assms(2) by (simp add: only_data_def)
next
  case (limited r c1 m u verdict)
  then show ?thesis using after_limiter_late assms(4) by metis
qed simp

end

section \<open>Many requests\<close>

text \<open>Requests of one server in clock order, each with the database it sees.\<close>

type_synonym arrival = "db \<times> instant \<times> http_request"

fun handle_all :: "'s gateway \<Rightarrow> arrival list \<Rightarrow> 's client \<Rightarrow> outcome list \<times> 's client" where
  "handle_all G [] c = ([], c)"
| "handle_all G ((d, t, rq) # es) c =
     (case handle_gateway G d t rq c of (o1, c1) \<Rightarrow>
        (case handle_all G es c1 of (os, c2) \<Rightarrow> (o1 # os, c2)))"

fun previewed :: "pk \<Rightarrow> outcome \<Rightarrow> bool" where
  "previewed i (Answered rs) \<longleftrightarrow> rs_status rs = 200 \<and> jget ''application_id'' (rs_body rs) = Some (JInt i)"
| "previewed i _ \<longleftrightarrow> False"

fun previews :: "pk \<Rightarrow> int \<Rightarrow> arrival list \<Rightarrow> outcome list \<Rightarrow> nat" where
  "previews i w ((_, t, _) # es) (x # xs) =
     (if previewed i x \<and> seconds t div 60 = w then 1 else 0) + previews i w es xs"
| "previews i w _ _ = 0"

lemma validated_application: "validate_key now raw d = Some (k, a, p) \<Longrightarrow> a \<in> set (rows (applications d))"
  by (auto simp: validate_key_def application_of_def split: option.splits if_splits dest: objects_first_Some)

lemma handle_cases:
  assumes "handle_gateway G d t rq c = (x, c')"
  obtains "c' = c" "\<And>i. \<not> previewed i x"
  | k a p path out where "a \<in> set (rows (applications d))" "forward G d t rq (Some (k, a, p)) path c = (out, c')"
      "x = (case out of Inl e \<Rightarrow> Raised e | Inr r \<Rightarrow> Answered r)"
proof (cases "authenticate_request t d rq")
  case (Inl r)
  then have "rs_status r = 401"
    by (auto simp: authenticate_request_def split: if_splits option.splits)
  moreover have "x = Answered r" "c' = c" using Inl assms by (auto simp: handle_gateway_def)
  ultimately show ?thesis by (intro that(1)) auto
next
  case (Inr u)
  show ?thesis
  proof (cases u)
    case None
    with Inr that(1) show ?thesis using assms by (simp add: handle_gateway_def)
  next
    case (Some y)
    then obtain k a p where u: "u = Some (k, a, p)" using prod_cases3 by (metis surj_pair)
    then have "a \<in> set (rows (applications d))"
      using Inr validated_application by (auto simp: authenticate_Some)
    then show ?thesis
      using that assms Inr u
      by (auto simp: handle_gateway_def split: endpoint.splits if_splits prod.splits sum.splits)
  qed
qed

lemma forward_application:
  assumes "forward G d now rq (Some (k, a, p)) path c = (Inr rs, c')" and "rs_status rs = 200"
  shows "jget ''application_id'' (rs_body rs) = Some (JInt (app_id a))"
  using assms
proof (rule forward_success)
  fix r u pol
  assume "preview_response G rq u p a r path pol = Inr rs"
  then show ?thesis using assms(2) payload_members(2) by (rule preview_success)
qed

lemma tracks_same: "m wk = m' wk \<Longrightarrow> tracks wk B n m = tracks wk B n m'"
  by (simp add: tracks_def)

lemma previews_later:
  assumes "\<forall>e \<in> set es. window_end 60 w \<le> fst (snd e)"
  shows "previews i w es xs = 0"
  using assms
proof (induction i w es xs rule: previews.induct)
  case (1 i w d t rq es x xs)
  have "seconds t div 60 \<noteq> w"
    using before_window_end [of 60 t] 1(2) by (auto simp: not_less [symmetric])
  with 1 show ?case by simp
qed simp_all

context redis_server
begin

lemma handle_effect:
  assumes "invar (server c)" and "gw_redis G = R"
    and "\<And>j. holds_counter (rate_window_key j (seconds t div 60)) (view (server c) t)"
    and "handle_gateway G d t rq c = (x, c')"
  shows "(c' = c \<and> (\<forall>j. \<not> previewed j x))
    \<or> (\<exists>a ok. a \<in> set (rows (applications d)) \<and> rate_effect t (app_id a) (fst (resolved_rate_limit a)) c c' ok
         \<and> (\<forall>j. previewed j x \<longrightarrow> ok \<and> j = app_id a))"
  using assms(4)
proof (cases rule: handle_cases)
  case 1
  then show ?thesis by simp
next
  case (2 k a p path out)
  have eff: "rate_effect t (app_id a) (fst (resolved_rate_limit a)) c c' (\<exists>rs. out = Inr rs \<and> rs_status rs = 200)"
    by (rule forward_effect [OF assms(1,2,3) 2(2)])
  have "previewed j x \<Longrightarrow> (\<exists>rs. out = Inr rs \<and> rs_status rs = 200) \<and> j = app_id a" for j
  proof -
    assume j: "previewed j x"
    then obtain rs where rs: "out = Inr rs" "rs_status rs = 200" "jget ''application_id'' (rs_body rs) = Some (JInt j)"
      using 2(3) by (cases out) auto
    then show ?thesis using forward_application [OF 2(2) [unfolded rs(1)] rs(2)] by auto
  qed
  with eff 2(1) show ?thesis by blast
qed

text \<open>One application's window: the counter never falls behind the previews.\<close>

lemma handle_tracks:
  assumes "invar (server c)" and "gw_redis G = R"
    and "\<And>j. holds_counter (rate_window_key j (seconds t div 60)) (view (server c) t)"
    and "handle_gateway G d t rq c = (x, c')" and "tracks (rate_window_key i w) (window_end 60 w) n (view (server c) t)"
    and "\<forall>a \<in> set (rows (applications d)). app_id a = i \<longrightarrow> fst (resolved_rate_limit a) \<le> L"
  shows "invar (server c')"
    and "holds_counter (rate_window_key j v) (view (server c) t) \<Longrightarrow>
      holds_counter (rate_window_key j v) (view (server c') t)"
    and "\<exists>n'. tracks (rate_window_key i w) (window_end 60 w) n' (view (server c') t) \<and> n \<le> n'
      \<and> (previewed i x \<and> seconds t div 60 = w \<longrightarrow> n < n' \<and> n' \<le> L)"
proof -
  let ?wk = "rate_window_key i w" and ?B = "window_end 60 w"
  have "invar (server c') \<and> (holds_counter (rate_window_key j v) (view (server c) t) \<longrightarrow>
      holds_counter (rate_window_key j v) (view (server c') t))
    \<and> (\<exists>n'. tracks ?wk ?B n' (view (server c') t) \<and> n \<le> n'
      \<and> (previewed i x \<and> seconds t div 60 = w \<longrightarrow> n < n' \<and> n' \<le> L))"
  proof (cases "c' = c \<and> (\<forall>j. \<not> previewed j x)")
    case True
    then show ?thesis using assms(1,5) by auto
  next
    case False
    then obtain a ok where a: "a \<in> set (rows (applications d))"
      and eff: "rate_effect t (app_id a) (fst (resolved_rate_limit a)) c c' ok"
      and seen: "\<forall>j. previewed j x \<longrightarrow> ok \<and> j = app_id a"
      using handle_effect [OF assms(1-4)] by blast
    define spec where "spec = window_spec t (rate_window_key (app_id a) (seconds t div 60))
        (fst (resolved_rate_limit a)) (ttl_seconds (seconds t) 60) (view (server c) t)"
    from eff have inv: "invar (server c')"
      and alt: "(\<forall>j w. view (server c') t (rate_window_key j w) = view (server c) t (rate_window_key j w)) \<and> \<not> ok
        \<or> (\<forall>j w. view (server c') t (rate_window_key j w) = snd spec (rate_window_key j w)) \<and> (ok \<longrightarrow> fst spec = 1)"
      by (auto simp: rate_effect_def Let_def spec_def)
    have keep: "holds_counter k (view (server c) t) \<Longrightarrow> holds_counter k (snd spec)" for k
      unfolding spec_def by (rule holds_counter_window_spec)
    have same: "holds_counter k m = holds_counter k m'" if "m k = m' k" for k m m'
      using that by (simp add: holds_counter_def)
    from alt show ?thesis
    proof
      assume un: "(\<forall>j w. view (server c') t (rate_window_key j w) = view (server c) t (rate_window_key j w)) \<and> \<not> ok"
      then have "tracks ?wk ?B n (view (server c') t)" using assms(5) tracks_same [of "view (server c') t"] by blast
      moreover have "\<not> previewed i x" using un seen by blast
      moreover have "holds_counter (rate_window_key j v) (view (server c) t) \<Longrightarrow>
          holds_counter (rate_window_key j v) (view (server c') t)"
        using un same by blast
      ultimately show ?thesis using inv by blast
    next
      assume ch: "(\<forall>j w. view (server c') t (rate_window_key j w) = snd spec (rate_window_key j w))
        \<and> (ok \<longrightarrow> fst spec = 1)"
      then have holds: "holds_counter (rate_window_key j v) (view (server c) t) \<Longrightarrow>
          holds_counter (rate_window_key j v) (view (server c') t)"
        using keep same by blast
      have tr: "tracks ?wk ?B m (view (server c') t) = tracks ?wk ?B m (snd spec)" for m
        using ch by (intro tracks_same) blast
      have "\<exists>n'. tracks ?wk ?B n' (snd spec) \<and> n \<le> n'
          \<and> (previewed i x \<and> seconds t div 60 = w \<longrightarrow> n < n' \<and> n' \<le> L)"
      proof (cases "app_id a = i \<and> seconds t div 60 = w")
        case True
        then have "?B \<le> t + second * ttl_seconds (seconds t) 60" using expiry_after_window [of 60 t] by simp
        then have "tracks ?wk ?B (n + 1) (snd spec)"
          unfolding spec_def using True tracks_spec [OF assms(5)] by simp
        moreover have "n + 1 \<le> L" if "ok"
          using that ch tracks_counter [OF assms(5)] assms(6) a True
          by (auto simp: spec_def window_spec_def Let_def split: if_splits)
        ultimately show ?thesis using seen by (intro exI [of _ "n + 1"]) auto
      next
        case False
        then have "tracks ?wk ?B n (snd spec)"
          unfolding spec_def by (subst tracks_other) (use assms(5) in auto)
        then show ?thesis using False seen by blast
      qed
      then show ?thesis using inv holds tr by blast
    qed
  qed
  then show "invar (server c')"
    and "holds_counter (rate_window_key j v) (view (server c) t) \<Longrightarrow>
      holds_counter (rate_window_key j v) (view (server c') t)"
    and "\<exists>n'. tracks (rate_window_key i w) (window_end 60 w) n' (view (server c') t) \<and> n \<le> n'
      \<and> (previewed i x \<and> seconds t div 60 = w \<longrightarrow> n < n' \<and> n' \<le> L)" by blast+
qed

lemma handle_all_bound:
  assumes "invar (server c)" and "gw_redis G = R" and "sorted (t0 # map (\<lambda>e. fst (snd e)) es)"
    and "\<And>j v. holds_counter (rate_window_key j v) (view (server c) t0)"
    and "\<forall>e \<in> set es. \<forall>a \<in> set (rows (applications (fst e))). app_id a = i \<longrightarrow> fst (resolved_rate_limit a) \<le> L"
    and "tracks (rate_window_key i w) (window_end 60 w) n (view (server c) t0)"
  shows "int (previews i w es (fst (handle_all G es c))) \<le> max 0 (L - n)"
  using assms
proof (induction es arbitrary: c t0 n)
  case Nil
  then show ?case by simp
next
  case (Cons e es)
  obtain d t rq where e: "e = (d, t, rq)" using prod_cases3 by blast
  obtain x c' where x: "handle_gateway G d t rq c = (x, c')" by force
  have le: "t0 \<le> t" and later: "sorted (t # map (\<lambda>e. fst (snd e)) es)" using Cons.prems(3) by (auto simp: e)
  have count: "previews i w (e # es) (fst (handle_all G (e # es) c)) =
      (if previewed i x \<and> seconds t div 60 = w then 1 else 0) + previews i w es (fst (handle_all G es c'))"
    by (simp add: e x split: prod.split)
  show ?case
  proof (cases "t < window_end 60 w")
    case False
    then have "\<forall>e \<in> set (e # es). window_end 60 w \<le> fst (snd e)" using later by (auto simp: e)
    then have "previews i w (e # es) (fst (handle_all G (e # es) c)) = 0" by (rule previews_later)
    then show ?thesis by linarith
  next
    case True
    have m: "view (server c) t = aged t (view (server c) t0)" using view_aged [OF Cons.prems(1) le] .
    have tr: "tracks (rate_window_key i w) (window_end 60 w) n (view (server c) t)"
      using tracks_aged [OF Cons.prems(6) True] m by simp
    have hc: "holds_counter (rate_window_key j v) (view (server c) t)" for j v
      unfolding m by (rule holds_counter_aged [OF Cons.prems(4)])
    have lim: "\<forall>a \<in> set (rows (applications d)). app_id a = i \<longrightarrow> fst (resolved_rate_limit a) \<le> L"
      using Cons.prems(5) by (auto simp: e)
    note step = handle_tracks [OF Cons.prems(1,2) hc x tr lim]
    obtain n' where n': "tracks (rate_window_key i w) (window_end 60 w) n' (view (server c') t)" "n \<le> n'"
      "previewed i x \<and> seconds t div 60 = w \<longrightarrow> n < n' \<and> n' \<le> L"
      using step(3) by blast
    have "int (previews i w es (fst (handle_all G es c'))) \<le> max 0 (L - n')"
    proof (rule Cons.IH [OF step(1) Cons.prems(2) later _ _ n'(1)])
      show "holds_counter (rate_window_key j v) (view (server c') t)" for j v by (rule step(2) [OF hc])
      show "\<forall>e \<in> set es. \<forall>a \<in> set (rows (applications (fst e))). app_id a = i \<longrightarrow> fst (resolved_rate_limit a) \<le> L"
        using Cons.prems(5) by (simp add: e)
    qed
    then show ?thesis unfolding count using n'(2,3) by auto
  qed
qed

end

section \<open>A request on the test double\<close>

text \<open>The Redis read of the route is lost, the limiter's call is delivered.\<close>

definition sample_method :: route_method where
  "sample_method = \<lparr>rm_id = 9, rm_route = 7, rm_method = ''GET'', rm_auth_policy = AUTH_API_KEY_ONLY\<rparr>"

definition sample_gateway_db :: db where
  "sample_gateway_db = sample_db\<lparr>services := \<lparr>rows = [sample_service], last_pk = 5\<rparr>,
     routes := \<lparr>rows = [sample_route], last_pk = 7\<rparr>,
     route_methods := \<lparr>rows = [sample_method], last_pk = 9\<rparr>\<rparr>"

definition sample_gateway :: "fake gateway" where
  "sample_gateway = \<lparr>gw_settings = sample_settings, gw_redis = fake_redis, gw_jwt = sample_jwt,
     gw_loads = (\<lambda>_. Inl ValueError), gw_decode = (\<lambda>_. None)\<rparr>"

definition sample_rq :: http_request where
  "sample_rq = \<lparr>rq_method = ''GET'', rq_path = ''/gateway/doctors/4'', rq_query_string = [], rq_get = [],
     rq_headers = [''X-API-Key'' \<mapsto> ''ak_live_t''], rq_content_type = None, rq_body = []\<rparr>"

lemma sample_gateway_db_ok: "tables_ok sample_gateway_db"
  by (simp add: tables_ok_def sample_gateway_db_def sample_defs empty_db_def wf_table_empty)
    (simp add: wf_table_def table_ok_def empty_table_def sample_service_def sample_route_def sample_method_def
      one_segment_iff)

lemma sample_gateway_simps [simp]:
  "gw_settings sample_gateway = sample_settings" "gw_redis sample_gateway = fake_redis"
  by (simp_all add: sample_gateway_def)

lemma sample_path: "request_base_path ''doctors/4'' = ''/doctors''" "normalize_path ''doctors/4'' = ''/doctors/4''"
  by (simp_all add: request_base_path_def normalize_path_def strip_def lstrip_def rstrip_def is_slash_def)

lemma sample_auth:
  assumes "rq_path rq = ''/gateway/doctors/4''" and "rq_headers rq = [''X-API-Key'' \<mapsto> ''ak_live_t'']"
  shows "authenticate_request 0 sample_gateway_db rq = Inr (Some (sample_key, sample_application, sample_project))"
proof -
  have "validate_key 0 ''ak_live_t'' sample_gateway_db = Some (sample_key, sample_application, sample_project)"
    unfolding validate_key_Some [OF tables_ok_keys [OF sample_gateway_db_ok]]
    by (simp add: sample_gateway_db_def application_of_def project_of_def objects_first_def sample_defs
        key_is_active_def days_def second_def)
  then show ?thesis by (auto simp: authenticate_Some assms is_gateway_request_def)
qed

lemma sample_lookup:
  "get_route_for_request sample_settings fake_redis 0 sample_gateway_db 1 ''doctors/4''
      (sample_client [Request_Lost]) =
    (Inr (Some (snapshot_route 1 7 ''/doctors'' (Some (snapshot_service 1 5 ''http://d:8000'')),
                Some (snapshot_service 1 5 ''http://d:8000''))),
     snd (get_redis_client sample_settings None (sample_client [])))"
proof -
  obtain vk dk where ks: "cache_keys 1 ''/doctors'' = Inr (vk, dk)"
    using cache_keys_one_segment [OF doctors_segment] by blast
  have entry: "read_route sample_gateway_db 1 ''/doctors'' = route_entry sample_route (Some sample_service)"
    by (simp add: read_route_def objects_first_def route_visible_def service_of_def
        sample_gateway_db_def sample_route_def sample_service_def)
  have three: "(3::nat) = Suc 2" by simp
  have "get_route sample_settings fake_redis 0 sample_gateway_db 1 ''/doctors'' (sample_client [Request_Lost]) =
      (route_entry sample_route (Some sample_service), snd (get_redis_client sample_settings None (sample_client [])))"
    unfolding get_route_def ks three cache_attempts.simps
    by (simp add: get_redis_client_def cached_client_def sample_settings_def dev_settings_def sample_client_def
        get_call_def redis_call_def Let_def entry)
  then show ?thesis
    by (simp add: get_route_for_request_def sample_path route_entry_def service_entry_def route_from_snapshot_def
        service_from_snapshot_def sample_route_def sample_service_def)
qed

lemma sample_limited:
  "\<exists>c. limited_request sample_settings fake_redis (rate_key sample_application) 100 60 0
      (snd (get_redis_client sample_settings None (sample_client []))) = (Inr True, c)"
  by (simp add: limited_request_def new_rate_limiter_def get_redis_client_def cached_client_def sample_settings_def
      dev_settings_def allow_request_def redis_call_def sample_client_def fixed_window_script_def fake_redis_def
      fake_incr_def fake_expire_def fake_read_def empty_fake_def Let_def)

definition sample_resolved :: resolved_route where
  "sample_resolved = (snapshot_route 1 7 ''/doctors'' (Some (snapshot_service 1 5 ''http://d:8000'')),
     Some (snapshot_service 1 5 ''http://d:8000''))"

lemma sample_preview:
  assumes "gw_settings G = sample_settings"
  shows "preview_response G rq u p a sample_resolved ''doctors/4'' pol =
    and_then (build_payload G rq u p a sample_resolved ''http://d:8000/doctors/4'' pol)
      (\<lambda>payload. Inr \<lparr>rs_status = 200, rs_body = payload\<rparr>)"
proof -
  have "build_target_url ''/doctors'' ''http://d:8000'' ''doctors/4'' = Inr ''http://d:8000/doctors/4''"
    by (simp add: build_target_url_def normalize_path_def strip_def lstrip_def rstrip_def is_slash_def Let_def)
  moreover have "origin_of ''http://d:8000/doctors/4'' = Some (''http'', ''d'', 8000)"
    by (simp add: url_defs)
  then have "validate_target_url sample_settings ''http://d:8000/doctors/4'' = Inr ''http://d:8000/doctors/4''"
    by (simp add: validate_target_url_def sample_origin sample_settings_def)
  ultimately show ?thesis
    by (simp add: preview_response_def snapshot_route_def snapshot_service_def destination_of_def sample_base
        assms sample_resolved_def)
qed

lemma sample_forward:
  assumes "gw_settings G = sample_settings" and "gw_redis G = fake_redis"
    and "rq_path rq = ''/gateway/doctors/4''" and "rq_headers rq = [''X-API-Key'' \<mapsto> ''ak_live_t'']"
    and "rq_method rq = ''GET''"
  shows "\<exists>c'. handle_gateway G sample_gateway_db 0 rq (sample_client [Request_Lost]) =
    (case preview_response G rq None sample_project sample_application sample_resolved ''doctors/4'' AUTH_API_KEY_ONLY of
       Inl e \<Rightarrow> (Raised e, c') | Inr r \<Rightarrow> (Answered r, c'))"
proof -
  obtain c2 where lim: "limited_request sample_settings fake_redis (rate_key sample_application) 100 60 0
      (snd (get_redis_client sample_settings None (sample_client []))) = (Inr True, c2)"
    using sample_limited by blast
  have ends: "gateway_endpoint (removeprefix (rq_path rq) ''/gateway/'') = Proxy ''doctors/4''"
    by (simp add: gateway_endpoint_def assms removeprefix_def code_def)
  have r: "rt_id (fst sample_resolved) = 7" "rt_project (fst sample_resolved) = 1"
    by (simp_all add: sample_resolved_def snapshot_route_def)
  have m: "objects_first (\<lambda>m. rm_route m = 7 \<and> rm_method m = ''GET'') (route_methods sample_gateway_db)
      = Some sample_method"
    by (simp add: objects_first_def sample_gateway_db_def sample_method_def)
  have acc: "can_access sample_gateway_db sample_application (fst sample_resolved)"
    by (simp add: can_access_def has_permission_def r objects_exists_def sample_gateway_db_def sample_defs
        empty_db_def empty_table_def)
  have user: "client_user_of G sample_gateway_db 0 rq sample_application AUTH_API_KEY_ONLY = Inr None"
    by (simp add: client_user_of_def AUTH_API_KEY_ONLY_def AUTH_API_KEY_AND_JWT_def)
  have plan: "resolved_rate_limit sample_application = (100, 60)"
    by (simp add: resolved_rate_limit_cases sample_application_def PLAN_NORMAL_def PLAN_PREMIUM_def)
  have p: "prj_id sample_project = 1" "rm_auth_policy sample_method = AUTH_API_KEY_ONLY"
    by (simp_all add: sample_project_def sample_method_def)
  have "forward G sample_gateway_db 0 rq (Some (sample_key, sample_application, sample_project))
      ''doctors/4'' (sample_client [Request_Lost]) =
      (preview_response G rq None sample_project sample_application sample_resolved ''doctors/4'' AUTH_API_KEY_ONLY, c2)"
    by (simp add: forward_def assms p sample_lookup [folded sample_resolved_def] r m acc user plan lim)
  then show ?thesis
    using sample_auth [OF assms(3,4)] ends
    by (auto simp: handle_gateway_def proxied_method_def assms(5) split: sum.split)
qed

lemma sample_answer:
  "\<exists>rs c'. handle_gateway sample_gateway sample_gateway_db 0 sample_rq (sample_client [Request_Lost])
     = (Answered rs, c') \<and> rs_status rs = 200 \<and> jget ''target_url'' (rs_body rs) = Some (JStr ''http://d:8000/doctors/4'')"
proof -
  have rq: "rq_path sample_rq = ''/gateway/doctors/4''" "rq_headers sample_rq = [''X-API-Key'' \<mapsto> ''ak_live_t'']"
    "rq_method sample_rq = ''GET''" by (simp_all add: sample_rq_def)
  show ?thesis
    using sample_forward [of sample_gateway sample_rq, OF _ _ rq]
    by (auto simp: sample_preview build_payload_def body_members_def sample_rq_def Let_def)
qed

section \<open>Properties\<close>




definition deep_gateway :: "fake gateway" where
  "deep_gateway = sample_gateway\<lparr>gw_loads := \<lambda>_. Inl RecursionError\<rparr>"

definition deep_rq :: http_request where
  "deep_rq = sample_rq\<lparr>rq_content_type := Some ''application/json'', rq_body := [91, 91]\<rparr>"

lemma deep_answer:
  "\<exists>c'. handle_gateway deep_gateway sample_gateway_db 0 deep_rq (sample_client [Request_Lost])
     = (Raised RecursionError, c')"
proof -
  have rq: "rq_path deep_rq = ''/gateway/doctors/4''" "rq_headers deep_rq = [''X-API-Key'' \<mapsto> ''ak_live_t'']"
    "rq_method deep_rq = ''GET''" by (simp_all add: deep_rq_def sample_rq_def)
  have "gw_settings deep_gateway = sample_settings" "gw_redis deep_gateway = fake_redis"
    by (simp_all add: deep_gateway_def)
  from sample_forward [OF this rq] show ?thesis
    by (auto simp: sample_preview build_payload_def body_members_def deep_rq_def deep_gateway_def Let_def)
qed


text \<open>
  C10: Once the invalidations of the past writes have run, a preview shows the present
  configuration: the route and the service it names are active rows of the database of this
  moment, both of the project that owns the API key, the route is stored under the request's first
  path segment, and the target is that service's base URL followed by the request path.
\<close>

theorem settled_preview_is_current:
  assumes "redis_server (gw_redis G) view invar" and "invar (server c)" and "view (server c) t = Map.empty"
    and "runs_to (gw_settings G) (gw_redis G) (initial_cluster d c t) s"
    and "handle_gateway G (c_db s) (c_now s) rq (c_client s) = (Answered rs, c')" and "rs_status rs = 200"
    and "\<And>i b. \<not> unsettled s i b"
  shows "\<exists>k a p path row svc target.
      authenticate_request (c_now s) (c_db s) rq = Inr (Some (k, a, p))
    \<and> gateway_endpoint (removeprefix (rq_path rq) ''/gateway/'') = Proxy path
    \<and> row \<in> set (rows (routes (c_db s))) \<and> rt_is_active row \<and> rt_project row = prj_id p
    \<and> rt_base_path row = request_base_path path
    \<and> Option.bind (rt_backend_service row) (service_of (c_db s)) = Some svc
    \<and> svc_is_active svc \<and> svc_project svc = prj_id p
    \<and> target = rstrip is_slash (svc_base_url svc) @ normalize_path path
    \<and> jget ''target_url'' (rs_body rs) =
        Some (JStr (if rq_query_string rq = [] then target else target @ ''?'' @ rq_query_string rq))
    \<and> jget ''route_id'' (rs_body rs) = Some (JInt (rt_id row))
    \<and> jget ''backend_service_id'' (rs_body rs) = Some (JInt (svc_id svc))
    \<and> jget ''project_id'' (rs_body rs) = Some (JInt (prj_id p))
    \<and> jget ''application_id'' (rs_body rs) = Some (JInt (app_id a))"
proof -
  have inv: "redis_server.race_inv view invar s"
    by (rule redis_server.race_inv_reachable [OF assms(1-4)])
  obtain cred path where auth: "authenticate_request (c_now s) (c_db s) rq = Inr (Some cred)"
    and path: "gateway_endpoint (removeprefix (rq_path rq) ''/gateway/'') = Proxy path"
    and fwd: "forward G (c_db s) (c_now s) rq (Some cred) path (c_client s) = (Inr rs, c')"
    using handled_by_forward [OF assms(5)] assms(6) by auto
  obtain k a p where cred: "cred = (k, a, p)" using prod_cases3 by blast
  from forward_success [OF fwd [unfolded cred] assms(6)]
  obtain r c1 m u where route: "get_route_for_request (gw_settings G) (gw_redis G) (c_now s) (c_db s) (prj_id p) path
        (c_client s) = (Inr (Some r), c1)"
    and "objects_first (\<lambda>m. rm_route m = rt_id (fst r) \<and> rm_method m = rq_method rq) (route_methods (c_db s)) = Some m"
    and "can_access (c_db s) a (fst r)" and "client_user_of G (c_db s) (c_now s) rq a (rm_auth_policy m) = Inr u"
    and "limited_request (gw_settings G) (gw_redis G) (rate_key a) (fst (resolved_rate_limit a))
       (snd (resolved_rate_limit a)) (c_now s) c1 = (Inr True, c')"
    and prev: "preview_response G rq u p a r path (rm_auth_policy m) = Inr rs" .
  from preview_success [OF prev assms(6)] obtain v target where v: "snd r = Some v" "svc_base_url v \<noteq> []"
    and dest: "destination_of (gw_settings G) (svc_base_url v) (rt_base_path (fst r)) path = Inr target"
    and body: "build_payload G rq u p a r target (rm_auth_policy m) = Inr (rs_body rs)" .
  from redis_server.resolved_from_row(2) [OF assms(1) inv route refl] obtain d' row
    where "row \<in> set (rows (routes d'))" "route_visible d' (prj_id p) (request_base_path path) row"
      "r = (let v = map_option (\<lambda>x. snapshot_service (prj_id p) (svc_id x) (svc_base_url x))
                        (Option.bind (rt_backend_service row) (service_of d'))
             in (snapshot_route (rt_project row) (rt_id row) (rt_base_path row) v, v))"
      and "unsettled s (prj_id p) (request_base_path path) \<or> d' = c_db s"
    by (elim exE conjE)
  moreover from this have "d' = c_db s" using assms(7) by simp
  ultimately have row: "row \<in> set (rows (routes (c_db s)))"
      "route_visible (c_db s) (prj_id p) (request_base_path path) row"
    and r: "r = (let v = map_option (\<lambda>x. snapshot_service (prj_id p) (svc_id x) (svc_base_url x))
                        (Option.bind (rt_backend_service row) (service_of (c_db s)))
             in (snapshot_route (rt_project row) (rt_id row) (rt_base_path row) v, v))" by simp_all
  obtain svc where svc: "Option.bind (rt_backend_service row) (service_of (c_db s)) = Some svc"
    and v': "v = snapshot_service (prj_id p) (svc_id svc) (svc_base_url svc)"
    using r v(1) by (auto simp: Let_def)
  have vis: "rt_is_active row" "rt_project row = prj_id p" "rt_base_path row = request_base_path path"
    "svc_is_active svc" "svc_project svc = prj_id p"
    using row(2) svc by (auto simp: route_visible_def)
  have r': "rt_id (fst r) = rt_id row" "rt_base_path (fst r) = request_base_path path"
    "rt_backend_service (fst r) = Some (svc_id svc)" "svc_base_url v = svc_base_url svc"
    using r svc vis by (simp_all add: Let_def snapshot_route_def snapshot_service_def v')
  have target: "target = rstrip is_slash (svc_base_url svc) @ normalize_path path"
    using destination_ok(1) [OF dest v(2)] build_target_resolved resolved_project(2) [OF route] by (simp add: r')
  show ?thesis
    using auth cred path row(1) vis svc target payload_members [OF body] by (intro exI conjI) (auto simp: r')
qed

theorem settled_preview_is_current_witness:
  "\<exists>rs c'. handle_gateway sample_gateway sample_gateway_db 0 sample_rq (sample_client [Request_Lost]) = (Answered rs, c')
     \<and> jget ''route_id'' (rs_body rs) = Some (JInt 7)
     \<and> (\<exists>row. row \<in> set (rows (routes sample_gateway_db)) \<and> jget ''route_id'' (rs_body rs) = Some (JInt (rt_id row)))"
proof -
  let ?s = "initial_cluster sample_gateway_db (sample_client [Request_Lost]) 0"
  obtain rs c' where a: "handle_gateway sample_gateway sample_gateway_db 0 sample_rq (sample_client [Request_Lost])
     = (Answered rs, c')" and s: "rs_status rs = 200"
    using sample_answer by blast
  have "redis_server (gw_redis sample_gateway) fake_view fake_ok" using fake.redis_server_axioms by simp
  from settled_preview_is_current [OF this _ _ runs_to_refl, of "sample_client [Request_Lost]" 0 sample_gateway_db
      sample_rq rs c'] a s
  have "\<exists>row. row \<in> set (rows (routes sample_gateway_db)) \<and> jget ''route_id'' (rs_body rs) = Some (JInt (rt_id row))"
    unfolding initial_cluster_def by (simp add: unsettled_def) blast
  then show ?thesis using a by (auto simp: sample_gateway_db_def sample_route_def)
qed

text \<open>
  C38: A request refused before the limiter costs the application nothing: whether the key, the
  route, the method, the permission or the user token was wrong, no rate counter of any
  application changes, also when Redis calls are lost on the way.
\<close>

theorem refused_requests_are_free:
  assumes "redis_server (gw_redis G) view invar" and "invar (server c)"
    and "handle_gateway G d now rq c = (Answered rs, c')" and "refused_early rs"
  shows "view (server c') now (rate_window_key j w) = view (server c) now (rate_window_key j w)"
  using assms(3)
proof (cases rule: handle_cases)
  case (2 k a p path out)
  then have "out = Inr rs" by (auto split: sum.splits)
  with 2(2) show ?thesis
    using redis_server.forward_refused_early [OF assms(1,2) refl _ assms(4)] by blast
qed simp

lemma sample_refused:
  "\<exists>c'. handle_gateway sample_gateway empty_db 0 sample_rq (sample_client []) =
     (Answered (reject ''Invalid or expired API key.'' 401), c')"
  by (simp add: handle_gateway_def authenticate_request_def sample_rq_def is_gateway_request_def validate_key_def
      objects_first_def empty_db_def empty_table_def)

theorem refused_requests_are_free_witness:
  "fake_view (server (snd (handle_gateway sample_gateway empty_db 0 sample_rq (sample_client [])))) 0
     (rate_window_key 1 0) = None"
proof -
  obtain c' where a: "handle_gateway sample_gateway empty_db 0 sample_rq (sample_client []) =
     (Answered (reject ''Invalid or expired API key.'' 401), c')"
    using sample_refused by blast
  have "redis_server (gw_redis sample_gateway) fake_view fake_ok" using fake.redis_server_axioms by simp
  from refused_requests_are_free [OF this _ a] show ?thesis
    by (simp add: a refused_early_def)
qed

text \<open>
  C4: The promise of a plan, end to end: however many requests arrive at the gateway, for
  whatever routes, keys and tenants, with whatever network faults, an application is shown at
  most as many previews in one minute as its plan allows.
\<close>

theorem plan_bounds_previews:
  assumes "redis_server (gw_redis G) view invar" and "invar (server c)"
    and "sorted (start # map (\<lambda>e. fst (snd e)) es)"
    and "\<And>j v. holds_counter (rate_window_key j v) (view (server c) start)"
    and "\<forall>e \<in> set es. \<forall>a \<in> set (rows (applications (fst e))). app_id a = i \<longrightarrow> fst (resolved_rate_limit a) \<le> L"
    and "view (server c) start (rate_window_key i w) = None" and "0 \<le> L"
  shows "int (previews i w es (fst (handle_all G es c))) \<le> L"
proof -
  have "tracks (rate_window_key i w) (window_end 60 w) 0 (view (server c) start)"
    using assms(6) by (simp add: tracks_def)
  then show ?thesis
    using redis_server.handle_all_bound [OF assms(1,2) refl assms(3-5)] assms(7) by fastforce
qed

theorem plan_bounds_previews_witness:
  "int (previews 1 0 (replicate 500 (sample_gateway_db, 0, sample_rq))
     (fst (handle_all sample_gateway (replicate 500 (sample_gateway_db, 0, sample_rq)) (sample_client [])))) \<le> 100"
proof (rule plan_bounds_previews [where start = 0])
  show "redis_server (gw_redis sample_gateway) fake_view fake_ok" using fake.redis_server_axioms by simp
  show "sorted (0 # map (\<lambda>e. fst (snd e)) (replicate 500 (sample_gateway_db, 0, sample_rq)))"
    by (simp add: map_replicate)
  have "rows (applications sample_gateway_db) = [sample_application]"
    by (simp add: sample_gateway_db_def sample_defs)
  then show "\<forall>e \<in> set (replicate 500 (sample_gateway_db, 0, sample_rq)).
      \<forall>a \<in> set (rows (applications (fst e))). app_id a = 1 \<longrightarrow> fst (resolved_rate_limit a) \<le> 100"
    by (simp add: resolved_rate_limit_cases sample_application_def PLAN_NORMAL_def PLAN_PREMIUM_def)
qed simp_all

text \<open>
  No header is echoed. Headers matter only through whom they identify: two requests that
  differ in nothing but headers, carry keys of the same credential and identify the same
  application user get the same answer and have the same effect.
\<close>

lemma headers_are_not_echoed:
  assumes "authenticate_request now d (rq\<lparr>rq_headers := h\<rparr>) = authenticate_request now d rq"
    and "\<And>a pol. client_user_of G d now (rq\<lparr>rq_headers := h\<rparr>) a pol = client_user_of G d now rq a pol"
  shows "handle_gateway G d now (rq\<lparr>rq_headers := h\<rparr>) c = handle_gateway G d now rq c"
proof -
  have rest: "rq_method (rq\<lparr>rq_headers := h\<rparr>) = rq_method rq"
    "rq_path (rq\<lparr>rq_headers := h\<rparr>) = rq_path rq" by simp_all
  have body: "body_members G (rq\<lparr>rq_headers := h\<rparr>) = body_members G rq" by (simp add: body_members_def)
  have payload: "build_payload G (rq\<lparr>rq_headers := h\<rparr>) u p a r target pol = build_payload G rq u p a r target pol"
    for u p a r target pol by (simp add: build_payload_def body)
  have preview: "preview_response G (rq\<lparr>rq_headers := h\<rparr>) u p a r path pol = preview_response G rq u p a r path pol"
    for u p a r path pol by (simp add: preview_response_def payload split: option.split sum.split)
  have fwd: "forward G d now (rq\<lparr>rq_headers := h\<rparr>) cred path c = forward G d now rq cred path c" for cred path
    unfolding forward_def assms(2) preview rest by (rule refl)
  show ?thesis unfolding handle_gateway_def assms(1) rest fwd by (rule refl)
qed

end
