(* ===== verification/ClientViews.thy ===== *)
theory ClientViews
  imports Gateway
begin

text \<open>
  \<open>apps/client_auth/views.py\<close> and \<open>serializers.py\<close>: registration, login and refresh of an
  application's end users behind the API-key middleware, and the administrator's views of them.

  The field classes of the REST framework and Django's password hasher and validators are not
  part of the repository: \<open>forms\<close> carries them. A form that is rejected is a
  \<open>ValidationError\<close>, which the framework answers with status 400. A registration reads the
  database \<open>d\<close> for its check and writes to \<open>d2\<close>, which other requests may have changed since.
\<close>

section \<open>Forms\<close>

record forms =
  email_field :: "json option \<Rightarrow> string option"
  char_field :: "nat option \<Rightarrow> json option \<Rightarrow> string option"
  password_acceptable :: "string \<Rightarrow> bool"
  make_password :: "string \<Rightarrow> string \<Rightarrow> string"
  check_password :: "string \<Rightarrow> string \<Rightarrow> bool"

definition validate_email :: "string \<Rightarrow> string" where
  "validate_email s = py_lower (strip py_isspace s)"

definition bad_fields :: exn where
  "bad_fields = ValidationError ''fields''"

definition register_form :: "forms \<Rightarrow> json \<Rightarrow> exn + (string \<times> string)" where
  "register_form F data =
     (case data of
        JObj members \<Rightarrow>
          (case (email_field F (jget ''email'' data), char_field F (Some 128) (jget ''password'' data)) of
             (Some email, Some password) \<Rightarrow>
               if \<exists>x \<in> set (map fst members). x \<notin> {''email'', ''password''}
               then Inl (ValidationError ''Only email and password can be supplied for registration.'')
               else if \<not> password_acceptable F password then Inl (ValidationError ''password'')
               else Inr (validate_email email, password)
           | _ \<Rightarrow> Inl bad_fields)
      | _ \<Rightarrow> Inl bad_fields)"

definition login_form :: "forms \<Rightarrow> json \<Rightarrow> exn + (string \<times> string)" where
  "login_form F data =
     (case data of
        JObj members \<Rightarrow>
          (case (email_field F (jget ''email'' data), char_field F None (jget ''password'' data)) of
             (Some email, Some password) \<Rightarrow> Inr (validate_email email, password)
           | _ \<Rightarrow> Inl bad_fields)
      | _ \<Rightarrow> Inl bad_fields)"

definition refresh_form :: "forms \<Rightarrow> json \<Rightarrow> exn + string" where
  "refresh_form F data =
     (case data of
        JObj members \<Rightarrow>
          (case char_field F None (jget ''refresh'' data) of Some token \<Rightarrow> Inr token | None \<Rightarrow> Inl bad_fields)
      | _ \<Rightarrow> Inl bad_fields)"

section \<open>Registration\<close>

definition register_key :: "application \<Rightarrow> string" where
  "register_key a = ''client_register:app:'' @ str_of_int (app_id a)"

definition register_email_key :: "application \<Rightarrow> string \<Rightarrow> string" where
  "register_email_key a email =
     ''client_register:email:'' @ str_of_int (app_id a) @ '':'' @ sha256_hex email"

text \<open>Both limits, on one limiter object: 100 registrations of the application and 5 of the
  address, per hour.\<close>

definition registration_allowed ::
    "settings \<Rightarrow> 's redis \<Rightarrow> instant \<Rightarrow> application \<Rightarrow> string \<Rightarrow> 's client
       \<Rightarrow> (limiter_error + bool) \<times> 's client" where
  "registration_allowed S R t a email c =
     (case limited_request S R (register_key a) 100 3600 t c of
        (Inr True, c1) \<Rightarrow> allow_request R (register_email_key a email) 5 3600 t c1
      | (verdict, c1) \<Rightarrow> (verdict, c1))"

definition already_registered :: response where
  "already_registered =
     \<lparr>rs_status = 400, rs_body = JObj [(''email'', JList [JStr ''This email is already registered.''])]\<rparr>"

definition new_client :: "application \<Rightarrow> string \<Rightarrow> string \<Rightarrow> app_user" where
  "new_client a email password_hash =
     \<lparr>cu_id = 0, cu_application = app_id a, cu_email = email, cu_password_hash = password_hash,
      cu_is_active = True, cu_token_version = 1, cu_created_at = 0, cu_updated_at = 0\<rparr>"

definition client_register ::
    "settings \<Rightarrow> 's redis \<Rightarrow> forms \<Rightarrow> instant \<Rightarrow> instant \<Rightarrow> string \<Rightarrow> credential option \<Rightarrow> json
       \<Rightarrow> db \<Rightarrow> db \<Rightarrow> 's client \<Rightarrow> ((exn + response) \<times> db) \<times> 's client" where
  "client_register S R F t now salt cred data d d2 c =
     (case cred of
        None \<Rightarrow> ((Inr (reject ''A valid application API key is required.'' 401), d2), c)
      | Some (k, a, p) \<Rightarrow>
          (case register_form F data of
             Inl e \<Rightarrow> ((Inl e, d2), c)
           | Inr (email, password) \<Rightarrow>
               (case registration_allowed S R t a email c of
                  (Inl _, c') \<Rightarrow>
                    ((Inr (reject ''Rate limiting temporarily unavailable. Please retry later.'' 503), d2), c')
                | (Inr False, c') \<Rightarrow> ((Inr (reject ''Too many registration attempts.'' 429), d2), c')
                | (Inr True, c') \<Rightarrow>
                    if objects_exists (\<lambda>u. cu_application u = app_id a \<and> cu_email u = email) (clients d)
                    then ((Inr already_registered, d2), c')
                    else (case create_client now (new_client a email (make_password F salt password)) d2 of
                            Inl e \<Rightarrow>
                              (if e = IntegrityError then ((Inr already_registered, d2), c') else ((Inl e, d2), c'))
                          | Inr (u, d') \<Rightarrow>
                              ((Inr \<lparr>rs_status = 201,
                                     rs_body = JObj [(''id'', JInt (cu_id u)), (''application'', JInt (cu_application u)),
                                                     (''email'', JStr (cu_email u)),
                                                     (''is_active'', JBool (cu_is_active u))]\<rparr>, d'), c')))))"

section \<open>Login\<close>

definition login_key :: "application \<Rightarrow> string \<Rightarrow> string" where
  "login_key a email = ''client_login:'' @ str_of_int (app_id a) @ '':'' @ sha256_hex email"

definition token_json :: "token_pair \<Rightarrow> json" where
  "token_json tp =
     JObj [(''access'', JStr (tp_access tp)), (''refresh'', JStr (tp_refresh tp)),
           (''token_type'', JStr (tp_token_type tp)), (''expires_in'', JInt (tp_expires_in tp))]"

text \<open>The tokens are stamped at \<open>now\<close> and \<open>now'\<close>.\<close>

definition client_login ::
    "'s gateway \<Rightarrow> forms \<Rightarrow> instant \<Rightarrow> instant \<Rightarrow> instant \<Rightarrow> credential option \<Rightarrow> json
       \<Rightarrow> db \<Rightarrow> 's client \<Rightarrow> (exn + response) \<times> 's client" where
  "client_login G F t now now' cred data d c =
     (case cred of
        None \<Rightarrow> (Inr (reject ''A valid application API key is required.'' 401), c)
      | Some (k, a, p) \<Rightarrow>
          (case login_form F data of
             Inl e \<Rightarrow> (Inl e, c)
           | Inr (email, password) \<Rightarrow>
               (case limited_request (gw_settings G) (gw_redis G) (login_key a email) 10 300 t c of
                  (Inl _, c') \<Rightarrow>
                    (Inr (reject ''Rate limiting temporarily unavailable. Please retry later.'' 503), c')
                | (Inr False, c') \<Rightarrow> (Inr (reject ''Too many login attempts.'' 429), c')
                | (Inr True, c') \<Rightarrow>
                    (case objects_first (\<lambda>u. cu_application u = app_id a \<and> cu_email u = email \<and> cu_is_active u)
                            (clients d) of
                       None \<Rightarrow> (Inr (reject ''Invalid email or password.'' 401), c')
                     | Some u \<Rightarrow>
                         if \<not> check_password F password (cu_password_hash u)
                         then (Inr (reject ''Invalid email or password.'' 401), c')
                         else (Inr \<lparr>rs_status = 200,
                                    rs_body = token_json (issue_token_pair (gw_jwt G) (gw_settings G) now now' u)\<rparr>,
                               c')))))"

section \<open>Refresh\<close>

definition client_refresh ::
    "'s gateway \<Rightarrow> forms \<Rightarrow> instant \<Rightarrow> instant \<Rightarrow> credential option \<Rightarrow> json \<Rightarrow> db
       \<Rightarrow> exn + response" where
  "client_refresh G F now now' cred data d =
     (case cred of
        None \<Rightarrow> Inr (reject ''A valid application API key is required.'' 401)
      | Some (k, a, p) \<Rightarrow>
          and_then (refresh_form F data) (\<lambda>token.
            (case verify_client_token (gw_jwt G) (gw_settings G) d now (Some token) a ''refresh'' of
               Inl _ \<Rightarrow> Inr (reject ''Invalid or expired refresh token.'' 401)
             | Inr user \<Rightarrow>
                 Inr \<lparr>rs_status = 200,
                      rs_body = JObj [(''access'', JStr (make_token (gw_jwt G) (gw_settings G) now' user ''access''
                                          (CLIENT_ACCESS_TOKEN_LIFETIME (gw_settings G)))),
                                      (''token_type'', JStr ''Bearer''),
                                      (''expires_in'', JInt (seconds (CLIENT_ACCESS_TOKEN_LIFETIME (gw_settings G))))]\<rparr>)))"

section \<open>The administrator's views\<close>

text \<open>\<open>admin\<close> is the key of the staff user the framework has authenticated.\<close>

definition client_users_list :: "pk \<Rightarrow> db \<Rightarrow> app_user list" where
  "client_users_list admin d =
     sort_key cu_application (sort_key cu_id
       (objects_filter (\<lambda>u. owns_application d admin (cu_application u)) (clients d)))"

text \<open>The fields as the serializer received them from the framework's field classes.\<close>

definition client_user_form :: "forms \<Rightarrow> pk \<Rightarrow> db \<Rightarrow> pk \<Rightarrow> string \<Rightarrow> string \<Rightarrow> exn + (pk \<times> string \<times> string)" where
  "client_user_form F admin d application_id email password =
     (if application_of d application_id = None then Inl bad_fields
      else if \<not> owns_application d admin application_id
      then Inl (ValidationError ''Application is not owned by this administrator.'')
      else if \<not> password_acceptable F password then Inl (ValidationError ''password'')
      else Inr (application_id, validate_email email, password))"

text \<open>\<open>ApplicationUserCreateSerializer.create\<close>.\<close>

definition save_new_client ::
    "forms \<Rightarrow> instant \<Rightarrow> string \<Rightarrow> pk \<Rightarrow> string \<Rightarrow> string \<Rightarrow> db \<Rightarrow> exn + (app_user \<times> db)" where
  "save_new_client F now salt app mail pw d =
     create_client now
       \<lparr>cu_id = 0, cu_application = app, cu_email = mail, cu_password_hash = make_password F salt pw,
        cu_is_active = True, cu_token_version = 1, cu_created_at = 0, cu_updated_at = 0\<rparr> d"

definition client_user_create ::
    "forms \<Rightarrow> pk \<Rightarrow> instant \<Rightarrow> string \<Rightarrow> pk \<Rightarrow> string \<Rightarrow> string \<Rightarrow> db \<Rightarrow> exn + (app_user \<times> db)" where
  "client_user_create F admin now salt application_id email password d =
     and_then (client_user_form F admin d application_id email password) (\<lambda>(app, mail, pw).
       (if objects_exists (\<lambda>u. cu_application u = app \<and> cu_email u = mail) (clients d)
        then Inl (ValidationError ''This email already exists in the application.'')
        else save_new_client F now salt app mail pw d))"

definition client_user_disable :: "pk \<Rightarrow> instant \<Rightarrow> pk \<Rightarrow> db \<Rightarrow> response \<times> db" where
  "client_user_disable admin now user_id d =
     (case objects_first (\<lambda>u. cu_id u = user_id \<and> owns_application d admin (cu_application u)) (clients d) of
        None \<Rightarrow> (reject ''Application user not found.'' 404, d)
      | Some u \<Rightarrow>
          (\<lparr>rs_status = 200, rs_body = JObj [(''id'', JInt (cu_id u)), (''is_active'', JBool False)]\<rparr>,
           if cu_is_active u
           then d\<lparr>clients := objects_update cu_id (cu_id u)
                    (\<lambda>x. x\<lparr>cu_is_active := False, cu_token_version := cu_token_version u + 1,
                           cu_updated_at := now\<rparr>) (clients d)\<rparr>
           else d))"

section \<open>Lemmas\<close>

lemma register_form_members:
  "register_form F (JObj members) = Inr r \<Longrightarrow> fst ` set members \<subseteq> {''email'', ''password''}"
  by (auto simp: register_form_def split: option.splits if_splits)

lemma create_client_Inl: "create_client now u d = Inl e \<Longrightarrow> e = IntegrityError"
  by (auto simp: create_client_def and_then_Inl dest: insert_row_Inl)

lemma create_client_Inr:
  assumes "create_client now u d = Inr (v, d')"
  shows "v = (client_presave u)\<lparr>cu_id := last_pk (clients d) + 1, cu_created_at := now, cu_updated_at := now\<rparr>"
    and "d' = d\<lparr>clients := clients d'\<rparr>" and "rows (clients d') = rows (clients d) @ [v]"
  using assms by (auto simp: create_client_def and_then_Inr dest: insert_row_Inr)

lemma space_lower [simp]: "py_isspace (lower_char c) = py_isspace c"
  by (auto simp: py_isspace_def code_lower_char)

text \<open>A normalised address stays as it is when the row is saved.\<close>

lemma strip_lower: "strip py_isspace (py_lower (strip py_isspace s)) = py_lower (strip py_isspace s)"
proof (rule strip_id)
  let ?s = "strip py_isspace s"
  have "?s \<noteq> [] \<Longrightarrow> \<not> py_isspace (hd ?s) \<and> \<not> py_isspace (last ?s)"
    using strip_ends [of py_isspace s] by blast
  then show "py_lower ?s = [] \<or> \<not> py_isspace (hd (py_lower ?s)) \<and> \<not> py_isspace (last (py_lower ?s))"
    by (cases "?s = []") (simp_all add: py_lower_def hd_map last_map)
qed

lemma validate_email_idem [simp]: "validate_email (validate_email s) = validate_email s"
  by (simp add: validate_email_def strip_lower)

lemma client_presave_email: "client_presave u = u\<lparr>cu_email := validate_email (cu_email u)\<rparr>"
  by (simp add: client_presave_def validate_email_def)

lemma register_form_Inr:
  assumes "register_form F data = Inr (email, password)"
  shows "validate_email email = email" and "password_acceptable F password"
    and "\<exists>members. data = JObj members \<and> fst ` set members \<subseteq> {''email'', ''password''}"
  using assms by (auto simp: register_form_def split: json.splits option.splits if_splits)

text \<open>What a registration does: one new row of the application, or nothing.\<close>

lemma register_outcome:
  assumes "client_register S R F t now salt (Some (k, a, p)) data d d2 c = ((out, d'), c')"
  shows "d' = d2 \<and> (\<forall>rs. out = Inr rs \<longrightarrow> rs_status rs \<noteq> 201) \<and> (\<forall>e. out = Inl e \<longrightarrow> register_form F data = Inl e)
    \<or> (\<exists>email password u rs. register_form F data = Inr (email, password) \<and> out = Inr rs \<and> rs_status rs = 201
         \<and> create_client now (new_client a email (make_password F salt password)) d2 = Inr (u, d'))"
proof (cases "register_form F data")
  case (Inl e)
  then show ?thesis using assms by (auto simp: client_register_def)
next
  case (Inr form)
  obtain email password where form: "form = (email, password)" by force
  obtain v c1 where v: "registration_allowed S R t a email c = (v, c1)" by force
  show ?thesis
  proof (cases "v = Inr True \<and> \<not> objects_exists (\<lambda>u. cu_application u = app_id a \<and> cu_email u = email) (clients d)")
    case False
    then show ?thesis
      using assms Inr form v
      by (auto simp: client_register_def already_registered_def split: sum.splits bool.splits if_splits)
  next
    case True
    let ?new = "create_client now (new_client a email (make_password F salt password)) d2"
    show ?thesis
    proof (cases ?new)
      case (Inl e)
      then show ?thesis
        using assms Inr form v True create_client_Inl [OF Inl]
        by (auto simp: client_register_def already_registered_def)
    next
      case new: (Inr x)
      then show ?thesis
        using assms Inr form v True by (cases x) (auto simp: client_register_def)
    qed
  qed
qed

section \<open>Login attempts\<close>

context redis_server
begin

text \<open>One limited call, seen from the counter of any window: the counter never falls behind what
  was admitted under it.\<close>

lemma limited_tracks:
  assumes "invar (server c)" and "0 < W'" and "holds_counter (window_key k' (seconds t div W')) (view (server c) t)"
    and "limited_request S R k' L W' t c = (v, c')"
    and "tracks (window_key k w) (window_end W w) n (view (server c) t)" and "k' = k \<Longrightarrow> W' = W"
  shows "invar (server c')"
    and "holds_counter j (view (server c) t) \<Longrightarrow> holds_counter j (view (server c') t)"
    and "\<exists>n'. tracks (window_key k w) (window_end W w) n' (view (server c') t) \<and> n \<le> n'
      \<and> (v = Inr True \<and> k' = k \<and> seconds t div W' = w \<longrightarrow> n < n' \<and> n' \<le> L)"
proof -
  let ?wk = "window_key k w" and ?B = "window_end W w" and ?wq = "window_key k' (seconds t div W')"
  obtain u c1 where lim: "new_rate_limiter S None c = (u, c1)" by force
  then have c1: "server c1 = server c"
    using get_redis_client_same [of S None c] by (auto simp: new_rate_limiter_def split: sum.splits prod.splits)
  have "invar (server c') \<and> (holds_counter j (view (server c) t) \<longrightarrow> holds_counter j (view (server c') t))
    \<and> (\<exists>n'. tracks ?wk ?B n' (view (server c') t) \<and> n \<le> n'
      \<and> (v = Inr True \<and> k' = k \<and> seconds t div W' = w \<longrightarrow> n < n' \<and> n' \<le> L))"
  proof (cases u)
    case (Inl e)
    then have "c' = c1" "v = Inl e" using assms(4) by (auto simp: limited_request_def lim)
    then show ?thesis using assms(1,5) c1 by auto
  next
    case (Inr x)
    then have call: "allow_request R k' L W' t c1 = (v, c')" using assms(4) by (simp add: limited_request_def lim)
    define spec where "spec = window_spec t ?wq L (ttl_seconds (seconds t) W') (view (server c) t)"
    have eff: "view (server c') t = snd spec \<and> v \<in> {Inl RateLimitBackendUnavailable, Inr (fst spec = 1)}
       \<or> view (server c') t = view (server c) t \<and> v = Inl RateLimitBackendUnavailable"
      using allow_request_effect [of c1 W' k' t spec L] assms(1-3) call by (simp add: c1 spec_def)
    have inv: "invar (server c')" using allow_request_invar [of c1 k' L W' t] assms(1) by (simp add: call c1)
    have hold: "holds_counter j (view (server c) t) \<Longrightarrow> holds_counter j (view (server c') t)"
      using eff holds_counter_window_spec by (auto simp: spec_def)
    have "\<exists>n'. tracks ?wk ?B n' (snd spec) \<and> n \<le> n'
      \<and> (fst spec = 1 \<and> k' = k \<and> seconds t div W' = w \<longrightarrow> n < n' \<and> n' \<le> L)"
    proof (cases "k' = k \<and> seconds t div W' = w")
      case True
      then have W: "W' = W" using assms(6) by simp
      then have "?B \<le> t + second * ttl_seconds (seconds t) W'"
        using expiry_after_window [of W t] assms(2) True by simp
      then have "tracks ?wk ?B (n + 1) (snd spec)"
        unfolding spec_def using True tracks_spec [OF assms(5)] by simp
      moreover have "fst spec = 1 \<Longrightarrow> n + 1 \<le> L"
        using tracks_counter [OF assms(5)] True by (auto simp: spec_def window_spec_def Let_def split: if_splits)
      ultimately show ?thesis by (intro exI [of _ "n + 1"]) auto
    next
      case False
      then have "tracks ?wk ?B n (snd spec)" unfolding spec_def by (subst tracks_other) (use assms(5) in auto)
      then show ?thesis using False by blast
    qed
    then show ?thesis using eff inv hold assms(5) by auto
  qed
  then show "invar (server c')"
    and "holds_counter j (view (server c) t) \<Longrightarrow> holds_counter j (view (server c') t)"
    and "\<exists>n'. tracks ?wk ?B n' (view (server c') t) \<and> n \<le> n'
      \<and> (v = Inr True \<and> k' = k \<and> seconds t div W' = w \<longrightarrow> n < n' \<and> n' \<le> L)" by blast+
qed

end

text \<open>Logins in clock order, each with the database and the credential it sees.\<close>

record login_attempt =
  la_time :: instant
  la_db :: db
  la_credential :: "credential option"
  la_data :: json

fun login_all :: "'s gateway \<Rightarrow> forms \<Rightarrow> login_attempt list \<Rightarrow> 's client \<Rightarrow> (exn + response) list \<times> 's client" where
  "login_all G F [] c = ([], c)"
| "login_all G F (x # xs) c =
     (case client_login G F (la_time x) (la_time x) (la_time x) (la_credential x) (la_data x) (la_db x) c of
        (r, c1) \<Rightarrow> (case login_all G F xs c1 of (rs, c2) \<Rightarrow> (r # rs, c2)))"

text \<open>Was an attempt on this address answered, with tokens or with \<open>Invalid email or password.\<close>?\<close>

definition answered_guess :: "forms \<Rightarrow> pk \<Rightarrow> string \<Rightarrow> login_attempt \<Rightarrow> exn + response \<Rightarrow> bool" where
  "answered_guess F i email x r \<longleftrightarrow>
     (case la_credential x of
        Some (k, a, p) \<Rightarrow> app_id a = i \<and> (case login_form F (la_data x) of Inr (e, _) \<Rightarrow> e = email | Inl _ \<Rightarrow> False)
      | None \<Rightarrow> False)
     \<and> (case r of Inr rs \<Rightarrow> rs_status rs \<in> {200, 401} | Inl _ \<Rightarrow> False)"

fun guesses :: "forms \<Rightarrow> pk \<Rightarrow> string \<Rightarrow> int \<Rightarrow> login_attempt list \<Rightarrow> (exn + response) list \<Rightarrow> nat" where
  "guesses F i email w (x # xs) (r # rs) =
     (if answered_guess F i email x r \<and> seconds (la_time x) div 300 = w then 1 else 0) + guesses F i email w xs rs"
| "guesses F i email w _ _ = 0"

definition login_key_of :: "pk \<Rightarrow> string \<Rightarrow> string" where
  "login_key_of i email = ''client_login:'' @ str_of_int i @ '':'' @ sha256_hex email"

text \<open>A login either stays away from the limiter or makes one limited call.\<close>

lemma login_cases:
  assumes "client_login G F t n1 n2 cred data d c = (r, c')"
  obtains (rejected) "c' = c" "\<And>i email x. la_credential x = cred \<Longrightarrow> la_data x = data \<Longrightarrow> \<not> answered_guess F i email x r"
  | (limited) k a p email password v where "cred = Some (k, a, p)" "login_form F data = Inr (email, password)"
      "limited_request (gw_settings G) (gw_redis G) (login_key_of (app_id a) email) 10 300 t c = (v, c')"
      "\<And>rs. r = Inr rs \<Longrightarrow> rs_status rs \<in> {200, 401} \<Longrightarrow> v = Inr True"
proof (cases cred)
  case None
  with assms show ?thesis by (intro rejected) (auto simp: client_login_def answered_guess_def)
next
  case (Some y)
  then obtain k a p where y: "cred = Some (k, a, p)" using prod_cases3 by (metis surj_pair)
  show ?thesis
  proof (cases "login_form F data")
    case (Inl e)
    with assms y show ?thesis by (intro rejected) (auto simp: client_login_def answered_guess_def)
  next
    case (Inr f)
    then obtain email password where f: "login_form F data = Inr (email, password)" by (cases f) auto
    obtain v c1 where l: "limited_request (gw_settings G) (gw_redis G) (login_key a email) 10 300 t c = (v, c1)" by force
    have c1: "c1 = c'" and v: "\<And>rs. r = Inr rs \<Longrightarrow> rs_status rs \<in> {200, 401} \<Longrightarrow> v = Inr True"
      using assms y f l
      by (auto simp: client_login_def split: sum.splits bool.splits option.splits if_splits)
    have "login_key a email = login_key_of (app_id a) email" by (simp add: login_key_def login_key_of_def)
    then have "limited_request (gw_settings G) (gw_redis G) (login_key_of (app_id a) email) 10 300 t c = (v, c')"
      using l c1 by simp
    then show ?thesis using v by (rule limited [OF y f])
  qed
qed

lemma guesses_later:
  "\<forall>x \<in> set xs. window_end 300 w \<le> la_time x \<Longrightarrow> guesses F i email w xs rs = 0"
proof (induction xs arbitrary: rs)
  case (Cons x xs)
  have "seconds (la_time x) div 300 \<noteq> w"
    using before_window_end [of 300 "la_time x"] Cons.prems by (auto simp: not_less [symmetric])
  with Cons show ?case by (cases rs) auto
qed simp

context redis_server
begin

lemma login_all_bound:
  assumes "invar (server c)" and "gw_redis G = R" and "sorted (t0 # map la_time xs)"
    and "\<And>j e v. holds_counter (window_key (login_key_of j e) v) (view (server c) t0)"
    and "tracks (window_key (login_key_of i email) w) (window_end 300 w) n (view (server c) t0)"
  shows "int (guesses F i email w xs (fst (login_all G F xs c))) \<le> max 0 (10 - n)"
  using assms
proof (induction xs arbitrary: c t0 n)
  case Nil
  then show ?case by simp
next
  case (Cons x xs)
  let ?t = "la_time x" and ?k = "login_key_of i email"
  obtain r c' where r: "client_login G F ?t ?t ?t (la_credential x) (la_data x) (la_db x) c = (r, c')" by force
  have le: "t0 \<le> ?t" and later: "sorted (?t # map la_time xs)" using Cons.prems(3) by auto
  have count: "guesses F i email w (x # xs) (fst (login_all G F (x # xs) c)) =
      (if answered_guess F i email x r \<and> seconds ?t div 300 = w then 1 else 0)
      + guesses F i email w xs (fst (login_all G F xs c'))"
    by (simp add: r split: prod.split)
  show ?case
  proof (cases "?t < window_end 300 w")
    case False
    then have "\<forall>y \<in> set (x # xs). window_end 300 w \<le> la_time y" using later by auto
    then show ?thesis by (simp add: guesses_later del: guesses.simps)
  next
    case True
    have m: "view (server c) ?t = aged ?t (view (server c) t0)" using view_aged [OF Cons.prems(1) le] .
    have tr: "tracks (window_key ?k w) (window_end 300 w) n (view (server c) ?t)"
      using tracks_aged [OF Cons.prems(5) True] m by simp
    have hc: "holds_counter (window_key (login_key_of j e) v) (view (server c) ?t)" for j e v
      unfolding m by (rule holds_counter_aged [OF Cons.prems(4)])
    have "invar (server c') \<and> (\<forall>j e v. holds_counter (window_key (login_key_of j e) v) (view (server c') ?t))
      \<and> (\<exists>n'. tracks (window_key ?k w) (window_end 300 w) n' (view (server c') ?t) \<and> n \<le> n'
           \<and> (answered_guess F i email x r \<and> seconds ?t div 300 = w \<longrightarrow> n < n' \<and> n' \<le> 10))"
      using r
    proof (cases rule: login_cases)
      case rejected
      then show ?thesis using Cons.prems(1) hc tr by auto
    next
      case (limited k a p e pw v)
      have call: "limited_request (gw_settings G) R (login_key_of (app_id a) e) 10 300 ?t c = (v, c')"
        using limited(3) Cons.prems(2) by simp
      note step = limited_tracks [OF Cons.prems(1) _ hc call tr]
      have "answered_guess F i email x r \<Longrightarrow> v = Inr True \<and> login_key_of (app_id a) e = ?k"
        using limited(1,2,4) by (auto simp: answered_guess_def split: sum.splits)
      then show ?thesis using step(1,2) step(3) hc by (auto 0 3)
    qed
    then obtain n' where n': "invar (server c')" "\<And>j e v. holds_counter (window_key (login_key_of j e) v) (view (server c') ?t)"
      "tracks (window_key ?k w) (window_end 300 w) n' (view (server c') ?t)" "n \<le> n'"
      "answered_guess F i email x r \<and> seconds ?t div 300 = w \<longrightarrow> n < n' \<and> n' \<le> 10"
      by blast
    have "int (guesses F i email w xs (fst (login_all G F xs c'))) \<le> max 0 (10 - n')"
      by (rule Cons.IH [OF n'(1) Cons.prems(2) later n'(2,3)])
    then show ?thesis unfolding count using n'(4,5) by auto
  qed
qed

end

section \<open>Properties\<close>

text \<open>
  C23: Self-registration creates an end user of the application whose API key was used and nothing
  else. Status 201 means exactly one new row, of that application, active, with token version 1,
  the normalised address and the hash of the given password, and the request named no field but
  these two; every other answer leaves the database as it is. Unique constraints survive, also
  when the database changed between the check and the write, and the only exception is that of a
  rejected form.
\<close>

theorem registration_stays_in_application:
  assumes "tables_ok d2"
    and "client_register S R F t now salt (Some (k, a, p)) data d d2 c = ((out, d'), c')"
  shows "tables_ok d' \<and> (\<forall>e. out = Inl e \<longrightarrow> d' = d2 \<and> register_form F data = Inl e)
    \<and> (\<forall>rs. out = Inr rs \<and> rs_status rs \<noteq> 201 \<longrightarrow> d' = d2)
    \<and> (\<forall>rs. out = Inr rs \<and> rs_status rs = 201 \<longrightarrow>
         (\<exists>email password u members. data = JObj members \<and> fst ` set members \<subseteq> {''email'', ''password''}
            \<and> register_form F data = Inr (email, password)
            \<and> d' = d2\<lparr>clients := clients d'\<rparr> \<and> rows (clients d') = rows (clients d2) @ [u]
            \<and> cu_application u = app_id a \<and> cu_email u = email \<and> cu_is_active u \<and> cu_token_version u = 1
            \<and> cu_password_hash u = make_password F salt password
            \<and> (\<forall>x \<in> set (rows (clients d2)). cu_application x = app_id a \<longrightarrow> cu_email x \<noteq> email)))"
  using register_outcome [OF assms(2)]
proof
  assume "d' = d2 \<and> (\<forall>rs. out = Inr rs \<longrightarrow> rs_status rs \<noteq> 201) \<and> (\<forall>e. out = Inl e \<longrightarrow> register_form F data = Inl e)"
  then show ?thesis using assms(1) by blast
next
  assume "\<exists>email password u rs. register_form F data = Inr (email, password) \<and> out = Inr rs \<and> rs_status rs = 201
         \<and> create_client now (new_client a email (make_password F salt password)) d2 = Inr (u, d')"
  then obtain email password u rs where form: "register_form F data = Inr (email, password)"
    and out: "out = Inr rs" "rs_status rs = 201"
    and new: "create_client now (new_client a email (make_password F salt password)) d2 = Inr (u, d')"
    by blast
  note f = register_form_Inr [OF form]
  note u = create_client_Inr [OF new]
  have fields: "cu_application u = app_id a" "cu_email u = email" "cu_is_active u" "cu_token_version u = 1"
    "cu_password_hash u = make_password F salt password"
    by (simp_all add: u(1) client_presave_email new_client_def f(1))
  have fresh: "\<forall>x \<in> set (rows (clients d2)). cu_application x = app_id a \<longrightarrow> cu_email x \<noteq> email"
    using new by (auto simp: create_client_def and_then_Inr insert_row_def objects_exists_iff client_clash_def
        client_presave_email new_client_def f(1) split: if_splits)
  show ?thesis
    using create_client_ok [OF new assms(1)] form out fields fresh f(3) u(2,3) by auto
qed

definition sample_forms :: forms where
  "sample_forms =
     \<lparr>email_field = (\<lambda>j. case j of Some (JStr s) \<Rightarrow> Some s | _ \<Rightarrow> None),
      char_field = (\<lambda>m j. case j of Some (JStr s) \<Rightarrow> Some s | _ \<Rightarrow> None),
      password_acceptable = (\<lambda>s. 8 \<le> length s), make_password = (\<lambda>salt s. salt @ s),
      check_password = (\<lambda>s h. h = ''x'' @ s)\<rparr>"

definition sample_register :: json where
  "sample_register = JObj [(''email'', JStr '' A@b.c''), (''password'', JStr ''longenough'')]"

lemma sample_validate: "validate_email '' A@b.c'' = ''a@b.c''"
  by (simp add: validate_email_def py_lower_def lower_char_def strip_def lstrip_def rstrip_def py_isspace_def
      code_def char_of_def bit_0)

lemma sample_allowed:
  "\<exists>c'. registration_allowed dev_settings fake_redis 0 sample_application email (sample_client []) = (Inr True, c')"
proof -
  have k: "window_key (register_email_key sample_application email) 0 \<noteq> window_key (register_key sample_application) 0"
    by (simp add: register_email_key_def register_key_def)
  have s: "seconds 0 = 0" by (simp add: seconds_def)
  show ?thesis
    using k by (simp add: registration_allowed_def limited_request_def new_rate_limiter_def get_redis_client_def
      cached_client_def dev_settings_def allow_request_def redis_call_def sample_client_def fixed_window_script_def
      fake_redis_def fake_incr_def fake_expire_def fake_read_def empty_fake_def Let_def s update_conv')
qed

lemma sample_registered:
  "\<exists>rs d' c'. client_register dev_settings fake_redis sample_forms 0 0 ''x''
      (Some (sample_key, sample_application, sample_project)) sample_register sample_db sample_db (sample_client [])
     = ((Inr rs, d'), c') \<and> rs_status rs = 201"
proof -
  have form: "register_form sample_forms sample_register = Inr (''a@b.c'', ''longenough'')"
    by (simp add: register_form_def sample_forms_def sample_register_def sample_validate)
  obtain c' where "registration_allowed dev_settings fake_redis 0 sample_application ''a@b.c'' (sample_client [])
      = (Inr True, c')" using sample_allowed by blast
  moreover have "rows (clients sample_db) = []" by (simp add: sample_db_def empty_db_def empty_table_def)
  ultimately show ?thesis
    by (auto simp: client_register_def form objects_exists_def create_client_def insert_row_def
        objects_create_def Let_def split: sum.split)
qed

theorem registration_stays_in_application_witness:
  "\<exists>rs d' c' u. client_register dev_settings fake_redis sample_forms 0 0 ''x''
      (Some (sample_key, sample_application, sample_project)) sample_register sample_db sample_db (sample_client [])
     = ((Inr rs, d'), c') \<and> rows (clients d') = [u] \<and> cu_application u = 1"
proof -
  obtain rs d' c' where r: "client_register dev_settings fake_redis sample_forms 0 0 ''x''
      (Some (sample_key, sample_application, sample_project)) sample_register sample_db sample_db (sample_client [])
     = ((Inr rs, d'), c')" "rs_status rs = 201"
    using sample_registered by blast
  have "rows (clients sample_db) = []" by (simp add: sample_db_def empty_db_def empty_table_def)
  then show ?thesis
    using registration_stays_in_application [OF sample_db_ok r(1)] r by auto
qed


definition sample_attempt :: login_attempt where
  "sample_attempt = \<lparr>la_time = 0, la_db = sample_db,
     la_credential = Some (sample_key, sample_application, sample_project), la_data = sample_register\<rparr>"


text \<open>
  A login gives tokens only for the password of an active user of this very application with
  this address, and then the access token passes the gateway's bearer check as this user from
  issue to expiry.
\<close>

lemma login_tokens_work:
  assumes "jwt_laws (gw_jwt G)" and "tables_ok d" and "app_is_active a" and "\<forall>u \<in> set (rows (clients d)). 0 \<le> cu_id u"
    and "client_login G F t now now' (Some (k, a, p)) data d c = (Inr rs, c')" and "rs_status rs = 200"
  shows "\<exists>email password u tok. login_form F data = Inr (email, password)
    \<and> u \<in> set (rows (clients d)) \<and> cu_application u = app_id a \<and> cu_email u = email \<and> cu_is_active u
    \<and> check_password F password (cu_password_hash u)
    \<and> jget ''access'' (rs_body rs) = Some (JStr tok)
    \<and> (\<forall>t'. now \<le> t' \<and> t' < second * seconds (now + CLIENT_ACCESS_TOKEN_LIFETIME (gw_settings G)) \<longrightarrow>
         authenticate_client_bearer (gw_jwt G) (gw_settings G) d t' (Some (''Bearer '' @ tok)) a = Inr u)"
proof -
  from assms(5,6) obtain email password u
    where form: "login_form F data = Inr (email, password)"
      and u: "objects_first (\<lambda>u. cu_application u = app_id a \<and> cu_email u = email \<and> cu_is_active u) (clients d) = Some u"
      and pw: "check_password F password (cu_password_hash u)"
      and body: "rs_body rs = token_json (issue_token_pair (gw_jwt G) (gw_settings G) now now' u)"
    by (auto simp: client_login_def split: sum.splits prod.splits bool.splits option.splits if_splits)
  note row = objects_first_Some [OF u]
  have "wf_table cu_id client_clash (clients d)" using assms(2) by (simp add: tables_ok_def)
  then have "now \<le> t' \<and> t' < second * seconds (now + CLIENT_ACCESS_TOKEN_LIFETIME (gw_settings G)) \<Longrightarrow>
      authenticate_client_bearer (gw_jwt G) (gw_settings G) d t'
        (Some (''Bearer '' @ make_token (gw_jwt G) (gw_settings G) now u ''access''
           (CLIENT_ACCESS_TOKEN_LIFETIME (gw_settings G)))) a = Inr u" for t'
    using access_token_works [OF assms(1)] assms(3,4) row by blast
  moreover have "jget ''access'' (rs_body rs) = Some (JStr (make_token (gw_jwt G) (gw_settings G) now u ''access''
           (CLIENT_ACCESS_TOKEN_LIFETIME (gw_settings G))))"
    by (simp add: body token_json_def issue_token_pair_def)
  ultimately show ?thesis using form row pw by blast
qed

definition sample_login_db :: db where
  "sample_login_db = sample_db\<lparr>clients := \<lparr>rows = [sample_user\<lparr>cu_password_hash := ''xlongenough''\<rparr>], last_pk = 3\<rparr>\<rparr>"

lemma sample_login_db_ok: "tables_ok sample_login_db"
  by (simp add: tables_ok_def sample_login_db_def sample_defs empty_db_def wf_table_empty)
    (simp add: wf_table_def table_ok_def empty_table_def sample_user_def)

lemma sample_login_rows: "rows (clients sample_login_db) = [sample_user\<lparr>cu_password_hash := ''xlongenough''\<rparr>]"
  by (simp add: sample_login_db_def)

lemma sample_login:
  "\<exists>rs c'. client_login sample_gateway sample_forms 0 0 0 (Some (sample_key, sample_application, sample_project))
      sample_register sample_login_db (sample_client []) = (Inr rs, c') \<and> rs_status rs = 200"
proof -
  have form: "login_form sample_forms sample_register = Inr (''a@b.c'', ''longenough'')"
    by (simp add: login_form_def sample_forms_def sample_register_def sample_validate)
  obtain c' where "limited_request sample_settings fake_redis (login_key sample_application ''a@b.c'') 10 300 0
      (sample_client []) = (Inr True, c')"
    by (simp add: limited_request_def new_rate_limiter_def get_redis_client_def cached_client_def sample_settings_def
        dev_settings_def allow_request_def redis_call_def sample_client_def fixed_window_script_def fake_redis_def
        fake_incr_def fake_expire_def fake_read_def empty_fake_def Let_def)
  then show ?thesis
    by (simp add: client_login_def form objects_first_def sample_login_rows sample_user_def)
      (simp add: sample_forms_def)
qed

text \<open>The rows after a disable: the one with the id is switched off, once and for all, the others are as they were.\<close>

lemma switched_off_row:
  assumes rows: "rs' = (if cu_is_active u then map (\<lambda>x. if cu_id x = i then f x else x) rs else rs)"
    and f: "\<And>x. cu_id (f x) = cu_id x \<and> \<not> cu_is_active (f x)"
    and u: "\<And>x. x \<in> set rs \<Longrightarrow> cu_id x = i \<Longrightarrow> x = u" and x: "x \<in> set rs'" "cu_id x = i"
  shows "\<not> cu_is_active x"
proof (cases "cu_is_active u")
  case True
  then have "x \<in> (\<lambda>y. if cu_id y = i then f y else y) ` set rs" using x(1) by (simp only: rows if_True set_map)
  then obtain y where y: "x = (if cu_id y = i then f y else y)" by blast
  show ?thesis using x(2) f by (cases "cu_id y = i") (simp_all add: y)
next
  case False
  then have "x = u" using x u unfolding rows by simp
  then show ?thesis using False by simp
qed

lemma disable_switched_off:
  assumes row: "x \<in> set (rows (clients d))" "cu_id x = i" "owns_application d admin (cu_application x)"
    and off: "\<And>x. x \<in> set (rows (clients d)) \<Longrightarrow> cu_id x = i \<Longrightarrow> \<not> cu_is_active x"
  shows "client_user_disable admin now i d =
    (\<lparr>rs_status = 200, rs_body = JObj [(''id'', JInt i), (''is_active'', JBool False)]\<rparr>, d)"
proof -
  obtain y where y: "objects_first (\<lambda>u. cu_id u = i \<and> owns_application d admin (cu_application u)) (clients d) = Some y"
    using row
    by (cases "objects_first (\<lambda>u. cu_id u = i \<and> owns_application d admin (cu_application u)) (clients d)")
      (auto simp: objects_first_None)
  then show ?thesis using off [of y] objects_first_Some [OF y] by (simp add: client_user_disable_def)
qed

text \<open>
  C25: Disabling an end user is immediate, total and confined: only the administrator who owns the
  user's application can do it, afterwards no token of any kind and age verifies as this user, the
  token version has moved so that none does even if the user is enabled again, every other row is
  untouched, and doing it again changes nothing.
\<close>

theorem disabled_user_is_locked_out:
  assumes "tables_ok d" and "client_user_disable admin now i d = (rs, d')"
  shows "tables_ok d' \<and> (rs_status rs \<noteq> 200 \<longrightarrow> d' = d)
    \<and> (rs_status rs = 200 \<longrightarrow>
         (\<exists>u \<in> set (rows (clients d)). cu_id u = i \<and> owns_application d admin (cu_application u)
            \<and> (cu_is_active u \<longrightarrow> (\<forall>x \<in> set (rows (clients d')). cu_id x = i \<longrightarrow> cu_token_version x = cu_token_version u + 1)))
       \<and> (\<forall>J S t tok a ty v. verify_client_token J S d' t tok a ty = Inr v \<longrightarrow> cu_id v \<noteq> i)
       \<and> filter (\<lambda>x. cu_id x \<noteq> i) (rows (clients d')) = filter (\<lambda>x. cu_id x \<noteq> i) (rows (clients d))
       \<and> d' = d\<lparr>clients := clients d'\<rparr>
       \<and> client_user_disable admin now' i d' = (rs, d'))"
proof (cases "objects_first (\<lambda>u. cu_id u = i \<and> owns_application d admin (cu_application u)) (clients d)")
  case None
  then show ?thesis using assms by (auto simp: client_user_disable_def)
next
  case (Some u)
  let ?f = "\<lambda>x. x\<lparr>cu_is_active := False, cu_token_version := cu_token_version u + 1, cu_updated_at := now\<rparr>"
  note u = objects_first_Some [OF Some]
  have wf: "wf_table cu_id client_clash (clients d)" using assms(1) by (simp add: tables_ok_def)
  have d': "d' = (if cu_is_active u then d\<lparr>clients := objects_update cu_id i ?f (clients d)\<rparr> else d)"
    and rs: "rs = \<lparr>rs_status = 200, rs_body = JObj [(''id'', JInt i), (''is_active'', JBool False)]\<rparr>"
    using assms(2) u by (auto simp: client_user_disable_def Some)
  have "wf_table cu_id client_clash (objects_update cu_id i ?f (clients d))"
    by (rule client.update_fields_wf [OF wf]) (simp_all add: client_clash_def)
  then have ok: "tables_ok d'" using assms(1) by (simp add: d' tables_ok_def)
  have rows: "rows (clients d') = (if cu_is_active u then map (\<lambda>x. if cu_id x = i then ?f x else x) (rows (clients d))
      else rows (clients d))"
    by (simp add: d' table_simps)
  have unique: "x = u" if "x \<in> set (rows (clients d))" "cu_id x = i" for x
    using table_ok_inj [OF wf_tableD(1) [OF wf] that(1)] u that(2) by blast
  have off: "\<not> cu_is_active x" if "x \<in> set (rows (clients d'))" "cu_id x = i" for x
    by (rule switched_off_row [OF rows _ unique that]) simp_all
  have version: "cu_is_active u \<longrightarrow> (\<forall>x \<in> set (rows (clients d')). cu_id x = i \<longrightarrow> cu_token_version x = cu_token_version u + 1)"
    unfolding rows by (simp add: ball_Un)
  have others: "filter (\<lambda>x. cu_id x \<noteq> i) (rows (clients d')) = filter (\<lambda>x. cu_id x \<noteq> i) (rows (clients d))"
    unfolding rows by (auto intro: filter_map_other)
  have frame: "d' = d\<lparr>clients := clients d'\<rparr>" by (simp add: d')
  have owns: "owns_application d' admin = owns_application d admin"
    by (simp add: fun_eq_iff d' owns_application_def owns_project_def)
  have stays: "\<exists>x. x \<in> set (rows (clients d')) \<and> cu_id x = i \<and> owns_application d' admin (cu_application x)"
  proof (cases "cu_is_active u")
    case True
    then have "?f u \<in> set (rows (clients d'))" unfolding rows by (auto intro!: image_eqI [of _ _ u] simp: u)
    then show ?thesis using u by (intro exI [of _ "?f u"]) (simp add: owns)
  qed (use u in \<open>auto simp: owns rows\<close>)
  then have again: "client_user_disable admin now' i d' = (rs, d')"
    using disable_switched_off off unfolding rs by blast
  have dead: "cu_id v \<noteq> i" if "verify_client_token J S d' t tok a ty = Inr v" for J S t tok a ty v
    using verify_Inr(1,2) [OF that] off by blast
  show ?thesis using ok rs u version dead others frame again by auto
qed

theorem disabled_user_is_locked_out_witness:
  "verify_client_token sample_jwt dev_settings (snd (client_user_disable 1 7 3 sample_login_db)) (minutes 1)
     (Some sample_token) sample_application ''access'' \<noteq> Inr sample_user
   \<and> rs_status (fst (client_user_disable 1 7 3 sample_login_db)) = 200"
proof -
  obtain rs d' where d: "client_user_disable 1 7 3 sample_login_db = (rs, d')" by force
  have "rs_status rs = 200"
    using d by (simp add: client_user_disable_def objects_first_def sample_login_rows sample_user_def
        owns_application_def owns_project_def objects_exists_def sample_login_db_def sample_defs)
      (auto split: if_splits)
  moreover have "cu_id sample_user = 3" by (simp add: sample_user_def)
  ultimately show ?thesis
    using disabled_user_is_locked_out [OF sample_login_db_ok d] d by (metis fst_conv snd_conv)
qed

text \<open>
  A refresh never changes who the caller is: it is answered only for a token that verifies as a
  refresh token of an active user of this application, and the new access token passes the bearer
  check as the same user until it expires.
\<close>

lemma refresh_renews_same_user:
  assumes "jwt_laws (gw_jwt G)" and "tables_ok d" and "\<forall>u \<in> set (rows (clients d)). 0 \<le> cu_id u"
    and "client_refresh G F now now' (Some (k, a, p)) data d = Inr rs" and "rs_status rs = 200"
  shows "\<exists>raw u tok. refresh_form F data = Inr raw
    \<and> verify_client_token (gw_jwt G) (gw_settings G) d now (Some raw) a ''refresh'' = Inr u
    \<and> u \<in> set (rows (clients d)) \<and> cu_is_active u \<and> cu_application u = app_id a \<and> app_is_active a
    \<and> jget ''access'' (rs_body rs) = Some (JStr tok)
    \<and> (\<forall>t'. now' \<le> t' \<and> t' < second * seconds (now' + CLIENT_ACCESS_TOKEN_LIFETIME (gw_settings G)) \<longrightarrow>
         authenticate_client_bearer (gw_jwt G) (gw_settings G) d t' (Some (''Bearer '' @ tok)) a = Inr u)"
proof -
  from assms(4) obtain raw where form: "refresh_form F data = Inr raw"
    by (cases "refresh_form F data") (auto simp: client_refresh_def)
  have ran: "(case verify_client_token (gw_jwt G) (gw_settings G) d now (Some raw) a ''refresh'' of
       Inl _ \<Rightarrow> Inr (reject ''Invalid or expired refresh token.'' 401)
     | Inr user \<Rightarrow>
         Inr \<lparr>rs_status = 200,
              rs_body = JObj [(''access'', JStr (make_token (gw_jwt G) (gw_settings G) now' user ''access''
                                  (CLIENT_ACCESS_TOKEN_LIFETIME (gw_settings G)))),
                              (''token_type'', JStr ''Bearer''),
                              (''expires_in'', JInt (seconds (CLIENT_ACCESS_TOKEN_LIFETIME (gw_settings G))))]\<rparr>)
     = (Inr rs :: exn + response)"
    using assms(4) by (simp add: client_refresh_def form)
  obtain u where v: "verify_client_token (gw_jwt G) (gw_settings G) d now (Some raw) a ''refresh'' = Inr u"
    using ran assms(5) by (cases "verify_client_token (gw_jwt G) (gw_settings G) d now (Some raw) a ''refresh''")
      (auto simp: reject_def)
  have tok: "jget ''access'' (rs_body rs) = Some (JStr (make_token (gw_jwt G) (gw_settings G) now' u ''access''
       (CLIENT_ACCESS_TOKEN_LIFETIME (gw_settings G))))"
    using ran unfolding v by auto
  have "wf_table cu_id client_clash (clients d)" using assms(2) by (simp add: tables_ok_def)
  note works = access_token_works [OF assms(1) _ this]
  show ?thesis using form v tok verify_Inr(1-4) [OF v] works assms(3) by blast
qed

definition sample_refresh :: json where
  "sample_refresh = JObj [(''refresh'', JStr (tp_refresh (issue_token_pair sample_jwt sample_settings 0 0
     (sample_user\<lparr>cu_password_hash := ''xlongenough''\<rparr>))))]"

lemma sample_refreshed:
  "\<exists>rs. client_refresh sample_gateway sample_forms (minutes 60) (minutes 60)
     (Some (sample_key, sample_application, sample_project)) sample_refresh sample_login_db = Inr rs \<and> rs_status rs = 200"
proof -
  let ?u = "sample_user\<lparr>cu_password_hash := ''xlongenough''\<rparr>"
  have life: "CLIENT_REFRESH_TOKEN_LIFETIME sample_settings = minutes (7 * 24 * 60)"
    by (simp add: sample_settings_def dev_settings_def)
  have id: "0 \<le> cu_id ?u" by (simp add: sample_user_def)
  have "verify_client_token sample_jwt sample_settings sample_login_db (minutes 60)
      (Some (make_token sample_jwt sample_settings 0 ?u ''refresh'' (CLIENT_REFRESH_TOKEN_LIFETIME sample_settings)))
      sample_application ''refresh'' = Inr ?u"
    unfolding verify_made_token [OF sample_jwt_laws id] life
    by (simp add: sample_user_def objects_first_def sample_login_rows minutes_def seconds_def second_def)
  then show ?thesis
    by (simp add: client_refresh_def refresh_form_def sample_refresh_def issue_token_pair_def)
      (simp add: sample_forms_def sample_gateway_def)
qed

end
