(* ===== verification/AdminUsers.thy ===== *)
theory AdminUsers
  imports AdminRoutes ClientViews
begin

text \<open>
  \<open>apps/users/views.py\<close> and \<open>serializers.py\<close>, \<open>apps/authentication/views.py\<close> and
  \<open>serializers.py\<close>: accounts, projects, applications and API keys of an administrator, and the
  staff login. A view that answers 404 or 400 itself, rather than by an exception, returns the
  status; the data of a request is the JSON value the framework parsed, which need not be an object.
\<close>

section \<open>Requests\<close>

text \<open>
  \<open>normalize_email\<close> and \<open>normalize_username\<close> are the framework's, \<open>str\<close> the text of a
  value that is not a string, \<open>float_zero\<close> whether a float literal denotes zero.
\<close>

record account_env =
  ac_admin :: admin_env
  ac_forms :: forms
  ac_normalize_email :: "string \<Rightarrow> string"
  ac_normalize_username :: "string \<Rightarrow> string"
  ac_str :: "json \<Rightarrow> string"
  ac_float_zero :: "string \<Rightarrow> bool"

text \<open>\<open>request.data.get(name)\<close>; only an object has the method.\<close>

definition data_get :: "json \<Rightarrow> string \<Rightarrow> exn + json option" where
  "data_get data name =
     (case data of JObj _ \<Rightarrow> Inr (jget name data) | _ \<Rightarrow> Inl AttributeError)"

definition truthy :: "(string \<Rightarrow> bool) \<Rightarrow> json option \<Rightarrow> bool" where
  "truthy float_zero v =
     (case v of
        None \<Rightarrow> False
      | Some JNull \<Rightarrow> False
      | Some (JBool b) \<Rightarrow> b
      | Some (JInt i) \<Rightarrow> i \<noteq> 0
      | Some (JFloat x) \<Rightarrow> \<not> float_zero x
      | Some (JStr s) \<Rightarrow> s \<noteq> []
      | Some (JList xs) \<Rightarrow> xs \<noteq> []
      | Some (JObj ms) \<Rightarrow> ms \<noteq> [])"

section \<open>Accounts and projects\<close>

text \<open>\<open>UserRegisterSerializer.create\<close> by the framework's \<open>create_user\<close>.\<close>

definition create_staff_user ::
    "account_env \<Rightarrow> string \<Rightarrow> instant \<Rightarrow> string \<Rightarrow> string \<Rightarrow> string \<Rightarrow> db \<Rightarrow> exn + user \<times> db" where
  "create_staff_user E salt now username email password d =
     and_then (insert_row user_clash
               (\<lambda>i. \<lparr>usr_id = i, usr_username = ac_normalize_username E username, usr_email = ac_normalize_email E email,
                     usr_password = make_password (ac_forms E) salt password, usr_is_active = True,
                     usr_is_staff = False, usr_created_at = now, usr_updated_at = now\<rparr>) (users d))
       (\<lambda>(u, t). Inr (u, d\<lparr>users := t\<rparr>))"

definition register_user ::
    "account_env \<Rightarrow> string \<Rightarrow> instant \<Rightarrow> string \<Rightarrow> string \<Rightarrow> string \<Rightarrow> db \<Rightarrow> exn + user \<times> db" where
  "register_user E salt now username email password d =
     (if objects_exists (\<lambda>u. usr_username u = username) (users d) then Inl (ValidationError ''username'')
      else if objects_exists (\<lambda>u. usr_email u = email) (users d) then Inl (ValidationError ''email'')
      else if \<not> password_acceptable (ac_forms E) password then Inl (ValidationError ''password'')
      else create_staff_user E salt now username email password d)"

definition projects_list :: "pk \<Rightarrow> db \<Rightarrow> project list" where
  "projects_list admin d =
     sort_key (\<lambda>p. - prj_created_at p) (objects_filter (\<lambda>p. prj_owner p = admin) (projects d))"

definition project_create ::
    "account_env \<Rightarrow> pk \<Rightarrow> instant \<Rightarrow> string \<Rightarrow> string option \<Rightarrow> db \<Rightarrow> exn + project \<times> db" where
  "project_create E admin now name description d =
     (if objects_exists (\<lambda>p. prj_name p = name) (projects d) then Inl (ValidationError ''name'')
      else create_project (ae_slugify (ac_admin E)) now
             \<lparr>prj_id = 0, prj_owner = admin, prj_name = name, prj_slug = [],
              prj_description = given description [], prj_created_at = 0, prj_updated_at = 0\<rparr> d)"

section \<open>Applications\<close>

record application_input =
  ai_name :: "string option"
  ai_plan :: "string option"
  ai_is_active :: "bool option"

definition PLAN_CHOICES :: "string list" where
  "PLAN_CHOICES = [PLAN_NORMAL, PLAN_PREMIUM]"

definition application_form :: "application_input \<Rightarrow> exn + application_input" where
  "application_form v =
     (if ai_name v = None then Inl rejected
      else if (case ai_plan v of None \<Rightarrow> False | Some p \<Rightarrow> p \<notin> set PLAN_CHOICES) then Inl rejected
      else Inr v)"

definition applications_list :: "pk \<Rightarrow> db \<Rightarrow> application list" where
  "applications_list admin d =
     sort_key (\<lambda>a. - app_created_at a)
       (objects_filter (\<lambda>a. owns_project d admin (app_project a)) (applications d))"

definition get_project_for_create :: "account_env \<Rightarrow> pk \<Rightarrow> json \<Rightarrow> db \<Rightarrow> exn + project option" where
  "get_project_for_create E admin data d =
     and_then (data_get data ''project'') (\<lambda>member.
     and_then (project_argument (ae_float_int (ac_admin E)) member) (\<lambda>project_id.
       Inr (own_project admin project_id d)))"

text \<open>\<open>None\<close> is the 404 of the view.\<close>

definition application_create ::
    "account_env \<Rightarrow> string \<Rightarrow> pk \<Rightarrow> instant \<Rightarrow> json \<Rightarrow> application_input \<Rightarrow> db
       \<Rightarrow> exn + (application \<times> api_key \<times> string) option \<times> db" where
  "application_create E token admin now data v0 d =
     and_then (get_project_for_create E admin data d) (\<lambda>found.
       (case found of
          None \<Rightarrow> Inr (None, d)
        | Some project \<Rightarrow>
            and_then (application_form v0) (\<lambda>v.
            and_then (create_application (ae_slugify (ac_admin E)) now
                \<lparr>app_id = 0, app_project = prj_id project, app_name = given (ai_name v) [], app_slug = [],
                 app_plan = given (ai_plan v) PLAN_NORMAL, app_is_active = given (ai_is_active v) True,
                 app_created_at = 0, app_updated_at = 0\<rparr> d) (\<lambda>(a, d1).
            and_then (create_for_application token now (app_id a) (app_name a @ '' primary key'') 365 d1)
              (\<lambda>((k, raw_key), d2). Inr (Some (a, k, raw_key), d2))))))"

section \<open>Keys\<close>

text \<open>
  The name of a key goes into a text column that holds no null. \<open>Inl\<close> in the answer is the
  status of a refusal.
\<close>

definition key_name_of :: "account_env \<Rightarrow> json option \<Rightarrow> exn + string" where
  "key_name_of E member =
     (case member of
        None \<Rightarrow> Inr ''Primary API key''
      | Some JNull \<Rightarrow> Inl IntegrityError
      | Some (JStr s) \<Rightarrow> Inr s
      | Some v \<Rightarrow> Inr (ac_str E v))"

definition api_key_create ::
    "account_env \<Rightarrow> string \<Rightarrow> pk \<Rightarrow> instant \<Rightarrow> json \<Rightarrow> db \<Rightarrow> exn + (int + api_key \<times> string) \<times> db" where
  "api_key_create E token admin now data d =
     and_then (data_get data ''application'') (\<lambda>member.
       (if \<not> truthy (ac_float_zero E) member then Inr (Inl 400, d)
        else and_then (json_int (ae_float_int (ac_admin E)) (the member)) (\<lambda>i.
          (case objects_first (\<lambda>a. app_id a = i \<and> owns_project d admin (app_project a)) (applications d) of
             None \<Rightarrow> Inr (Inl 404, d)
           | Some a \<Rightarrow>
               and_then (data_get data ''name'') (\<lambda>name.
               and_then (key_name_of E name) (\<lambda>key_label.
               and_then (create_for_application token now (app_id a) key_label 365 d)
                 (\<lambda>(issued, d'). Inr (Inr issued, d'))))))))"

definition api_key_revoke :: "pk \<Rightarrow> instant \<Rightarrow> pk \<Rightarrow> db \<Rightarrow> api_key option \<times> db" where
  "api_key_revoke admin now i d =
     (case objects_first (\<lambda>k. key_id k = i \<and> owns_application d admin (key_application k)) (api_keys d) of
        None \<Rightarrow> (None, d)
      | Some k \<Rightarrow> (case revoke now k d of (k', d') \<Rightarrow> (Some k', d')))"

definition dashboard :: "pk \<Rightarrow> db \<Rightarrow> (pk \<times> string \<times> nat \<times> nat) list" where
  "dashboard admin d =
     map (\<lambda>p. (prj_id p, prj_name p,
               length (objects_filter (\<lambda>r. rt_project r = prj_id p) (routes d)),
               length (objects_filter (\<lambda>k. application_in d (prj_id p) (key_application k)) (api_keys d))))
       (objects_filter (\<lambda>p. prj_owner p = admin) (projects d))"

section \<open>Staff login\<close>

text \<open>
  \<open>authenticate\<close> is the framework's, \<open>staff_tokens\<close> and \<open>refreshed\<close> are the token
  library's: the refresh and access token of a user, and the access token of a refresh token.
\<close>

definition staff_login_form ::
    "forms \<Rightarrow> (db \<Rightarrow> string \<Rightarrow> string \<Rightarrow> user option) \<Rightarrow> string \<Rightarrow> string \<Rightarrow> db \<Rightarrow> exn + user" where
  "staff_login_form F authenticate email password d =
     (case authenticate d email password of
        Some u \<Rightarrow> Inr u
      | None \<Rightarrow>
          (case objects_first (\<lambda>u. usr_email u = email) (users d) of
             None \<Rightarrow> Inl (ValidationError ''Invalid email or password.'')
           | Some u \<Rightarrow>
               if \<not> usr_is_active u \<or> \<not> check_password F password (usr_password u)
               then Inl (ValidationError ''Invalid email or password.'') else Inr u))"

definition staff_login ::
    "forms \<Rightarrow> (db \<Rightarrow> string \<Rightarrow> string \<Rightarrow> user option) \<Rightarrow> (user \<Rightarrow> string \<times> string) \<Rightarrow> string \<Rightarrow> string \<Rightarrow> db
       \<Rightarrow> exn + response" where
  "staff_login F authenticate staff_tokens email password d =
     and_then (staff_login_form F authenticate email password d) (\<lambda>u.
       (case staff_tokens u of
          (refresh, access) \<Rightarrow>
            Inr \<lparr>rs_status = 200,
                 rs_body = JObj [(''access'', JStr access), (''refresh'', JStr refresh),
                                 (''user'', JObj [(''id'', JInt (usr_id u)), (''email'', JStr (usr_email u)),
                                                  (''username'', JStr (usr_username u))])]\<rparr>))"

definition staff_refresh ::
    "(string \<Rightarrow> bool) \<Rightarrow> (json \<Rightarrow> string option) \<Rightarrow> json \<Rightarrow> exn + response" where
  "staff_refresh float_zero refreshed data =
     and_then (data_get data ''refresh'') (\<lambda>member.
       (if \<not> truthy float_zero member then Inr (reject ''Refresh token required.'' 400)
        else case refreshed (the member) of
               None \<Rightarrow> Inr (reject ''Invalid refresh token.'' 400)
             | Some access \<Rightarrow> Inr \<lparr>rs_status = 200, rs_body = JObj [(''access'', JStr access)]\<rparr>))"

section \<open>The administrators' calls\<close>

text \<open>The token or salt the call draws from the random source is part of the call.\<close>

datatype admin_call =
    Route_Call route_call
  | Register_User string string string string
  | Create_Project string "string option"
  | Create_Application string json application_input
  | Create_Key string json
  | Revoke_Key pk

definition on_db :: "exn + 'a \<times> db \<Rightarrow> exn + db" where
  "on_db r = and_then r (\<lambda>(_, d). Inr d)"

fun run_account_call :: "account_env \<Rightarrow> pk \<Rightarrow> instant \<Rightarrow> admin_call \<Rightarrow> db \<Rightarrow> exn + db" where
  "run_account_call E admin now (Register_User salt username email password) d =
     on_db (register_user E salt now username email password d)"
| "run_account_call E admin now (Create_Project name description) d =
     on_db (project_create E admin now name description d)"
| "run_account_call E admin now (Create_Application token data v) d =
     on_db (application_create E token admin now data v d)"
| "run_account_call E admin now (Create_Key token data) d = on_db (api_key_create E token admin now data d)"
| "run_account_call E admin now (Revoke_Key i) d = Inr (snd (api_key_revoke admin now i d))"
| "run_account_call E admin now (Route_Call c) d =
     and_then (run_route_call (ac_admin E) admin now c (begin_txn d)) (\<lambda>tx. Inr (tx_db tx))"

text \<open>A call that raises is rolled back; the second component is the invalidations of its commit.\<close>

definition run_admin_call :: "account_env \<Rightarrow> pk \<Rightarrow> instant \<Rightarrow> admin_call \<Rightarrow> db \<Rightarrow> db \<times> (pk \<times> string) list" where
  "run_admin_call E admin now c d =
     (case c of
        Route_Call rc \<Rightarrow>
          (case run_route_call (ac_admin E) admin now rc (begin_txn d) of
             Inl _ \<Rightarrow> (d, [])
           | Inr tx \<Rightarrow> (tx_db tx, tx_hooks tx))
      | _ \<Rightarrow> (case run_account_call E admin now c d of Inl _ \<Rightarrow> (d, []) | Inr d' \<Rightarrow> (d', [])))"

fun run_admin_calls :: "account_env \<Rightarrow> (pk \<times> instant \<times> admin_call) list \<Rightarrow> db \<Rightarrow> db" where
  "run_admin_calls E [] d = d"
| "run_admin_calls E ((admin, now, c) # cs) d = run_admin_calls E cs (fst (run_admin_call E admin now c d))"

section \<open>Lemmas\<close>

lemma on_db_Inr: "on_db r = Inr d \<longleftrightarrow> (\<exists>a. r = Inr (a, d))"
  by (auto simp: on_db_def and_then_Inr)

definition user_exists :: "db \<Rightarrow> pk \<Rightarrow> bool" where
  "user_exists d u = objects_exists (\<lambda>x. usr_id x = u) (users d)"

text \<open>What a call by \<open>admin\<close> may do to the database.\<close>

definition keeps_tenants :: "pk \<Rightarrow> db \<Rightarrow> db \<Rightarrow> bool" where
  "keeps_tenants admin d d' \<longleftrightarrow>
     tables_ok d' \<and> links_ok d' \<and> (\<forall>u. user_exists d u \<longrightarrow> user_exists d' u)
     \<and> (\<forall>i. project_exists d i \<longrightarrow> project_exists d' i \<and> (\<forall>u. owns_project d' u i = owns_project d u i))
     \<and> (\<forall>i. \<not> owns_project d admin i \<longrightarrow> project_exists d i \<longrightarrow> tenant_of d' i = tenant_of d i)"

lemma keeps_tenants_refl: "tables_ok d \<Longrightarrow> links_ok d \<Longrightarrow> keeps_tenants admin d d"
  by (simp add: keeps_tenants_def)

lemma confined_keeps:
  assumes "confined admin tx tx'"
  shows "keeps_tenants admin (tx_db tx) (tx_db tx')"
proof -
  have "projects (tx_db tx') = projects (tx_db tx)" "users (tx_db tx') = users (tx_db tx)"
    using assms by (simp_all add: confined_def)
  then show ?thesis
    using assms relations_cong(3,4) unfolding confined_def keeps_tenants_def user_exists_def by metis
qed

lemma tenant_add_application:
  assumes "rows t = rows (applications d) @ [a]" and "app_project a \<noteq> i"
  shows "tenant_of (d\<lparr>applications := t\<rparr>) i = tenant_of d i"
  using assms by (simp add: tenant_of_def objects_filter_def application_in_def route_in_def objects_exists_def)

text \<open>One key written: appended, or over the row of the same key and application.\<close>

definition key_written :: "api_key table \<Rightarrow> api_key table \<Rightarrow> api_key \<Rightarrow> bool" where
  "key_written old new k \<longleftrightarrow>
     rows new = rows old @ [k]
     \<or> rows new = map (\<lambda>x. if key_id x = key_id k then k else x) (rows old)
       \<and> (\<forall>x \<in> set (rows old). key_id x = key_id k \<longrightarrow> key_application x = key_application k)"

lemma tenant_keys:
  assumes "key_written (api_keys d) t k"
    and "\<not> application_in d i (key_application k)"
  shows "tenant_of (d\<lparr>api_keys := t\<rparr>) i = tenant_of d i"
proof -
  have "filter (\<lambda>k. application_in d i (key_application k)) (rows t)
      = filter (\<lambda>k. application_in d i (key_application k)) (rows (api_keys d))"
    using assms by (auto simp: key_written_def intro!: filter_save_other)
  then show ?thesis by (simp add: tenant_of_def objects_filter_def application_in_def route_in_def)
qed

lemma links_add_application:
  assumes "links_ok d" and "rows t = rows (applications d) @ [a]" and "project_exists d (app_project a)"
  shows "links_ok (d\<lparr>applications := t\<rparr>)"
proof -
  have "permission_link d q \<Longrightarrow> permission_link (d\<lparr>applications := t\<rparr>) q" for q
    by (auto simp: permission_link_def objects_exists_def assms(2) route_in_def)
  moreover have "application_exists d i \<Longrightarrow> application_exists (d\<lparr>applications := t\<rparr>) i" for i
    by (auto simp: application_exists_def objects_exists_def assms(2))
  ultimately show ?thesis
    using assms by (simp add: links_ok_def list_all_iff project_exists_def route_exists_def service_link_def
        cong: option.case_cong)
qed

lemma links_keys:
  "links_ok d \<Longrightarrow> \<forall>k \<in> set (rows t). application_exists d (key_application k) \<Longrightarrow> links_ok (d\<lparr>api_keys := t\<rparr>)"
  by (simp add: links_ok_def list_all_iff project_exists_def application_exists_def route_exists_def
      service_link_def permission_link_def [abs_def] route_in_def cong: option.case_cong)

lemma create_for_application_rows:
  assumes "create_for_application token now app name n d = Inr ((k, raw), d')" and "tables_ok d"
  shows "\<exists>t. d' = d\<lparr>api_keys := t\<rparr> \<and> key_written (api_keys d) t k \<and> key_application k = app"
proof -
  have key: "table_ok key_id (api_keys d)" using assms(2) by (auto simp: tables_ok_def dest: wf_tableD)
  show ?thesis
  proof (cases "objects_first (\<lambda>k. key_application k = app) (api_keys d)")
    case None
    then obtain mk t where ins: "insert_row api_key_clash mk (api_keys d) = Inr (k, t)" and d': "d' = d\<lparr>api_keys := t\<rparr>"
      and mk: "\<And>i. key_application (mk i) = app"
      using assms(1) by (auto simp: create_for_application_def Let_def and_then_Inr)
    show ?thesis using insert_row_Inr [OF ins] mk d' by (auto simp: key_written_def)
  next
    case (Some old)
    note old = objects_first_Some [OF Some]
    let ?k = "old\<lparr>key_name := name, key_hash := hash_key (''ak_live_'' @ token),
        key_expires_at := Some (now + days n), key_revoked_at := None\<rparr>"
    obtain t where k: "k = ?k" and t: "update_row key_id api_key_clash ?k (api_keys d) = Inr t" and d': "d' = d\<lparr>api_keys := t\<rparr>"
      using assms(1) Some by (auto simp: create_for_application_def Let_def and_then_Inr)
    have ids: "key_id k = key_id old" "key_application k = app" using old by (simp_all add: k)
    have "rows t = map (\<lambda>x. if key_id x = key_id k then k else x) (rows (api_keys d))"
      using update_row_Inr [OF t] unfolding k by blast
    moreover have "x = old" if "x \<in> set (rows (api_keys d))" "key_id x = key_id k" for x
      using table_ok_inj [OF key that(1)] old that(2) ids by simp
    ultimately show ?thesis
      using d' ids old by (intro exI [of _ t]) (auto simp: key_written_def)
  qed
qed

section \<open>Each call keeps the tenants of others\<close>

lemma keeps_applications:
  assumes "tables_ok d" and "links_ok d" and "tables_ok (d\<lparr>applications := t\<rparr>)"
    and "rows t = rows (applications d) @ [a]" and "owns_project d admin (app_project a)"
  shows "keeps_tenants admin d (d\<lparr>applications := t\<rparr>)"
proof -
  have "tenant_of (d\<lparr>applications := t\<rparr>) i = tenant_of d i" if "\<not> owns_project d admin i" for i
    using tenant_add_application [OF assms(4)] assms(5) that by metis
  then show ?thesis
    using assms links_add_application [OF assms(2,4) owns_project_exists [OF assms(5)]]
    by (simp add: keeps_tenants_def project_exists_def owns_project_def user_exists_def)
qed

lemma keeps_keys:
  assumes "tables_ok d" and "links_ok d" and "tables_ok (d\<lparr>api_keys := t\<rparr>)" and "key_written (api_keys d) t k"
    and "owns_application d admin (key_application k)"
  shows "keeps_tenants admin d (d\<lparr>api_keys := t\<rparr>)"
proof -
  have "application_exists d (key_application k)"
    using assms(5) by (auto simp: owns_application_def application_exists_def objects_exists_iff)
  then have "\<forall>x \<in> set (rows t). application_exists d (key_application x)"
    using assms(2,4) by (auto simp: key_written_def links_ok_def list_all_iff)
  from links_keys [OF assms(2) this] show ?thesis
    using assms(3) tenant_keys [OF assms(4)] own_application [OF assms(5,1)]
    by (simp add: keeps_tenants_def project_exists_def owns_project_def user_exists_def)
qed

lemma keeps_tenants_trans:
  assumes "keeps_tenants admin d d1" and "keeps_tenants admin d1 d2"
  shows "keeps_tenants admin d d2"
  using assms unfolding keeps_tenants_def by metis

lemma create_for_application_keeps:
  assumes "create_for_application token now app name n d = Inr ((k, raw), d')"
    and "tables_ok d" and "links_ok d" and "owns_application d admin app"
  shows "keeps_tenants admin d d'"
proof -
  obtain t where d': "d' = d\<lparr>api_keys := t\<rparr>" and t: "key_written (api_keys d) t k" and k: "key_application k = app"
    using create_for_application_rows [OF assms(1,2)] by blast
  have "tables_ok d'" by (rule create_for_application_ok [OF assms(1,2)])
  then show ?thesis unfolding d' using assms(2-4) t k by (intro keeps_keys [of d t k]) simp_all
qed

lemma register_user_keeps:
  assumes "register_user E salt now username email password d = Inr (u, d')" and "tables_ok d" and "links_ok d"
  shows "keeps_tenants admin d d'"
proof -
  obtain mk t where ins: "insert_row user_clash mk (users d) = Inr (u, t)" and d': "d' = d\<lparr>users := t\<rparr>"
    and mk: "\<And>i. usr_id (mk i) = i"
    using assms(1) by (auto simp: register_user_def create_staff_user_def and_then_Inr split: if_splits)
  have "wf_table usr_id user_clash t"
    using user.insert_wf [OF _ ins] assms(2) mk by (simp add: tables_ok_def)
  then have "tables_ok d'" using assms(2) by (simp add: tables_ok_def d')
  moreover have "objects_exists P (users d) \<Longrightarrow> objects_exists P t" for P
    using insert_row_Inr(2) [OF ins] by (simp add: objects_exists_def)
  then have "links_ok d'"
    using assms(3) by (simp add: links_ok_def list_all_iff project_exists_def application_exists_def route_exists_def
      service_link_def permission_link_def [abs_def] route_in_def d' cong: option.case_cong)
  ultimately show ?thesis
    using insert_row_Inr(2) [OF ins]
    by (simp add: keeps_tenants_def d' project_exists_def owns_project_def tenant_of_def application_in_def
        route_in_def user_exists_def objects_exists_def)
qed

lemma create_project_keeps:
  assumes c: "create_project slugify now row d = Inr (p, d')" and "prj_owner row = admin"
    and "tables_ok d" and "links_ok d" and "user_exists d admin"
  shows "keeps_tenants admin d d'" and "\<exists>t. d' = d\<lparr>projects := t\<rparr> \<and> rows t = rows (projects d) @ [p]"
    and "prj_owner p = admin" and "prj_slug row \<noteq> [] \<Longrightarrow> prj_slug p = prj_slug row"
proof -
  obtain mk t where ins: "insert_row project_clash mk (projects d) = Inr (p, t)" and d': "d' = d\<lparr>projects := t\<rparr>"
    and mk: "\<And>i. prj_owner (mk i) = admin" "\<And>i. prj_id (mk i) = i"
      "\<And>i. prj_slug row \<noteq> [] \<Longrightarrow> prj_slug (mk i) = prj_slug row"
    using c assms(2) by (auto simp: create_project_def project_presave_def default_slug_def and_then_Inr)
  have t: "rows t = rows (projects d) @ [p]" and p: "prj_owner p = admin" "prj_id p = last_pk (projects d) + 1"
    using insert_row_Inr [OF ins] mk by simp_all
  have "tables_ok d'" by (rule create_project_ok [OF c assms(3)])
  moreover have "project_exists d i \<Longrightarrow> project_exists d' i" for i
    by (simp add: project_exists_def objects_exists_def d' t)
  then have "links_ok d'"
    using assms(4,5) p t by (simp add: user_exists_def links_ok_def list_all_iff application_exists_def route_exists_def
      service_link_def permission_link_def [abs_def] route_in_def d' cong: option.case_cong)
  moreover have "owns_project d' u i = owns_project d u i" if "project_exists d i" for u i
  proof -
    have "table_ok prj_id (projects d)" using assms(3) by (auto simp: tables_ok_def dest: wf_tableD)
    then have "i \<noteq> last_pk (projects d) + 1"
      using that last_pk_fresh [of prj_id "projects d"] by (auto simp: project_exists_def objects_exists_iff)
    then show ?thesis using p by (simp add: owns_project_def objects_exists_def d' t)
  qed
  moreover have "tenant_of d' i = tenant_of d i" for i
    by (simp add: d' tenant_of_def application_in_def route_in_def)
  ultimately show "keeps_tenants admin d d'"
    by (simp add: keeps_tenants_def project_exists_def objects_exists_def user_exists_def d' t)
  show "\<exists>t. d' = d\<lparr>projects := t\<rparr> \<and> rows t = rows (projects d) @ [p]" using d' t by blast
  show "prj_owner p = admin" by (rule p(1))
  show "prj_slug row \<noteq> [] \<Longrightarrow> prj_slug p = prj_slug row" using insert_row_Inr(1) [OF ins] mk(3) by simp
qed

lemma project_create_keeps:
  assumes "project_create E admin now name description d = Inr (p, d')" and "tables_ok d" and "links_ok d"
    and "user_exists d admin"
  shows "keeps_tenants admin d d'"
  using assms by (auto simp: project_create_def split: if_splits intro: create_project_keeps(1))

lemma application_create_keeps:
  assumes "application_create E token admin now data v d = Inr (r, d')" and ok: "tables_ok d" "links_ok d"
  shows "keeps_tenants admin d d'"
proof -
  obtain found where found: "get_project_for_create E admin data d = Inr found"
    using assms(1) by (auto simp: application_create_def and_then_Inr)
  show ?thesis
  proof (cases found)
    case None
    then show ?thesis using assms(1) found ok by (simp add: application_create_def keeps_tenants_refl)
  next
    case (Some project)
    have own: "owns_project d admin (prj_id project)"
      using found Some by (auto simp: get_project_for_create_def and_then_Inr dest: own_project_Some)
    obtain row a d1 k raw where c: "create_application (ae_slugify (ac_admin E)) now row d = Inr (a, d1)"
      and row: "app_project row = prj_id project"
      and issue: "create_for_application token now (app_id a) (app_name a @ '' primary key'') 365 d1 = Inr ((k, raw), d')"
      using assms(1) found Some by (auto simp: application_create_def and_then_Inr)
    obtain mk t where ins: "insert_row application_clash mk (applications d) = Inr (a, t)" and d1: "d1 = d\<lparr>applications := t\<rparr>"
      and mk: "\<And>i. app_project (mk i) = prj_id project"
      using c row by (auto simp: create_application_def application_presave_def and_then_Inr)
    have t: "rows t = rows (applications d) @ [a]" and a: "app_project a = prj_id project"
      using insert_row_Inr [OF ins] mk by simp_all
    have "tables_ok d1" by (rule create_application_ok [OF c ok(1)])
    then have keeps: "keeps_tenants admin d d1"
      unfolding d1 using own a by (intro keeps_applications [OF ok _ t]) simp_all
    have "owns_application d1 admin (app_id a)"
      using own a by (simp add: owns_application_def owns_project_def objects_exists_def d1 t)
    then have "keeps_tenants admin d1 d'"
      using keeps by (intro create_for_application_keeps [OF issue]) (simp_all add: keeps_tenants_def)
    with keeps show ?thesis by (rule keeps_tenants_trans)
  qed
qed

lemma api_key_create_keeps:
  assumes "api_key_create E token admin now data d = Inr (r, d')" and ok: "tables_ok d" "links_ok d"
  shows "keeps_tenants admin d d'"
proof (cases r)
  case (Inl s)
  then have "d' = d" using assms(1) by (auto simp: api_key_create_def and_then_Inr split: if_splits option.splits)
  then show ?thesis using ok by (simp add: keeps_tenants_refl)
next
  case (Inr issued)
  obtain k raw where issued: "issued = (k, raw)" by force
  obtain a i key_label where a: "objects_first (\<lambda>a. app_id a = i \<and> owns_project d admin (app_project a)) (applications d) = Some a"
    and c: "create_for_application token now (app_id a) key_label 365 d = Inr ((k, raw), d')"
    using assms(1) Inr issued by (auto simp: api_key_create_def and_then_Inr split: if_splits option.splits)
  have "owns_application d admin (app_id a)"
    using objects_first_Some [OF a] by (auto simp: owns_application_def objects_exists_iff)
  then show ?thesis by (rule create_for_application_keeps [OF c ok])
qed

lemma api_key_revoke_keeps:
  assumes ok: "tables_ok d" "links_ok d"
  shows "keeps_tenants admin d (snd (api_key_revoke admin now i d))"
proof (cases "objects_first (\<lambda>k. key_id k = i \<and> owns_application d admin (key_application k)) (api_keys d)")
  case None
  then show ?thesis using ok by (simp add: api_key_revoke_def keeps_tenants_refl)
next
  case (Some k)
  note k = objects_first_Some [OF Some]
  have key: "table_ok key_id (api_keys d)" using ok(1) by (auto simp: tables_ok_def dest: wf_tableD)
  let ?k = "k\<lparr>key_revoked_at := Some now\<rparr>"
  let ?t = "objects_update key_id (key_id k) (\<lambda>x. x\<lparr>key_revoked_at := Some now\<rparr>) (api_keys d)"
  have d': "snd (api_key_revoke admin now i d) = d\<lparr>api_keys := ?t\<rparr>"
    using Some by (simp add: api_key_revoke_def revoke_def)
  have same: "x = k" if "x \<in> set (rows (api_keys d))" "key_id x = key_id k" for x
    using table_ok_inj [OF key that(1)] k that(2) by simp
  have "rows ?t = map (\<lambda>x. if key_id x = key_id ?k then ?k else x) (rows (api_keys d))"
    by (rule objects_update_rows(1) [THEN trans], rule map_cong [OF refl]) (auto dest: same)
  then have "key_written (api_keys d) ?t ?k" using same by (auto simp: key_written_def)
  moreover have "tables_ok (d\<lparr>api_keys := ?t\<rparr>)"
    using revoke_ok [OF ok(1), of now k] by (simp add: revoke_def)
  ultimately show ?thesis unfolding d' using k by (intro keeps_keys [OF ok, of ?t ?k]) simp_all
qed

lemma run_account_call_keeps:
  assumes "run_account_call E admin now c d = Inr d'" and "tables_ok d" and "links_ok d" and "user_exists d admin"
  shows "keeps_tenants admin d d'"
proof (cases c)
  case (Route_Call rc)
  then obtain tx where run: "run_route_call (ac_admin E) admin now rc (begin_txn d) = Inr tx" and d': "d' = tx_db tx"
    using assms(1) by (auto simp: and_then_Inr)
  have "confined admin (begin_txn d) tx"
    using assms(2,3) by (intro run_route_call_confined [OF run]) (simp_all add: begin_txn_def)
  from confined_keeps [OF this] show ?thesis by (simp add: d' begin_txn_def)
qed (use assms in \<open>auto simp: on_db_Inr intro: register_user_keeps project_create_keeps application_create_keeps
       api_key_create_keeps api_key_revoke_keeps\<close>)

lemma run_admin_call_db:
  "fst (run_admin_call E admin now c d) =
     (case run_account_call E admin now c d of Inl _ \<Rightarrow> d | Inr d' \<Rightarrow> d')"
  by (auto simp: run_admin_call_def split: admin_call.splits sum.splits)

lemma run_admin_call_keeps:
  assumes "tables_ok d" and "links_ok d" and "user_exists d admin"
  shows "keeps_tenants admin d (fst (run_admin_call E admin now c d))"
  unfolding run_admin_call_db using assms
  by (cases "run_account_call E admin now c d") (auto intro: keeps_tenants_refl run_account_call_keeps)

lemma run_admin_calls_keep:
  assumes "tables_ok d" and "links_ok d" and "project_exists d i"
    and "\<forall>(admin, _) \<in> set cs. user_exists d admin \<and> \<not> owns_project d admin i"
  shows "tables_ok (run_admin_calls E cs d) \<and> links_ok (run_admin_calls E cs d)
    \<and> tenant_of (run_admin_calls E cs d) i = tenant_of d i
    \<and> (\<forall>u. owns_project (run_admin_calls E cs d) u i = owns_project d u i)"
  using assms
proof (induction cs arbitrary: d)
  case (Cons call cs)
  obtain admin now c where call: "call = (admin, now, c)" by (cases call) auto
  let ?d = "fst (run_admin_call E admin now c d)"
  have keeps: "keeps_tenants admin d ?d"
    using Cons.prems call by (intro run_admin_call_keeps) auto
  then have "tables_ok ?d" "links_ok ?d" "project_exists ?d i" "tenant_of ?d i = tenant_of d i"
    and own: "\<And>u. owns_project ?d u i = owns_project d u i" and users: "\<And>u. user_exists d u \<Longrightarrow> user_exists ?d u"
    using Cons.prems(3,4) call by (auto simp: keeps_tenants_def)
  moreover have "\<forall>(admin, _) \<in> set cs. user_exists ?d admin \<and> \<not> owns_project ?d admin i"
    using Cons.prems(4) own users by auto
  ultimately show ?case using Cons.IH [of ?d] by (simp add: call own)
qed simp

text \<open>Accounts, projects, applications and keys are not cached.\<close>

lemma run_account_call_routes:
  assumes "run_account_call E admin now c d = Inr d'" and "\<And>rc. c \<noteq> Route_Call rc"
  shows "routes d' = routes d" and "services d' = services d"
  using assms
  by (cases c; auto simp: on_db_Inr register_user_def create_staff_user_def project_create_def application_create_def api_key_create_def
      api_key_revoke_def revoke_def create_project_def create_application_def create_for_application_def Let_def
      and_then_Inr split: if_splits option.splits)+

lemma run_admin_call_covers:
  assumes "tables_ok d" and "links_ok d"
  shows "covers d (fst (run_admin_call E admin now c d)) (snd (run_admin_call E admin now c d))"
    and "list_all (\<lambda>(_, b). one_segment b) (snd (run_admin_call E admin now c d))"
proof -
  have "covers d (fst (run_admin_call E admin now c d)) (snd (run_admin_call E admin now c d))
    \<and> list_all (\<lambda>(_, b). one_segment b) (snd (run_admin_call E admin now c d))"
  proof (cases "\<exists>rc. c = Route_Call rc")
    case True
    then obtain rc where c: "c = Route_Call rc" by blast
    show ?thesis
    proof (cases "run_route_call (ac_admin E) admin now rc (begin_txn d)")
      case (Inl e)
      then show ?thesis by (simp add: run_admin_call_def c covers_refl)
    next
      case (Inr tx)
      have "confined admin (begin_txn d) tx"
        using assms by (intro run_route_call_confined [OF Inr]) (simp_all add: begin_txn_def)
      then have "tx_covers (begin_txn d) tx" by (simp add: confined_def)
      then have "covers d (tx_db tx) (tx_hooks tx)" "list_all (\<lambda>(_, b). one_segment b) (tx_hooks tx)"
        by (auto simp: tx_covers_def begin_txn_def)
      then show ?thesis by (simp add: run_admin_call_def c Inr)
    qed
  next
    case False
    then have run: "run_admin_call E admin now c d
        = (case run_account_call E admin now c d of Inl _ \<Rightarrow> (d, []) | Inr d' \<Rightarrow> (d', []))"
      by (cases c) (auto simp: run_admin_call_def)
    show ?thesis
    proof (cases "run_account_call E admin now c d")
      case (Inl e)
      then show ?thesis by (simp add: run covers_refl)
    next
      case (Inr d')
      with False have "read_route d i b = read_route d' i b" for i b
        using run_account_call_routes [OF Inr] by (intro read_route_cong) auto
      then show ?thesis by (simp add: run Inr covers_refl)
    qed
  qed
  then show "covers d (fst (run_admin_call E admin now c d)) (snd (run_admin_call E admin now c d))"
    "list_all (\<lambda>(_, b). one_segment b) (snd (run_admin_call E admin now c d))" by blast+
qed

section \<open>Properties\<close>

text \<open>
  Tenants are isolated. Whatever sequence of requests the administrators who do not own a project
  send, whether the requests succeed, are refused or raise, the project keeps its owner and
  everything that belongs to it: its applications, their keys, end users and permissions, its
  services, routes and method policies. The database stays well formed and its references intact.
\<close>

lemma tenant_isolation:
  assumes "tables_ok d" and "links_ok d" and "project_exists d i"
    and "\<forall>(admin, _) \<in> set cs. user_exists d admin \<and> \<not> owns_project d admin i"
  shows "tenant_of (run_admin_calls E cs d) i = tenant_of d i
    \<and> (\<forall>u. owns_project (run_admin_calls E cs d) u i = owns_project d u i)
    \<and> tables_ok (run_admin_calls E cs d) \<and> links_ok (run_admin_calls E cs d)"
  using run_admin_calls_keep [OF assms] by blast

definition sample_account_env :: account_env where
  "sample_account_env = \<lparr>ac_admin = sample_env, ac_forms = sample_forms, ac_normalize_email = id,
     ac_normalize_username = id, ac_str = \<lambda>_. ''?'', ac_float_zero = \<lambda>_. False\<rparr>"

text \<open>
  Every administrator's request is a step of the coherent system. The commit of a call, with the
  invalidations its transaction has queued, is a \<open>commit\<close> step of the cluster of \<open>CacheRace\<close>,
  so what is proved there of settled routes holds while administrators change the configuration.
\<close>

lemma admin_calls_are_commits:
  assumes "tables_ok d" and "links_ok d" and "run_admin_call E admin now c d = (d', ks)"
  shows "race_step S R (s\<lparr>c_db := d\<rparr>) (s\<lparr>c_db := d', c_pending := c_pending s @ ks\<rparr>)
    \<and> (\<forall>i b. read_route d i b \<noteq> read_route d' i b \<longrightarrow> (i, b) \<in> set ks)"
proof -
  have cov: "covers d d' ks" and seg: "list_all (\<lambda>(_, b). one_segment b) ks"
    using run_admin_call_covers [OF assms(1,2), of E admin now c] assms(3) by simp_all
  have "race_step S R (s\<lparr>c_db := d\<rparr>)
      ((s\<lparr>c_db := d\<rparr>)\<lparr>c_db := d', c_pending := c_pending (s\<lparr>c_db := d\<rparr>) @ ks\<rparr>)"
    by (rule race_step.commit) (simp_all add: cov seg)
  with cov show ?thesis by (simp add: covers_def)
qed

lemma sample_disable_service:
  "run_admin_call sample_account_env 1 9 (Route_Call (Service_Update 5 True (no_service_input\<lparr>si_is_active := Some False\<rparr>)))
     sample_admin_db =
   (sample_admin_db\<lparr>services := \<lparr>rows = [sample_service\<lparr>svc_is_active := False, svc_updated_at := 9\<rparr>, second_service],
                            last_pk = 6\<rparr>\<rparr>, [(1, ''/doctors'')])"
  by (simp add: run_admin_call_def left_in_def service_update_def service_form_def no_service_input_def given_def
      objects_first_def begin_txn_def objects_exists_def owns_project_def tx_save_service_def save_service_def
      service_presave_def default_slug_def update_row_def service_clash_def objects_save_def
      invalidate_routes_for_changed_service_def invalidate_after_commit_def objects_filter_def
      sample_account_env_def sample_env_def sample_admin_defs Let_def)

lemma live_key_validates:
  assumes wf: "wf_table key_id api_key_clash (api_keys d)" and "k \<in> set (rows (api_keys d))"
    and "key_application k = app_id a" "key_hash k = hash_key raw" "raw \<noteq> []"
    and "key_is_active now k" and "application_of d (app_id a) = Some a" and "project_of d (app_project a) = Some p"
  shows "validate_key now raw d = (if app_is_active a then Some (k, a, p) else None)"
proof (cases "app_is_active a")
  case True
  have "validate_key now raw d = Some (k, a, p)"
    unfolding validate_key_Some [OF wf] using assms(2-8) True by simp
  then show ?thesis using True by simp
next
  case False
  have "validate_key now raw d \<noteq> Some (k', a', p')" for k' a' p'
  proof
    assume "validate_key now raw d = Some (k', a', p')"
    then have k': "k' \<in> set (rows (api_keys d))" "key_hash k' = hash_key raw"
      and a': "application_of d (key_application k') = Some a'" "app_is_active a'"
      unfolding validate_key_Some [OF wf] by blast+
    have "k' = k" using wf_tableD(2) [OF wf k'(1) assms(2)] k'(2) assms(4) by (simp add: api_key_clash_def)
    then show False using a' assms(3,7) False by simp
  qed
  then have "validate_key now raw d = None" by (cases "validate_key now raw d") auto
  then show ?thesis using False by simp
qed

text \<open>
  An application comes with a key that works. The application belongs to a project of the
  administrator, carries the requested plan, and the returned text is accepted from the moment of
  creation until its expiry for exactly this application and project, as long as the application
  is active.
\<close>

lemma new_application_key_works:
  assumes "tables_ok d" and "links_ok d"
    and "application_create E token admin now data v d = Inr (Some (a, k, raw), d')"
  shows "\<exists>p. p \<in> set (rows (projects d)) \<and> prj_owner p = admin \<and> app_project a = prj_id p
      \<and> application_of d' (app_id a) = Some a \<and> app_plan a = given (ai_plan v) PLAN_NORMAL
      \<and> app_plan a \<in> {PLAN_NORMAL, PLAN_PREMIUM}
      \<and> (\<forall>t. now \<le> t \<and> t \<le> now + days 365 \<longrightarrow>
           validate_key t raw d' = (if given (ai_is_active v) True then Some (k, a, p) else None))"
proof -
  obtain p where found: "get_project_for_create E admin data d = Inr (Some p)"
    using assms(3) by (auto simp: application_create_def and_then_Inr split: option.splits)
  have p: "p \<in> set (rows (projects d))" "prj_owner p = admin"
    using found by (auto simp: get_project_for_create_def and_then_Inr dest: own_project_Some)
  let ?row = "\<lparr>app_id = 0, app_project = prj_id p, app_name = given (ai_name v) [], app_slug = [],
      app_plan = given (ai_plan v) PLAN_NORMAL, app_is_active = given (ai_is_active v) True,
      app_created_at = 0, app_updated_at = 0\<rparr>"
  obtain d1 where form: "application_form v = Inr v"
    and c: "create_application (ae_slugify (ac_admin E)) now ?row d = Inr (a, d1)"
    and issue: "create_for_application token now (app_id a) (app_name a @ '' primary key'') 365 d1 = Inr ((k, raw), d')"
    using assms(3) found by (auto simp: application_create_def application_form_def and_then_Inr split: if_splits)
  obtain mk t where ins: "insert_row application_clash mk (applications d) = Inr (a, t)" and d1: "d1 = d\<lparr>applications := t\<rparr>"
    and mk: "\<And>i. app_project (mk i) = prj_id p" "\<And>i. app_plan (mk i) = given (ai_plan v) PLAN_NORMAL"
      "\<And>i. app_is_active (mk i) = given (ai_is_active v) True"
    using c by (auto simp: create_application_def application_presave_def and_then_Inr)
  have a: "rows t = rows (applications d) @ [a]" "app_project a = prj_id p"
    "app_plan a = given (ai_plan v) PLAN_NORMAL" "app_is_active a = given (ai_is_active v) True"
    using insert_row_Inr [OF ins] mk by simp_all
  have ok1: "tables_ok d1" by (rule create_application_ok [OF c assms(1)])
  obtain t' where raw: "raw = ''ak_live_'' @ token" and new: "new_key now (app_id a) (app_name a @ '' primary key'') 365 raw k"
    and wf: "wf_table key_id api_key_clash t'" and d': "d' = d1\<lparr>api_keys := t'\<rparr>"
    and keys: "set (rows t') = insert k {x \<in> set (rows (api_keys d1)). key_application x \<noteq> app_id a}"
    using create_for_application_effect [OF issue tables_ok_keys [OF ok1]] .
  have akey: "table_ok app_id (applications d1)" using ok1 by (auto simp: tables_ok_def dest: wf_tableD)
  have ain: "a \<in> set (rows (applications d1))" by (simp add: d1 a)
  have aof: "application_of d' (app_id a) = Some a"
    unfolding application_of_def d' using ain table_ok_inj [OF akey _ ain] by (intro objects_first_unique) auto
  have pkey: "table_ok prj_id (projects d)" using assms(1) by (auto simp: tables_ok_def dest: wf_tableD)
  have pof: "project_of d' (app_project a) = Some p"
    unfolding project_of_def d' d1 a(2) using p(1) table_ok_inj [OF pkey _ p(1)] by (intro objects_first_unique) auto
  have kin: "k \<in> set (rows (api_keys d'))" by (simp add: d' keys)
  have wf': "wf_table key_id api_key_clash (api_keys d')" by (simp add: d' wf)
  have k: "key_application k = app_id a" "key_hash k = hash_key raw" "key_expires_at k = Some (now + days 365)"
    "key_revoked_at k = None"
    using new by (simp_all add: new_key_def)
  have valid: "validate_key time raw d' = (if given (ai_is_active v) True then Some (k, a, p) else None)"
    if "time \<le> now + days 365" for time
    using live_key_validates [OF wf' kin k(1,2) _ _ aof pof, of time] raw k(3,4) a(4) that
    by (simp add: key_is_active_def)
  have "app_plan a \<in> {PLAN_NORMAL, PLAN_PREMIUM}"
    using form a(3)
    by (cases "ai_plan v") (auto simp: application_form_def PLAN_CHOICES_def given_def split: if_splits)
  then show ?thesis using p a aof valid by blast
qed

definition premium_input :: application_input where
  "premium_input = \<lparr>ai_name = Some ''b'', ai_plan = Some PLAN_PREMIUM, ai_is_active = None\<rparr>"

definition keyless_db :: db where
  "keyless_db = sample_admin_db\<lparr>api_keys := empty_table\<rparr>"

lemma keyless_db_ok: "tables_ok keyless_db" "links_ok keyless_db"
  using sample_admin_db_ok links_keys [OF sample_admin_db_ok(2), of empty_table]
  by (simp_all add: keyless_db_def tables_ok_def wf_table_empty) (simp add: empty_table_def)

lemma sample_application_create:
  "\<exists>a k d'. application_create sample_account_env ''u'' 1 9 (JObj []) premium_input keyless_db
     = Inr (Some (a, k, ''ak_live_u''), d')"
proof -
  have found: "get_project_for_create sample_account_env 1 (JObj []) keyless_db = Inr (Some sample_project)"
    by (simp add: get_project_for_create_def data_get_def project_argument_def own_project_def objects_first_def
        keyless_db_def sample_admin_defs)
  have form: "application_form premium_input = Inr premium_input"
    by (simp add: application_form_def premium_input_def PLAN_CHOICES_def)
  have slug: "default_slug (ae_slugify (ac_admin sample_account_env)) ''application'' [] ''b'' = ''b''"
    by (simp add: default_slug_def sample_account_env_def sample_env_def is_ascii_alpha_def code_def)
  let ?a = "\<lparr>app_id = 2, app_project = 1, app_name = ''b'', app_slug = ''b'', app_plan = PLAN_PREMIUM,
      app_is_active = True, app_created_at = 9, app_updated_at = 9\<rparr>"
  let ?d = "keyless_db\<lparr>applications := \<lparr>rows = [sample_application, ?a], last_pk = 2\<rparr>\<rparr>"
  have row: "create_application (ae_slugify (ac_admin sample_account_env)) 9
      \<lparr>app_id = 0, app_project = prj_id sample_project, app_name = given (ai_name premium_input) [], app_slug = [],
       app_plan = given (ai_plan premium_input) PLAN_NORMAL, app_is_active = given (ai_is_active premium_input) True,
       app_created_at = 0, app_updated_at = 0\<rparr> keyless_db = Inr (?a, ?d)"
    by (simp add: create_application_def application_presave_def slug premium_input_def given_def insert_row_def
        objects_exists_def application_clash_def objects_create_def keyless_db_def sample_admin_defs Let_def)
  have "\<exists>k d'. create_for_application ''u'' 9 2 (''b'' @ '' primary key'') 365 ?d = Inr ((k, ''ak_live_u''), d')"
    by (simp add: create_for_application_def objects_first_def insert_row_def objects_exists_def api_key_clash_def
        objects_create_def keyless_db_def empty_table_def Let_def)
  then show ?thesis by (auto simp: application_create_def found form row)
qed

text \<open>
  Names are compared, slugs are not. A project whose name is new but whose slug another project
  has, and an application whose slug another application of the project has (also one of the very
  same name), are not refused as invalid: the insertion raises an \<open>IntegrityError\<close>.
\<close>

lemma slug_collisions_raise:
  assumes "q \<in> set (rows (projects d))" and "prj_slug q = default_slug (ae_slugify (ac_admin E)) ''project'' [] name"
    and "\<forall>x \<in> set (rows (projects d)). prj_name x \<noteq> name"
    and "get_project_for_create E admin data d = Inr (Some p)" and "application_form v = Inr v"
    and "b \<in> set (rows (applications d))" and "app_project b = prj_id p"
    and "app_slug b = default_slug (ae_slugify (ac_admin E)) ''application'' [] (given (ai_name v) [])"
  shows "project_create E admin now name description d = Inl IntegrityError
    \<and> application_create E token admin now data v d = Inl IntegrityError"
proof -
  have "\<not> objects_exists (\<lambda>x. prj_name x = name) (projects d)" using assms(3) by (simp add: objects_exists_iff)
  then have "project_create E admin now name description d = Inl IntegrityError"
    using assms(1,2)
    by (auto simp: project_create_def create_project_def project_presave_def insert_row_def objects_exists_iff
        project_clash_def)
  moreover have "application_create E token admin now data v d = Inl IntegrityError"
    using assms(4-8)
    by (auto simp: application_create_def create_application_def application_presave_def insert_row_def
        objects_exists_iff application_clash_def)
  ultimately show ?thesis ..
qed

text \<open>
  Staff log in with the password of an active account. \<open>authenticate\<close> is assumed to return
  only an active user of that address whose password matches, as the framework's backend does; the
  view's own second look keeps to the same rule, so a login is accepted exactly for the active
  account of the address with the right password.
\<close>

lemma staff_login_checks:
  assumes "\<And>email password u. authenticate d email password = Some u \<Longrightarrow>
      u \<in> set (rows (users d)) \<and> usr_email u = email \<and> usr_is_active u \<and> check_password F password (usr_password u)"
    and "tables_ok d"
  shows "staff_login_form F authenticate email password d = Inr u \<longleftrightarrow>
      u \<in> set (rows (users d)) \<and> usr_email u = email \<and> usr_is_active u \<and> check_password F password (usr_password u)"
    (is "?L \<longleftrightarrow> ?R")
proof -
  have unique: "x = y" if "x \<in> set (rows (users d))" "y \<in> set (rows (users d))" "usr_email x = usr_email y" for x y
    using wf_tableD(2) [of usr_id user_clash "users d" x y] assms(2) that by (simp add: tables_ok_def user_clash_def)
  show ?thesis
  proof (cases "authenticate d email password")
    case (Some w)
    then show ?thesis using assms(1) [OF Some] unique by (auto simp: staff_login_form_def)
  next
    case none: None
    show ?thesis
    proof (cases "objects_first (\<lambda>u. usr_email u = email) (users d)")
      case None
      then have "\<forall>r \<in> set (rows (users d)). usr_email r \<noteq> email" by (simp add: objects_first_None)
      then show ?thesis by (auto simp: staff_login_form_def none None)
    next
      case (Some w)
      with none objects_first_Some [OF Some] unique show ?thesis by (auto simp: staff_login_form_def)
    qed
  qed
qed

definition plain_authenticate :: "db \<Rightarrow> string \<Rightarrow> string \<Rightarrow> user option" where
  "plain_authenticate d email password =
     objects_first (\<lambda>u. usr_email u = email \<and> usr_is_active u \<and> check_password sample_forms password (usr_password u)) (users d)"

end
