(* ===== verification/Representations.thy ===== *)
theory Representations
  imports AdminUsers
begin

text \<open>
  What the administrators' views answer: the \<open>Meta.fields\<close> of the serializers as JSON, the lists
  and rows the reading requests show, and the bodies of the answers to the writes. \<open>stamp\<close> is the text
  of a point in time, as the framework writes it.

  The lemmas show that a page is a function of the rows of the administrator's own projects without
  their secrets (\<open>visible\<close>), and that the body a write answers is the page of the row written.
\<close>

section \<open>Serialized rows\<close>

definition nullable :: "('a \<Rightarrow> json) \<Rightarrow> 'a option \<Rightarrow> json" where
  "nullable f v = (case v of None \<Rightarrow> JNull | Some a \<Rightarrow> f a)"

definition service_data :: "(instant \<Rightarrow> string) \<Rightarrow> backend_service \<Rightarrow> json" where
  "service_data stamp s =
     JObj [(''id'', JInt (svc_id s)), (''project'', JInt (svc_project s)), (''name'', JStr (svc_name s)),
           (''slug'', JStr (svc_slug s)), (''description'', JStr (svc_description s)),
           (''base_url'', JStr (svc_base_url s)), (''is_active'', JBool (svc_is_active s)),
           (''created_at'', JStr (stamp (svc_created_at s)))]"

definition route_method_data :: "route_method \<Rightarrow> json" where
  "route_method_data m =
     JObj [(''id'', JInt (rm_id m)), (''route'', JInt (rm_route m)), (''method'', JStr (rm_method m)),
           (''auth_policy'', JStr (rm_auth_policy m))]"

text \<open>The two write-only fields are not shown; a missing service is \<open>null\<close> and its slug empty.\<close>

definition get_downstream_service :: "db \<Rightarrow> route \<Rightarrow> string" where
  "get_downstream_service d r =
     (case Option.bind (rt_backend_service r) (service_of d) of None \<Rightarrow> [] | Some s \<Rightarrow> svc_slug s)"

definition route_data :: "(instant \<Rightarrow> string) \<Rightarrow> db \<Rightarrow> route \<Rightarrow> json" where
  "route_data stamp d r =
     JObj [(''id'', JInt (rt_id r)), (''name'', JStr (rt_name r)),
           (''backend_service'', nullable JInt (rt_backend_service r)),
           (''backend_service_detail'',
              nullable (service_data stamp) (Option.bind (rt_backend_service r) (service_of d))),
           (''downstream_service'', JStr (get_downstream_service d r)),
           (''base_path'', JStr (rt_base_path r)), (''is_active'', JBool (rt_is_active r)),
           (''method_policies'',
              JList (map route_method_data (objects_filter (\<lambda>m. rm_route m = rt_id r) (route_methods d)))),
           (''created_at'', JStr (stamp (rt_created_at r)))]"

definition permission_data :: "(instant \<Rightarrow> string) \<Rightarrow> route_permission \<Rightarrow> json" where
  "permission_data stamp q =
     JObj [(''id'', JInt (perm_id q)), (''application'', JInt (perm_application q)),
           (''route'', JInt (perm_route q)), (''is_active'', JBool (perm_is_active q)),
           (''created_at'', JStr (stamp (perm_created_at q)))]"

definition project_data :: "(instant \<Rightarrow> string) \<Rightarrow> project \<Rightarrow> json" where
  "project_data stamp p =
     JObj [(''id'', JInt (prj_id p)), (''name'', JStr (prj_name p)), (''slug'', JStr (prj_slug p)),
           (''description'', JStr (prj_description p)), (''created_at'', JStr (stamp (prj_created_at p)))]"

definition application_members :: "(instant \<Rightarrow> string) \<Rightarrow> application \<Rightarrow> (string \<times> json) list" where
  "application_members stamp a =
     [(''id'', JInt (app_id a)), (''project'', JInt (app_project a)), (''name'', JStr (app_name a)),
      (''slug'', JStr (app_slug a)), (''plan'', JStr (app_plan a)), (''is_active'', JBool (app_is_active a)),
      (''created_at'', JStr (stamp (app_created_at a)))]"

definition api_key_data :: "(instant \<Rightarrow> string) \<Rightarrow> api_key \<Rightarrow> json" where
  "api_key_data stamp k =
     JObj [(''id'', JInt (key_id k)), (''application'', JInt (key_application k)), (''name'', JStr (key_name k)),
           (''created_at'', JStr (stamp (key_created_at k))),
           (''expires_at'', nullable (\<lambda>t. JStr (stamp t)) (key_expires_at k)),
           (''revoked_at'', nullable (\<lambda>t. JStr (stamp t)) (key_revoked_at k))]"

definition client_user_data :: "(instant \<Rightarrow> string) \<Rightarrow> app_user \<Rightarrow> json" where
  "client_user_data stamp u =
     JObj [(''id'', JInt (cu_id u)), (''application'', JInt (cu_application u)), (''email'', JStr (cu_email u)),
           (''is_active'', JBool (cu_is_active u)), (''created_at'', JStr (stamp (cu_created_at u)))]"

section \<open>Pages\<close>

definition shown :: "json \<Rightarrow> exn + response" where
  "shown j = Inr \<lparr>rs_status = 200, rs_body = j\<rparr>"

definition list_page :: "('r \<Rightarrow> json) \<Rightarrow> 'r list \<Rightarrow> exn + response" where
  "list_page f xs = shown (JList (map f xs))"

text \<open>\<open>get_object\<close> on the view's own query set.\<close>

definition row_page :: "('r \<Rightarrow> json) \<Rightarrow> 'r option \<Rightarrow> exn + response" where
  "row_page f r = (case r of None \<Rightarrow> Inl Http404 | Some x \<Rightarrow> shown (f x))"

definition own_service :: "pk \<Rightarrow> pk \<Rightarrow> db \<Rightarrow> backend_service option" where
  "own_service admin i d =
     objects_first (\<lambda>s. svc_id s = i \<and> owns_project d admin (svc_project s)) (services d)"

definition own_route :: "pk \<Rightarrow> pk \<Rightarrow> db \<Rightarrow> route option" where
  "own_route admin i d =
     objects_first (\<lambda>r. rt_id r = i \<and> owns_project d admin (rt_project r)) (routes d)"

definition own_route_method :: "pk \<Rightarrow> pk \<Rightarrow> db \<Rightarrow> route_method option" where
  "own_route_method admin i d =
     objects_first (\<lambda>m. rm_id m = i \<and> owns_route d admin (rm_route m)) (route_methods d)"

definition own_permission :: "pk \<Rightarrow> pk \<Rightarrow> db \<Rightarrow> route_permission option" where
  "own_permission admin i d =
     objects_first (\<lambda>q. perm_id q = i \<and> owns_application d admin (perm_application q)) (permissions d)"

definition dashboard_data :: "pk \<Rightarrow> db \<Rightarrow> json" where
  "dashboard_data admin d =
     JObj [(''projects'', JList (map (\<lambda>(i, name, n_routes, n_keys).
        JObj [(''id'', JInt i), (''name'', JStr name), (''route_count'', JInt (int n_routes)),
              (''api_key_count'', JInt (int n_keys))]) (dashboard admin d)))]"

section \<open>Answers of the writes\<close>

text \<open>
  A creation answers 201, an update 200, both with the row as the serializer shows it in the
  database the view leaves. An exception is the framework's to answer.
\<close>

definition written :: "int \<Rightarrow> ('a \<Rightarrow> db \<Rightarrow> json) \<Rightarrow> exn + 'a \<times> db \<Rightarrow> exn + response" where
  "written status f r = and_then r (\<lambda>(x, d). Inr \<lparr>rs_status = status, rs_body = f x d\<rparr>)"

definition in_txn :: "exn + 'a \<times> txn \<Rightarrow> exn + 'a \<times> db" where
  "in_txn r = and_then r (\<lambda>(x, tx). Inr (x, tx_db tx))"

fun route_call_answer ::
    "(instant \<Rightarrow> string) \<Rightarrow> admin_env \<Rightarrow> pk \<Rightarrow> instant \<Rightarrow> route_call \<Rightarrow> txn \<Rightarrow> exn + response" where
  "route_call_answer stamp E admin now (Service_Create m v) tx =
     written 201 (\<lambda>s _. service_data stamp s)
       (in_txn (service_create (ae_settings E) (ae_slugify E) (ae_float_int E) admin now m v tx))"
| "route_call_answer stamp E admin now (Service_Update i partial v) tx =
     written 200 (\<lambda>s _. service_data stamp s)
       (in_txn (service_update (ae_settings E) (ae_slugify E) admin now i partial v tx))"
| "route_call_answer stamp E admin now (Route_Create m v) tx =
     written 201 (\<lambda>r d. route_data stamp d r)
       (in_txn (route_create (ae_slugify E) (ae_float_int E) admin now m v tx))"
| "route_call_answer stamp E admin now (Route_Update i partial v) tx =
     written 200 (\<lambda>r d. route_data stamp d r) (in_txn (route_update admin now i partial v tx))"
| "route_call_answer stamp E admin now (Method_Create v) tx =
     written 201 (\<lambda>m _. route_method_data m) (in_txn (route_method_create admin v tx))"
| "route_call_answer stamp E admin now (Method_Update i partial v) tx =
     written 200 (\<lambda>m _. route_method_data m) (in_txn (route_method_update admin i partial v tx))"
| "route_call_answer stamp E admin now (Permission_Create v) tx =
     written 201 (\<lambda>q _. permission_data stamp q) (in_txn (permission_create admin now v tx))"
| "route_call_answer stamp E admin now (Permission_Update i partial v) tx =
     written 200 (\<lambda>q _. permission_data stamp q) (in_txn (permission_update admin i partial v tx))"

text \<open>The text of a key is shown in the answer that issues it and in no other.\<close>

definition application_created :: "(instant \<Rightarrow> string) \<Rightarrow> (application \<times> api_key \<times> string) option \<Rightarrow> response" where
  "application_created stamp r =
     (case r of
        None \<Rightarrow> reject ''Project not found or not owned by this user.'' 404
      | Some (a, k, raw_key) \<Rightarrow>
          \<lparr>rs_status = 201,
           rs_body = JObj (application_members stamp a @
             [(''api_key'', JObj [(''id'', JInt (key_id k)), (''key'', JStr raw_key),
                                  (''expires_at'', nullable (\<lambda>t. JStr (stamp t)) (key_expires_at k))])])\<rparr>)"

definition api_key_created :: "(instant \<Rightarrow> string) \<Rightarrow> int + api_key \<times> string \<Rightarrow> response" where
  "api_key_created stamp r =
     (case r of
        Inl status \<Rightarrow>
          reject (if status = 400 then ''Application is required.''
                  else ''Application not found or not owned by this user.'') status
      | Inr (k, raw_key) \<Rightarrow>
          \<lparr>rs_status = 201,
           rs_body = JObj [(''id'', JInt (key_id k)), (''application'', JInt (key_application k)),
                           (''name'', JStr (key_name k)), (''key'', JStr raw_key),
                           (''expires_at'', nullable (\<lambda>t. JStr (stamp t)) (key_expires_at k))]\<rparr>)"

definition user_registered :: "user \<Rightarrow> json" where
  "user_registered u =
     JObj [(''id'', JInt (usr_id u)), (''email'', JStr (usr_email u)), (''username'', JStr (usr_username u))]"

definition api_key_revoked :: "(instant \<Rightarrow> string) \<Rightarrow> api_key option \<Rightarrow> response" where
  "api_key_revoked stamp r =
     (case r of
        None \<Rightarrow> reject ''API key not found.'' 404
      | Some k \<Rightarrow> \<lparr>rs_status = 200, rs_body = api_key_data stamp k\<rparr>)"

fun admin_call_answer ::
    "(instant \<Rightarrow> string) \<Rightarrow> account_env \<Rightarrow> pk \<Rightarrow> instant \<Rightarrow> admin_call \<Rightarrow> db \<Rightarrow> exn + response" where
  "admin_call_answer stamp E admin now (Route_Call c) d =
     route_call_answer stamp (ac_admin E) admin now c (begin_txn d)"
| "admin_call_answer stamp E admin now (Register_User salt username email password) d =
     written 201 (\<lambda>u _. user_registered u) (register_user E salt now username email password d)"
| "admin_call_answer stamp E admin now (Create_Project name description) d =
     written 201 (\<lambda>p _. project_data stamp p) (project_create E admin now name description d)"
| "admin_call_answer stamp E admin now (Create_Application token data v) d =
     and_then (application_create E token admin now data v d) (\<lambda>(r, _). Inr (application_created stamp r))"
| "admin_call_answer stamp E admin now (Create_Key token data) d =
     and_then (api_key_create E token admin now data d) (\<lambda>(r, _). Inr (api_key_created stamp r))"
| "admin_call_answer stamp E admin now (Revoke_Key i) d =
     Inr (api_key_revoked stamp (fst (api_key_revoke admin now i d)))"

section \<open>What an administrator may see\<close>

definition only_rows :: "('r \<Rightarrow> bool) \<Rightarrow> ('r \<Rightarrow> 'r) \<Rightarrow> 'r table \<Rightarrow> 'r table" where
  "only_rows P f t = \<lparr>rows = map f (filter P (rows t)), last_pk = 0\<rparr>"

text \<open>
  The rows of the administrator's own projects, without the hash of a key and without the password
  hash and token version of an end user.
\<close>

definition visible :: "pk \<Rightarrow> db \<Rightarrow> db" where
  "visible admin d =
     d\<lparr>users := only_rows (\<lambda>_. False) id (users d),
       projects := only_rows (\<lambda>p. prj_owner p = admin) id (projects d),
       applications := only_rows (\<lambda>a. owns_project d admin (app_project a)) id (applications d),
       api_keys := only_rows (\<lambda>k. owns_application d admin (key_application k)) (\<lambda>k. k\<lparr>key_hash := []\<rparr>) (api_keys d),
       permissions := only_rows (\<lambda>q. owns_application d admin (perm_application q)) id (permissions d),
       services := only_rows (\<lambda>s. owns_project d admin (svc_project s)) id (services d),
       routes := only_rows (\<lambda>r. owns_project d admin (rt_project r)) id (routes d),
       route_methods := only_rows (\<lambda>m. owns_route d admin (rm_route m)) id (route_methods d),
       clients := only_rows (\<lambda>u. owns_application d admin (cu_application u))
                    (\<lambda>u. u\<lparr>cu_password_hash := [], cu_token_version := 0\<rparr>) (clients d)\<rparr>"

lemma filter_weaker: "(\<And>x. Q x \<Longrightarrow> P x) \<Longrightarrow> filter Q (filter P xs) = filter Q xs"
  by (induction xs) auto

lemma only_rows_rows [simp]: "rows (only_rows P f t) = map f (filter P (rows t))"
  by (simp add: only_rows_def)

lemma only_rows_first [simp]: "objects_first Q (only_rows P id t) = objects_first (\<lambda>x. P x \<and> Q x) t"
proof -
  have "find Q (filter P xs) = find (\<lambda>x. P x \<and> Q x) xs" for xs by (induction xs) simp_all
  then show ?thesis by (simp add: objects_first_def only_rows_def)
qed

lemma visible_tables [simp]:
  "projects (visible admin d) = only_rows (\<lambda>p. prj_owner p = admin) id (projects d)"
  "applications (visible admin d) = only_rows (\<lambda>a. owns_project d admin (app_project a)) id (applications d)"
  "api_keys (visible admin d) = only_rows (\<lambda>k. owns_application d admin (key_application k)) (\<lambda>k. k\<lparr>key_hash := []\<rparr>) (api_keys d)"
  "permissions (visible admin d) = only_rows (\<lambda>q. owns_application d admin (perm_application q)) id (permissions d)"
  "services (visible admin d) = only_rows (\<lambda>s. owns_project d admin (svc_project s)) id (services d)"
  "routes (visible admin d) = only_rows (\<lambda>r. owns_project d admin (rt_project r)) id (routes d)"
  "route_methods (visible admin d) = only_rows (\<lambda>m. owns_route d admin (rm_route m)) id (route_methods d)"
  "clients (visible admin d) = only_rows (\<lambda>u. owns_application d admin (cu_application u))
     (\<lambda>u. u\<lparr>cu_password_hash := [], cu_token_version := 0\<rparr>) (clients d)"
  by (simp_all add: visible_def)

lemma visible_owns [simp]:
  "owns_project (visible admin d) admin = owns_project d admin"
  "owns_application (visible admin d) admin = owns_application d admin"
  "owns_route (visible admin d) admin = owns_route d admin"
proof -
  show p: "owns_project (visible admin d) admin = owns_project d admin"
    by (rule ext) (auto simp: owns_project_def objects_exists_iff)
  show "owns_application (visible admin d) admin = owns_application d admin"
    by (rule ext) (auto simp: owns_application_def p objects_exists_iff)
  show "owns_route (visible admin d) admin = owns_route d admin"
    by (rule ext) (auto simp: owns_route_def p objects_exists_iff)
qed

lemma sort_key_map:
  assumes "\<And>x. k (f x) = k x"
  shows "sort_key k (map f xs) = map f (sort_key k xs)"
proof -
  have "insort_key k (f x) (map f ys) = map f (insort_key k x ys)" for x ys
    by (induction ys) (simp_all add: assms)
  then show ?thesis by (induction xs) simp_all
qed

lemma visible_lists [simp]:
  "projects_list admin (visible admin d) = projects_list admin d"
  "applications_list admin (visible admin d) = applications_list admin d"
  "services_list admin (visible admin d) = services_list admin d"
  "routes_list admin (visible admin d) = routes_list admin d"
  "route_methods_list admin (visible admin d) = route_methods_list admin d"
  "permissions_list admin (visible admin d) = permissions_list admin d"
  by (simp_all add: projects_list_def applications_list_def services_list_def routes_list_def
      route_methods_list_def permissions_list_def objects_filter_def)

lemma visible_clients:
  "map (client_user_data stamp) (client_users_list admin (visible admin d)) =
   map (client_user_data stamp) (client_users_list admin d)"
proof -
  let ?f = "\<lambda>u. u\<lparr>cu_password_hash := [], cu_token_version := 0\<rparr>"
  have "client_users_list admin (visible admin d) = map ?f (client_users_list admin d)"
    by (simp add: client_users_list_def sort_key_map objects_filter_def)
  then show ?thesis by (simp add: client_user_data_def o_def)
qed

lemma visible_rows [simp]:
  "own_service admin i (visible admin d) = own_service admin i d"
  "own_route admin i (visible admin d) = own_route admin i d"
  "own_route_method admin i (visible admin d) = own_route_method admin i d"
  "own_permission admin i (visible admin d) = own_permission admin i d"
  by (auto simp: own_service_def own_route_def own_route_method_def own_permission_def intro!: objects_first_cong)

lemma service_linked:
  assumes "links_ok d" and "r \<in> set (rows (routes d))" and "rt_backend_service r = Some i"
  shows "\<exists>s \<in> set (rows (services d)). svc_id s = i \<and> svc_project s = rt_project r"
proof -
  have "service_link d r" using assms(1,2) by (simp add: links_ok_def list_all_iff)
  then show ?thesis using assms(3) by (simp add: service_link_def objects_exists_iff)
qed

lemma visible_route_data:
  assumes "tables_ok d" and "links_ok d" and r: "r \<in> set (rows (routes d))" "owns_project d admin (rt_project r)"
  shows "route_data stamp (visible admin d) r = route_data stamp d r"
proof -
  have "Option.bind (rt_backend_service r) (service_of (visible admin d)) = Option.bind (rt_backend_service r) (service_of d)"
  proof (cases "rt_backend_service r")
    case (Some i)
    then obtain s where s: "s \<in> set (rows (services d))" "svc_id s = i" "svc_project s = rt_project r"
      using service_linked [OF assms(2) r(1) Some] by blast
    have key: "table_ok svc_id (services d)" using assms(1) by (auto simp: tables_ok_def dest: wf_tableD)
    have inj: "x = s" if "x \<in> set (rows (services d))" "svc_id x = i" for x
      by (rule table_ok_inj [OF key that(1) s(1)]) (simp add: s(2) that(2))
    have "service_of d i = Some s"
      unfolding service_of_def by (rule objects_first_unique [OF s(1)]) (simp_all add: s(2) inj)
    moreover have "service_of (visible admin d) i = Some s"
      unfolding service_of_def visible_tables only_rows_first
      by (rule objects_first_unique [OF s(1)]) (simp_all add: s(2,3) r(2) inj)
    ultimately show ?thesis using Some by simp
  qed simp
  moreover have "owns_route d admin (rt_id r)" using r by (auto simp: owns_route_def objects_exists_iff)
  then have "objects_filter (\<lambda>m. rm_route m = rt_id r) (route_methods (visible admin d)) =
      objects_filter (\<lambda>m. rm_route m = rt_id r) (route_methods d)"
    unfolding objects_filter_def visible_tables only_rows_rows list.map_id by (intro filter_weaker) simp
  ultimately show ?thesis by (simp only: route_data_def get_downstream_service_def)
qed

lemma visible_dashboard [simp]: "dashboard admin (visible admin d) = dashboard admin d"
proof -
  have mine: "owns_project d admin (prj_id p)" if "p \<in> set (rows (projects d))" "prj_owner p = admin" for p
    using that by (auto simp: owns_project_def objects_exists_iff)
  have "objects_filter (\<lambda>r. rt_project r = i) (routes (visible admin d)) = objects_filter (\<lambda>r. rt_project r = i) (routes d)"
    if "owns_project d admin i" for i
    using that unfolding objects_filter_def visible_tables only_rows_rows list.map_id by (intro filter_weaker) simp
  moreover have "length (objects_filter (\<lambda>k. application_in (visible admin d) i (key_application k)) (api_keys (visible admin d)))
      = length (objects_filter (\<lambda>k. application_in d i (key_application k)) (api_keys d))" if "owns_project d admin i" for i
  proof -
    have "application_in (visible admin d) i a = application_in d i a" for a
      using that by (auto simp: application_in_def objects_exists_iff)
    moreover have "owns_application d admin a" if "application_in d i a" for a
      using that \<open>owns_project d admin i\<close> by (auto simp: application_in_def owns_application_def objects_exists_iff)
    ultimately have "(owns_application d admin a \<and> application_in (visible admin d) i a) = application_in d i a" for a
      by blast
    then show ?thesis by (simp add: objects_filter_def filter_map o_def conj_commute)
  qed
  ultimately show ?thesis
    using mine by (simp add: dashboard_def) (auto simp: objects_filter_def)
qed

section \<open>A write answers the page of its row\<close>

lemma own_rows:
  assumes "tables_ok d"
  shows "s \<in> set (rows (services d)) \<Longrightarrow> owns_project d admin (svc_project s) \<Longrightarrow> own_service admin (svc_id s) d = Some s"
    and "r \<in> set (rows (routes d)) \<Longrightarrow> owns_project d admin (rt_project r) \<Longrightarrow> own_route admin (rt_id r) d = Some r"
    and "m \<in> set (rows (route_methods d)) \<Longrightarrow> owns_route d admin (rm_route m)
           \<Longrightarrow> own_route_method admin (rm_id m) d = Some m"
    and "q \<in> set (rows (permissions d)) \<Longrightarrow> owns_application d admin (perm_application q)
           \<Longrightarrow> own_permission admin (perm_id q) d = Some q"
proof -
  have keys: "table_ok svc_id (services d)" "table_ok rt_id (routes d)" "table_ok rm_id (route_methods d)"
    "table_ok perm_id (permissions d)"
    using assms by (auto simp: tables_ok_def dest: wf_tableD)
  show "s \<in> set (rows (services d)) \<Longrightarrow> owns_project d admin (svc_project s) \<Longrightarrow> own_service admin (svc_id s) d = Some s"
    unfolding own_service_def by (rule objects_first_unique) (auto intro: table_ok_inj [OF keys(1)])
  show "r \<in> set (rows (routes d)) \<Longrightarrow> owns_project d admin (rt_project r) \<Longrightarrow> own_route admin (rt_id r) d = Some r"
    unfolding own_route_def by (rule objects_first_unique) (auto intro: table_ok_inj [OF keys(2)])
  show "m \<in> set (rows (route_methods d)) \<Longrightarrow> owns_route d admin (rm_route m)
           \<Longrightarrow> own_route_method admin (rm_id m) d = Some m"
    unfolding own_route_method_def by (rule objects_first_unique) (auto intro: table_ok_inj [OF keys(3)])
  show "q \<in> set (rows (permissions d)) \<Longrightarrow> owns_application d admin (perm_application q)
           \<Longrightarrow> own_permission admin (perm_id q) d = Some q"
    unfolding own_permission_def by (rule objects_first_unique) (auto intro: table_ok_inj [OF keys(4)])
qed

lemma saved_in:
  assumes "rows t = map (\<lambda>x. if key x = key r then r else x) xs" and "old \<in> set xs" and "key r = key old"
  shows "r \<in> set (rows t)"
  unfolding assms(1) set_map by (rule image_eqI [OF _ assms(2)]) (simp add: assms(3))

lemma service_create_row:
  assumes "service_create S slugify float_int admin now member v tx = Inr (s, tx')"
  shows "s \<in> set (rows (services (tx_db tx')))" and "owns_project (tx_db tx) admin (svc_project s)"
proof -
  obtain project s0 where prj: "get_owned_project float_int admin member (tx_db tx) = Inr project"
    and new: "tx_create_service slugify now s0 tx = Inr (s, tx')" and s0: "svc_project s0 = prj_id project"
    using assms by (auto simp: service_create_def and_then_Inr Let_def split: if_splits)
  show "s \<in> set (rows (services (tx_db tx')))" using tx_create_service_db(1) [OF new] by auto
  show "owns_project (tx_db tx) admin (svc_project s)"
    using tx_create_service_db(2) [OF new] s0 get_owned_project_Inr [OF prj] by simp
qed

lemma service_update_row:
  assumes "service_update S slugify admin now i partial v tx = Inr (s, tx')"
  shows "s \<in> set (rows (services (tx_db tx')))" and "owns_project (tx_db tx) admin (svc_project s)"
proof -
  obtain old s0 where old: "objects_first (\<lambda>s. svc_id s = i \<and> owns_project (tx_db tx) admin (svc_project s)) (services (tx_db tx)) = Some old"
    and save: "tx_save_service slugify now s0 tx = Inr (s, tx')" and s0: "svc_project s0 = svc_project old" "svc_id s0 = svc_id old"
    using assms by (auto simp: service_update_def and_then_Inr split: option.splits)
  have s: "svc_id s = svc_id old" "svc_project s = svc_project old" using tx_save_service_db(2) [OF save] s0 by simp_all
  note found = objects_first_Some [OF old]
  obtain t where d': "tx_db tx' = (tx_db tx)\<lparr>services := t\<rparr>"
    and t: "rows t = map (\<lambda>x. if svc_id x = svc_id s then s else x) (rows (services (tx_db tx)))"
    using tx_save_service_db(1) [OF save] by blast
  show "s \<in> set (rows (services (tx_db tx')))" using saved_in [OF t _ s(1)] found by (simp add: d')
  show "owns_project (tx_db tx) admin (svc_project s)" using found s by simp
qed

lemma route_create_row:
  assumes "route_create slugify float_int admin now member v tx = Inr (r, tx')"
  shows "r \<in> set (rows (routes (tx_db tx')))" and "owns_project (tx_db tx) admin (rt_project r)"
proof -
  obtain project tx1 r0 where prj: "get_owned_project float_int admin member (tx_db tx) = Inr project"
    and new: "tx_create_route now r0 tx1 = Inr (r, tx')" and r0: "rt_project r0 = prj_id project"
    using assms by (auto simp: route_create_def and_then_Inr Let_def split: option.splits if_splits)
  show "r \<in> set (rows (routes (tx_db tx')))" using tx_create_route_db(1) [OF new] by auto
  show "owns_project (tx_db tx) admin (rt_project r)"
    using tx_create_route_db(2) [OF new] r0 get_owned_project_Inr [OF prj] by simp
qed

lemma route_update_row:
  assumes "route_update admin now i partial v tx = Inr (r, tx')"
  shows "r \<in> set (rows (routes (tx_db tx')))" and "owns_project (tx_db tx) admin (rt_project r)"
proof -
  obtain old r0 where old: "objects_first (\<lambda>r. rt_id r = i \<and> owns_project (tx_db tx) admin (rt_project r)) (routes (tx_db tx)) = Some old"
    and save: "tx_save_route now r0 tx = Inr (r, tx')" and r0: "rt_project r0 = rt_project old" "rt_id r0 = rt_id old"
    using assms by (auto simp: route_update_def and_then_Inr Let_def split: option.splits if_splits)
  have r: "rt_id r = rt_id old" "rt_project r = rt_project old" using tx_save_route_db(2) [OF save] r0 by simp_all
  note found = objects_first_Some [OF old]
  obtain t where d': "tx_db tx' = (tx_db tx)\<lparr>routes := t\<rparr>"
    and t: "rows t = map (\<lambda>x. if rt_id x = rt_id r then r else x) (rows (routes (tx_db tx)))"
    using tx_save_route_db(1) [OF save] by blast
  show "r \<in> set (rows (routes (tx_db tx')))" using saved_in [OF t _ r(1)] found by (simp add: d')
  show "owns_project (tx_db tx) admin (rt_project r)" using found r by simp
qed

lemma route_method_create_row:
  assumes "route_method_create admin v tx = Inr (m, tx')"
  shows "m \<in> set (rows (route_methods (tx_db tx')))" and "owns_route (tx_db tx') admin (rm_route m)"
proof -
  obtain m0 d' where c: "create_route_method m0 (tx_db tx) = Inr (m, d')" and tx: "tx_db tx' = d'"
    and own: "owns_route (tx_db tx) admin (rm_route m0)"
    using assms by (auto simp: route_method_create_def and_then_Inr Let_def split: if_splits dest!: forms_keep_input)
  obtain t where d': "d' = (tx_db tx)\<lparr>route_methods := t\<rparr>" and t: "rows t = rows (route_methods (tx_db tx)) @ [m]"
    using create_route_method_Inr(1) [OF c] by blast
  have "rm_route m = rm_route m0" using create_route_method_Inr(2) [OF c] by simp
  then show "m \<in> set (rows (route_methods (tx_db tx')))" "owns_route (tx_db tx') admin (rm_route m)"
    using own by (simp_all add: tx d' t owns_route_def owns_project_def)
qed

lemma route_method_update_row:
  assumes "route_method_update admin i partial v tx = Inr (m, tx')"
  shows "m \<in> set (rows (route_methods (tx_db tx')))" and "owns_route (tx_db tx') admin (rm_route m)"
proof -
  obtain old m0 d' where old: "objects_first (\<lambda>m. rm_id m = i \<and> owns_route (tx_db tx) admin (rm_route m)) (route_methods (tx_db tx)) = Some old"
    and c: "save_route_method m0 (tx_db tx) = Inr (m, d')" and tx: "tx_db tx' = d'"
    and m0: "rm_route m0 = rm_route old" "rm_id m0 = rm_id old"
    using assms by (auto simp: route_method_update_def and_then_Inr split: option.splits if_splits dest!: forms_keep_input)
  obtain t where d': "d' = (tx_db tx)\<lparr>route_methods := t\<rparr>"
    and t: "rows t = map (\<lambda>x. if rm_id x = rm_id m then m else x) (rows (route_methods (tx_db tx)))"
    using save_route_method_Inr(1) [OF c] by blast
  have m: "rm_id m = rm_id old" "rm_route m = rm_route old" using save_route_method_Inr(2) [OF c] m0 by simp_all
  note found = objects_first_Some [OF old]
  show "m \<in> set (rows (route_methods (tx_db tx')))" using saved_in [OF t _ m(1)] found by (simp add: tx d')
  show "owns_route (tx_db tx') admin (rm_route m)"
    using found m(2) by (simp add: tx d' owns_route_def owns_project_def)
qed

lemma permission_create_row:
  assumes "permission_create admin now v tx = Inr (q, tx')"
  shows "q \<in> set (rows (permissions (tx_db tx')))" and "owns_application (tx_db tx') admin (perm_application q)"
proof -
  obtain q0 d' where c: "create_permission now q0 (tx_db tx) = Inr (q, d')" and tx: "tx_db tx' = d'"
    and own: "same_owned_project admin (perm_application q0) (perm_route q0) (tx_db tx)"
    using assms by (auto simp: permission_create_def and_then_Inr Let_def split: if_splits dest!: forms_keep_input)
  obtain t where d': "d' = (tx_db tx)\<lparr>permissions := t\<rparr>" and t: "rows t = rows (permissions (tx_db tx)) @ [q]"
    using create_permission_Inr(1) [OF c] by blast
  have "perm_application q = perm_application q0" using create_permission_Inr(2) [OF c] by simp
  then show "q \<in> set (rows (permissions (tx_db tx')))" "owns_application (tx_db tx') admin (perm_application q)"
    using same_owned_projectD(1) [OF own] by (simp_all add: tx d' t owns_application_def owns_project_def)
qed

lemma permission_update_row:
  assumes "permission_update admin i partial v tx = Inr (q, tx')"
  shows "q \<in> set (rows (permissions (tx_db tx')))" and "owns_application (tx_db tx') admin (perm_application q)"
proof -
  obtain old q0 d' where old: "objects_first (\<lambda>q. perm_id q = i \<and> owns_application (tx_db tx) admin (perm_application q)) (permissions (tx_db tx)) = Some old"
    and c: "save_permission q0 (tx_db tx) = Inr (q, d')" and tx: "tx_db tx' = d'"
    and own: "same_owned_project admin (perm_application q0) (perm_route q0) (tx_db tx)" and q0: "perm_id q0 = perm_id old"
    using assms
    by (auto simp: permission_update_def and_then_Inr Let_def split: option.splits if_splits dest!: forms_keep_input)
  obtain t where d': "d' = (tx_db tx)\<lparr>permissions := t\<rparr>"
    and t: "rows t = map (\<lambda>x. if perm_id x = perm_id q then q else x) (rows (permissions (tx_db tx)))"
    using save_permission_Inr(1) [OF c] by blast
  have q: "perm_id q = perm_id old" "perm_application q = perm_application q0"
    using save_permission_Inr(2) [OF c] q0 by simp_all
  show "q \<in> set (rows (permissions (tx_db tx')))"
    using saved_in [OF t _ q(1)] objects_first_Some [OF old] by (simp add: tx d')
  show "owns_application (tx_db tx') admin (perm_application q)"
    using same_owned_projectD(1) [OF own] q(2) by (simp add: tx d' owns_application_def owns_project_def)
qed

text \<open>The detail page of the kind of row a call writes.\<close>

fun written_row_page :: "(instant \<Rightarrow> string) \<Rightarrow> pk \<Rightarrow> route_call \<Rightarrow> pk \<Rightarrow> db \<Rightarrow> exn + response" where
  "written_row_page stamp admin (Service_Create m v) i d = row_page (service_data stamp) (own_service admin i d)"
| "written_row_page stamp admin (Service_Update j partial v) i d = row_page (service_data stamp) (own_service admin i d)"
| "written_row_page stamp admin (Route_Create m v) i d = row_page (route_data stamp d) (own_route admin i d)"
| "written_row_page stamp admin (Route_Update j partial v) i d = row_page (route_data stamp d) (own_route admin i d)"
| "written_row_page stamp admin (Method_Create v) i d = row_page route_method_data (own_route_method admin i d)"
| "written_row_page stamp admin (Method_Update j partial v) i d = row_page route_method_data (own_route_method admin i d)"
| "written_row_page stamp admin (Permission_Create v) i d = row_page (permission_data stamp) (own_permission admin i d)"
| "written_row_page stamp admin (Permission_Update j partial v) i d = row_page (permission_data stamp) (own_permission admin i d)"

lemma written_Inr:
  "written status f (in_txn r) = Inr rs \<longleftrightarrow> (\<exists>x tx. r = Inr (x, tx) \<and> rs = \<lparr>rs_status = status, rs_body = f x (tx_db tx)\<rparr>)"
  by (auto simp: written_def in_txn_def and_then_Inr)

lemma data_ids [simp]:
  "jget ''id'' (service_data stamp s) = Some (JInt (svc_id s))"
  "jget ''id'' (route_data stamp d r) = Some (JInt (rt_id r))"
  "jget ''id'' (route_method_data m) = Some (JInt (rm_id m))"
  "jget ''id'' (permission_data stamp q) = Some (JInt (perm_id q))"
  by (simp_all add: service_data_def route_data_def route_method_data_def permission_data_def)

lemma route_call_reads_back:
  assumes "route_call_answer stamp E admin now c tx = Inr rs" and ok: "tables_ok (tx_db tx)" "links_ok (tx_db tx)"
  shows "\<exists>i tx'. run_route_call E admin now c tx = Inr tx' \<and> jget ''id'' (rs_body rs) = Some (JInt i)
    \<and> written_row_page stamp admin c i (tx_db tx') = shown (rs_body rs)"
proof -
  have kept: "tables_ok (tx_db tx')" "owns_project (tx_db tx') admin = owns_project (tx_db tx) admin"
    if "run_route_call E admin now c tx = Inr tx'" for tx'
    using run_route_call_confined [OF that ok] relations_cong(3) unfolding confined_def by metis+
  note row = own_rows [OF kept(1)]
  show ?thesis
  proof (cases c)
    case (Service_Create m v)
    then obtain s tx' where w: "service_create (ae_settings E) (ae_slugify E) (ae_float_int E) admin now m v tx = Inr (s, tx')"
      and rs: "rs_body rs = service_data stamp s" using assms(1) by (auto simp: written_Inr)
    have run: "run_route_call E admin now c tx = Inr tx'" by (simp add: Service_Create left_in_Inr w)
    show ?thesis using run row(1) [OF run, of s admin] kept [OF run] service_create_row [OF w]
      by (simp add: Service_Create rs row_page_def)
  next
    case (Service_Update i partial v)
    then obtain s tx' where w: "service_update (ae_settings E) (ae_slugify E) admin now i partial v tx = Inr (s, tx')"
      and rs: "rs_body rs = service_data stamp s" using assms(1) by (auto simp: written_Inr)
    have run: "run_route_call E admin now c tx = Inr tx'" by (simp add: Service_Update left_in_Inr w)
    show ?thesis using run row(1) [OF run, of s admin] kept [OF run] service_update_row [OF w]
      by (simp add: Service_Update rs row_page_def)
  next
    case (Route_Create m v)
    then obtain r tx' where w: "route_create (ae_slugify E) (ae_float_int E) admin now m v tx = Inr (r, tx')"
      and rs: "rs_body rs = route_data stamp (tx_db tx') r" using assms(1) by (auto simp: written_Inr)
    have run: "run_route_call E admin now c tx = Inr tx'" by (simp add: Route_Create left_in_Inr w)
    show ?thesis using run row(2) [OF run, of r admin] kept [OF run] route_create_row [OF w]
      by (simp add: Route_Create rs row_page_def)
  next
    case (Route_Update i partial v)
    then obtain r tx' where w: "route_update admin now i partial v tx = Inr (r, tx')"
      and rs: "rs_body rs = route_data stamp (tx_db tx') r" using assms(1) by (auto simp: written_Inr)
    have run: "run_route_call E admin now c tx = Inr tx'" by (simp add: Route_Update left_in_Inr w)
    show ?thesis using run row(2) [OF run, of r admin] kept [OF run] route_update_row [OF w]
      by (simp add: Route_Update rs row_page_def)
  next
    case (Method_Create v)
    then obtain m tx' where w: "route_method_create admin v tx = Inr (m, tx')"
      and rs: "rs_body rs = route_method_data m" using assms(1) by (auto simp: written_Inr)
    have run: "run_route_call E admin now c tx = Inr tx'" by (simp add: Method_Create left_in_Inr w)
    show ?thesis using run row(3) [OF run, of m admin] route_method_create_row [OF w]
      by (simp add: Method_Create rs row_page_def)
  next
    case (Method_Update i partial v)
    then obtain m tx' where w: "route_method_update admin i partial v tx = Inr (m, tx')"
      and rs: "rs_body rs = route_method_data m" using assms(1) by (auto simp: written_Inr)
    have run: "run_route_call E admin now c tx = Inr tx'" by (simp add: Method_Update left_in_Inr w)
    show ?thesis using run row(3) [OF run, of m admin] route_method_update_row [OF w]
      by (simp add: Method_Update rs row_page_def)
  next
    case (Permission_Create v)
    then obtain q tx' where w: "permission_create admin now v tx = Inr (q, tx')"
      and rs: "rs_body rs = permission_data stamp q" using assms(1) by (auto simp: written_Inr)
    have run: "run_route_call E admin now c tx = Inr tx'" by (simp add: Permission_Create left_in_Inr w)
    show ?thesis using run row(4) [OF run, of q admin] permission_create_row [OF w]
      by (simp add: Permission_Create rs row_page_def)
  next
    case (Permission_Update i partial v)
    then obtain q tx' where w: "permission_update admin i partial v tx = Inr (q, tx')"
      and rs: "rs_body rs = permission_data stamp q" using assms(1) by (auto simp: written_Inr)
    have run: "run_route_call E admin now c tx = Inr tx'" by (simp add: Permission_Update left_in_Inr w)
    show ?thesis using run row(4) [OF run, of q admin] permission_update_row [OF w]
      by (simp add: Permission_Update rs row_page_def)
  qed
qed

end
