(* ===== verification/ViewClasses.thy ===== *)
theory ViewClasses
  imports Settings
begin

text \<open>
  The view classes of the \<open>views.py\<close> files as declared: the generic view a class extends, the
  handlers it defines, its serializer and who it lets in. What a class does not say is what
  \<open>REST_FRAMEWORK\<close> sets. The bodies of the handlers are in the theories of the views.
\<close>

datatype view_base = APIView | ListCreateAPIView | RetrieveUpdateAPIView

datatype permission = IsAdminUser | AllowAny | IsAuthenticated

record view_class =
  vc_base :: view_base
  vc_handlers :: "string list"
  vc_serializer :: "string option"
  vc_authentication :: "string list"
  vc_permissions :: "permission list"

fun permission_name :: "permission \<Rightarrow> string" where
  "permission_name IsAdminUser = ''rest_framework.permissions.IsAdminUser''"
| "permission_name AllowAny = ''rest_framework.permissions.AllowAny''"
| "permission_name IsAuthenticated = ''rest_framework.permissions.IsAuthenticated''"

definition default_permissions :: "permission list" where
  "default_permissions =
     filter (\<lambda>p. permission_name p \<in> set (DEFAULT_PERMISSION_CLASSES REST_FRAMEWORK))
       [IsAdminUser, AllowAny, IsAuthenticated]"

definition base_view :: view_class where
  "base_view =
     \<lparr>vc_base = APIView, vc_handlers = [], vc_serializer = None,
      vc_authentication = DEFAULT_AUTHENTICATION_CLASSES REST_FRAMEWORK, vc_permissions = default_permissions\<rparr>"

text \<open>The generic views of the framework define these handlers.\<close>

fun generic_handlers :: "view_base \<Rightarrow> string list" where
  "generic_handlers APIView = []"
| "generic_handlers ListCreateAPIView = [''GET'', ''POST'']"
| "generic_handlers RetrieveUpdateAPIView = [''GET'', ''PUT'', ''PATCH'']"

text \<open>Where there is a \<open>get\<close>, Django answers \<open>HEAD\<close> with it.\<close>

definition allowed_methods :: "view_class \<Rightarrow> string list" where
  "allowed_methods cls =
     concat (map (\<lambda>m. if m = ''GET'' then [''GET'', ''HEAD''] else [m])
               (generic_handlers (vc_base cls) @ vc_handlers cls))"

section \<open>The classes\<close>

named_theorems view_classes \<open>the declared classes\<close>

text \<open>\<open>authentication/views.py\<close>\<close>

definition LoginView :: view_class where
  [view_classes]: "LoginView = base_view\<lparr>vc_handlers := [''POST''], vc_permissions := [AllowAny]\<rparr>"

definition RefreshTokenView :: view_class where
  [view_classes]: "RefreshTokenView = base_view\<lparr>vc_handlers := [''POST''], vc_permissions := [AllowAny]\<rparr>"

text \<open>\<open>users/views.py\<close>\<close>

definition RegisterView :: view_class where
  [view_classes]: "RegisterView = base_view\<lparr>vc_handlers := [''POST''], vc_permissions := [IsAdminUser]\<rparr>"

definition ProjectListCreateView :: view_class where
  [view_classes]: "ProjectListCreateView = base_view\<lparr>vc_base := ListCreateAPIView, vc_serializer := Some ''ProjectSerializer'', vc_permissions := [IsAdminUser]\<rparr>"

definition ApplicationListCreateView :: view_class where
  [view_classes]: "ApplicationListCreateView = base_view\<lparr>vc_base := ListCreateAPIView, vc_serializer := Some ''ApplicationSerializer'', vc_permissions := [IsAdminUser]\<rparr>"

definition APIKeyCreateView :: view_class where
  [view_classes]: "APIKeyCreateView = base_view\<lparr>vc_handlers := [''POST''], vc_permissions := [IsAdminUser]\<rparr>"

definition APIKeyRevokeView :: view_class where
  [view_classes]: "APIKeyRevokeView = base_view\<lparr>vc_handlers := [''POST''], vc_permissions := [IsAdminUser]\<rparr>"

definition DashboardView :: view_class where
  [view_classes]: "DashboardView = base_view\<lparr>vc_handlers := [''GET''], vc_permissions := [IsAdminUser]\<rparr>"

text \<open>\<open>routes/views.py\<close>\<close>

definition BackendServiceListCreateView :: view_class where
  [view_classes]: "BackendServiceListCreateView = base_view\<lparr>vc_base := ListCreateAPIView, vc_serializer := Some ''BackendServiceSerializer'', vc_permissions := [IsAdminUser]\<rparr>"

definition BackendServiceDetailView :: view_class where
  [view_classes]: "BackendServiceDetailView = base_view\<lparr>vc_base := RetrieveUpdateAPIView, vc_serializer := Some ''BackendServiceSerializer'', vc_permissions := [IsAdminUser]\<rparr>"

definition RouteListCreateView :: view_class where
  [view_classes]: "RouteListCreateView = base_view\<lparr>vc_base := ListCreateAPIView, vc_serializer := Some ''RouteSerializer'', vc_permissions := [IsAdminUser]\<rparr>"

definition RouteDetailView :: view_class where
  [view_classes]: "RouteDetailView = base_view\<lparr>vc_base := RetrieveUpdateAPIView, vc_serializer := Some ''RouteSerializer'', vc_permissions := [IsAdminUser]\<rparr>"

definition RouteMethodListCreateView :: view_class where
  [view_classes]: "RouteMethodListCreateView = base_view\<lparr>vc_base := ListCreateAPIView, vc_serializer := Some ''RouteMethodSerializer'', vc_permissions := [IsAdminUser]\<rparr>"

definition RouteMethodDetailView :: view_class where
  [view_classes]: "RouteMethodDetailView = base_view\<lparr>vc_base := RetrieveUpdateAPIView, vc_serializer := Some ''RouteMethodSerializer'', vc_permissions := [IsAdminUser]\<rparr>"

definition RoutePermissionListCreateView :: view_class where
  [view_classes]: "RoutePermissionListCreateView = base_view\<lparr>vc_base := ListCreateAPIView, vc_serializer := Some ''RoutePermissionSerializer'', vc_permissions := [IsAdminUser]\<rparr>"

definition RoutePermissionDetailView :: view_class where
  [view_classes]: "RoutePermissionDetailView = base_view\<lparr>vc_base := RetrieveUpdateAPIView, vc_serializer := Some ''RoutePermissionSerializer'', vc_permissions := [IsAdminUser]\<rparr>"

text \<open>\<open>client_auth/views.py\<close>\<close>

definition ApplicationUserListCreateView :: view_class where
  [view_classes]: "ApplicationUserListCreateView = base_view\<lparr>vc_base := ListCreateAPIView, vc_permissions := [IsAdminUser]\<rparr>"

definition ApplicationUserDisableView :: view_class where
  [view_classes]: "ApplicationUserDisableView = base_view\<lparr>vc_handlers := [''POST''], vc_permissions := [IsAdminUser]\<rparr>"

definition ClientRegisterView :: view_class where
  [view_classes]: "ClientRegisterView = base_view\<lparr>vc_handlers := [''POST''], vc_authentication := [], vc_permissions := []\<rparr>"

definition ClientLoginView :: view_class where
  [view_classes]: "ClientLoginView = base_view\<lparr>vc_handlers := [''POST''], vc_authentication := [], vc_permissions := []\<rparr>"

definition ClientRefreshView :: view_class where
  [view_classes]: "ClientRefreshView = base_view\<lparr>vc_handlers := [''POST''], vc_authentication := [], vc_permissions := []\<rparr>"

text \<open>\<open>gateway/views.py\<close>\<close>

definition GatewayProxyView :: view_class where
  [view_classes]: "GatewayProxyView = base_view\<lparr>vc_handlers := [''GET'', ''POST'', ''PUT'', ''PATCH'', ''DELETE''], vc_authentication := [], vc_permissions := []\<rparr>"

section \<open>What they have in common\<close>

definition staff_views :: "view_class list" where
  "staff_views =
     [RegisterView, ProjectListCreateView, ApplicationListCreateView, APIKeyCreateView, APIKeyRevokeView,
      DashboardView, BackendServiceListCreateView, BackendServiceDetailView, RouteListCreateView, RouteDetailView,
      RouteMethodListCreateView, RouteMethodDetailView, RoutePermissionListCreateView, RoutePermissionDetailView,
      ApplicationUserListCreateView, ApplicationUserDisableView]"

definition key_views :: "view_class list" where
  "key_views = [ClientRegisterView, ClientLoginView, ClientRefreshView, GatewayProxyView]"

text \<open>
  The staff's views ask for a staff account by the configured token; those behind an API key for
  no account at all, as the middleware has checked the key. None is left to the default.
\<close>

lemma staff_views_ask: "\<forall>cls \<in> set staff_views.
    vc_permissions cls = [IsAdminUser] \<and> vc_authentication cls = DEFAULT_AUTHENTICATION_CLASSES REST_FRAMEWORK"
  by (simp add: staff_views_def view_classes base_view_def)

lemma key_views_ask: "\<forall>cls \<in> set key_views. vc_permissions cls = [] \<and> vc_authentication cls = []"
  by (simp add: key_views_def view_classes base_view_def)

lemma default_permissions_unused: "default_permissions = [IsAuthenticated]"
  by (simp add: default_permissions_def REST_FRAMEWORK_def)

lemma client_views_post:
  "\<forall>cls \<in> {ClientRegisterView, ClientLoginView, ClientRefreshView}. allowed_methods cls = [''POST'']"
  by (simp add: allowed_methods_def view_classes base_view_def)

lemma proxy_methods:
  "set (allowed_methods GatewayProxyView) = {''GET'', ''POST'', ''PUT'', ''PATCH'', ''DELETE'', ''HEAD''}"
  by (auto simp: allowed_methods_def view_classes base_view_def)

end
