(* ===== verification/Site.thy ===== *)
theory Site
  imports Representations ViewClasses
begin

text \<open>
  The whole site as one server: \<open>gateway_project/urls.py\<close> with the \<open>urls.py\<close> of the
  applications, the classes they name (\<open>ViewClasses\<close>), and the views themselves behind them. A
  request goes through the API-key middleware, is resolved to a view, is let in by the view's
  permissions and runs the view on the database.

  Of the framework the model takes its documented order of these steps. Its field classes turn the
  parsed data of a request into the inputs of the views (\<open>field_readers\<close>, \<open>None\<close> when a value is
  refused), \<open>st_staff\<close> is the configured \<open>JWTAuthentication\<close> (\<open>Inl\<close> for a token it rejects,
  \<open>Inr None\<close> for a request without one) and \<open>st_data\<close> its parsers. Django's own administration
  site under \<open>/admin/\<close> is not part of the repository.
\<close>

section \<open>URL patterns\<close>

datatype view =
    Login_View
  | Refresh_Token_View
  | Register_View
  | Project_List_View
  | Application_List_View
  | Key_Create_View
  | Key_Revoke_View pk
  | Dashboard_View
  | Service_List_View
  | Service_Detail_View pk
  | Route_List_View
  | Route_Detail_View pk
  | Method_List_View
  | Method_Detail_View pk
  | Permission_List_View
  | Permission_Detail_View pk
  | Client_List_View
  | Client_Disable_View pk

text \<open>A \<open>path\<close> pattern: fixed text and \<open><int:...>\<close> converters.\<close>

datatype segment = Fixed string | Int_Argument

fun match_pattern :: "segment list \<Rightarrow> string \<Rightarrow> int list option" where
  "match_pattern [] s = (if s = [] then Some [] else None)"
| "match_pattern (Fixed w # ps) s = (if startswith s w then match_pattern ps (drop (length w) s) else None)"
| "match_pattern (Int_Argument # ps) s =
     (let ds = takeWhile is_digit s
      in if ds = [] then None
         else map_option (\<lambda>xs. int (val_digits ds) # xs) (match_pattern ps (dropWhile is_digit s)))"

type_synonym url_pattern = "segment list \<times> (int list \<Rightarrow> view)"

definition authentication_urls :: "url_pattern list" where
  "authentication_urls =
     [([Fixed ''auth/login''], \<lambda>_. Login_View),
      ([Fixed ''auth/refresh''], \<lambda>_. Refresh_Token_View)]"

definition users_urls :: "url_pattern list" where
  "users_urls =
     [([Fixed ''auth/register''], \<lambda>_. Register_View),
      ([Fixed ''projects''], \<lambda>_. Project_List_View),
      ([Fixed ''applications''], \<lambda>_. Application_List_View),
      ([Fixed ''keys''], \<lambda>_. Key_Create_View),
      ([Fixed ''keys/'', Int_Argument, Fixed ''/revoke''], \<lambda>xs. Key_Revoke_View (hd xs)),
      ([Fixed ''dashboard''], \<lambda>_. Dashboard_View)]"

definition routes_urls :: "url_pattern list" where
  "routes_urls =
     [([Fixed ''services''], \<lambda>_. Service_List_View),
      ([Fixed ''services/'', Int_Argument], \<lambda>xs. Service_Detail_View (hd xs)),
      ([Fixed ''routes''], \<lambda>_. Route_List_View),
      ([Fixed ''routes/'', Int_Argument], \<lambda>xs. Route_Detail_View (hd xs)),
      ([Fixed ''route-methods''], \<lambda>_. Method_List_View),
      ([Fixed ''route-methods/'', Int_Argument], \<lambda>xs. Method_Detail_View (hd xs)),
      ([Fixed ''route-permissions''], \<lambda>_. Permission_List_View),
      ([Fixed ''route-permissions/'', Int_Argument], \<lambda>xs. Permission_Detail_View (hd xs))]"

definition client_auth_urls :: "url_pattern list" where
  "client_auth_urls =
     [([Fixed ''application-users''], \<lambda>_. Client_List_View),
      ([Fixed ''application-users/'', Int_Argument, Fixed ''/disable''], \<lambda>xs. Client_Disable_View (hd xs))]"

fun find_view :: "url_pattern list \<Rightarrow> string \<Rightarrow> view option" where
  "find_view [] s = None"
| "find_view ((p, v) # us) s = (case match_pattern p s of Some xs \<Rightarrow> Some (v xs) | None \<Rightarrow> find_view us s)"

datatype target = Django_Admin | Admin_View view | Gateway_Area | Not_Found

text \<open>The root patterns, after the slash every path starts with.\<close>

definition site_target :: "string \<Rightarrow> target" where
  "site_target path =
     (if startswith path ''/admin/'' then Django_Admin
      else if startswith path ''/admin-api/'' then
        (case find_view (authentication_urls @ users_urls @ routes_urls @ client_auth_urls)
                (removeprefix path ''/admin-api/'') of
           Some v \<Rightarrow> Admin_View v
         | None \<Rightarrow> Not_Found)
      else if startswith path ''/gateway/'' then Gateway_Area
      else Not_Found)"

section \<open>Who may enter\<close>

fun class_of :: "view \<Rightarrow> view_class" where
  "class_of Login_View = LoginView"
| "class_of Refresh_Token_View = RefreshTokenView"
| "class_of Register_View = RegisterView"
| "class_of Project_List_View = ProjectListCreateView"
| "class_of Application_List_View = ApplicationListCreateView"
| "class_of Key_Create_View = APIKeyCreateView"
| "class_of (Key_Revoke_View i) = APIKeyRevokeView"
| "class_of Dashboard_View = DashboardView"
| "class_of Service_List_View = BackendServiceListCreateView"
| "class_of (Service_Detail_View i) = BackendServiceDetailView"
| "class_of Route_List_View = RouteListCreateView"
| "class_of (Route_Detail_View i) = RouteDetailView"
| "class_of Method_List_View = RouteMethodListCreateView"
| "class_of (Method_Detail_View i) = RouteMethodDetailView"
| "class_of Permission_List_View = RoutePermissionListCreateView"
| "class_of (Permission_Detail_View i) = RoutePermissionDetailView"
| "class_of Client_List_View = ApplicationUserListCreateView"
| "class_of (Client_Disable_View i) = ApplicationUserDisableView"

definition permission_classes :: "view \<Rightarrow> permission list" where
  "permission_classes v = vc_permissions (class_of v)"

definition handled_methods :: "view \<Rightarrow> string list" where
  "handled_methods v = allowed_methods (class_of v)"

lemma permission_classes_of [simp]:
  "permission_classes Login_View = [AllowAny]"
  "permission_classes Refresh_Token_View = [AllowAny]"
  "permission_classes Register_View = [IsAdminUser]"
  "permission_classes Project_List_View = [IsAdminUser]"
  "permission_classes Application_List_View = [IsAdminUser]"
  "permission_classes Key_Create_View = [IsAdminUser]"
  "permission_classes (Key_Revoke_View i) = [IsAdminUser]"
  "permission_classes Dashboard_View = [IsAdminUser]"
  "permission_classes Service_List_View = [IsAdminUser]"
  "permission_classes (Service_Detail_View i) = [IsAdminUser]"
  "permission_classes Route_List_View = [IsAdminUser]"
  "permission_classes (Route_Detail_View i) = [IsAdminUser]"
  "permission_classes Method_List_View = [IsAdminUser]"
  "permission_classes (Method_Detail_View i) = [IsAdminUser]"
  "permission_classes Permission_List_View = [IsAdminUser]"
  "permission_classes (Permission_Detail_View i) = [IsAdminUser]"
  "permission_classes Client_List_View = [IsAdminUser]"
  "permission_classes (Client_Disable_View i) = [IsAdminUser]"
  by (simp_all add: permission_classes_def view_classes)

lemma handled_methods_of [simp]:
  "handled_methods Login_View = [''POST'']"
  "handled_methods Refresh_Token_View = [''POST'']"
  "handled_methods Register_View = [''POST'']"
  "handled_methods Project_List_View = [''GET'', ''HEAD'', ''POST'']"
  "handled_methods Application_List_View = [''GET'', ''HEAD'', ''POST'']"
  "handled_methods Key_Create_View = [''POST'']"
  "handled_methods (Key_Revoke_View i) = [''POST'']"
  "handled_methods Dashboard_View = [''GET'', ''HEAD'']"
  "handled_methods Service_List_View = [''GET'', ''HEAD'', ''POST'']"
  "handled_methods (Service_Detail_View i) = [''GET'', ''HEAD'', ''PUT'', ''PATCH'']"
  "handled_methods Route_List_View = [''GET'', ''HEAD'', ''POST'']"
  "handled_methods (Route_Detail_View i) = [''GET'', ''HEAD'', ''PUT'', ''PATCH'']"
  "handled_methods Method_List_View = [''GET'', ''HEAD'', ''POST'']"
  "handled_methods (Method_Detail_View i) = [''GET'', ''HEAD'', ''PUT'', ''PATCH'']"
  "handled_methods Permission_List_View = [''GET'', ''HEAD'', ''POST'']"
  "handled_methods (Permission_Detail_View i) = [''GET'', ''HEAD'', ''PUT'', ''PATCH'']"
  "handled_methods Client_List_View = [''GET'', ''HEAD'', ''POST'']"
  "handled_methods (Client_Disable_View i) = [''POST'']"
  by (simp_all add: handled_methods_def allowed_methods_def view_classes base_view_def)

text \<open>The gateway's view handles what its class defines.\<close>

lemma proxied_is_handled: "proxied_method m \<longleftrightarrow> m \<in> set (allowed_methods GatewayProxyView)"
  by (simp add: proxied_method_def proxy_methods)

text \<open>The user of a request the view lets in, or the status of the refusal.\<close>

definition enter :: "int + user option \<Rightarrow> view \<Rightarrow> int + user option" where
  "enter identity v =
     and_then identity (\<lambda>who.
       (if AllowAny \<in> set (permission_classes v) then Inr who
        else case who of
               None \<Rightarrow> Inl 401
             | Some u \<Rightarrow> if usr_is_staff u then Inr who else Inl 403))"

section \<open>What a request asks a view to write\<close>

record field_readers =
  fr_user :: "json \<Rightarrow> (string \<times> string \<times> string) option"
  fr_project :: "json \<Rightarrow> (string \<times> string option) option"
  fr_application :: "json \<Rightarrow> application_input option"
  fr_service :: "json \<Rightarrow> service_input option"
  fr_route :: "json \<Rightarrow> route_input option"
  fr_method :: "json \<Rightarrow> method_input option"
  fr_permission :: "json \<Rightarrow> permission_input option"
  fr_client :: "json \<Rightarrow> (pk \<times> string \<times> string) option"
  fr_login :: "json \<Rightarrow> (string \<times> string) option"

datatype site_call =
    Admin_Call admin_call
  | Add_Client pk string string string
  | Disable_Client pk

definition with_fields :: "'a option \<Rightarrow> ('a \<Rightarrow> site_call) \<Rightarrow> int + site_call" where
  "with_fields r f = (case r of None \<Rightarrow> Inl 400 | Some a \<Rightarrow> Inr (f a))"

text \<open>
  The write a view makes of the data of a request; \<open>random\<close> is what it draws from the random
  source. \<open>Inl\<close> is the status of a refusal; the two views that take no data do not look at it.
\<close>

fun write_of :: "field_readers \<Rightarrow> string \<Rightarrow> view \<Rightarrow> string \<Rightarrow> int + json \<Rightarrow> int + site_call" where
  "write_of R random Register_View m data =
     and_then data (\<lambda>j. with_fields (fr_user R j) (\<lambda>(name, email, pw). Admin_Call (Register_User random name email pw)))"
| "write_of R random Project_List_View m data =
     and_then data (\<lambda>j. with_fields (fr_project R j) (\<lambda>(name, text). Admin_Call (Create_Project name text)))"
| "write_of R random Application_List_View m data =
     and_then data (\<lambda>j. with_fields (fr_application R j) (\<lambda>v. Admin_Call (Create_Application random j v)))"
| "write_of R random Key_Create_View m data = and_then data (\<lambda>j. Inr (Admin_Call (Create_Key random j)))"
| "write_of R random (Key_Revoke_View i) m data = Inr (Admin_Call (Revoke_Key i))"
| "write_of R random Service_List_View m data =
     and_then data (\<lambda>j. with_fields (fr_service R j) (\<lambda>v. Admin_Call (Route_Call (Service_Create (jget ''project'' j) v))))"
| "write_of R random (Service_Detail_View i) m data =
     and_then data (\<lambda>j. with_fields (fr_service R j) (\<lambda>v. Admin_Call (Route_Call (Service_Update i (m = ''PATCH'') v))))"
| "write_of R random Route_List_View m data =
     and_then data (\<lambda>j. with_fields (fr_route R j) (\<lambda>v. Admin_Call (Route_Call (Route_Create (jget ''project'' j) v))))"
| "write_of R random (Route_Detail_View i) m data =
     and_then data (\<lambda>j. with_fields (fr_route R j) (\<lambda>v. Admin_Call (Route_Call (Route_Update i (m = ''PATCH'') v))))"
| "write_of R random Method_List_View m data =
     and_then data (\<lambda>j. with_fields (fr_method R j) (\<lambda>v. Admin_Call (Route_Call (Method_Create v))))"
| "write_of R random (Method_Detail_View i) m data =
     and_then data (\<lambda>j. with_fields (fr_method R j) (\<lambda>v. Admin_Call (Route_Call (Method_Update i (m = ''PATCH'') v))))"
| "write_of R random Permission_List_View m data =
     and_then data (\<lambda>j. with_fields (fr_permission R j) (\<lambda>v. Admin_Call (Route_Call (Permission_Create v))))"
| "write_of R random (Permission_Detail_View i) m data =
     and_then data (\<lambda>j. with_fields (fr_permission R j)
       (\<lambda>v. Admin_Call (Route_Call (Permission_Update i (m = ''PATCH'') v))))"
| "write_of R random Client_List_View m data =
     and_then data (\<lambda>j. with_fields (fr_client R j) (\<lambda>(a, email, pw). Add_Client a random email pw))"
| "write_of R random (Client_Disable_View i) m data = Inr (Disable_Client i)"
| "write_of R random v m data = Inl 405"

text \<open>The database after the write and the invalidations its commit leaves to run.\<close>

definition run_site_call ::
    "account_env \<Rightarrow> pk \<Rightarrow> instant \<Rightarrow> site_call \<Rightarrow> db \<Rightarrow> db \<times> (pk \<times> string) list" where
  "run_site_call E admin now call d =
     (case call of
        Admin_Call c \<Rightarrow> run_admin_call E admin now c d
      | Add_Client a random email pw \<Rightarrow>
          (case client_user_create (ac_forms E) admin now random a email pw d of
             Inl _ \<Rightarrow> (d, [])
           | Inr (u, d') \<Rightarrow> (d', []))
      | Disable_Client i \<Rightarrow> (snd (client_user_disable admin now i d), []))"

text \<open>What a write answers, and the page a reading request shows (\<open>None\<close>: the view reads nothing).\<close>

definition site_call_answer ::
    "(instant \<Rightarrow> string) \<Rightarrow> account_env \<Rightarrow> pk \<Rightarrow> instant \<Rightarrow> site_call \<Rightarrow> db \<Rightarrow> exn + response" where
  "site_call_answer stamp E admin now call d =
     (case call of
        Admin_Call c \<Rightarrow> admin_call_answer stamp E admin now c d
      | Add_Client a random email pw \<Rightarrow>
          written 201 (\<lambda>u _. client_user_data stamp u)
            (client_user_create (ac_forms E) admin now random a email pw d)
      | Disable_Client i \<Rightarrow> Inr (fst (client_user_disable admin now i d)))"

fun page :: "(instant \<Rightarrow> string) \<Rightarrow> pk \<Rightarrow> view \<Rightarrow> db \<Rightarrow> (exn + response) option" where
  "page stamp admin Project_List_View d = Some (list_page (project_data stamp) (projects_list admin d))"
| "page stamp admin Application_List_View d =
     Some (list_page (\<lambda>a. JObj (application_members stamp a)) (applications_list admin d))"
| "page stamp admin Dashboard_View d = Some (shown (dashboard_data admin d))"
| "page stamp admin Service_List_View d = Some (list_page (service_data stamp) (services_list admin d))"
| "page stamp admin (Service_Detail_View i) d = Some (row_page (service_data stamp) (own_service admin i d))"
| "page stamp admin Route_List_View d = Some (list_page (route_data stamp d) (routes_list admin d))"
| "page stamp admin (Route_Detail_View i) d = Some (row_page (route_data stamp d) (own_route admin i d))"
| "page stamp admin Method_List_View d = Some (list_page route_method_data (route_methods_list admin d))"
| "page stamp admin (Method_Detail_View i) d = Some (row_page route_method_data (own_route_method admin i d))"
| "page stamp admin Permission_List_View d = Some (list_page (permission_data stamp) (permissions_list admin d))"
| "page stamp admin (Permission_Detail_View i) d = Some (row_page (permission_data stamp) (own_permission admin i d))"
| "page stamp admin Client_List_View d = Some (list_page (client_user_data stamp) (client_users_list admin d))"
| "page stamp admin v d = None"

section \<open>The server\<close>

record 's site =
  st_accounts :: account_env
  st_gateway :: "'s gateway"
  st_fields :: field_readers
  st_staff :: "http_request \<Rightarrow> db \<Rightarrow> int + user option"
  st_data :: "http_request \<Rightarrow> int + json"
  st_authenticate :: "db \<Rightarrow> string \<Rightarrow> string \<Rightarrow> user option"
  st_tokens :: "user \<Rightarrow> string \<times> string"
  st_refreshed :: "json \<Rightarrow> string option"
  st_stamp :: "instant \<Rightarrow> string"

text \<open>
  \<open>Wrote\<close> tells which write ran, for whom, and its answer; \<open>Refused\<close> is a status without a
  handler's own body; an exception is \<open>Thrown\<close>.
\<close>

datatype reply =
    Replied response
  | Thrown exn
  | Refused int
  | Wrote pk site_call "exn + response"
  | Framework_Page

fun reply_of :: "exn + response \<Rightarrow> reply" where
  "reply_of (Inl e) = Thrown e"
| "reply_of (Inr r) = Replied r"

definition staff_page :: "'s site \<Rightarrow> view \<Rightarrow> http_request \<Rightarrow> db \<Rightarrow> reply" where
  "staff_page X v rq d =
     (case st_data X rq of
        Inl status \<Rightarrow> Refused status
      | Inr j \<Rightarrow>
          (if v = Login_View
           then (case fr_login (st_fields X) j of
                   None \<Rightarrow> Refused 400
                 | Some (email, pw) \<Rightarrow>
                     reply_of (staff_login (ac_forms (st_accounts X)) (st_authenticate X) (st_tokens X) email pw d))
           else reply_of (staff_refresh (ac_float_zero (st_accounts X)) (st_refreshed X) j)))"

definition serve_view ::
    "'s site \<Rightarrow> instant \<Rightarrow> string \<Rightarrow> view \<Rightarrow> http_request \<Rightarrow> db \<Rightarrow> reply \<times> db \<times> (pk \<times> string) list" where
  "serve_view X now random v rq d =
     (case enter (st_staff X rq d) v of
        Inl status \<Rightarrow> (Refused status, d, [])
      | Inr who \<Rightarrow>
          (if rq_method rq = ''OPTIONS'' then (Framework_Page, d, [])
           else if rq_method rq \<notin> set (handled_methods v) then (Refused 405, d, [])
           else if AllowAny \<in> set (permission_classes v) then (staff_page X v rq d, d, [])
           else (case who of
                   None \<Rightarrow> (Refused 401, d, [])
                 | Some u \<Rightarrow>
                     if rq_method rq \<in> {''GET'', ''HEAD''}
                     then (case page (st_stamp X) (usr_id u) v d of
                             None \<Rightarrow> Refused 405
                           | Some r \<Rightarrow> reply_of r, d, [])
                     else (case write_of (st_fields X) random v (rq_method rq) (st_data X rq) of
                             Inl status \<Rightarrow> (Refused status, d, [])
                           | Inr call \<Rightarrow>
                               (case run_site_call (st_accounts X) (usr_id u) now call d of
                                  (d', ks) \<Rightarrow>
                                    (Wrote (usr_id u) call
                                       (site_call_answer (st_stamp X) (st_accounts X) (usr_id u) now call d), d', ks))))))"

text \<open>The end users' views behind the middleware; \<open>now'\<close> is when the second token is stamped.\<close>

definition serve_client ::
    "'s site \<Rightarrow> instant \<Rightarrow> instant \<Rightarrow> string \<Rightarrow> endpoint \<Rightarrow> credential \<Rightarrow> http_request \<Rightarrow> db \<Rightarrow> 's client
       \<Rightarrow> reply \<times> db \<times> 's client" where
  "serve_client X now now' random v cred rq d c =
     (let G = st_gateway X; F = ac_forms (st_accounts X)
      in if rq_method rq = ''OPTIONS'' then (Framework_Page, d, c)
         else if rq_method rq \<noteq> ''POST'' then (Refused 405, d, c)
         else case st_data X rq of
                Inl status \<Rightarrow> (Refused status, d, c)
              | Inr data \<Rightarrow>
                  (case v of
                     Client_Register \<Rightarrow>
                       (case client_register (gw_settings G) (gw_redis G) F now now random (Some cred) data d d c of
                          ((out, d'), c') \<Rightarrow> (reply_of out, d', c'))
                   | Client_Login \<Rightarrow>
                       (case client_login G F now now now' (Some cred) data d c of
                          (out, c') \<Rightarrow> (reply_of out, d, c'))
                   | Client_Refresh \<Rightarrow> (reply_of (client_refresh G F now now' (Some cred) data d), d, c)
                   | _ \<Rightarrow> (Framework_Page, d, c)))"

definition serve ::
    "'s site \<Rightarrow> instant \<Rightarrow> instant \<Rightarrow> string \<Rightarrow> http_request \<Rightarrow> db \<Rightarrow> 's client
       \<Rightarrow> reply \<times> (db \<times> (pk \<times> string) list) \<times> 's client" where
  "serve X now now' random rq d c =
     (case site_target (rq_path rq) of
        Not_Found \<Rightarrow> (Refused 404, (d, []), c)
      | Django_Admin \<Rightarrow> (Framework_Page, (d, []), c)
      | Admin_View v \<Rightarrow>
          (case serve_view X now random v rq d of (r, d', ks) \<Rightarrow> (r, (d', ks), c))
      | Gateway_Area \<Rightarrow>
          (case handle_gateway (st_gateway X) d now rq c of
             (Answered r, c') \<Rightarrow> (Replied r, (d, []), c')
           | (Raised e, c') \<Rightarrow> (Thrown e, (d, []), c')
           | (Framework, c') \<Rightarrow> (Framework_Page, (d, []), c')
           | (Client_View v cred, c') \<Rightarrow>
               (case serve_client X now now' random v cred rq d c' of (r, d', c'') \<Rightarrow> (r, (d', []), c''))))"

section \<open>End users and tenants\<close>

text \<open>One end user written: appended, or over the row of the same key and application.\<close>

definition client_written :: "app_user table \<Rightarrow> app_user table \<Rightarrow> app_user \<Rightarrow> bool" where
  "client_written old new u \<longleftrightarrow>
     rows new = rows old @ [u]
     \<or> rows new = map (\<lambda>x. if cu_id x = cu_id u then u else x) (rows old)
       \<and> (\<forall>x \<in> set (rows old). cu_id x = cu_id u \<longrightarrow> cu_application x = cu_application u)"

text \<open>What a request that does not act for a project leaves of it.\<close>

definition keeps_project :: "pk \<Rightarrow> db \<Rightarrow> db \<Rightarrow> bool" where
  "keeps_project i d d' \<longleftrightarrow>
     tables_ok d' \<and> links_ok d' \<and> project_exists d' i \<and> tenant_of d' i = tenant_of d i
     \<and> (\<forall>u. owns_project d' u i = owns_project d u i)"

lemma keeps_project_refl: "tables_ok d \<Longrightarrow> links_ok d \<Longrightarrow> project_exists d i \<Longrightarrow> keeps_project i d d"
  by (simp add: keeps_project_def)

lemma keeps_tenants_project:
  "keeps_tenants admin d d' \<Longrightarrow> project_exists d i \<Longrightarrow> \<not> owns_project d admin i \<Longrightarrow> keeps_project i d d'"
  by (simp add: keeps_tenants_def keeps_project_def)

lemma client_written_project:
  assumes "tables_ok (d\<lparr>clients := t\<rparr>)" and links: "links_ok d" and "project_exists d i"
    and u: "client_written (clients d) t u" "application_exists d (cu_application u)"
    and other: "\<not> application_in d i (cu_application u)"
  shows "keeps_project i d (d\<lparr>clients := t\<rparr>)"
proof -
  have "filter (\<lambda>u. application_in d i (cu_application u)) (rows t)
      = filter (\<lambda>u. application_in d i (cu_application u)) (rows (clients d))"
    using u(1) other by (auto simp: client_written_def intro!: filter_save_other)
  then have "tenant_of (d\<lparr>clients := t\<rparr>) i = tenant_of d i"
    by (simp add: tenant_of_def objects_filter_def application_in_def route_in_def)
  moreover have "\<forall>x \<in> set (rows t). application_exists d (cu_application x)"
    using u links by (auto simp: client_written_def links_ok_def list_all_iff)
  then have "links_ok (d\<lparr>clients := t\<rparr>)"
    using links by (simp add: links_ok_def list_all_iff project_exists_def application_exists_def route_exists_def
        service_link_def permission_link_def [abs_def] route_in_def cong: option.case_cong)
  ultimately show ?thesis
    using assms(1,3) by (simp add: keeps_project_def project_exists_def owns_project_def)
qed

lemma created_client_written:
  assumes "create_client now u d = Inr (v, d')"
  shows "d' = d\<lparr>clients := clients d'\<rparr>" and "client_written (clients d) (clients d') v"
    and "cu_application v = cu_application u"
  using create_client_Inr [OF assms] by (simp_all add: client_written_def client_presave_def)

lemma owned_application_exists: "owns_application d admin a \<Longrightarrow> application_exists d a"
  by (auto simp: owns_application_def application_exists_def objects_exists_iff)

lemma client_user_create_keeps:
  assumes run: "client_user_create F admin now salt a email pw d = Inr (u, d')"
    and ok: "tables_ok d" "links_ok d" and i: "project_exists d i" "\<not> owns_project d admin i"
  shows "keeps_project i d d'"
proof -
  obtain row where new: "create_client now row d = Inr (u, d')" and app: "cu_application row = a"
    and own: "owns_application d admin a"
    using run
    by (auto simp: client_user_create_def save_new_client_def client_user_form_def and_then_Inr split: if_splits)
  have "keeps_project i d (d\<lparr>clients := clients d'\<rparr>)"
    using created_client_written [OF new] create_client_ok [OF new ok(1)] app own_application [OF own ok(1) i(2)]
      owned_application_exists [OF own]
    by (intro client_written_project [where u = u]) (auto simp: ok i)
  then show ?thesis using created_client_written(1) [OF new] by simp
qed

lemma client_user_disable_keeps:
  assumes ok: "tables_ok d" "links_ok d" and i: "project_exists d i" "\<not> owns_project d admin i"
  shows "keeps_project i d (snd (client_user_disable admin now k d))"
proof (cases "objects_first (\<lambda>u. cu_id u = k \<and> owns_application d admin (cu_application u)) (clients d)")
  case None
  then show ?thesis using keeps_project_refl [OF ok i(1)] by (simp add: client_user_disable_def)
next
  case (Some u)
  note u = objects_first_Some [OF Some]
  let ?f = "\<lambda>x. x\<lparr>cu_is_active := False, cu_token_version := cu_token_version u + 1, cu_updated_at := now\<rparr>"
  let ?t = "objects_update cu_id (cu_id u) ?f (clients d)"
  have wf: "wf_table cu_id client_clash (clients d)" using ok(1) by (simp add: tables_ok_def)
  have same: "x = u" if "x \<in> set (rows (clients d))" "cu_id x = cu_id u" for x
    using table_ok_inj [OF wf_tableD(1) [OF wf] that(1)] u that(2) by simp
  have "rows ?t = map (\<lambda>x. if cu_id x = cu_id (?f u) then ?f u else x) (rows (clients d))"
    by (rule objects_update_rows(1) [THEN trans], rule map_cong [OF refl]) (auto dest: same)
  then have written: "client_written (clients d) ?t (?f u)" using same by (auto simp: client_written_def)
  have "wf_table cu_id client_clash ?t"
    by (rule client.update_fields_wf [OF wf]) (simp_all add: client_clash_def)
  then have "tables_ok (d\<lparr>clients := ?t\<rparr>)" using ok(1) by (simp add: tables_ok_def)
  then have "keeps_project i d (d\<lparr>clients := ?t\<rparr>)"
    using written own_application [OF _ ok(1) i(2)] owned_application_exists u
    by (intro client_written_project [where u = "?f u"]) (auto simp: ok i)
  then show ?thesis
    using keeps_project_refl [OF ok i(1)] by (simp add: client_user_disable_def Some)
qed

lemma client_register_keeps:
  assumes run: "client_register S R F t now salt (Some (k, a, p)) data d d c = ((out, d'), c')"
    and ok: "tables_ok d" "links_ok d" and i: "project_exists d i"
    and a: "a \<in> set (rows (applications d))" "app_project a \<noteq> i"
  shows "keeps_project i d d'"
  using register_outcome [OF run]
proof (elim disjE exE conjE)
  assume "d' = d"
  then show ?thesis using keeps_project_refl [OF ok i] by simp
next
  fix email password u rs
  assume new: "create_client now (new_client a email (make_password F salt password)) d = Inr (u, d')"
  have key: "table_ok app_id (applications d)" using ok(1) by (auto simp: tables_ok_def dest: wf_tableD)
  have "\<not> application_in d i (app_id a)"
    using a table_ok_inj [OF key] by (auto simp: application_in_def objects_exists_iff)
  moreover have "application_exists d (app_id a)" using a(1) by (auto simp: application_exists_def objects_exists_iff)
  ultimately have "keeps_project i d (d\<lparr>clients := clients d'\<rparr>)"
    using created_client_written [OF new] create_client_ok [OF new ok(1)]
    by (intro client_written_project [where u = u]) (auto simp: ok i new_client_def)
  then show ?thesis using created_client_written(1) [OF new] by simp
qed

lemma run_site_call_keeps:
  assumes ok: "tables_ok d" "links_ok d" and i: "project_exists d i" "\<not> owns_project d admin i"
    and "user_exists d admin"
  shows "keeps_project i d (fst (run_site_call E admin now call d))"
proof (cases call)
  case (Admin_Call c)
  then show ?thesis
    using keeps_tenants_project [OF run_admin_call_keeps [OF ok assms(5)] i] by (simp add: run_site_call_def)
next
  case (Add_Client a random email pw)
  then show ?thesis
    using client_user_create_keeps [OF _ ok i] keeps_project_refl [OF ok i(1)]
    by (auto simp: run_site_call_def split: sum.split)
next
  case (Disable_Client k)
  then show ?thesis using client_user_disable_keeps [OF ok i] by (simp add: run_site_call_def)
qed

section \<open>What a request may change\<close>

lemma serve_view_cases:
  assumes "serve_view X now random v rq d = (r, d', ks)"
  obtains (same) "d' = d" "ks = []"
  | (wrote) u call where "AllowAny \<notin> set (permission_classes v)" "st_staff X rq d = Inr (Some u)" "usr_is_staff u"
      "rq_method rq \<notin> {''GET'', ''HEAD''}"
      "r = Wrote (usr_id u) call (site_call_answer (st_stamp X) (st_accounts X) (usr_id u) now call d)" "run_site_call (st_accounts X) (usr_id u) now call d = (d', ks)"
proof (cases "d' = d \<and> ks = []")
  case True
  then show ?thesis using same by blast
next
  case False
  then obtain who where enter: "enter (st_staff X rq d) v = Inr who"
    using assms by (cases "enter (st_staff X rq d) v") (auto simp: serve_view_def)
  then have staff: "AllowAny \<notin> set (permission_classes v)"
    using assms False by (auto simp: serve_view_def split: if_splits)
  then obtain u where u: "who = Some u"
    using assms False enter by (cases who) (auto simp: serve_view_def split: if_splits)
  have id: "st_staff X rq d = Inr (Some u)" "usr_is_staff u"
    using enter staff u by (auto simp: enter_def and_then_Inr split: if_splits option.splits)
  have m: "rq_method rq \<notin> {''GET'', ''HEAD''}"
    using assms False enter u by (auto simp: serve_view_def split: if_splits)
  obtain call where "write_of (st_fields X) random v (rq_method rq) (st_data X rq) = Inr call"
    using assms False enter u m staff
    by (cases "write_of (st_fields X) random v (rq_method rq) (st_data X rq)")
      (auto simp: serve_view_def split: if_splits)
  then have "r = Wrote (usr_id u) call (site_call_answer (st_stamp X) (st_accounts X) (usr_id u) now call d) \<and> run_site_call (st_accounts X) (usr_id u) now call d = (d', ks)"
    using assms False enter u m staff by (auto simp: serve_view_def split: if_splits prod.splits)
  then show ?thesis using wrote [OF staff id m] by blast
qed

lemma serve_client_cases:
  assumes "serve_client X now now' random v cred rq d c = (r, d', c')"
  obtains (same) "d' = d"
  | (registered) data out where "v = Client_Register" "rq_method rq = ''POST''"
      "client_register (gw_settings (st_gateway X)) (gw_redis (st_gateway X)) (ac_forms (st_accounts X)) now now random
         (Some cred) data d d c = ((out, d'), c')"
proof (cases "d' = d")
  case False
  then have post: "rq_method rq = ''POST''"
    using assms by (auto simp: serve_client_def Let_def split: if_splits)
  moreover obtain data where data: "st_data X rq = Inr data"
    using assms False by (cases "st_data X rq") (auto simp: serve_client_def Let_def split: if_splits)
  moreover have v: "v = Client_Register"
    using assms False post data by (cases v) (auto simp: serve_client_def Let_def split: prod.splits)
  ultimately show ?thesis
    using assms registered by (auto simp: serve_client_def Let_def split: prod.splits)
qed blast

lemma client_endpoint:
  assumes "handle_gateway G d now rq c = (Client_View v cred, c')"
  shows "authenticate_request now d rq = Inr (Some cred)"
    and "gateway_endpoint (removeprefix (rq_path rq) ''/gateway/'') = v" and "c' = c"
  using assms
  by (auto simp: handle_gateway_def split: sum.splits option.splits endpoint.splits if_splits prod.splits)

text \<open>
  A request leaves the database alone, or runs a call of a staff account on an administrators' view,
  or registers an end user for the key it carries.
\<close>

lemma serve_cases:
  assumes "serve X now now' random rq d c = (r, (d', ks), c')"
  obtains (same) "d' = d" "ks = []"
  | (wrote) v u call where "site_target (rq_path rq) = Admin_View v" "AllowAny \<notin> set (permission_classes v)"
      "st_staff X rq d = Inr (Some u)" "usr_is_staff u" "rq_method rq \<notin> {''GET'', ''HEAD''}"
      "r = Wrote (usr_id u) call (site_call_answer (st_stamp X) (st_accounts X) (usr_id u) now call d)" "run_site_call (st_accounts X) (usr_id u) now call d = (d', ks)"
  | (registered) cred data out c1 where "site_target (rq_path rq) = Gateway_Area" "rq_method rq = ''POST''"
      "gateway_endpoint (removeprefix (rq_path rq) ''/gateway/'') = Client_Register"
      "authenticate_request now d rq = Inr (Some cred)" "ks = []"
      "client_register (gw_settings (st_gateway X)) (gw_redis (st_gateway X)) (ac_forms (st_accounts X)) now now random
         (Some cred) data d d c = ((out, d'), c1)"
proof (cases "site_target (rq_path rq)")
  case (Admin_View v)
  obtain r1 d1 k1 where view: "serve_view X now random v rq d = (r1, d1, k1)" by (cases "serve_view X now random v rq d")
  with assms Admin_View have eq: "r = r1" "d' = d1" "ks = k1" by (auto simp: serve_def)
  from view show ?thesis
    by (cases rule: serve_view_cases) (use same wrote [OF Admin_View] eq in blast)+
next
  case Gateway_Area
  obtain out c1 where gw: "handle_gateway (st_gateway X) d now rq c = (out, c1)" by force
  show ?thesis
  proof (cases out)
    case (Client_View v cred)
    note end_point = client_endpoint [OF gw [unfolded Client_View]]
    obtain r1 d1 c2 where sc: "serve_client X now now' random v cred rq d c1 = (r1, d1, c2)"
      by (cases "serve_client X now now' random v cred rq d c1")
    with assms Gateway_Area gw Client_View have eq: "d' = d1" "ks = []" by (auto simp: serve_def)
    from sc show ?thesis
    proof (cases rule: serve_client_cases)
      case same
      then show ?thesis using that(1) eq by simp
    next
      case (registered data out)
      then show ?thesis using that(3) [OF Gateway_Area] end_point eq by blast
    qed
  qed (use assms Gateway_Area gw same in \<open>auto simp: serve_def\<close>)
qed (use assms same in \<open>auto simp: serve_def\<close>)

section \<open>Histories of requests\<close>

record site_request =
  sr_now :: instant
  sr_later :: instant
  sr_random :: string
  sr_request :: http_request

definition served :: "'s site \<Rightarrow> site_request \<Rightarrow> db \<times> 's client \<Rightarrow> db \<times> 's client" where
  "served X q dc =
     (case serve X (sr_now q) (sr_later q) (sr_random q) (sr_request q) (fst dc) (snd dc) of
        (r, (d', ks), c') \<Rightarrow> (d', c'))"

fun run_site :: "'s site \<Rightarrow> site_request list \<Rightarrow> db \<times> 's client \<Rightarrow> db \<times> 's client" where
  "run_site X [] dc = dc"
| "run_site X (q # qs) dc = run_site X qs (served X q dc)"

text \<open>A request on the authority of a project: of its owner, or with a key of its applications.\<close>

definition acts_for :: "'s site \<Rightarrow> pk \<Rightarrow> instant \<Rightarrow> http_request \<Rightarrow> db \<Rightarrow> bool" where
  "acts_for X i now rq d \<longleftrightarrow>
     (case st_staff X rq d of Inr (Some u) \<Rightarrow> owns_project d (usr_id u) i | _ \<Rightarrow> False) \<or>
     (case authenticate_request now d rq of Inr (Some (k, a, p)) \<Rightarrow> app_project a = i | _ \<Rightarrow> False)"

fun all_outside :: "'s site \<Rightarrow> pk \<Rightarrow> site_request list \<Rightarrow> db \<times> 's client \<Rightarrow> bool" where
  "all_outside X i [] dc = True"
| "all_outside X i (q # qs) dc =
     (\<not> acts_for X i (sr_now q) (sr_request q) (fst dc) \<and> all_outside X i qs (served X q dc))"

text \<open>The token library names a user only if there is one.\<close>

definition known_staff :: "'s site \<Rightarrow> bool" where
  "known_staff X \<longleftrightarrow> (\<forall>rq d u. st_staff X rq d = Inr (Some u) \<longrightarrow> u \<in> set (rows (users d)))"

lemma serve_keeps:
  assumes run: "serve X now now' random rq d c = (r, (d', ks), c')" and known: "known_staff X"
    and ok: "tables_ok d" "links_ok d" and i: "project_exists d i" and outside: "\<not> acts_for X i now rq d"
  shows "keeps_project i d d'"
  using run
proof (cases rule: serve_cases)
  case same
  then show ?thesis using keeps_project_refl [OF ok i] by simp
next
  case (wrote v u call)
  have "user_exists d (usr_id u)"
    using known wrote(3) by (auto simp: known_staff_def user_exists_def objects_exists_iff)
  moreover have "\<not> owns_project d (usr_id u) i" using outside wrote(3) by (simp add: acts_for_def)
  ultimately show ?thesis
    using run_site_call_keeps [OF ok i, of "usr_id u" "st_accounts X" now call] wrote(7) by simp
next
  case (registered cred data out c1)
  obtain k a p where cred: "cred = (k, a, p)" by (cases cred)
  have "a \<in> set (rows (applications d))"
    using registered(4) validated_application unfolding authenticate_Some cred by blast
  moreover have "app_project a \<noteq> i" using outside registered(4) cred by (auto simp: acts_for_def)
  ultimately show ?thesis
    by (rule client_register_keeps [OF registered(6) [unfolded cred] ok i])
qed

lemma run_site_keeps:
  assumes "known_staff X" and "tables_ok (fst dc)" and "links_ok (fst dc)" and "project_exists (fst dc) i"
    and "all_outside X i qs dc"
  shows "keeps_project i (fst dc) (fst (run_site X qs dc))"
  using assms(2-5)
proof (induction qs arbitrary: dc)
  case Nil
  then show ?case by (simp add: keeps_project_refl)
next
  case (Cons q qs)
  obtain r d' ks c' where s: "serve X (sr_now q) (sr_later q) (sr_random q) (sr_request q) (fst dc) (snd dc) = (r, (d', ks), c')"
    by (metis prod.collapse)
  have dc': "served X q dc = (d', c')" by (simp add: served_def s)
  have one: "keeps_project i (fst dc) d'" using serve_keeps [OF s assms(1)] Cons.prems by simp
  have "keeps_project i d' (fst (run_site X qs (d', c')))"
    using Cons.IH [of "(d', c')"] one Cons.prems(4) by (simp add: keeps_project_def dc')
  then show ?case using one by (simp add: keeps_project_def dc')
qed

lemma run_site_call_covers:
  assumes "tables_ok d" and "links_ok d" and "run_site_call E admin now call d = (d', ks)"
  shows "covers d d' ks" and "list_all (\<lambda>(_, b). one_segment b) ks"
proof -
  have "covers d d' ks \<and> list_all (\<lambda>(_, b). one_segment b) ks"
  proof (cases call)
    case (Admin_Call c)
    then show ?thesis
      using run_admin_call_covers [OF assms(1,2), of E admin now c] assms(3) by (simp add: run_site_call_def)
  next
    case (Add_Client a random email pw)
    then have "routes d' = routes d \<and> services d' = services d \<and> ks = []"
      using assms(3)
      by (auto simp: run_site_call_def client_user_create_def save_new_client_def create_client_def and_then_Inr
          split: sum.splits if_splits)
    then show ?thesis by (auto intro!: covers_refl read_route_cong)
  next
    case (Disable_Client i)
    then have "routes d' = routes d \<and> services d' = services d \<and> ks = []"
      using assms(3) by (auto simp: run_site_call_def client_user_disable_def split: option.splits)
    then show ?thesis by (auto intro!: covers_refl read_route_cong)
  qed
  then show "covers d d' ks" "list_all (\<lambda>(_, b). one_segment b) ks" by blast+
qed

lemma serve_covers:
  assumes "tables_ok d" and "links_ok d" and run: "serve X now now' random rq d c = (r, (d', ks), c')"
  shows "covers d d' ks" and "list_all (\<lambda>(_, b). one_segment b) ks"
proof -
  from run have "covers d d' ks \<and> list_all (\<lambda>(_, b). one_segment b) ks"
  proof (cases rule: serve_cases)
    case same
    then show ?thesis by (simp add: covers_refl)
  next
    case (wrote v u call)
    then show ?thesis using run_site_call_covers [OF assms(1,2) wrote(7)] by blast
  next
    case (registered cred data out c1)
    obtain k a p where cred: "cred = (k, a, p)" by (cases cred)
    have "routes d' = routes d \<and> services d' = services d"
      using register_outcome [OF registered(6) [unfolded cred]]
      by (auto simp: create_client_def and_then_Inr)
    then show ?thesis using registered(5) by (auto intro!: covers_refl read_route_cong)
  qed
  then show "covers d d' ks" "list_all (\<lambda>(_, b). one_segment b) ks" by blast+
qed

lemma register_path:
  assumes "site_target path = Gateway_Area" and "gateway_endpoint (removeprefix path ''/gateway/'') = Client_Register"
  shows "path = ''/gateway/auth/register''"
proof -
  have "startswith path ''/gateway/''" using assms(1) by (auto simp: site_target_def split: if_splits option.splits)
  moreover have "removeprefix path ''/gateway/'' = ''auth/register''"
    using assms(2) by (auto simp: gateway_endpoint_def Let_def split: if_splits)
  ultimately show ?thesis by (auto simp: startswith_iff removeprefix_def)
qed

section \<open>Properties\<close>


definition sample_fields :: field_readers where
  "sample_fields = \<lparr>fr_user = (\<lambda>_. None), fr_project = (\<lambda>_. None), fr_application = (\<lambda>_. None),
     fr_service = (\<lambda>_. Some (no_service_input\<lparr>si_is_active := Some False\<rparr>)), fr_route = (\<lambda>_. None),
     fr_method = (\<lambda>_. None), fr_permission = (\<lambda>_. None), fr_client = (\<lambda>_. None), fr_login = (\<lambda>_. None)\<rparr>"

text \<open>A site at which every request comes from \<open>u\<close>, as long as there is such an account.\<close>

definition site_of :: "user \<Rightarrow> fake site" where
  "site_of u = \<lparr>st_accounts = sample_account_env, st_gateway = sample_gateway, st_fields = sample_fields,
     st_staff = (\<lambda>rq d. if u \<in> set (rows (users d)) then Inr (Some u) else Inr None),
     st_data = (\<lambda>_. Inr (JObj [])), st_authenticate = (\<lambda>_ _ _. None), st_tokens = (\<lambda>_. ([], [])),
     st_refreshed = (\<lambda>_. None),
     st_stamp = str_of_int\<rparr>"

definition disable_request :: site_request where
  "disable_request = \<lparr>sr_now = 9, sr_later = 9, sr_random = [],
     sr_request = \<lparr>rq_method = ''PATCH'', rq_path = ''/admin-api/services/5'', rq_query_string = [], rq_get = [],
       rq_headers = Map.empty, rq_content_type = None, rq_body = []\<rparr>\<rparr>"

lemma service_target: "site_target ''/admin-api/services/5'' = Admin_View (Service_Detail_View 5)"
  by code_simp



definition stranger :: user where
  "stranger = other_admin\<lparr>usr_is_staff := False\<rparr>"


text \<open>
  C14: every request to the site is a step of the coherent system. What a request commits, with the
  invalidations its transaction has queued, is a \<open>commit\<close> step of the cluster of \<open>CacheRace\<close>, so
  what is proved there of settled routes holds while the site serves any requests: each lookup
  whose answer the request changes has an invalidation queued.
\<close>

theorem site_requests_are_commits:
  assumes "tables_ok d" and "links_ok d" and "serve X now now' random rq d c = (r, (d', ks), c')"
  shows "race_step S R (s\<lparr>c_db := d\<rparr>) (s\<lparr>c_db := d', c_pending := c_pending s @ ks\<rparr>)
    \<and> (\<forall>i b. read_route d i b \<noteq> read_route d' i b \<longrightarrow> (i, b) \<in> set ks)"
proof -
  have cov: "covers d d' ks" and seg: "list_all (\<lambda>(_, b). one_segment b) ks"
    using serve_covers [OF assms] .
  have "race_step S R (s\<lparr>c_db := d\<rparr>)
      ((s\<lparr>c_db := d\<rparr>)\<lparr>c_db := d', c_pending := c_pending (s\<lparr>c_db := d\<rparr>) @ ks\<rparr>)"
    by (rule race_step.commit) (use cov seg in simp_all)
  then show ?thesis using cov by (auto simp: covers_def)
qed

lemma served_disable:
  "serve (site_of sample_admin) 9 9 [] (sr_request disable_request) sample_admin_db c =
     (Wrote 1 (Admin_Call (Route_Call (Service_Update 5 True (no_service_input\<lparr>si_is_active := Some False\<rparr>))))
        (site_call_answer str_of_int sample_account_env 1 9
          (Admin_Call (Route_Call (Service_Update 5 True (no_service_input\<lparr>si_is_active := Some False\<rparr>)))) sample_admin_db),
      run_admin_call sample_account_env 1 9
        (Route_Call (Service_Update 5 True (no_service_input\<lparr>si_is_active := Some False\<rparr>))) sample_admin_db, c)"
proof -
  have "st_staff (site_of sample_admin) (sr_request disable_request) sample_admin_db = Inr (Some sample_admin)"
    by (simp add: site_of_def sample_admin_db_def)
  moreover have "usr_is_staff sample_admin" "usr_id sample_admin = 1" by (simp_all add: sample_admin_def)
  ultimately show ?thesis
    using service_target
    by (simp add: serve_def serve_view_def enter_def disable_request_def site_of_def sample_fields_def with_fields_def
        run_site_call_def split: prod.split)
qed

theorem site_requests_are_commits_witness:
  "\<exists>r d' ks c'. serve (site_of sample_admin) 9 9 [] (sr_request disable_request) sample_admin_db (sample_client [])
     = (r, (d', ks), c') \<and> (1, ''/doctors'') \<in> set ks"
proof -
  obtain d' ks where run: "run_admin_call sample_account_env 1 9
      (Route_Call (Service_Update 5 True (no_service_input\<lparr>si_is_active := Some False\<rparr>))) sample_admin_db = (d', ks)"
    and d': "services d' = \<lparr>rows = [sample_service\<lparr>svc_is_active := False, svc_updated_at := 9\<rparr>, second_service], last_pk = 6\<rparr>"
      "routes d' = routes sample_admin_db"
    using sample_disable_service by simp
  note s = served_disable [of "sample_client []", unfolded run]
  have "read_route d' 1 ''/doctors'' = JNull"
    using d' by (simp add: read_route_def objects_first_def route_visible_def service_of_def sample_admin_defs)
  moreover have "read_route sample_admin_db 1 ''/doctors'' \<noteq> JNull"
    by (simp add: read_route_def objects_first_def route_visible_def service_of_def route_entry_def sample_admin_defs)
  ultimately have "(1, ''/doctors'') \<in> set ks"
    using site_requests_are_commits [OF sample_admin_db_ok s] by metis
  then show ?thesis using s by blast
qed

end
