(* ===== verification/SitePages.thy ===== *)
theory SitePages
  imports Site
begin

text \<open>
  What the site answers its staff: a reading request shows rows of the account's own projects only,
  without secrets; the answer of a write is the page of the row it wrote; and a write that is not
  answered with 200 or 201 has changed nothing.
\<close>

section \<open>Reading\<close>

lemma page_visible:
  assumes "tables_ok d" and "links_ok d"
  shows "page stamp admin v (visible admin d) = page stamp admin v d"
proof -
  note own = visible_route_data [OF assms]
  have "route_data stamp (visible admin d) r = route_data stamp d r" if "r \<in> set (routes_list admin d)" for r
    using that by (intro own) (auto simp: routes_list_def objects_filter_def)
  then have routes: "list_page (route_data stamp (visible admin d)) (routes_list admin d)
      = list_page (route_data stamp d) (routes_list admin d)"
    by (simp add: list_page_def cong: map_cong)
  have route: "row_page (route_data stamp (visible admin d)) (own_route admin i d)
      = row_page (route_data stamp d) (own_route admin i d)" for i
    using own by (auto simp: row_page_def own_route_def split: option.split dest!: objects_first_Some)
  have clients: "list_page (client_user_data stamp) (client_users_list admin (visible admin d))
      = list_page (client_user_data stamp) (client_users_list admin d)"
    by (simp only: list_page_def visible_clients)
  show ?thesis by (cases v) (simp_all add: routes route clients dashboard_data_def)
qed

lemma page_handled:
  "v \<notin> {Login_View, Refresh_Token_View} \<Longrightarrow> page stamp admin v d = None \<longleftrightarrow> ''GET'' \<notin> set (handled_methods v)"
  by (cases v) simp_all

lemma served_page:
  assumes "site_target (rq_path rq) = Admin_View v" and "v \<notin> {Login_View, Refresh_Token_View}"
    and "st_staff X rq d = Inr (Some u)" and "usr_is_staff u" and "rq_method rq = ''GET''"
  shows "serve X now now' random rq d c =
    (case page (st_stamp X) (usr_id u) v d of None \<Rightarrow> Refused 405 | Some r \<Rightarrow> reply_of r, (d, []), c)"
proof -
  have "permission_classes v = [IsAdminUser]" using assms(2) by (cases v) simp_all
  then show ?thesis
    using assms page_handled [OF assms(2), of "st_stamp X" "usr_id u" d]
    by (auto simp: serve_def serve_view_def enter_def)
qed

section \<open>Writing\<close>

fun detail_view :: "route_call \<Rightarrow> pk \<Rightarrow> view" where
  "detail_view (Service_Create m v) i = Service_Detail_View i"
| "detail_view (Service_Update j partial v) i = Service_Detail_View i"
| "detail_view (Route_Create m v) i = Route_Detail_View i"
| "detail_view (Route_Update j partial v) i = Route_Detail_View i"
| "detail_view (Method_Create v) i = Method_Detail_View i"
| "detail_view (Method_Update j partial v) i = Method_Detail_View i"
| "detail_view (Permission_Create v) i = Permission_Detail_View i"
| "detail_view (Permission_Update j partial v) i = Permission_Detail_View i"

lemma page_detail: "page stamp admin (detail_view c i) d = Some (written_row_page stamp admin c i d)"
  by (cases c) simp_all

lemma served_write:
  assumes "serve X now now' random rq d c = (Wrote admin call out, (d', ks), c')"
  shows "out = site_call_answer (st_stamp X) (st_accounts X) admin now call d"
    and "run_site_call (st_accounts X) admin now call d = (d', ks)"
proof -
  have "\<exists>v. serve_view X now random v rq d = (Wrote admin call out, d', ks)"
  proof (cases "site_target (rq_path rq)")
    case (Admin_View v)
    then show ?thesis using assms by (auto simp: serve_def split: prod.splits)
  next
    case Gateway_Area
    have no: "reply_of r \<noteq> Wrote admin call out" for r by (cases r) simp_all
    have "r \<noteq> Wrote admin call out" if "serve_client X now now' random v cred rq d c1 = (r, d1, c2)" for v cred c1 r d1 c2
      using that no by (auto simp: serve_client_def Let_def split: if_splits sum.splits endpoint.splits prod.splits)
    then show ?thesis
      using assms Gateway_Area by (auto simp: serve_def split: prod.splits outcome.splits)
  qed (use assms in \<open>auto simp: serve_def\<close>)
  then obtain v where "serve_view X now random v rq d = (Wrote admin call out, d', ks)" by blast
  moreover have "reply_of r \<noteq> Wrote admin call out" for r by (cases r) simp_all
  moreover have "staff_page X v rq d \<noteq> Wrote admin call out" for v
    using calculation(2) by (auto simp: staff_page_def split: sum.split option.split)
  ultimately have "out = site_call_answer (st_stamp X) (st_accounts X) admin now call d
      \<and> run_site_call (st_accounts X) admin now call d = (d', ks)"
    by (auto simp: serve_view_def split: sum.splits if_splits option.splits prod.splits)
  then show "out = site_call_answer (st_stamp X) (st_accounts X) admin now call d"
    "run_site_call (st_accounts X) admin now call d = (d', ks)" by blast+
qed

text \<open>An answer other than 200 and 201 is a refusal, and a refusal writes nothing.\<close>

definition nothing_refused :: "exn + response \<Rightarrow> db \<Rightarrow> db \<times> (pk \<times> string) list \<Rightarrow> bool" where
  "nothing_refused out d left =
     (case out of
        Inl e \<Rightarrow> left = (d, [])
      | Inr rs \<Rightarrow> rs_status rs \<in> {200, 201} \<or> rs_status rs \<in> {400, 404} \<and> left = (d, []))"

lemma route_call_answer_Inl:
  "route_call_answer stamp E admin now c tx = Inl e \<longleftrightarrow> run_route_call E admin now c tx = Inl e"
  by (cases c) (auto simp: written_def in_txn_def left_in_def and_then_Inl)

lemma route_call_answer_status:
  "route_call_answer stamp E admin now c tx = Inr rs \<Longrightarrow> rs_status rs \<in> {200, 201}"
  by (cases c) (auto simp: written_Inr)

lemma account_refusals:
  "application_create E token admin now data v d = Inr (None, d') \<Longrightarrow> d' = d"
  "api_key_create E token admin now data d = Inr (Inl status, d') \<Longrightarrow> d' = d \<and> status \<in> {400, 404}"
  "api_key_revoke admin now i d = (None, d') \<Longrightarrow> d' = d"
  by (auto simp: application_create_def api_key_create_def api_key_revoke_def and_then_Inr
      split: option.splits if_splits prod.splits)

lemma admin_call_answer_refusals:
  "nothing_refused (admin_call_answer stamp E admin now c d) d (run_admin_call E admin now c d)"
proof (cases c)
  case (Route_Call rc)
  show ?thesis
    using route_call_answer_Inl [of stamp "ac_admin E" admin now rc "begin_txn d"]
      route_call_answer_status [of stamp "ac_admin E" admin now rc "begin_txn d"]
    by (auto simp: Route_Call nothing_refused_def run_admin_call_def split: sum.split)
next
  case (Create_Application token data v)
  show ?thesis
  proof (cases "application_create E token admin now data v d")
    case (Inr r)
    then show ?thesis
      using account_refusals(1) [of E token admin now data v d]
      by (cases "fst r"; cases r)
        (auto simp: Create_Application nothing_refused_def run_admin_call_def on_db_def application_created_def
          reject_def json_response_def)
  qed (simp add: Create_Application nothing_refused_def run_admin_call_def on_db_def)
next
  case (Create_Key token data)
  show ?thesis
  proof (cases "api_key_create E token admin now data d")
    case (Inr r)
    then show ?thesis
      using account_refusals(2) [of E token admin now data d]
      by (cases "fst r"; cases r)
        (auto simp: Create_Key nothing_refused_def run_admin_call_def on_db_def api_key_created_def
          reject_def json_response_def)
  qed (simp add: Create_Key nothing_refused_def run_admin_call_def on_db_def)
next
  case (Revoke_Key i)
  obtain k d' where r: "api_key_revoke admin now i d = (k, d')" by force
  then show ?thesis
    using account_refusals(3) [of admin now i d d']
    by (cases k)
      (simp_all add: Revoke_Key nothing_refused_def run_admin_call_def api_key_revoked_def reject_def json_response_def)
qed (auto simp: nothing_refused_def run_admin_call_def written_def on_db_def and_then_Inl and_then_Inr split: sum.split)

lemma site_call_answer_refusals:
  "nothing_refused (site_call_answer stamp E admin now call d) d (run_site_call E admin now call d)"
proof (cases call)
  case (Admin_Call c)
  then show ?thesis using admin_call_answer_refusals by (simp add: site_call_answer_def run_site_call_def)
next
  case (Add_Client a random email pw)
  then show ?thesis
    by (auto simp: site_call_answer_def run_site_call_def nothing_refused_def written_def and_then_Inl and_then_Inr
        split: sum.split)
next
  case (Disable_Client i)
  then show ?thesis
    by (auto simp: site_call_answer_def run_site_call_def nothing_refused_def client_user_disable_def reject_def
        json_response_def split: option.split)
qed

section \<open>Properties\<close>


definition show_request :: http_request where
  "show_request = (sr_request disable_request)\<lparr>rq_method := ''GET''\<rparr>"


text \<open>
  C18: a write answers what it wrote. When a write of a service, route, method policy or permission
  is answered without an exception, the body names the row, and the detail page of that row, read
  in the database the request leaves by the same account, is exactly this body.
\<close>

theorem written_row_reads_back:
  assumes "tables_ok d" and "links_ok d"
    and "serve X now now' random rq d c = (Wrote admin (Admin_Call (Route_Call rc)) (Inr rs), (d', ks), c')"
  shows "\<exists>i. jget ''id'' (rs_body rs) = Some (JInt i)
    \<and> page (st_stamp X) admin (detail_view rc i) d' = Some (Inr \<lparr>rs_status = 200, rs_body = rs_body rs\<rparr>)"
proof -
  note w = served_write [OF assms(3)]
  have "route_call_answer (st_stamp X) (ac_admin (st_accounts X)) admin now rc (begin_txn d) = Inr rs"
    using w(1) by (simp add: site_call_answer_def)
  from route_call_reads_back [OF this] assms(1,2)
  obtain i tx' where run: "run_route_call (ac_admin (st_accounts X)) admin now rc (begin_txn d) = Inr tx'"
    and id: "jget ''id'' (rs_body rs) = Some (JInt i)"
    and row: "written_row_page (st_stamp X) admin rc i (tx_db tx') = shown (rs_body rs)"
    by (auto simp: begin_txn_def)
  have "d' = tx_db tx'" using w(2) run by (simp add: run_site_call_def run_admin_call_def)
  then show ?thesis using id row by (auto simp: page_detail shown_def)
qed

lemma sample_disable_answer:
  "site_call_answer str_of_int sample_account_env 1 9
     (Admin_Call (Route_Call (Service_Update 5 True (no_service_input\<lparr>si_is_active := Some False\<rparr>)))) sample_admin_db =
   Inr \<lparr>rs_status = 200,
        rs_body = service_data str_of_int (sample_service\<lparr>svc_is_active := False, svc_updated_at := 9\<rparr>)\<rparr>"
  by (simp add: site_call_answer_def written_def in_txn_def service_update_def service_form_def no_service_input_def
      given_def objects_first_def begin_txn_def objects_exists_def owns_project_def tx_save_service_def save_service_def
      service_presave_def default_slug_def update_row_def service_clash_def objects_save_def
      invalidate_routes_for_changed_service_def invalidate_after_commit_def objects_filter_def
      sample_account_env_def sample_env_def sample_admin_defs Let_def)

theorem written_row_reads_back_witness:
  "page str_of_int 1 (Service_Detail_View 5)
     (fst (run_admin_call sample_account_env 1 9
        (Route_Call (Service_Update 5 True (no_service_input\<lparr>si_is_active := Some False\<rparr>))) sample_admin_db)) =
   Some (Inr \<lparr>rs_status = 200,
     rs_body = service_data str_of_int (sample_service\<lparr>svc_is_active := False, svc_updated_at := 9\<rparr>)\<rparr>)"
proof -
  obtain d' ks where run: "run_admin_call sample_account_env 1 9
      (Route_Call (Service_Update 5 True (no_service_input\<lparr>si_is_active := Some False\<rparr>))) sample_admin_db = (d', ks)"
    by force
  show ?thesis unfolding run fst_conv
    using written_row_reads_back [OF sample_admin_db_ok served_disable [of "sample_client []", unfolded run sample_disable_answer]]
    by (auto simp: site_of_def sample_service_def)
qed


lemma refused_disable:
  "\<exists>call. serve (site_of other_admin) 9 9 [] (sr_request disable_request) sample_admin_db c =
     (Wrote 2 call (Inl Http404), run_site_call sample_account_env 2 9 call sample_admin_db, c)"
proof -
  have "st_staff (site_of other_admin) (sr_request disable_request) sample_admin_db = Inr (Some other_admin)"
    by (simp add: site_of_def sample_admin_db_def)
  moreover have "usr_is_staff other_admin" "usr_id other_admin = 2" by (simp_all add: other_admin_def sample_admin_def)
  moreover have "service_update S slugify 2 9 5 True v (begin_txn sample_admin_db) = Inl Http404" for S slugify v
    by (simp add: service_update_def begin_txn_def objects_first_def owns_project_def objects_exists_def sample_admin_defs)
  ultimately show ?thesis
    using service_target
    by (simp add: serve_def serve_view_def enter_def disable_request_def site_of_def sample_fields_def with_fields_def
        site_call_answer_def written_def in_txn_def split: prod.split)
qed


end
