(* ===== verification/SeedDemo.thy ===== *)
theory SeedDemo
  imports AdminUsers
begin

text \<open>
  \<open>apps/routes/demo.py\<close> and \<open>management/commands/seed_demo.py\<close>: the command that creates the
  demonstration bundles for a staff account. It runs in one transaction; every row is looked up
  before it is created (\<open>get_or_create\<close>), so an entry that is there is kept as it is.
\<close>

section \<open>The bundles\<close>

type_synonym industry = "string \<times> string \<times> (string \<times> string \<times> string) list"

definition INDUSTRY_BUNDLES :: "industry list" where
  "INDUSTRY_BUNDLES =
     [(''ecommerce'', ''E-commerce'',
       [(''User Service'', ''fashion-user-service'', ''/users''),
        (''Product Service'', ''fashion-product-service'', ''/products''),
        (''Order Service'', ''fashion-order-service'', ''/orders'')]),
      (''healthcare'', ''Healthcare'',
       [(''Doctor Service'', ''healthcare-doctor-service'', ''/doctors''),
        (''Appointment Service'', ''healthcare-appointment-service'', ''/appointments''),
        (''Patient Service'', ''healthcare-patient-service'', ''/patients'')]),
      (''banking'', ''Banking'',
       [(''Account Service'', ''banking-account-service'', ''/accounts''),
        (''Transaction Service'', ''banking-transaction-service'', ''/transactions''),
        (''Payment Service'', ''banking-payment-service'', ''/payments'')])]"

section \<open>The command\<close>

definition seed_owner :: "string \<Rightarrow> db \<Rightarrow> user option" where
  "seed_owner email d =
     objects_first (\<lambda>u. usr_email u = email \<and> usr_is_staff u \<and> usr_is_active u) (users d)"

definition seed_project ::
    "(string \<Rightarrow> string) \<Rightarrow> instant \<Rightarrow> pk \<Rightarrow> string \<Rightarrow> string \<Rightarrow> txn \<Rightarrow> exn + project \<times> txn" where
  "seed_project slugify now owner slug name tx =
     and_then
       (case objects_first (\<lambda>p. prj_slug p = slug) (projects (tx_db tx)) of
          Some p \<Rightarrow> Inr (p, tx)
        | None \<Rightarrow>
            and_then (create_project slugify now
                \<lparr>prj_id = 0, prj_owner = owner, prj_name = name, prj_slug = slug,
                 prj_description = ''Virtual destination metadata for gateway request-preview demonstrations.'',
                 prj_created_at = 0, prj_updated_at = 0\<rparr> (tx_db tx))
              (\<lambda>(p, d'). Inr (p, tx\<lparr>tx_db := d'\<rparr>)))
       (\<lambda>(p, tx').
          if prj_owner p \<noteq> owner
          then Inl (CommandError ''Project belongs to another administrator; no data changed.'')
          else Inr (p, tx'))"

definition seed_service ::
    "settings \<Rightarrow> (string \<Rightarrow> string) \<Rightarrow> instant \<Rightarrow> pk \<Rightarrow> string \<Rightarrow> string \<Rightarrow> txn \<Rightarrow> exn + backend_service \<times> txn" where
  "seed_service S slugify now prj service_name host tx =
     (let base_url = ''http://'' @ host @ '':8000''
      in case validate_backend_base_url S base_url of
           Inl (ValidationError _) \<Rightarrow> Inl (CommandError ''Approve the demo destination origin before seeding.'')
         | Inl e \<Rightarrow> Inl e
         | Inr _ \<Rightarrow>
             (case objects_first (\<lambda>s. svc_project s = prj \<and> svc_slug s = host) (services (tx_db tx)) of
                Some s \<Rightarrow> Inr (s, tx)
              | None \<Rightarrow>
                  tx_create_service slugify now
                    \<lparr>svc_id = 0, svc_project = prj, svc_name = service_name, svc_slug = host, svc_description = [],
                     svc_base_url = base_url, svc_is_active = True, svc_created_at = 0, svc_updated_at = 0\<rparr> tx))"

definition seed_route ::
    "instant \<Rightarrow> pk \<Rightarrow> string \<Rightarrow> backend_service \<Rightarrow> string \<Rightarrow> txn \<Rightarrow> exn + route \<times> txn" where
  "seed_route now prj service_name s path tx =
     and_then
       (case objects_first (\<lambda>r. rt_project r = prj \<and> rt_base_path r = path) (routes (tx_db tx)) of
          Some r \<Rightarrow> Inr (r, tx)
        | None \<Rightarrow>
            tx_create_route now
              \<lparr>rt_id = 0, rt_project = prj, rt_backend_service = Some (svc_id s),
               rt_name = service_name @ '' routing test'', rt_base_path = path, rt_is_active = True,
               rt_created_at = 0, rt_updated_at = 0\<rparr> tx)
       (\<lambda>(r, tx').
          if rt_backend_service r \<noteq> Some (svc_id s)
          then Inl (CommandError ''Existing path belongs to a different backend service.'')
          else Inr (r, tx'))"

definition seed_method :: "route \<Rightarrow> string \<Rightarrow> txn \<Rightarrow> exn + txn" where
  "seed_method r m tx =
     (case objects_first (\<lambda>x. rm_route x = rt_id r \<and> rm_method x = m) (route_methods (tx_db tx)) of
        Some _ \<Rightarrow> Inr tx
      | None \<Rightarrow>
          and_then (create_route_method
              \<lparr>rm_id = 0, rm_route = rt_id r, rm_method = m, rm_auth_policy = AUTH_API_KEY_ONLY\<rparr> (tx_db tx))
            (\<lambda>(_, d'). Inr (tx\<lparr>tx_db := d'\<rparr>)))"

definition seed_entry ::
    "settings \<Rightarrow> (string \<Rightarrow> string) \<Rightarrow> instant \<Rightarrow> pk \<Rightarrow> string \<times> string \<times> string \<Rightarrow> txn \<Rightarrow> exn + txn" where
  "seed_entry S slugify now prj entry tx =
     (case entry of (service_name, host, path) \<Rightarrow>
        and_then (seed_service S slugify now prj service_name host tx) (\<lambda>(s, tx1).
        and_then (seed_route now prj service_name s path tx1) (\<lambda>(r, tx2).
          for_each (seed_method r) METHOD_CHOICES tx2)))"

definition seed_bundle ::
    "settings \<Rightarrow> (string \<Rightarrow> string) \<Rightarrow> instant \<Rightarrow> pk \<Rightarrow> industry \<Rightarrow> txn \<Rightarrow> exn + txn" where
  "seed_bundle S slugify now owner b tx =
     (case b of (slug, name, entries) \<Rightarrow>
        and_then (seed_project slugify now owner slug name tx) (\<lambda>(p, tx1).
          for_each (seed_entry S slugify now (prj_id p)) entries tx1))"

definition seed_demo ::
    "settings \<Rightarrow> (string \<Rightarrow> string) \<Rightarrow> string \<Rightarrow> instant \<Rightarrow> industry list \<Rightarrow> txn \<Rightarrow> exn + txn" where
  "seed_demo S slugify email now bundles tx =
     (case seed_owner email (tx_db tx) of
        None \<Rightarrow> Inl (CommandError ''Create an active staff account first (python manage.py createsuperuser).'')
      | Some owner \<Rightarrow> for_each (seed_bundle S slugify now (usr_id owner)) bundles tx)"

section \<open>Rows are only added\<close>

definition grows :: "db \<Rightarrow> db \<Rightarrow> bool" where
  "grows d d' \<longleftrightarrow>
     users d' = users d \<and> applications d' = applications d \<and> api_keys d' = api_keys d
     \<and> permissions d' = permissions d \<and> clients d' = clients d
     \<and> (\<exists>xs. rows (projects d') = rows (projects d) @ xs)
     \<and> (\<exists>xs. rows (services d') = rows (services d) @ xs)
     \<and> (\<exists>xs. rows (routes d') = rows (routes d) @ xs)
     \<and> (\<exists>xs. rows (route_methods d') = rows (route_methods d) @ xs)"

lemma grows_refl [simp]: "grows d d"
  by (simp add: grows_def)

lemma grows_trans: "grows d d1 \<Longrightarrow> grows d1 d2 \<Longrightarrow> grows d d2"
  unfolding grows_def by (metis append.assoc)

lemma grows_add:
  "rows t = rows (projects d) @ xs \<Longrightarrow> grows d (d\<lparr>projects := t\<rparr>)"
  "rows u = rows (services d) @ ys \<Longrightarrow> grows d (d\<lparr>services := u\<rparr>)"
  "rows v = rows (routes d) @ zs \<Longrightarrow> grows d (d\<lparr>routes := v\<rparr>)"
  "rows w = rows (route_methods d) @ ws \<Longrightarrow> grows d (d\<lparr>route_methods := w\<rparr>)"
  by (auto simp: grows_def)

lemma objects_first_append:
  "objects_first P t = Some x \<Longrightarrow> rows t' = rows t @ xs \<Longrightarrow> objects_first P t' = Some x"
  "objects_first P t = None \<Longrightarrow> rows t' = rows t @ [x] \<Longrightarrow> P x \<Longrightarrow> objects_first P t' = Some x"
  by (simp_all add: objects_first_def find_append)

lemma grows_first:
  assumes "grows d d'"
  shows "objects_first P (projects d) = Some p \<Longrightarrow> objects_first P (projects d') = Some p"
    and "objects_first Q (services d) = Some s \<Longrightarrow> objects_first Q (services d') = Some s"
    and "objects_first R (routes d) = Some r \<Longrightarrow> objects_first R (routes d') = Some r"
    and "objects_first M (route_methods d) = Some m \<Longrightarrow> objects_first M (route_methods d') = Some m"
  using assms by (auto simp: grows_def intro: objects_first_append(1))

lemma grows_owns: "grows d d' \<Longrightarrow> owns_project d u i \<Longrightarrow> owns_project d' u i"
  by (auto simp: grows_def owns_project_def objects_exists_def)

lemma grows_owns_route: "grows d d' \<Longrightarrow> owns_route d u i \<Longrightarrow> owns_route d' u i"
  using grows_owns [of d d' u] by (auto simp: owns_route_def objects_exists_iff grows_def)

text \<open>What one step of the command does, for the account \<open>owner\<close>.\<close>

definition seed_step :: "pk \<Rightarrow> txn \<Rightarrow> txn \<Rightarrow> bool" where
  "seed_step owner tx tx' \<longleftrightarrow>
     grows (tx_db tx) (tx_db tx') \<and> keeps_tenants owner (tx_db tx) (tx_db tx') \<and> tx_covers tx tx'"

definition seed_ok :: "pk \<Rightarrow> txn \<Rightarrow> bool" where
  "seed_ok owner tx \<longleftrightarrow> tables_ok (tx_db tx) \<and> links_ok (tx_db tx) \<and> user_exists (tx_db tx) owner"

lemma seed_step_refl: "seed_ok owner tx \<Longrightarrow> seed_step owner tx tx"
  by (simp add: seed_step_def seed_ok_def keeps_tenants_refl tx_covers_refl)

lemma seed_step_trans: "seed_step owner tx tx1 \<Longrightarrow> seed_step owner tx1 tx2 \<Longrightarrow> seed_step owner tx tx2"
  unfolding seed_step_def using grows_trans keeps_tenants_trans tx_covers_trans by blast

lemma seed_step_ok: "seed_step owner tx tx' \<Longrightarrow> seed_ok owner tx \<Longrightarrow> seed_ok owner tx'"
  by (simp add: seed_step_def seed_ok_def keeps_tenants_def)

lemma confined_step: "confined owner tx tx' \<Longrightarrow> grows (tx_db tx) (tx_db tx') \<Longrightarrow> seed_step owner tx tx'"
  using confined_keeps [of owner tx tx'] by (simp add: seed_step_def) (simp add: confined_def)

text \<open>
  A loop of the command: each body leaves its element \<open>settled\<close>, a settled element stays so when
  rows are added, and the body of a later run (\<open>again\<close>) leaves a settled element alone.
\<close>

locale seeding =
  fixes owner :: pk
    and body again :: "'a \<Rightarrow> txn \<Rightarrow> exn + txn"
    and pre :: "db \<Rightarrow> bool"
    and settled :: "'a \<Rightarrow> db \<Rightarrow> bool"
    and good :: "'a \<Rightarrow> bool"
  assumes step: "seed_ok owner tx \<Longrightarrow> pre (tx_db tx) \<Longrightarrow> good x \<Longrightarrow> body x tx = Inr tx' \<Longrightarrow>
      seed_step owner tx tx' \<and> settled x (tx_db tx')"
    and pre_stays: "pre d \<Longrightarrow> grows d d' \<Longrightarrow> pre d'"
    and settled_stays: "settled x d \<Longrightarrow> grows d d' \<Longrightarrow> settled x d'"
    and skip: "settled x (tx_db tx) \<Longrightarrow> again x tx = Inr tx"
begin

lemma loop:
  "for_each body xs tx = Inr tx' \<Longrightarrow> seed_ok owner tx \<Longrightarrow> pre (tx_db tx) \<Longrightarrow> \<forall>x \<in> set xs. good x \<Longrightarrow>
   seed_step owner tx tx' \<and> (\<forall>x \<in> set xs. settled x (tx_db tx'))"
proof (induction xs arbitrary: tx)
  case Nil
  then show ?case by (simp add: seed_step_refl)
next
  case (Cons x xs)
  obtain tx1 where b: "body x tx = Inr tx1" and rest: "for_each body xs tx1 = Inr tx'"
    using Cons.prems(1) by (auto simp: and_then_Inr)
  have s: "seed_step owner tx tx1" and x: "settled x (tx_db tx1)"
    using step [OF Cons.prems(2,3) _ b] Cons.prems(4) by simp_all
  have "pre (tx_db tx1)" using pre_stays Cons.prems(3) s by (auto simp: seed_step_def)
  then have ih: "seed_step owner tx1 tx'" "\<forall>x \<in> set xs. settled x (tx_db tx')"
    using Cons.IH [OF rest seed_step_ok [OF s Cons.prems(2)]] Cons.prems(4) by simp_all
  have "settled x (tx_db tx')" using settled_stays [OF x] ih(1) by (simp add: seed_step_def)
  then show ?case using seed_step_trans [OF s ih(1)] ih(2) by simp
qed

lemma loop_again: "\<forall>x \<in> set xs. settled x (tx_db tx) \<Longrightarrow> for_each again xs tx = Inr tx"
  by (induction xs) (simp_all add: skip)

end

section \<open>The three loops\<close>

definition method_settled :: "route \<Rightarrow> string \<Rightarrow> db \<Rightarrow> bool" where
  "method_settled r m d \<longleftrightarrow> (\<exists>x. objects_first (\<lambda>x. rm_route x = rt_id r \<and> rm_method x = m) (route_methods d) = Some x)"

lemma seed_method_step:
  assumes "seed_ok owner tx" and "owns_route (tx_db tx) owner (rt_id r)" and "seed_method r m tx = Inr tx'"
  shows "seed_step owner tx tx' \<and> method_settled r m (tx_db tx')"
proof (cases "objects_first (\<lambda>x. rm_route x = rt_id r \<and> rm_method x = m) (route_methods (tx_db tx))")
  case (Some x)
  then show ?thesis using assms by (simp add: seed_method_def method_settled_def seed_step_refl)
next
  case None
  let ?d = "tx_db tx"
  have ok: "tables_ok ?d" "links_ok ?d" using assms(1) by (simp_all add: seed_ok_def)
  obtain x d' where c: "create_route_method
        \<lparr>rm_id = 0, rm_route = rt_id r, rm_method = m, rm_auth_policy = AUTH_API_KEY_ONLY\<rparr> ?d = Inr (x, d')"
    and tx': "tx' = tx\<lparr>tx_db := d'\<rparr>"
    using assms(3) None by (auto simp: seed_method_def and_then_Inr)
  obtain t where d': "d' = ?d\<lparr>route_methods := t\<rparr>" and t: "rows t = rows (route_methods ?d) @ [x]"
    using create_route_method_Inr(1) [OF c] by blast
  have x: "rm_route x = rt_id r" "rm_method x = m" using create_route_method_Inr(2) [OF c] by simp_all
  have "confined owner tx (tx\<lparr>tx_db := ?d\<lparr>route_methods := t\<rparr>\<rparr>)"
  proof (rule confined_methods [OF ok create_route_method_ok [OF c ok(1), unfolded d']])
    show "\<forall>y \<in> set (rows t). route_exists ?d (rm_route y)"
      using ok(2) own_route(1) [OF assms(2) ok(1)] x by (auto simp: t links_ok_def list_all_iff)
    fix j assume "\<not> owns_project ?d owner j"
    then show "tenant_of (?d\<lparr>route_methods := t\<rparr>) j = tenant_of ?d j"
      using tenant_add_method [OF t] own_route(2) [OF assms(2) ok(1)] x by metis
  qed
  then have "seed_step owner tx tx'"
    using confined_step grows_add(4) [OF t] unfolding tx' d' by simp
  moreover have "method_settled r m (tx_db tx')"
    using objects_first_append(2) [OF None t] x by (auto simp: method_settled_def tx' d')
  ultimately show ?thesis ..
qed

interpretation method_loop: seeding owner "seed_method r" "seed_method r"
    "\<lambda>d. owns_route d owner (rt_id r)" "method_settled r" "\<lambda>_. True" for owner r
proof
  fix tx x tx'
  assume "seed_ok owner tx" "owns_route (tx_db tx) owner (rt_id r)" "seed_method r x tx = Inr tx'"
  then show "seed_step owner tx tx' \<and> method_settled r x (tx_db tx')" by (rule seed_method_step)
next
  fix x d d' assume "method_settled r x d" "grows d d'"
  then show "method_settled r x d'" by (auto simp: method_settled_def dest: grows_first(4))
next
  fix x and tx :: txn assume "method_settled r x (tx_db tx)"
  then show "seed_method r x tx = Inr tx" by (auto simp: method_settled_def seed_method_def)
qed (rule grows_owns_route)

definition entry_settled :: "settings \<Rightarrow> pk \<Rightarrow> string \<times> string \<times> string \<Rightarrow> db \<Rightarrow> bool" where
  "entry_settled S prj entry d \<longleftrightarrow>
     (case entry of (service_name, host, path) \<Rightarrow>
        is_ok (validate_backend_base_url S (''http://'' @ host @ '':8000''))
        \<and> (\<exists>s r. objects_first (\<lambda>s. svc_project s = prj \<and> svc_slug s = host) (services d) = Some s
             \<and> objects_first (\<lambda>r. rt_project r = prj \<and> rt_base_path r = path) (routes d) = Some r
             \<and> rt_backend_service r = Some (svc_id s) \<and> (\<forall>m \<in> set METHOD_CHOICES. method_settled r m d)))"

lemma seed_service_step:
  assumes "seed_ok owner tx" and "owns_project (tx_db tx) owner prj" and "host \<noteq> []"
    and "seed_service S slugify now prj service_name host tx = Inr (s, tx')"
  shows "seed_step owner tx tx'"
    and "is_ok (validate_backend_base_url S (''http://'' @ host @ '':8000''))"
    and "objects_first (\<lambda>s. svc_project s = prj \<and> svc_slug s = host) (services (tx_db tx')) = Some s"
proof -
  let ?u = "''http://'' @ host @ '':8000''" and ?P = "\<lambda>s. svc_project s = prj \<and> svc_slug s = host"
  have v: "is_ok (validate_backend_base_url S ?u)"
    using assms(4) by (cases "validate_backend_base_url S ?u") (auto simp: seed_service_def Let_def split: exn.splits)
  then obtain w where w: "validate_backend_base_url S ?u = Inr w" by (auto simp: is_ok_iff)
  show "is_ok (validate_backend_base_url S ?u)" by (rule v)
  have "seed_step owner tx tx' \<and> objects_first ?P (services (tx_db tx')) = Some s"
  proof (cases "objects_first ?P (services (tx_db tx))")
    case (Some x)
    then show ?thesis using assms(1,4) w by (simp add: seed_service_def seed_step_refl)
  next
    case None
    let ?row = "\<lparr>svc_id = 0, svc_project = prj, svc_name = service_name, svc_slug = host, svc_description = [],
        svc_base_url = ?u, svc_is_active = True, svc_created_at = 0, svc_updated_at = 0\<rparr>"
    have c: "tx_create_service slugify now ?row tx = Inr (s, tx')"
      using assms(4) w None by (simp add: seed_service_def)
    obtain t where d': "tx_db tx' = (tx_db tx)\<lparr>services := t\<rparr>" and t: "rows t = rows (services (tx_db tx)) @ [s]"
      using tx_create_service_db(1) [OF c] by blast
    have s: "svc_project s = prj" "svc_slug s = host"
      using tx_create_service_db(2) [OF c] assms(3) by (simp_all add: service_presave_def default_slug_def)
    have "confined owner tx tx'"
      using assms(1,2) by (intro create_service_confined [OF c]) (simp_all add: seed_ok_def)
    then have "seed_step owner tx tx'" using confined_step grows_add(2) [OF t] by (simp add: d')
    then show ?thesis using objects_first_append(2) [OF None t] s by (simp add: d')
  qed
  then show "seed_step owner tx tx'" "objects_first ?P (services (tx_db tx')) = Some s" by simp_all
qed

lemma seed_route_step:
  assumes "seed_ok owner tx" and "owns_project (tx_db tx) owner prj"
    and "objects_first (\<lambda>s. svc_project s = prj \<and> svc_slug s = host) (services (tx_db tx)) = Some s"
    and "seed_route now prj service_name s path tx = Inr (r, tx')"
  shows "seed_step owner tx tx'"
    and "objects_first (\<lambda>r. rt_project r = prj \<and> rt_base_path r = path) (routes (tx_db tx')) = Some r"
    and "rt_backend_service r = Some (svc_id s)"
proof -
  let ?P = "\<lambda>r. rt_project r = prj \<and> rt_base_path r = path"
  have "seed_step owner tx tx' \<and> objects_first ?P (routes (tx_db tx')) = Some r \<and> rt_backend_service r = Some (svc_id s)"
  proof (cases "objects_first ?P (routes (tx_db tx))")
    case (Some x)
    then show ?thesis using assms(1,4) by (auto simp: seed_route_def seed_step_refl split: if_splits)
  next
    case None
    let ?row = "\<lparr>rt_id = 0, rt_project = prj, rt_backend_service = Some (svc_id s),
        rt_name = service_name @ '' routing test'', rt_base_path = path, rt_is_active = True,
        rt_created_at = 0, rt_updated_at = 0\<rparr>"
    have c: "tx_create_route now ?row tx = Inr (r, tx')"
      using assms(4) None by (auto simp: seed_route_def and_then_Inr split: if_splits)
    obtain t where d': "tx_db tx' = (tx_db tx)\<lparr>routes := t\<rparr>" and t: "rows t = rows (routes (tx_db tx)) @ [r]"
      using tx_create_route_db(1) [OF c] by blast
    have r: "rt_project r = prj" "rt_base_path r = path" "rt_backend_service r = Some (svc_id s)"
      using tx_create_route_db(2) [OF c] by simp_all
    have link: "service_link (tx_db tx) ?row"
      using objects_first_Some [OF assms(3)] by (auto simp: service_link_def objects_exists_iff)
    have "confined owner tx tx'"
      using assms(1,2) link by (intro create_route_confined [OF c]) (simp_all add: seed_ok_def)
    then have "seed_step owner tx tx'" using confined_step grows_add(3) [OF t] by (simp add: d')
    then show ?thesis using objects_first_append(2) [OF None t] r by (simp add: d')
  qed
  then show "seed_step owner tx tx'" "objects_first ?P (routes (tx_db tx')) = Some r"
    "rt_backend_service r = Some (svc_id s)" by simp_all
qed

lemma seed_entry_step:
  assumes ok: "seed_ok owner tx" and own: "owns_project (tx_db tx) owner prj" and "fst (snd x) \<noteq> []"
    and "seed_entry S slugify now prj x tx = Inr tx'"
  shows "seed_step owner tx tx' \<and> entry_settled S prj x (tx_db tx')"
proof -
  obtain service_name host path where x: "x = (service_name, host, path)" by (cases x) auto
  obtain s tx1 r tx2 where a: "seed_service S slugify now prj service_name host tx = Inr (s, tx1)"
    and b: "seed_route now prj service_name s path tx1 = Inr (r, tx2)"
    and c: "for_each (seed_method r) METHOD_CHOICES tx2 = Inr tx'"
    using assms(4) by (auto simp: seed_entry_def x and_then_Inr)
  have host: "host \<noteq> []" using assms(3) x by simp
  note s = seed_service_step [OF ok own host a]
  have own1: "owns_project (tx_db tx1) owner prj" using s(1) own grows_owns by (auto simp: seed_step_def)
  have ok1: "seed_ok owner tx1" by (rule seed_step_ok [OF s(1) ok])
  note r = seed_route_step [OF ok1 own1 s(3) b]
  have ok2: "seed_ok owner tx2" by (rule seed_step_ok [OF r(1) ok1])
  have own2: "owns_project (tx_db tx2) owner prj" using r(1) own1 grows_owns by (auto simp: seed_step_def)
  have "owns_route (tx_db tx2) owner (rt_id r)"
    using objects_first_Some [OF r(2)] own2 by (auto simp: owns_route_def objects_exists_iff)
  then have m: "seed_step owner tx2 tx'" "\<forall>m \<in> set METHOD_CHOICES. method_settled r m (tx_db tx')"
    using method_loop.loop [OF c ok2] by simp_all
  have g: "grows (tx_db tx1) (tx_db tx')" "grows (tx_db tx2) (tx_db tx')"
    using seed_step_trans [OF r(1) m(1)] m(1) by (simp_all add: seed_step_def)
  have "entry_settled S prj x (tx_db tx')"
    unfolding entry_settled_def x using s(2) grows_first(2) [OF g(1) s(3)] grows_first(3) [OF g(2) r(2)] r(3) m(2)
    by simp
  then show ?thesis using seed_step_trans [OF s(1) seed_step_trans [OF r(1) m(1)]] by simp
qed

interpretation entry_loop: seeding owner "seed_entry S slugify now prj" "seed_entry S slugify later prj"
    "\<lambda>d. owns_project d owner prj" "entry_settled S prj" "\<lambda>x. fst (snd x) \<noteq> []"
    for owner S slugify now later prj
proof
  fix tx x tx'
  assume "seed_ok owner tx" "owns_project (tx_db tx) owner prj" "fst (snd x) \<noteq> []" "seed_entry S slugify now prj x tx = Inr tx'"
  then show "seed_step owner tx tx' \<and> entry_settled S prj x (tx_db tx')" by (rule seed_entry_step)
next
  fix x d d' assume e: "entry_settled S prj x d" and g: "grows d d'"
  note keep = grows_first [OF g]
  obtain service_name host path where x: "x = (service_name, host, path)" by (cases x) auto
  show "entry_settled S prj x d'"
    using e method_loop.settled_stays [OF _ g] keep(2,3) unfolding entry_settled_def x by fastforce
next
  fix x and tx :: txn assume e: "entry_settled S prj x (tx_db tx)"
  obtain service_name host path where x: "x = (service_name, host, path)" by (cases x) auto
  from e obtain w s r where "validate_backend_base_url S (''http://'' @ host @ '':8000'') = Inr w"
    and "objects_first (\<lambda>s. svc_project s = prj \<and> svc_slug s = host) (services (tx_db tx)) = Some s"
    and "objects_first (\<lambda>r. rt_project r = prj \<and> rt_base_path r = path) (routes (tx_db tx)) = Some r"
    and "rt_backend_service r = Some (svc_id s)" and "\<forall>m \<in> set METHOD_CHOICES. method_settled r m (tx_db tx)"
    by (auto simp: entry_settled_def x is_ok_iff)
  then show "seed_entry S slugify later prj x tx = Inr tx"
    by (simp add: seed_entry_def x seed_service_def seed_route_def method_loop.loop_again)
qed (rule grows_owns)

definition bundle_settled :: "settings \<Rightarrow> pk \<Rightarrow> industry \<Rightarrow> db \<Rightarrow> bool" where
  "bundle_settled S owner b d \<longleftrightarrow>
     (case b of (slug, name, entries) \<Rightarrow>
        (\<exists>p. objects_first (\<lambda>p. prj_slug p = slug) (projects d) = Some p \<and> prj_owner p = owner
           \<and> (\<forall>e \<in> set entries. entry_settled S (prj_id p) e d)))"

definition named_bundle :: "industry \<Rightarrow> bool" where
  "named_bundle b \<longleftrightarrow> fst b \<noteq> [] \<and> (\<forall>e \<in> set (snd (snd b)). fst (snd e) \<noteq> [])"

lemma seed_project_step:
  assumes ok: "seed_ok owner tx" and "slug \<noteq> []" and "seed_project slugify now owner slug name tx = Inr (p, tx')"
  shows "seed_step owner tx tx'" and "objects_first (\<lambda>p. prj_slug p = slug) (projects (tx_db tx')) = Some p"
    and "prj_owner p = owner"
proof -
  let ?P = "\<lambda>p. prj_slug p = slug"
  have "seed_step owner tx tx' \<and> objects_first ?P (projects (tx_db tx')) = Some p \<and> prj_owner p = owner"
  proof (cases "objects_first ?P (projects (tx_db tx))")
    case (Some x)
    then show ?thesis using assms by (auto simp: seed_project_def seed_step_refl split: if_splits)
  next
    case None
    let ?row = "\<lparr>prj_id = 0, prj_owner = owner, prj_name = name, prj_slug = slug,
        prj_description = ''Virtual destination metadata for gateway request-preview demonstrations.'',
        prj_created_at = 0, prj_updated_at = 0\<rparr>"
    obtain d' where c: "create_project slugify now ?row (tx_db tx) = Inr (p, d')" and tx': "tx' = tx\<lparr>tx_db := d'\<rparr>"
      using assms(3) None by (auto simp: seed_project_def and_then_Inr split: if_splits)
    note keeps = create_project_keeps [OF c, of owner]
    obtain t where d': "d' = (tx_db tx)\<lparr>projects := t\<rparr>" and t: "rows t = rows (projects (tx_db tx)) @ [p]"
      using keeps(2) ok by (auto simp: seed_ok_def)
    have p: "prj_owner p = owner" "prj_slug p = slug" using keeps(3,4) ok assms(2) by (simp_all add: seed_ok_def)
    have "keeps_tenants owner (tx_db tx) d'" using keeps(1) ok by (simp add: seed_ok_def)
    moreover have "tx_covers tx tx'" unfolding tx' by (rule tx_covers_other) (simp_all add: d')
    ultimately have "seed_step owner tx tx'" using grows_add(1) [OF t] by (simp add: seed_step_def tx' d')
    then show ?thesis using objects_first_append(2) [OF None t] p by (simp add: tx' d')
  qed
  then show "seed_step owner tx tx'" "objects_first ?P (projects (tx_db tx')) = Some p" "prj_owner p = owner"
    by simp_all
qed

lemma seed_bundle_step:
  assumes ok: "seed_ok owner tx" and good: "named_bundle b" and run: "seed_bundle S slugify now owner b tx = Inr tx'"
  shows "seed_step owner tx tx' \<and> bundle_settled S owner b (tx_db tx')"
proof -
  obtain slug name entries where b: "b = (slug, name, entries)" by (cases b) auto
  obtain p tx1 where a: "seed_project slugify now owner slug name tx = Inr (p, tx1)"
    and c: "for_each (seed_entry S slugify now (prj_id p)) entries tx1 = Inr tx'"
    using run by (auto simp: seed_bundle_def b and_then_Inr)
  have slug: "slug \<noteq> []" and entries: "\<forall>e \<in> set entries. fst (snd e) \<noteq> []" using good by (simp_all add: named_bundle_def b)
  note p = seed_project_step [OF ok slug a]
  have own: "owns_project (tx_db tx1) owner (prj_id p)"
    using objects_first_Some [OF p(2)] p(3) owns_projectI by blast
  have e: "seed_step owner tx1 tx'" "\<forall>x \<in> set entries. entry_settled S (prj_id p) x (tx_db tx')"
    using entry_loop.loop [OF c seed_step_ok [OF p(1) ok] own entries] by simp_all
  have "bundle_settled S owner b (tx_db tx')"
    unfolding bundle_settled_def b
    using grows_first(1) [OF _ p(2)] e p(3) by (auto simp: seed_step_def)
  then show ?thesis using seed_step_trans [OF p(1) e(1)] by simp
qed

interpretation bundle_loop: seeding owner "seed_bundle S slugify now owner" "seed_bundle S slugify later owner"
    "\<lambda>d. True" "bundle_settled S owner" named_bundle
    for owner S slugify now later
proof
  fix tx x tx'
  assume "seed_ok owner tx" "named_bundle x" "seed_bundle S slugify now owner x tx = Inr tx'"
  then show "seed_step owner tx tx' \<and> bundle_settled S owner x (tx_db tx')" by (rule seed_bundle_step)
next
  fix x d d' assume b: "bundle_settled S owner x d" and g: "grows d d'"
  obtain slug name entries where x: "x = (slug, name, entries)" by (cases x) auto
  show "bundle_settled S owner x d'"
    using b grows_first(1) [OF g] entry_loop.settled_stays [OF _ g] unfolding bundle_settled_def x by fastforce
next
  fix x and tx :: txn assume b: "bundle_settled S owner x (tx_db tx)"
  obtain slug name entries where x: "x = (slug, name, entries)" by (cases x) auto
  from b show "seed_bundle S slugify later owner x tx = Inr tx"
    by (auto simp: bundle_settled_def x seed_bundle_def seed_project_def entry_loop.loop_again)
qed simp

lemma industry_bundles_named: "list_all named_bundle INDUSTRY_BUNDLES"
  by (simp add: INDUSTRY_BUNDLES_def named_bundle_def)

section \<open>Properties\<close>

text \<open>
  C35: seeding is safe to run and to run again. A run that succeeds only adds rows; it leaves the tenants
  of other administrators and every existing row alone, queues an invalidation for every lookup it
  changes and keeps the database well formed. Running it again, at any later time, succeeds,
  changes nothing and invalidates nothing.
\<close>

theorem seeding_is_idempotent:
  assumes "tables_ok d" and "links_ok d"
    and "list_all named_bundle bundles"
    and "seed_demo S slugify email now bundles (begin_txn d) = Inr tx"
  shows "grows d (tx_db tx)
    \<and> (\<exists>owner. seed_owner email d = Some owner \<and> keeps_tenants (usr_id owner) d (tx_db tx))
    \<and> covers d (tx_db tx) (tx_hooks tx)
    \<and> seed_demo S slugify email later bundles (begin_txn (tx_db tx)) = Inr (begin_txn (tx_db tx))"
proof -
  obtain owner where owner: "seed_owner email d = Some owner"
    and run: "for_each (seed_bundle S slugify now (usr_id owner)) bundles (begin_txn d) = Inr tx"
    using assms(4) by (auto simp: seed_demo_def begin_txn_def split: option.splits)
  have "user_exists d (usr_id owner)"
    using objects_first_Some owner by (fastforce simp: seed_owner_def user_exists_def objects_exists_iff)
  then have ok: "seed_ok (usr_id owner) (begin_txn d)" using assms(1,2) by (simp add: seed_ok_def begin_txn_def)
  have named: "\<forall>b \<in> set bundles. named_bundle b" using assms(3) by (simp add: list_all_iff)
  have step: "seed_step (usr_id owner) (begin_txn d) tx"
    and all: "\<forall>b \<in> set bundles. bundle_settled S (usr_id owner) b (tx_db tx)"
    using bundle_loop.loop [OF run ok _ named] by simp_all
  have g: "grows d (tx_db tx)" using step by (simp add: seed_step_def begin_txn_def)
  then have "seed_owner email (tx_db tx) = Some owner" using owner by (simp add: seed_owner_def grows_def)
  then have "seed_demo S slugify email later bundles (begin_txn (tx_db tx)) = Inr (begin_txn (tx_db tx))"
    using bundle_loop.loop_again [of bundles S "usr_id owner" "begin_txn (tx_db tx)"] all
    by (simp add: seed_demo_def begin_txn_def)
  moreover have "covers d (tx_db tx) (tx_hooks tx)"
    using step by (auto simp: seed_step_def tx_covers_def begin_txn_def)
  moreover have "keeps_tenants (usr_id owner) d (tx_db tx)" using step by (simp add: seed_step_def begin_txn_def)
  ultimately show ?thesis using g owner by blast
qed

definition small_bundle :: industry where
  "small_bundle = (''demo'', ''Demo'', [(''D'', ''d'', ''/doctors'')])"

lemma small_bundle_seeds:
  "\<exists>tx. seed_demo sample_settings (ae_slugify sample_env) ''ada@x'' 9 [small_bundle] (begin_txn sample_admin_db) = Inr tx
     \<and> length (rows (route_methods (tx_db tx))) = 5 \<and> (3, ''/doctors'') \<in> set (tx_hooks tx)"
proof -
  let ?g = "ae_slugify sample_env"
  let ?p = "\<lparr>prj_id = 3, prj_owner = 1, prj_name = ''Demo'', prj_slug = ''demo'',
      prj_description = ''Virtual destination metadata for gateway request-preview demonstrations.'',
      prj_created_at = 9, prj_updated_at = 9\<rparr>"
  let ?s = "\<lparr>svc_id = 7, svc_project = 3, svc_name = ''D'', svc_slug = ''d'', svc_description = [],
      svc_base_url = ''http://d:8000'', svc_is_active = True, svc_created_at = 9, svc_updated_at = 9\<rparr>"
  let ?r = "\<lparr>rt_id = 8, rt_project = 3, rt_backend_service = Some 7, rt_name = ''D routing test'',
      rt_base_path = ''/doctors'', rt_is_active = True, rt_created_at = 9, rt_updated_at = 9\<rparr>"
  let ?d1 = "sample_admin_db\<lparr>projects := \<lparr>rows = [sample_project, other_project, ?p], last_pk = 3\<rparr>\<rparr>"
  let ?d2 = "?d1\<lparr>services := \<lparr>rows = [sample_service, second_service, ?s], last_pk = 7\<rparr>\<rparr>"
  let ?d3 = "?d2\<lparr>routes := \<lparr>rows = [sample_route, ?r], last_pk = 8\<rparr>\<rparr>"
  have owner: "seed_owner ''ada@x'' sample_admin_db = Some sample_admin" and one: "usr_id sample_admin = 1"
    by (simp_all add: seed_owner_def objects_first_def sample_admin_defs)
  have project: "seed_project ?g 9 1 ''demo'' ''Demo'' (begin_txn sample_admin_db) = Inr (?p, begin_txn ?d1)"
    by (simp add: seed_project_def begin_txn_def objects_first_def create_project_def project_presave_def default_slug_def
        insert_row_def objects_exists_def project_clash_def objects_create_def sample_admin_defs Let_def)
  have service: "seed_service sample_settings ?g 9 3 ''D'' ''d'' (begin_txn ?d1) = Inr (?s, begin_txn ?d2)"
    using sample_base
    by (simp add: seed_service_def begin_txn_def objects_first_def tx_create_service_def create_service_def
        service_presave_def default_slug_def insert_row_def objects_exists_def service_clash_def objects_create_def
        invalidate_routes_for_changed_service_def objects_filter_def sample_admin_defs Let_def)
  have seg: "one_segment ''/doctors''" by (simp add: one_segment_iff)
  have route: "seed_route 9 3 ''D'' ?s ''/doctors'' (begin_txn ?d2) = Inr (?r, \<lparr>tx_db = ?d3, tx_hooks = [(3, ''/doctors'')]\<rparr>)"
    by (simp add: seed_route_def begin_txn_def objects_first_def tx_create_route_def create_route_def route_presave_def
        seg insert_row_def objects_exists_def route_clash_def objects_create_def remember_previous_route_def
        invalidate_saved_route_def invalidate_after_commit_def sample_admin_defs Let_def)
  have none: "route_methods sample_admin_db = empty_table" by (simp add: sample_admin_defs empty_db_def)
  have "\<exists>tx. for_each (seed_method ?r) METHOD_CHOICES \<lparr>tx_db = ?d3, tx_hooks = [(3, ''/doctors'')]\<rparr> = Inr tx
      \<and> length (rows (route_methods (tx_db tx))) = 5 \<and> (3, ''/doctors'') \<in> set (tx_hooks tx)"
    by (simp add: METHOD_CHOICES_def seed_method_def create_route_method_def objects_first_def insert_row_def
        objects_exists_def route_method_clash_def objects_create_def none empty_table_def Let_def)
  then show ?thesis
    by (simp add: seed_demo_def begin_txn_def [of sample_admin_db] owner one seed_bundle_def small_bundle_def)
      (auto simp: begin_txn_def [of sample_admin_db, symmetric] project service route seed_entry_def)
qed

theorem seeding_is_idempotent_witness:
  "\<exists>tx. seed_demo sample_settings (ae_slugify sample_env) ''ada@x'' 9 [small_bundle] (begin_txn sample_admin_db) = Inr tx
     \<and> seed_demo sample_settings (ae_slugify sample_env) ''ada@x'' 20 [small_bundle] (begin_txn (tx_db tx))
         = Inr (begin_txn (tx_db tx)) \<and> tx_hooks tx \<noteq> []"
proof -
  obtain tx where tx: "seed_demo sample_settings (ae_slugify sample_env) ''ada@x'' 9 [small_bundle]
      (begin_txn sample_admin_db) = Inr tx" "(3, ''/doctors'') \<in> set (tx_hooks tx)"
    using small_bundle_seeds by blast
  have "list_all named_bundle [small_bundle]" by (simp add: named_bundle_def small_bundle_def)
  from seeding_is_idempotent [OF sample_admin_db_ok this tx(1), of 20] tx show ?thesis by auto
qed

end
