(* ===== verification/Migrations.thy ===== *)
theory Migrations
  imports Models
begin

text \<open>
  The data migrations of \<open>apps/routes/migrations\<close>: \<open>0008\<close>, which folds the old rows of one
  public path, one per HTTP method, into one route with method policies, and \<open>0010\<close>, which
  refuses paths the new lookup could not reach. Rows are in ascending primary key. The tables of a
  migration's historical schema are records of their own.
\<close>

section \<open>The schema before 0008\<close>

record old_route =
  or_id :: pk
  or_project :: pk
  or_backend_service :: "pk option"
  or_path :: string
  or_method :: string
  or_auth_policy :: string
  or_target_url :: string
  or_is_active :: bool

record request_log =
  lg_id :: pk
  lg_route :: "pk option"

record schema =
  sc_routes :: "old_route table"
  sc_methods :: "route_method table"
  sc_grants :: "route_permission table"
  sc_logs :: "request_log list"

section \<open>Grouping\<close>

text \<open>A \<open>defaultdict(list)\<close> filled in a loop: the groups in the order of their first element.\<close>

fun add_to_group :: "'k \<Rightarrow> 'v \<Rightarrow> ('k \<times> 'v list) list \<Rightarrow> ('k \<times> 'v list) list" where
  "add_to_group k v [] = [(k, [v])]"
| "add_to_group k v ((k', vs) # gs) = (if k = k' then (k', vs @ [v]) # gs else (k', vs) # add_to_group k v gs)"

definition group_by :: "('v \<Rightarrow> 'k) \<Rightarrow> 'v list \<Rightarrow> ('k \<times> 'v list) list" where
  "group_by key vs = foldl (\<lambda>gs v. add_to_group (key v) v gs) [] vs"

section \<open>Validation\<close>

definition several :: "'a list \<Rightarrow> bool" where
  "several xs \<longleftrightarrow> 1 < length (remdups xs)"

definition grants_of :: "old_route list \<Rightarrow> route_permission table \<Rightarrow> route_permission list" where
  "grants_of g t = objects_filter (\<lambda>q. perm_route q \<in> set (map or_id g)) t"

definition active_methods :: "old_route list \<Rightarrow> string set" where
  "active_methods g = set (map or_method (filter or_is_active g))"

text \<open>The methods an application holds an active grant for, on rows that are active themselves.\<close>

definition granted_methods :: "old_route list \<Rightarrow> route_permission list \<Rightarrow> pk \<Rightarrow> string set" where
  "granted_methods g grants app =
     set (concat (map (\<lambda>q.
       (if perm_application q = app \<and> perm_is_active q
        then case find (\<lambda>r. or_id r = perm_route q) g of
               Some r \<Rightarrow> if or_is_active r then [or_method r] else []
             | None \<Rightarrow> []
        else [])) grants))"

definition check_group :: "(pk \<times> string) \<times> old_route list \<Rightarrow> schema \<Rightarrow> exn + schema" where
  "check_group kg s =
     (let g = snd kg; grants = grants_of g (sc_grants s)
      in if several (map or_target_url g) then Inl (RuntimeError ''Conflicting backend target URLs'')
         else if several (map or_backend_service g) then Inl (RuntimeError ''Conflicting backend services'')
         else if list_ex (\<lambda>app. granted_methods g grants app \<noteq> {} \<and> granted_methods g grants app \<noteq> active_methods g)
                   (map perm_application grants)
         then Inl (RuntimeError ''method-specific grants'')
         else Inr s)"

section \<open>Consolidation\<close>

definition add_policy :: "old_route \<Rightarrow> old_route \<Rightarrow> schema \<Rightarrow> exn + schema" where
  "add_policy survivor original s =
     and_then (insert_row route_method_clash
         (\<lambda>i. \<lparr>rm_id = i, rm_route = or_id survivor, rm_method = or_method original,
               rm_auth_policy = or_auth_policy original\<rparr>) (sc_methods s))
       (\<lambda>(_, t). Inr (s\<lparr>sc_methods := t\<rparr>))"

definition merge_grants ::
    "pk \<Rightarrow> route_permission table \<Rightarrow> pk \<times> route_permission list \<Rightarrow> route_permission table" where
  "merge_grants survivor t app_rows =
     (let rs = snd app_rows;
          selected = (case find (\<lambda>q. perm_route q = survivor) rs of Some q \<Rightarrow> q | None \<Rightarrow> hd rs);
          should_be_active = list_ex perm_is_active rs;
          t1 = objects_delete (\<lambda>q. perm_id q \<in> set (map perm_id rs) \<and> perm_id q \<noteq> perm_id selected) t
      in if perm_route selected \<noteq> survivor \<or> perm_is_active selected \<noteq> should_be_active
         then objects_update perm_id (perm_id selected)
                (\<lambda>q. q\<lparr>perm_route := survivor, perm_is_active := should_be_active\<rparr>) t1
         else t1)"

definition consolidate_group :: "(pk \<times> string) \<times> old_route list \<Rightarrow> schema \<Rightarrow> exn + schema" where
  "consolidate_group kg s =
     (let g = snd kg; survivor = hd g; enabled_rows = filter or_is_active g
      in and_then (for_each (add_policy survivor) enabled_rows s) (\<lambda>s1.
        (let new_active = (enabled_rows \<noteq> []);
             s2 = (if or_is_active survivor \<noteq> new_active
                   then s1\<lparr>sc_routes := objects_update or_id (or_id survivor)
                             (\<lambda>r. r\<lparr>or_is_active := new_active\<rparr>) (sc_routes s1)\<rparr>
                   else s1);
             duplicate_ids = map or_id (tl g)
         in if duplicate_ids = [] then Inr s2
            else Inr (s2
              \<lparr>sc_logs := map (\<lambda>l. if lg_route l \<in> Some ` set duplicate_ids
                                 then l\<lparr>lg_route := Some (or_id survivor)\<rparr> else l) (sc_logs s2),
               sc_grants := foldl (merge_grants (or_id survivor)) (sc_grants s2)
                              (group_by perm_application (grants_of g (sc_grants s2))),
               sc_routes := objects_delete (\<lambda>r. or_id r \<in> set duplicate_ids) (sc_routes s2)\<rparr>))))"

definition consolidate_routes :: "schema \<Rightarrow> exn + schema" where
  "consolidate_routes s =
     (let groups = group_by (\<lambda>r. (or_project r, or_path r)) (rows (sc_routes s))
      in and_then (for_each check_group groups s) (for_each consolidate_group groups))"

section \<open>Paths\<close>

text \<open>\<open>0010\<close> reports at most ten rows; the rest of the table is then not read.\<close>

definition validate_paths :: "(pk \<times> string) list \<Rightarrow> exn + unit" where
  "validate_paths pairs =
     (let invalid = take 10 (filter (\<lambda>(_, path). path = [] \<or> \<not> startswith path ''/'' \<or> path = ''/''
                                \<or> count_char (CHR ''/'') path \<noteq> 1) pairs)
      in if invalid \<noteq> [] then Inl (RuntimeError ''Single-segment route cache requires base paths such as /doctors.'')
         else Inr ())"

lemma validate_paths_iff: "is_ok (validate_paths pairs) \<longleftrightarrow> list_all (\<lambda>(_, path). one_segment path) pairs"
  by (simp add: validate_paths_def Let_def filter_empty_conv list_all_iff case_prod_unfold one_segment_def)

section \<open>Groups\<close>

lemma map_of_add_to_group:
  "map_of (add_to_group k v gs) x =
     (if x = k then Some (case map_of gs k of None \<Rightarrow> [v] | Some vs \<Rightarrow> vs @ [v]) else map_of gs x)"
  by (induction k v gs rule: add_to_group.induct) auto

lemma keys_add_to_group: "set (map fst (add_to_group k v gs)) = insert k (set (map fst gs))"
  by (induction k v gs rule: add_to_group.induct) auto

lemma distinct_add_to_group: "distinct (map fst gs) \<Longrightarrow> distinct (map fst (add_to_group k v gs))"
proof (induction k v gs rule: add_to_group.induct)
  case (1 k v)
  show ?case by simp
next
  case (2 k v k' vs gs)
  have "k' \<notin> set (map fst (add_to_group k v gs))" if "k \<noteq> k'"
    using 2(2) that unfolding keys_add_to_group by simp
  then show ?case using 2 by simp
qed

lemma group_by_snoc: "group_by key (vs @ [v]) = add_to_group (key v) v (group_by key vs)"
  by (simp add: group_by_def)

lemma group_by_distinct: "distinct (map fst (group_by key vs))"
  by (induction vs rule: rev_induct) (simp_all add: group_by_snoc distinct_add_to_group, simp add: group_by_def)

lemma map_of_group_by:
  "map_of (group_by key vs) k =
     (if filter (\<lambda>v. key v = k) vs = [] then None else Some (filter (\<lambda>v. key v = k) vs))"
proof (induction vs rule: rev_induct)
  case Nil
  then show ?case by (simp add: group_by_def)
next
  case (snoc v vs)
  then show ?case by (auto simp: group_by_snoc map_of_add_to_group)
qed

lemma group_by_mem:
  "(k, g) \<in> set (group_by key vs) \<longleftrightarrow> g = filter (\<lambda>v. key v = k) vs \<and> g \<noteq> []"
  using map_of_group_by [of key vs k] map_of_eq_Some_iff [OF group_by_distinct, of key vs k g]
  by (auto split: if_splits)

section \<open>Access before and after\<close>

text \<open>
  \<open>has_permission\<close> on the rows of one application: no rows, or an active one for the route. Before,
  a request was matched with the active row of its path and method; afterwards with the active
  route of its path that has a policy for the method.
\<close>

definition holds_grant :: "route_permission set \<Rightarrow> pk \<Rightarrow> pk \<Rightarrow> bool" where
  "holds_grant Q app r \<longleftrightarrow> (\<exists>q \<in> Q. perm_application q = app \<and> perm_route q = r \<and> perm_is_active q)"

definition has_rows :: "route_permission set \<Rightarrow> pk \<Rightarrow> bool" where
  "has_rows Q app \<longleftrightarrow> (\<exists>q \<in> Q. perm_application q = app)"

definition old_allows :: "schema \<Rightarrow> pk \<Rightarrow> pk \<times> string \<Rightarrow> string \<Rightarrow> string \<Rightarrow> bool" where
  "old_allows s app key m policy \<longleftrightarrow>
     (\<exists>r \<in> set (rows (sc_routes s)). (or_project r, or_path r) = key \<and> or_is_active r
        \<and> or_method r = m \<and> or_auth_policy r = policy
        \<and> (\<not> has_rows (set (rows (sc_grants s))) app \<or> holds_grant (set (rows (sc_grants s))) app (or_id r)))"

definition new_allows :: "schema \<Rightarrow> pk \<Rightarrow> pk \<times> string \<Rightarrow> string \<Rightarrow> string \<Rightarrow> bool" where
  "new_allows s app key m policy \<longleftrightarrow>
     (\<exists>r \<in> set (rows (sc_routes s)). (or_project r, or_path r) = key \<and> or_is_active r
        \<and> (\<exists>x \<in> set (rows (sc_methods s)). (rm_route x, rm_method x, rm_auth_policy x) = (or_id r, m, policy))
        \<and> (\<not> has_rows (set (rows (sc_grants s))) app \<or> holds_grant (set (rows (sc_grants s))) app (or_id r)))"

text \<open>An active grant of the application on a switched-off row of the path.\<close>

definition stale_grant :: "schema \<Rightarrow> pk \<Rightarrow> pk \<times> string \<Rightarrow> bool" where
  "stale_grant s app key \<longleftrightarrow>
     (\<exists>r \<in> set (rows (sc_routes s)). (or_project r, or_path r) = key \<and> \<not> or_is_active r
        \<and> holds_grant (set (rows (sc_grants s))) app (or_id r))"

section \<open>Merging the grants of a group\<close>

lemma merge_grants_rows:
  assumes "rs \<noteq> []" and "set rs \<subseteq> set (rows t)" and "distinct (map perm_id (rows t))"
  shows "\<exists>sel \<in> set rs. set (rows (merge_grants s t (app, rs))) =
      {q \<in> set (rows t). q \<notin> set rs} \<union> {sel\<lparr>perm_route := s, perm_is_active := list_ex perm_is_active rs\<rparr>}"
    and "distinct (map perm_id (rows (merge_grants s t (app, rs))))"
proof -
  let ?act = "list_ex perm_is_active rs"
  obtain sel where sel: "sel = (case find (\<lambda>q. perm_route q = s) rs of Some q \<Rightarrow> q | None \<Rightarrow> hd rs)" by blast
  have sel_in: "sel \<in> set rs" unfolding sel using assms(1) by (auto split: option.split dest: find_SomeD)
  obtain new where new: "new = sel\<lparr>perm_route := s, perm_is_active := ?act\<rparr>" by blast
  let ?keep = "\<lambda>q. \<not> (perm_id q \<in> set (map perm_id rs) \<and> perm_id q \<noteq> perm_id sel)"
  let ?upd = "\<lambda>q. if perm_id q = perm_id sel then q\<lparr>perm_route := s, perm_is_active := ?act\<rparr> else q"
  have inj: "p = q" if "p \<in> set (rows t)" "q \<in> set (rows t)" "perm_id p = perm_id q" for p q
    using assms(3) that by (auto simp: distinct_map inj_on_def)
  have sel_t: "sel \<in> set (rows t)" using sel_in assms(2) by blast
  have mem: "perm_id q \<in> set (map perm_id rs) \<longleftrightarrow> q \<in> set rs" if "q \<in> set (rows t)" for q
    using inj [OF that] assms(2) by force
  have upd: "?upd q = (if q = sel then new else q)" if "q \<in> set (rows t)" for q
    using inj [OF that sel_t] by (auto simp: new)
  have keep: "?keep q \<longleftrightarrow> q \<notin> set rs \<or> q = sel" if "q \<in> set (rows t)" for q
    using mem [OF that] inj [OF that sel_t] by auto
  have rows: "rows (merge_grants s t (app, rs)) = map ?upd (filter ?keep (rows t))"
  proof (cases "perm_route sel \<noteq> s \<or> perm_is_active sel \<noteq> ?act")
    case True
    then show ?thesis by (simp add: merge_grants_def Let_def table_simps sel [symmetric])
  next
    case False
    then have "new = sel" by (simp add: new)
    have "map ?upd (filter ?keep (rows t)) = filter ?keep (rows t)"
    proof (rule map_idI)
      fix q assume "q \<in> set (filter ?keep (rows t))"
      then have "q \<in> set (rows t)" unfolding set_filter by blast
      then have "?upd q = (if q = sel then new else q)" by (rule upd)
      also have "\<dots> = q" using \<open>new = sel\<close> by (rule ssubst) simp
      finally show "?upd q = q" .
    qed
    then show ?thesis using False by (simp add: merge_grants_def Let_def table_simps sel [symmetric])
  qed
  have "set (rows (merge_grants s t (app, rs))) = {q \<in> set (rows t). q \<notin> set rs} \<union> {new}"
  proof -
    have "{q \<in> set (rows t). ?keep q} = {q \<in> set (rows t). q \<notin> set rs \<or> q = sel}" using keep by blast
    moreover have "?upd ` {q \<in> set (rows t). q \<notin> set rs \<or> q = sel}
        = (\<lambda>q. if q = sel then new else q) ` {q \<in> set (rows t). q \<notin> set rs \<or> q = sel}"
      by (rule image_cong [OF refl]) (rule upd, blast)
    moreover have "\<dots> = {q \<in> set (rows t). q \<notin> set rs} \<union> {new}" using sel_t sel_in by auto
    ultimately show ?thesis unfolding rows set_map set_filter by simp
  qed
  then show "\<exists>sel \<in> set rs. set (rows (merge_grants s t (app, rs))) =
      {q \<in> set (rows t). q \<notin> set rs} \<union> {sel\<lparr>perm_route := s, perm_is_active := ?act\<rparr>}"
    using sel_in unfolding new by blast
  have "map perm_id (map ?upd (filter ?keep (rows t))) = map perm_id (filter ?keep (rows t))" by auto
  moreover have "distinct (map perm_id (filter ?keep (rows t)))" using assms(3) by (simp add: distinct_map_filter)
  ultimately show "distinct (map perm_id (rows (merge_grants s t (app, rs))))" unfolding rows by metis
qed

text \<open>
  The rows of one application after the rows \<open>rs\<close> it had on a group were merged into one row for
  the route \<open>s\<close>.
\<close>

definition app_rows :: "route_permission set \<Rightarrow> pk \<Rightarrow> route_permission set" where
  "app_rows Q a = {q \<in> Q. perm_application q = a}"

definition merged :: "pk \<Rightarrow> pk set \<Rightarrow> route_permission set \<Rightarrow> route_permission set \<Rightarrow> bool" where
  "merged s G Q Q' \<longleftrightarrow>
     (\<exists>new. Q' = {q \<in> Q. perm_route q \<notin> G} \<union> {new} \<and> perm_route new = s
        \<and> (perm_is_active new \<longleftrightarrow> (\<exists>q \<in> Q. perm_route q \<in> G \<and> perm_is_active q)))"

lemma merge_grants_apps:
  assumes "rs \<noteq> []" and rs: "set rs = {q \<in> set (rows t). perm_application q = a \<and> perm_route q \<in> G}"
    and dist: "distinct (map perm_id (rows t))"
  shows "distinct (map perm_id (rows (merge_grants s t (a, rs))))"
    and "merged s G (app_rows (set (rows t)) a) (app_rows (set (rows (merge_grants s t (a, rs)))) a)"
    and "b \<noteq> a \<Longrightarrow> app_rows (set (rows (merge_grants s t (a, rs)))) b = app_rows (set (rows t)) b"
proof -
  have sub: "set rs \<subseteq> set (rows t)" using rs by blast
  note step = merge_grants_rows [OF assms(1) sub dist, of s a]
  show "distinct (map perm_id (rows (merge_grants s t (a, rs))))" by (rule step(2))
  obtain sel where sel: "sel \<in> set rs" "set (rows (merge_grants s t (a, rs))) =
      {q \<in> set (rows t). q \<notin> set rs} \<union> {sel\<lparr>perm_route := s, perm_is_active := list_ex perm_is_active rs\<rparr>}"
    using step(1) by blast
  obtain new where new: "new = sel\<lparr>perm_route := s, perm_is_active := list_ex perm_is_active rs\<rparr>" by blast
  have props: "perm_application new = a" "perm_route new = s"
      "perm_is_active new \<longleftrightarrow> (\<exists>q \<in> set rs. perm_is_active q)"
    using sel(1) unfolding rs new list_ex_iff by simp_all
  have all: "set (rows (merge_grants s t (a, rs))) = {q \<in> set (rows t). q \<notin> set rs} \<union> {new}"
    using sel(2) unfolding new .
  have "app_rows (set (rows (merge_grants s t (a, rs)))) a
      = {q \<in> app_rows (set (rows t)) a. perm_route q \<notin> G} \<union> {new}"
    unfolding all app_rows_def rs using props(1) by blast
  moreover have "perm_is_active new \<longleftrightarrow> (\<exists>q \<in> app_rows (set (rows t)) a. perm_route q \<in> G \<and> perm_is_active q)"
    unfolding props(3) rs app_rows_def by blast
  ultimately show "merged s G (app_rows (set (rows t)) a) (app_rows (set (rows (merge_grants s t (a, rs)))) a)"
    unfolding merged_def using props(2) by blast
  show "app_rows (set (rows (merge_grants s t (a, rs)))) b = app_rows (set (rows t)) b" if "b \<noteq> a"
    unfolding all app_rows_def rs using props(1) that by blast
qed

lemma merge_all:
  assumes "distinct (map fst gs)" and "distinct (map perm_id (rows t))"
    and "\<And>a rs. (a, rs) \<in> set gs \<Longrightarrow>
          rs \<noteq> [] \<and> set rs = {q \<in> set (rows t). perm_application q = a \<and> perm_route q \<in> G}"
  shows "distinct (map perm_id (rows (foldl (merge_grants s) t gs)))
    \<and> (\<forall>a. if a \<in> set (map fst gs)
           then merged s G (app_rows (set (rows t)) a) (app_rows (set (rows (foldl (merge_grants s) t gs))) a)
           else app_rows (set (rows (foldl (merge_grants s) t gs))) a = app_rows (set (rows t)) a)"
  using assms
proof (induction gs arbitrary: t)
  case Nil
  then show ?case by simp
next
  case (Cons g gs)
  obtain a rs where g: "g = (a, rs)" by (cases g)
  have rs: "rs \<noteq> []" "set rs = {q \<in> set (rows t). perm_application q = a \<and> perm_route q \<in> G}"
    using Cons.prems(3) [of a rs] by (simp_all add: g)
  note step = merge_grants_apps [OF rs Cons.prems(2), where s = s]
  have away: "b \<noteq> a" if "(b, r) \<in> set gs" for b r using Cons.prems(1) that by (force simp: g)
  have same: "{q \<in> set (rows (merge_grants s t (a, rs))). perm_application q = b \<and> perm_route q \<in> G}
      = {q \<in> set (rows t). perm_application q = b \<and> perm_route q \<in> G}" if "b \<noteq> a" for b
    using step(3) [OF that] unfolding app_rows_def by blast
  have IH: "distinct (map perm_id (rows (foldl (merge_grants s) (merge_grants s t (a, rs)) gs)))
    \<and> (\<forall>b. if b \<in> set (map fst gs)
           then merged s G (app_rows (set (rows (merge_grants s t (a, rs)))) b)
                  (app_rows (set (rows (foldl (merge_grants s) (merge_grants s t (a, rs)) gs))) b)
           else app_rows (set (rows (foldl (merge_grants s) (merge_grants s t (a, rs)) gs))) b
              = app_rows (set (rows (merge_grants s t (a, rs)))) b)"
  proof (rule Cons.IH)
    show "distinct (map fst gs)" using Cons.prems(1) by simp
    show "distinct (map perm_id (rows (merge_grants s t (a, rs))))" by (rule step(1))
    fix b r assume br: "(b, r) \<in> set gs"
    show "r \<noteq> [] \<and> set r = {q \<in> set (rows (merge_grants s t (a, rs))). perm_application q = b \<and> perm_route q \<in> G}"
      using Cons.prems(3) [of b r] br same [OF away [OF br]] by simp
  qed
  have fresh: "a \<notin> set (map fst gs)" using Cons.prems(1) by (simp add: g)
  have fold: "foldl (merge_grants s) t (g # gs) = foldl (merge_grants s) (merge_grants s t (a, rs)) gs"
    by (simp add: g)
  show ?case unfolding fold
  proof (intro conjI allI)
    show "distinct (map perm_id (rows (foldl (merge_grants s) (merge_grants s t (a, rs)) gs)))" using IH by blast
    fix b
    show "if b \<in> set (map fst (g # gs))
      then merged s G (app_rows (set (rows t)) b) (app_rows (set (rows (foldl (merge_grants s) (merge_grants s t (a, rs)) gs))) b)
      else app_rows (set (rows (foldl (merge_grants s) (merge_grants s t (a, rs)) gs))) b = app_rows (set (rows t)) b"
    proof (cases "b = a")
      case True
      then show ?thesis using IH fresh step(2) by (simp add: g)
    next
      case False
      then show ?thesis using spec [OF conjunct2 [OF IH], of b] step(3) [OF False] by (simp add: g split: if_splits)
    qed
  qed
qed

lemma merged_grants:
  assumes "merged s G (app_rows Q a) (app_rows Q' a)" and "s \<in> G"
  shows "has_rows Q' a"
    and "holds_grant Q' a s \<longleftrightarrow> (\<exists>r \<in> G. holds_grant Q a r)"
    and "r \<notin> G \<Longrightarrow> holds_grant Q' a r \<longleftrightarrow> holds_grant Q a r"
proof -
  obtain new where new: "app_rows Q' a = {q \<in> app_rows Q a. perm_route q \<notin> G} \<union> {new}" "perm_route new = s"
      "perm_is_active new \<longleftrightarrow> (\<exists>q \<in> app_rows Q a. perm_route q \<in> G \<and> perm_is_active q)"
    using assms(1) unfolding merged_def by blast
  have holds: "holds_grant P a r \<longleftrightarrow> (\<exists>q \<in> app_rows P a. perm_route q = r \<and> perm_is_active q)" for P r
    unfolding holds_grant_def app_rows_def by blast
  have rows: "has_rows P a \<longleftrightarrow> app_rows P a \<noteq> {}" for P unfolding has_rows_def app_rows_def by blast
  show "has_rows Q' a" unfolding rows new(1) by blast
  show "holds_grant Q' a s \<longleftrightarrow> (\<exists>r \<in> G. holds_grant Q a r)"
    unfolding holds new(1) using new(2,3) assms(2) by blast
  show "holds_grant Q' a r \<longleftrightarrow> holds_grant Q a r" if "r \<notin> G"
    unfolding holds new(1) using new(2) assms(2) that by blast
qed

text \<open>What the merge of all applications of a group does to the access of each.\<close>

definition grants_follow :: "pk \<Rightarrow> pk set \<Rightarrow> route_permission set \<Rightarrow> route_permission set \<Rightarrow> bool" where
  "grants_follow s G Q Q' \<longleftrightarrow>
     (\<forall>a. has_rows Q' a = has_rows Q a \<and> holds_grant Q' a s = (\<exists>r \<in> G. holds_grant Q a r)
        \<and> (\<forall>r. r \<notin> G \<longrightarrow> holds_grant Q' a r = holds_grant Q a r))"

lemma merge_group:
  assumes "distinct (map perm_id (rows t))" and "s \<in> set (map or_id g)"
  shows "distinct (map perm_id (rows (foldl (merge_grants s) t (group_by perm_application (grants_of g t)))))"
    and "grants_follow s (set (map or_id g)) (set (rows t))
           (set (rows (foldl (merge_grants s) t (group_by perm_application (grants_of g t)))))"
proof -
  let ?G = "set (map or_id g)" and ?gs = "group_by perm_application (grants_of g t)"
  have keys: "a \<in> set (map fst ?gs) \<longleftrightarrow> (\<exists>q \<in> set (rows t). perm_application q = a \<and> perm_route q \<in> ?G)" for a
  proof -
    have "a \<in> set (map fst ?gs) \<longleftrightarrow> (\<exists>rs. (a, rs) \<in> set ?gs)" by force
    then show ?thesis unfolding group_by_mem grants_of_def objects_filter_def by (auto simp: filter_empty_conv)
  qed
  have all: "distinct (map perm_id (rows (foldl (merge_grants s) t ?gs)))
    \<and> (\<forall>a. if a \<in> set (map fst ?gs)
           then merged s ?G (app_rows (set (rows t)) a) (app_rows (set (rows (foldl (merge_grants s) t ?gs))) a)
           else app_rows (set (rows (foldl (merge_grants s) t ?gs))) a = app_rows (set (rows t)) a)"
    using group_by_distinct assms(1)
    by (rule merge_all) (auto simp: group_by_mem grants_of_def objects_filter_def)
  then show "distinct (map perm_id (rows (foldl (merge_grants s) t ?gs)))" by blast
  show "grants_follow s ?G (set (rows t)) (set (rows (foldl (merge_grants s) t ?gs)))"
    unfolding grants_follow_def
  proof (intro allI)
    fix a
    let ?Q = "set (rows t)" and ?Q' = "set (rows (foldl (merge_grants s) t ?gs))"
    show "has_rows ?Q' a = has_rows ?Q a \<and> holds_grant ?Q' a s = (\<exists>r \<in> ?G. holds_grant ?Q a r)
        \<and> (\<forall>r. r \<notin> ?G \<longrightarrow> holds_grant ?Q' a r = holds_grant ?Q a r)"
    proof (cases "a \<in> set (map fst ?gs)")
      case True
      then have m: "merged s ?G (app_rows ?Q a) (app_rows ?Q' a)" using all by presburger
      have "has_rows ?Q a" using True unfolding keys has_rows_def by blast
      then show ?thesis using merged_grants [OF m assms(2)] by blast
    next
      case False
      then have same: "app_rows ?Q' a = app_rows ?Q a" using all by presburger
      have none: "\<not> holds_grant ?Q a r" if "r \<in> ?G" for r using False that unfolding keys holds_grant_def by blast
      have "has_rows ?Q' a = has_rows ?Q a" "holds_grant ?Q' a r = holds_grant ?Q a r" for r
        using same unfolding has_rows_def holds_grant_def app_rows_def by blast+
      then show ?thesis using none assms(2) by blast
    qed
  qed
qed

section \<open>Consolidating one group\<close>

definition survivor_of :: "old_route list \<Rightarrow> old_route" where
  "survivor_of g = (hd g)\<lparr>or_is_active := (filter or_is_active g \<noteq> [])\<rparr>"

definition policies :: "schema \<Rightarrow> (pk \<times> string \<times> string) set" where
  "policies s = (\<lambda>x. (rm_route x, rm_method x, rm_auth_policy x)) ` set (rows (sc_methods s))"

definition policies_of :: "old_route list \<Rightarrow> (pk \<times> string \<times> string) set" where
  "policies_of g = (\<lambda>r. (or_id (hd g), or_method r, or_auth_policy r)) ` {r \<in> set g. or_is_active r}"

abbreviation grants_in :: "schema \<Rightarrow> route_permission set" where
  "grants_in s \<equiv> set (rows (sc_grants s))"

definition ids_ok :: "schema \<Rightarrow> bool" where
  "ids_ok s \<longleftrightarrow> distinct (map or_id (rows (sc_routes s))) \<and> distinct (map perm_id (rows (sc_grants s)))"

lemma add_policy_Inr:
  assumes "add_policy v r s = Inr s'"
  shows "sc_routes s' = sc_routes s" "sc_grants s' = sc_grants s"
    and "policies s' = policies s \<union> {(or_id v, or_method r, or_auth_policy r)}"
proof -
  obtain x t where ins: "insert_row route_method_clash
      (\<lambda>i. \<lparr>rm_id = i, rm_route = or_id v, rm_method = or_method r, rm_auth_policy = or_auth_policy r\<rparr>) (sc_methods s)
      = Inr (x, t)" and s': "s' = s\<lparr>sc_methods := t\<rparr>"
    using assms by (auto simp: add_policy_def and_then_Inr)
  show "sc_routes s' = sc_routes s" "sc_grants s' = sc_grants s" by (simp_all add: s')
  show "policies s' = policies s \<union> {(or_id v, or_method r, or_auth_policy r)}"
    using insert_row_Inr(1,2) [OF ins] by (auto simp: s' policies_def)
qed

lemma add_policies_Inr:
  assumes "for_each (add_policy v) rs s = Inr s'"
  shows "sc_routes s' = sc_routes s \<and> sc_grants s' = sc_grants s
    \<and> policies s' = policies s \<union> (\<lambda>r. (or_id v, or_method r, or_auth_policy r)) ` set rs"
  using assms
proof (induction rs arbitrary: s)
  case Nil
  then show ?case by simp
next
  case (Cons r rs)
  obtain s1 where s1: "add_policy v r s = Inr s1" "for_each (add_policy v) rs s1 = Inr s'"
    using Cons.prems by (auto simp: and_then_Inr)
  show ?case using add_policy_Inr [OF s1(1)] Cons.IH [OF s1(2)] by auto
qed

text \<open>The step of one group: its rows become the survivor, its grants follow, its policies are added.\<close>

definition group_step :: "old_route list \<Rightarrow> schema \<Rightarrow> schema \<Rightarrow> bool" where
  "group_step g s s' \<longleftrightarrow> ids_ok s'
     \<and> set (rows (sc_routes s')) = (set (rows (sc_routes s)) - set g) \<union> {survivor_of g}
     \<and> policies s' = policies s \<union> policies_of g
     \<and> grants_follow (or_id (hd g)) (set (map or_id g)) (grants_in s) (grants_in s')"

lemma update_survivor:
  assumes "distinct (map or_id (rows t))" and "h \<in> set (rows t)"
  shows "set (rows (if or_is_active h \<noteq> act then objects_update or_id (or_id h) (\<lambda>r. r\<lparr>or_is_active := act\<rparr>) t else t))
      = (set (rows t) - {h}) \<union> {h\<lparr>or_is_active := act\<rparr>}" (is "set (rows ?t) = _")
    and "map or_id (rows (if or_is_active h \<noteq> act
           then objects_update or_id (or_id h) (\<lambda>r. r\<lparr>or_is_active := act\<rparr>) t else t)) = map or_id (rows t)"
proof -
  have inj: "r = h" if "r \<in> set (rows t)" "or_id r = or_id h" for r
    using assms that by (auto simp: distinct_map inj_on_def)
  show "set (rows ?t) = (set (rows t) - {h}) \<union> {h\<lparr>or_is_active := act\<rparr>}"
  proof (cases "or_is_active h = act")
    case True
    then have same: "h\<lparr>or_is_active := act\<rparr> = h" by (cases h) simp
    show ?thesis unfolding same using True assms(2) by auto
  next
    case False
    have "(\<lambda>x. if or_id x = or_id h then x\<lparr>or_is_active := act\<rparr> else x) ` set (rows t)
        = (\<lambda>x. if x = h then h\<lparr>or_is_active := act\<rparr> else x) ` set (rows t)"
      by (rule image_cong [OF refl]) (use inj in auto)
    then show ?thesis using False assms(2) by (auto simp: table_simps)
  qed
  show "map or_id (rows ?t) = map or_id (rows t)" by (simp add: table_simps)
qed

lemma grants_follow_refl: "grants_follow s {s} Q Q"
  by (simp add: grants_follow_def)

lemma consolidate_group_step:
  assumes run: "consolidate_group (k, g) s = Inr s'" and "g \<noteq> []" and dist: "distinct g"
    and sub: "set g \<subseteq> set (rows (sc_routes s))" and ok: "ids_ok s"
  shows "group_step g s s'"
proof -
  obtain h rest where h: "h = hd g" and rest: "rest = tl g" by blast
  let ?en = "filter or_is_active g"
  let ?act = "?en \<noteq> []"
  obtain s1 where s1: "for_each (add_policy h) ?en s = Inr s1"
    using run unfolding consolidate_group_def Let_def snd_conv h and_then_Inr by blast
  note add = add_policies_Inr [OF s1]
  let ?upd = "if or_is_active h \<noteq> ?act then objects_update or_id (or_id h) (\<lambda>r. r\<lparr>or_is_active := ?act\<rparr>) (sc_routes s) else sc_routes s"
  obtain s2 where s2: "s2 = s1\<lparr>sc_routes := ?upd\<rparr>" by blast
  have s2_alt: "(if or_is_active h \<noteq> ?act
      then s1\<lparr>sc_routes := objects_update or_id (or_id h) (\<lambda>r. r\<lparr>or_is_active := ?act\<rparr>) (sc_routes s1)\<rparr>
      else s1) = s2"
    using add unfolding s2 by (cases s1) simp
  have "Inr s' = (if map or_id rest = [] then Inr s2 else Inr (s2
      \<lparr>sc_logs := map (\<lambda>l. if lg_route l \<in> Some ` set (map or_id rest) then l\<lparr>lg_route := Some (or_id h)\<rparr> else l) (sc_logs s2),
       sc_grants := foldl (merge_grants (or_id h)) (sc_grants s2)
                      (group_by perm_application (grants_of g (sc_grants s2))),
       sc_routes := objects_delete (\<lambda>r. or_id r \<in> set (map or_id rest)) (sc_routes s2)\<rparr>) :: exn + schema)"
    unfolding run [symmetric] consolidate_group_def Let_def snd_conv
    unfolding h [symmetric] rest [symmetric] s1 and_then.simps s2_alt by (rule refl)
  then have body: "s' = (if map or_id rest = [] then s2 else s2
      \<lparr>sc_logs := map (\<lambda>l. if lg_route l \<in> Some ` set (map or_id rest) then l\<lparr>lg_route := Some (or_id h)\<rparr> else l) (sc_logs s2),
       sc_grants := foldl (merge_grants (or_id h)) (sc_grants s2)
                      (group_by perm_application (grants_of g (sc_grants s2))),
       sc_routes := objects_delete (\<lambda>r. or_id r \<in> set (map or_id rest)) (sc_routes s2)\<rparr>)"
    by (cases "map or_id rest = []") (simp_all only: if_True if_False sum.inject simp_thms)
  have g: "g = h # rest" using assms(2) by (simp add: h rest)
  have grants2: "sc_grants s2 = sc_grants s" using add by (simp add: s2)
  have pol2: "policies s2 = policies s \<union> policies_of g" using add by (auto simp: s2 policies_def policies_of_def g)
  have h_in: "h \<in> set (rows (sc_routes s))" using sub by (simp add: g)
  have ids: "distinct (map or_id (rows (sc_routes s)))" and perms: "distinct (map perm_id (rows (sc_grants s)))"
    using ok by (simp_all add: ids_ok_def)
  have inj: "a = b" if "a \<in> set (rows (sc_routes s))" "b \<in> set (rows (sc_routes s))" "or_id a = or_id b" for a b
    using ids that by (auto simp: distinct_map inj_on_def)
  have routes2: "set (rows (sc_routes s2)) = (set (rows (sc_routes s)) - {h}) \<union> {survivor_of g}"
    using update_survivor(1) [OF ids h_in, of ?act] by (simp add: s2 survivor_of_def g)
  have ids2: "distinct (map or_id (rows (sc_routes s2)))"
    using update_survivor(2) [OF ids h_in, of ?act] ids by (simp add: s2 g)
  show ?thesis
  proof (cases "rest = []")
    case True
    then have "s' = s2" using body by simp
    then show ?thesis unfolding group_step_def ids_ok_def
      using ids2 perms grants2 pol2 routes2 True grants_follow_refl [of "or_id h"] by (simp add: g)
  next
    case False
    have gone: "or_id a \<in> set (map or_id rest) \<longleftrightarrow> a \<in> set rest" if "a \<in> set (rows (sc_routes s))" for a
      using inj [OF that] sub by (auto simp: g)
    have stays: "or_id (survivor_of g) \<notin> set (map or_id rest)"
      using gone [OF h_in] dist by (simp add: survivor_of_def g)
    have "set (rows (sc_routes s')) = {x \<in> set (rows (sc_routes s2)). or_id x \<notin> set (map or_id rest)}"
      using False unfolding body by (auto simp: table_simps)
    also have "\<dots> = (set (rows (sc_routes s)) - set g) \<union> {survivor_of g}"
      unfolding routes2 using gone stays by (auto simp: g)
    finally have routes': "set (rows (sc_routes s')) = (set (rows (sc_routes s)) - set g) \<union> {survivor_of g}" .
    have grants': "sc_grants s' = foldl (merge_grants (or_id h)) (sc_grants s)
        (group_by perm_application (grants_of g (sc_grants s)))"
      using False grants2 unfolding body by simp
    have pol': "policies s' = policies s2" using False unfolding body by (simp add: policies_def)
    have ids': "distinct (map or_id (rows (sc_routes s')))"
      using False ids2 unfolding body by (simp add: table_simps distinct_map_filter)
    have "or_id h \<in> set (map or_id g)" by (simp add: g)
    note merge = merge_group [OF perms this]
    show ?thesis unfolding group_step_def ids_ok_def grants'
      using ids' routes' pol' pol2 merge by (simp add: g)
  qed
qed

section \<open>The whole migration\<close>

abbreviation route_key :: "old_route \<Rightarrow> pk \<times> string" where
  "route_key r \<equiv> (or_project r, or_path r)"

abbreviation routes_in :: "schema \<Rightarrow> old_route set" where
  "routes_in s \<equiv> set (rows (sc_routes s))"

definition groups_ok :: "((pk \<times> string) \<times> old_route list) list \<Rightarrow> schema \<Rightarrow> bool" where
  "groups_ok gs s \<longleftrightarrow> distinct (map fst gs)
     \<and> (\<forall>(k, g) \<in> set gs. g \<noteq> [] \<and> distinct g \<and> set g \<subseteq> routes_in s \<and> (\<forall>r \<in> set g. route_key r = k))"

definition groups_done :: "((pk \<times> string) \<times> old_route list) list \<Rightarrow> schema \<Rightarrow> schema \<Rightarrow> bool" where
  "groups_done gs s s' \<longleftrightarrow>
     routes_in s' = (routes_in s - (\<Union>(k, g) \<in> set gs. set g)) \<union> (survivor_of \<circ> snd) ` set gs
     \<and> policies s' = policies s \<union> (\<Union>(k, g) \<in> set gs. policies_of g)
     \<and> (\<forall>a. has_rows (grants_in s') a = has_rows (grants_in s) a)
     \<and> (\<forall>a. \<forall>(k, g) \<in> set gs. holds_grant (grants_in s') a (or_id (hd g))
              = (\<exists>r \<in> set g. holds_grant (grants_in s) a (or_id r)))
     \<and> (\<forall>a. \<forall>r \<in> routes_in s - (\<Union>(k, g) \<in> set gs. set g).
              holds_grant (grants_in s') a (or_id r) = holds_grant (grants_in s) a (or_id r))"

lemma groups_okD:
  assumes "groups_ok gs s" and "(k, g) \<in> set gs"
  shows "g \<noteq> []" "distinct g" "set g \<subseteq> routes_in s" "r \<in> set g \<Longrightarrow> route_key r = k"
  using assms unfolding groups_ok_def by auto

lemma ids_ok_inj:
  "ids_ok s \<Longrightarrow> a \<in> routes_in s \<Longrightarrow> b \<in> routes_in s \<Longrightarrow> or_id a = or_id b \<Longrightarrow> a = b"
  by (auto simp: ids_ok_def distinct_map inj_on_def)

lemma survivor_of_fields:
  "g \<noteq> [] \<Longrightarrow> route_key (survivor_of g) = route_key (hd g)" "or_id (survivor_of g) = or_id (hd g)"
  "or_is_active (survivor_of g) \<longleftrightarrow> (\<exists>r \<in> set g. or_is_active r)"
  by (simp_all add: survivor_of_def filter_empty_conv)

lemma groups_ok_rest:
  assumes ok: "groups_ok ((k, g) # gs) s" and step: "group_step g s s1"
  shows "groups_ok gs s1" and "survivor_of g \<notin> (\<Union>(k, g) \<in> set gs. set g)"
    and "r \<in> set g \<Longrightarrow> r \<notin> (\<Union>(k, g) \<in> set gs. set g)"
proof -
  have other: "k' \<noteq> k" if "(k', g') \<in> set gs" for k' g'
    using ok that unfolding groups_ok_def by (force simp: image_iff)
  have mem: "(k', g') \<in> set gs \<Longrightarrow> (k', g') \<in> set ((k, g) # gs)" for k' g' by simp
  have head: "(k, g) \<in> set ((k, g) # gs)" by simp
  note hd = groups_okD [OF ok head]
  have apart: "r \<notin> set g" if "(k', g') \<in> set gs" "r \<in> set g'" for k' g' r
    using hd(4) [of r] groups_okD(4) [OF ok mem [OF that(1)] that(2)] other [OF that(1)] by auto
  have "set g' \<subseteq> routes_in s1" if "(k', g') \<in> set gs" for k' g'
    using groups_okD(3) [OF ok mem [OF that]] apart [OF that] step unfolding group_step_def by blast
  then show "groups_ok gs s1" using ok unfolding groups_ok_def by auto
  show "r \<notin> (\<Union>(k, g) \<in> set gs. set g)" if "r \<in> set g" using apart that by blast
  show "survivor_of g \<notin> (\<Union>(k, g) \<in> set gs. set g)"
  proof
    assume "survivor_of g \<in> (\<Union>(k, g) \<in> set gs. set g)"
    then obtain k' g' where g': "(k', g') \<in> set gs" "survivor_of g \<in> set g'" by blast
    have "route_key (survivor_of g) = k'" by (rule groups_okD(4) [OF ok mem [OF g'(1)] g'(2)])
    moreover have "route_key (survivor_of g) = k"
      using survivor_of_fields(1) [OF hd(1)] hd(4) [OF hd_in_set [OF hd(1)]] by simp
    ultimately show False using other [OF g'(1)] by simp
  qed
qed

lemma groups_done_Cons:
  assumes ok: "groups_ok ((k, g) # gs) s" and ids: "ids_ok s"
    and step: "group_step g s s1" and rest: "groups_done gs s1 s'"
  shows "groups_done ((k, g) # gs) s s'"
proof -
  let ?U = "\<Union>(k, g) \<in> set gs. set g"
  note fresh = groups_ok_rest [OF ok step]
  have head: "(k, g) \<in> set ((k, g) # gs)" by simp
  note hd = groups_okD [OF ok head]
  have routes1: "routes_in s1 = (routes_in s - set g) \<union> {survivor_of g}"
    and pol1: "policies s1 = policies s \<union> policies_of g"
    and follow: "grants_follow (or_id (hd g)) (set (map or_id g)) (grants_in s) (grants_in s1)"
    using step unfolding group_step_def by blast+
  have outside: "or_id r \<notin> set (map or_id g)" if "r \<in> routes_in s" "r \<notin> set g" for r
    using ids_ok_inj [OF ids that(1)] hd(3) that(2) by auto
  have far: "holds_grant (grants_in s1) a (or_id r) = holds_grant (grants_in s) a (or_id r)"
    if "r \<in> routes_in s" "r \<notin> set g" for a r
    using follow outside [OF that] unfolding grants_follow_def by blast
  have rows': "has_rows (grants_in s') a = has_rows (grants_in s) a" for a
    using follow rest unfolding grants_follow_def groups_done_def by simp
  have keep: "holds_grant (grants_in s') a (or_id r) = holds_grant (grants_in s1) a (or_id r)"
    if "r \<in> routes_in s1" "r \<notin> ?U" for a r
    using rest that unfolding groups_done_def by blast
  have "survivor_of g \<in> routes_in s1" unfolding routes1 by blast
  from keep [OF this fresh(2)] have head_grant: "holds_grant (grants_in s') a (or_id (hd g))
      = (\<exists>r \<in> set g. holds_grant (grants_in s) a (or_id r))" for a
    using follow unfolding grants_follow_def survivor_of_fields(2) by simp
  have tail_grant: "holds_grant (grants_in s') a (or_id (hd g'))
      = (\<exists>r \<in> set g'. holds_grant (grants_in s) a (or_id r))" if "(k', g') \<in> set gs" for a k' g'
  proof -
    have in_s: "r \<in> routes_in s" "r \<notin> set g" if "r \<in> set g'" for r
      using groups_okD(3) [OF ok, of k' g'] \<open>(k', g') \<in> set gs\<close> that fresh(3) by auto
    have "holds_grant (grants_in s') a (or_id (hd g')) = (\<exists>r \<in> set g'. holds_grant (grants_in s1) a (or_id r))"
      using rest that unfolding groups_done_def by blast
    then show ?thesis using far in_s by blast
  qed
  show ?thesis unfolding groups_done_def
  proof (intro conjI)
    show "routes_in s' = (routes_in s - (\<Union>(k, g) \<in> set ((k, g) # gs). set g)) \<union> (survivor_of \<circ> snd) ` set ((k, g) # gs)"
      using rest fresh(2) unfolding groups_done_def routes1 by auto
    show "policies s' = policies s \<union> (\<Union>(k, g) \<in> set ((k, g) # gs). policies_of g)"
      using rest unfolding groups_done_def pol1 by auto
    show "\<forall>a. has_rows (grants_in s') a = has_rows (grants_in s) a" using rows' by blast
    show "\<forall>a. \<forall>(k, g) \<in> set ((k, g) # gs). holds_grant (grants_in s') a (or_id (hd g))
        = (\<exists>r \<in> set g. holds_grant (grants_in s) a (or_id r))"
      using head_grant tail_grant by auto
    show "\<forall>a. \<forall>r \<in> routes_in s - (\<Union>(k, g) \<in> set ((k, g) # gs). set g).
        holds_grant (grants_in s') a (or_id r) = holds_grant (grants_in s) a (or_id r)"
    proof (intro allI ballI)
      fix a r assume "r \<in> routes_in s - (\<Union>(k, g) \<in> set ((k, g) # gs). set g)"
      then have r: "r \<in> routes_in s" "r \<notin> set g" "r \<notin> ?U" by auto
      then have "r \<in> routes_in s1" unfolding routes1 by blast
      then show "holds_grant (grants_in s') a (or_id r) = holds_grant (grants_in s) a (or_id r)"
        using keep r(3) far [OF r(1,2)] by blast
    qed
  qed
qed

lemma consolidate_groups:
  assumes "for_each consolidate_group gs s = Inr s'" and "groups_ok gs s" and "ids_ok s"
  shows "groups_done gs s s' \<and> ids_ok s'"
  using assms
proof (induction gs arbitrary: s)
  case Nil
  then show ?case by (simp add: groups_done_def)
next
  case (Cons kg gs)
  obtain k g where kg: "kg = (k, g)" by (cases kg)
  obtain s1 where s1: "consolidate_group (k, g) s = Inr s1" "for_each consolidate_group gs s1 = Inr s'"
    using Cons.prems(1) by (auto simp: and_then_Inr kg)
  have ok: "groups_ok ((k, g) # gs) s" using Cons.prems(2) by (simp add: kg)
  have head: "(k, g) \<in> set ((k, g) # gs)" by simp
  have step: "group_step g s s1"
    by (rule consolidate_group_step [OF s1(1) groups_okD(1-3) [OF ok head] Cons.prems(3)])
  have "ids_ok s1" using step unfolding group_step_def by blast
  note IH = Cons.IH [OF s1(2) groups_ok_rest(1) [OF ok step] this]
  show ?case unfolding kg using groups_done_Cons [OF ok Cons.prems(3) step conjunct1 [OF IH]] IH by blast
qed

abbreviation route_groups :: "schema \<Rightarrow> ((pk \<times> string) \<times> old_route list) list" where
  "route_groups s \<equiv> group_by (\<lambda>r. (or_project r, or_path r)) (rows (sc_routes s))"

definition old_unique :: "schema \<Rightarrow> bool" where
  "old_unique s \<longleftrightarrow> distinct (map (\<lambda>r. (or_project r, or_path r, or_method r)) (rows (sc_routes s)))"

lemma check_group_Inr: "check_group kg s = Inr s' \<Longrightarrow> s' = s"
  by (auto simp: check_group_def Let_def split: if_splits)

lemma check_groups_Inr:
  "for_each check_group gs s = Inr s' \<Longrightarrow> s' = s \<and> (\<forall>kg \<in> set gs. check_group kg s = Inr s)"
proof (induction gs arbitrary: s)
  case (Cons kg gs)
  obtain s1 where s1: "check_group kg s = Inr s1" "for_each check_group gs s1 = Inr s'"
    using Cons.prems by (auto simp: and_then_Inr)
  have "s1 = s" by (rule check_group_Inr [OF s1(1)])
  then show ?case using s1 Cons.IH by auto
qed simp

lemma groups_of_table:
  assumes "ids_ok s"
  shows "groups_ok (route_groups s) s" and "(\<Union>(k, g) \<in> set (route_groups s). set g) = routes_in s"
proof -
  have "distinct (rows (sc_routes s))" using assms by (simp add: ids_ok_def distinct_map)
  then show "groups_ok (route_groups s) s"
    unfolding groups_ok_def using group_by_distinct by (auto simp: group_by_mem)
  have "r \<in> (\<Union>(k, g) \<in> set (route_groups s). set g)" if "r \<in> routes_in s" for r
  proof -
    let ?g = "filter (\<lambda>x. route_key x = route_key r) (rows (sc_routes s))"
    have "(route_key r, ?g) \<in> set (route_groups s)" unfolding group_by_mem using that by (auto simp: filter_empty_conv)
    moreover have "r \<in> set ?g" using that by simp
    ultimately show ?thesis by blast
  qed
  moreover have "set g \<subseteq> routes_in s" if "(k, g) \<in> set (route_groups s)" for k g
    using that by (auto simp: group_by_mem)
  ultimately show "(\<Union>(k, g) \<in> set (route_groups s). set g) = routes_in s" by blast
qed

lemma consolidate_done:
  assumes "consolidate_routes s = Inr s'" and "ids_ok s"
  shows "groups_done (route_groups s) s s'" and "ids_ok s'" and "\<forall>kg \<in> set (route_groups s). check_group kg s = Inr s"
proof -
  obtain s1 where "for_each check_group (route_groups s) s = Inr s1"
      "for_each consolidate_group (route_groups s) s1 = Inr s'"
    using assms(1) by (auto simp: consolidate_routes_def Let_def and_then_Inr)
  then show "groups_done (route_groups s) s s'" "ids_ok s'" "\<forall>kg \<in> set (route_groups s). check_group kg s = Inr s"
    using check_groups_Inr consolidate_groups groups_of_table(1) assms(2) by blast+
qed

lemma consolidated_routes:
  assumes "consolidate_routes s = Inr s'" and "ids_ok s"
  shows "routes_in s' = (\<lambda>(k, g). survivor_of g) ` set (route_groups s)"
  using consolidate_done(1) [OF assms] groups_of_table(2) [OF assms(2)]
  unfolding groups_done_def by (auto simp: case_prod_unfold)

lemma find_by_key:
  "inj_on key (set g) \<Longrightarrow> find (\<lambda>r. key r = i) g = Some r \<longleftrightarrow> r \<in> set g \<and> key r = i"
  by (induction g) (auto simp: inj_on_def)

lemma mem_concat_map: "x \<in> set (concat (map f ys)) \<longleftrightarrow> (\<exists>y \<in> set ys. x \<in> set (f y))"
  by simp

lemma mem_if_case:
  "x \<in> set (if A then case f of Some r \<Rightarrow> if P r then [h r] else [] | None \<Rightarrow> [] else [])
     \<longleftrightarrow> A \<and> (\<exists>r. f = Some r \<and> P r \<and> h r = x)"
proof (cases A)
  case True
  show ?thesis
  proof (cases f)
    case None
    show ?thesis unfolding if_P [OF True] None option.case by simp
  next
    case (Some r)
    show ?thesis unfolding if_P [OF True] Some option.case using True by (cases "P r") auto
  qed
next
  case False
  then show ?thesis unfolding if_not_P [OF False] by simp
qed

lemma granted_methods_iff:
  assumes "inj_on or_id (set g)"
  shows "m \<in> granted_methods g (grants_of g t) a
    \<longleftrightarrow> (\<exists>r \<in> set g. or_is_active r \<and> or_method r = m \<and> holds_grant (set (rows t)) a (or_id r))"
proof -
  note find = find_by_key [OF assms]
  have "m \<in> granted_methods g (grants_of g t) a \<longleftrightarrow>
      (\<exists>q \<in> set (grants_of g t). perm_application q = a \<and> perm_is_active q
         \<and> (\<exists>r. find (\<lambda>r. or_id r = perm_route q) g = Some r \<and> or_is_active r \<and> or_method r = m))"
  proof -
    show ?thesis unfolding granted_methods_def mem_concat_map mem_if_case conj_assoc by (rule refl)
  qed
  also have "\<dots> \<longleftrightarrow> (\<exists>r \<in> set g. or_is_active r \<and> or_method r = m \<and> holds_grant (set (rows t)) a (or_id r))"
    unfolding find grants_of_def objects_filter_def set_filter holds_grant_def set_map by (fastforce simp: image_iff)
  finally show ?thesis .
qed

text \<open>A group that passed: an application with an active grant on an active row has one on each.\<close>

lemma check_group_grants:
  assumes "check_group (k, g) s = Inr s" and inj: "inj_on or_id (set g)"
    and "r \<in> set g" "or_is_active r" "holds_grant (grants_in s) a (or_id r)"
    and "r1 \<in> set g" "or_is_active r1"
  shows "\<exists>r3 \<in> set g. or_is_active r3 \<and> or_method r3 = or_method r1 \<and> holds_grant (grants_in s) a (or_id r3)"
proof -
  let ?gm = "granted_methods g (grants_of g (sc_grants s))"
  obtain q where q: "q \<in> grants_in s" "perm_application q = a" "perm_route q = or_id r"
    using assms(5) unfolding holds_grant_def by blast
  then have "a \<in> set (map perm_application (grants_of g (sc_grants s)))"
    using assms(3) by (auto simp: grants_of_def objects_filter_def)
  moreover have "or_method r \<in> ?gm a" unfolding granted_methods_iff [OF inj] using assms(3-5) by blast
  ultimately have "?gm a = active_methods g"
    using assms(1) by (auto simp: check_group_def Let_def list_ex_iff split: if_splits)
  moreover have "or_method r1 \<in> active_methods g" using assms(6,7) by (simp add: active_methods_def)
  ultimately have "or_method r1 \<in> ?gm a" by simp
  then show ?thesis unfolding granted_methods_iff [OF inj] .
qed

lemma group_of_row:
  assumes "r \<in> routes_in s"
  obtains g where "(route_key r, g) \<in> set (route_groups s)" "r \<in> set g"
proof
  show "(route_key r, filter (\<lambda>x. route_key x = route_key r) (rows (sc_routes s))) \<in> set (route_groups s)"
    unfolding group_by_mem using assms by (auto simp: filter_empty_conv)
  show "r \<in> set (filter (\<lambda>x. route_key x = route_key r) (rows (sc_routes s)))" using assms by simp
qed

lemma same_group:
  assumes "ids_ok s" "(k, g) \<in> set (route_groups s)" "(k', g') \<in> set (route_groups s)" "or_id (hd g) = or_id (hd g')"
  shows "g' = g" "k' = k"
proof -
  note ok = groups_of_table(1) [OF assms(1)]
  have hd: "hd g \<in> set g" "hd g' \<in> set g'" using groups_okD(1) [OF ok assms(2)] groups_okD(1) [OF ok assms(3)] by simp_all
  then have "hd g \<in> routes_in s" "hd g' \<in> routes_in s"
    using groups_okD(3) [OF ok assms(2)] groups_okD(3) [OF ok assms(3)] by blast+
  then have "hd g = hd g'" using ids_ok_inj [OF assms(1)] assms(4) by blast
  then show "k' = k" using groups_okD(4) [OF ok assms(2) hd(1)] groups_okD(4) [OF ok assms(3) hd(2)] by simp
  then show "g' = g" using assms(2,3) by (simp add: group_by_mem)
qed

lemma add_policies_ok:
  assumes "distinct (map or_method rs)"
    and "\<And>i m p. (i, m, p) \<in> policies s \<Longrightarrow> i = or_id v \<Longrightarrow> m \<notin> or_method ` set rs"
  shows "\<exists>s'. for_each (add_policy v) rs s = Inr s'"
  using assms
proof (induction rs arbitrary: s)
  case Nil
  then show ?case by simp
next
  case (Cons r rs)
  have "add_policy v r s \<noteq> Inl e" for e
  proof
    assume "add_policy v r s = Inl e"
    then obtain x where "x \<in> set (rows (sc_methods s))" "rm_route x = or_id v" "rm_method x = or_method r"
      by (auto simp: add_policy_def and_then_Inl insert_row_def objects_exists_iff route_method_clash_def split: if_splits)
    then have "(or_id v, or_method r, rm_auth_policy x) \<in> policies s" unfolding policies_def by force
    from Cons.prems(2) [OF this] show False by simp
  qed
  then obtain s1 where s1: "add_policy v r s = Inr s1" by (cases "add_policy v r s") auto
  have "\<exists>s'. for_each (add_policy v) rs s1 = Inr s'"
  proof (rule Cons.IH)
    show "distinct (map or_method rs)" using Cons.prems(1) by simp
    fix i m p assume "(i, m, p) \<in> policies s1" "i = or_id v"
    then consider "(i, m, p) \<in> policies s" | "m = or_method r" unfolding add_policy_Inr(3) [OF s1] by auto
    then show "m \<notin> or_method ` set rs"
    proof cases
      case 1
      have "m \<notin> or_method ` set (r # rs)" by (rule Cons.prems(2) [OF 1 \<open>i = or_id v\<close>])
      then show ?thesis by simp
    next
      case 2
      then show ?thesis using Cons.prems(1) by simp
    qed
  qed
  then show ?case by (simp add: s1)
qed

lemma consolidate_group_ok:
  assumes "distinct (map or_method g)" and "or_id (hd g) \<notin> fst ` policies s"
    and kg: "snd kg = g"
  shows "\<exists>s'. consolidate_group kg s = Inr s'"
proof -
  have "\<exists>s1. for_each (add_policy (hd g)) (filter or_is_active g) s = Inr s1"
    using assms by (intro add_policies_ok) (auto simp: distinct_map_filter image_iff)
  then obtain s1 where "for_each (add_policy (hd g)) (filter or_is_active g) s = Inr s1" ..
  then show ?thesis unfolding consolidate_group_def Let_def kg
    by (simp only: and_then.simps) (simp split: if_split)
qed

lemma consolidate_groups_ok:
  assumes "groups_ok gs s" and "ids_ok s"
    and "\<And>k g. (k, g) \<in> set gs \<Longrightarrow> distinct (map or_method g) \<and> or_id (hd g) \<notin> fst ` policies s"
  shows "\<exists>s'. for_each consolidate_group gs s = Inr s'"
  using assms
proof (induction gs arbitrary: s)
  case Nil
  then show ?case by simp
next
  case (Cons kg gs)
  obtain k g where kg: "kg = (k, g)" by (cases kg)
  have ok: "groups_ok ((k, g) # gs) s" using Cons.prems(1) by (simp add: kg)
  have head: "(k, g) \<in> set ((k, g) # gs)" by simp
  note hd = groups_okD [OF ok head]
  have "distinct (map or_method g)" "or_id (hd g) \<notin> fst ` policies s"
    using Cons.prems(3) [of k g] by (simp_all add: kg)
  from consolidate_group_ok [OF this snd_conv]
  obtain s1 where s1: "consolidate_group (k, g) s = Inr s1" by blast
  have step: "group_step g s s1" by (rule consolidate_group_step [OF s1 hd(1-3) Cons.prems(2)])
  have "\<exists>s'. for_each consolidate_group gs s1 = Inr s'"
  proof (rule Cons.IH)
    show "groups_ok gs s1" by (rule groups_ok_rest(1) [OF ok step])
    show "ids_ok s1" using step unfolding group_step_def by blast
    fix k' g' assume g': "(k', g') \<in> set gs"
    then have g'': "(k', g') \<in> set ((k, g) # gs)" by simp
    note hd' = groups_okD [OF ok g'']
    have "hd g' \<in> (\<Union>(k, g) \<in> set gs. set g)" using g' hd_in_set [OF hd'(1)] by blast
    then have "hd g' \<noteq> hd g" using groups_ok_rest(3) [OF ok step hd_in_set [OF hd(1)]] by metis
    moreover have "hd g' \<in> routes_in s" "hd g \<in> routes_in s"
      using subsetD [OF hd'(3) hd_in_set [OF hd'(1)]] subsetD [OF hd(3) hd_in_set [OF hd(1)]] by simp_all
    ultimately have "or_id (hd g') \<noteq> or_id (hd g)" using ids_ok_inj [OF Cons.prems(2)] by blast
    moreover have "policies s1 = policies s \<union> policies_of g" using step unfolding group_step_def by blast
    moreover have "fst ` policies_of g \<subseteq> {or_id (hd g)}" unfolding policies_of_def by auto
    moreover have "distinct (map or_method g') \<and> or_id (hd g') \<notin> fst ` policies s"
      using Cons.prems(3) [of k' g'] g' by simp
    ultimately show "distinct (map or_method g') \<and> or_id (hd g') \<notin> fst ` policies s1"
      unfolding image_Un by blast
  qed
  then show ?case by (simp add: kg s1)
qed

lemma consolidation_unique_paths:
  assumes run: "consolidate_routes s = Inr s'" and ids: "ids_ok s"
  shows "distinct (map route_key (rows (sc_routes s'))) \<and> route_key ` routes_in s' = route_key ` routes_in s"
proof -
  note routes' = consolidated_routes [OF run ids]
  have key: "route_key (survivor_of g) = k" if g: "(k, g) \<in> set (route_groups s)" for k g
  proof -
    note ok = groups_okD [OF groups_of_table(1) [OF ids] g]
    show ?thesis using survivor_of_fields(1) [OF ok(1)] ok(4) [OF hd_in_set [OF ok(1)]] by simp
  qed
  have "inj_on route_key (routes_in s')"
  proof (rule inj_onI)
    fix a b assume "a \<in> routes_in s'" "b \<in> routes_in s'" and same: "route_key a = route_key b"
    then obtain k g k' g' where g: "(k, g) \<in> set (route_groups s)" "a = survivor_of g"
      and g': "(k', g') \<in> set (route_groups s)" "b = survivor_of g'" unfolding routes' by auto
    have "k = k'" using key [OF g(1)] key [OF g'(1)] same g(2) g'(2) by simp
    then have "g = g'" using g(1) g'(1) by (simp add: group_by_mem)
    then show "a = b" using g(2) g'(2) by simp
  qed
  then have "distinct (map route_key (rows (sc_routes s')))"
    using consolidate_done(2) [OF run ids] by (simp add: distinct_map ids_ok_def)
  moreover have "route_key ` routes_in s' = route_key ` routes_in s"
  proof (intro equalityI subsetI)
    fix x assume "x \<in> route_key ` routes_in s'"
    then obtain k g where g: "(k, g) \<in> set (route_groups s)" "x = k" unfolding routes' using key by auto
    note ok = groups_okD [OF groups_of_table(1) [OF ids] g(1)]
    have "hd g \<in> routes_in s" using ok(3) hd_in_set [OF ok(1)] by (rule subsetD)
    moreover have "x = route_key (hd g)" using ok(4) [OF hd_in_set [OF ok(1)]] g(2) by simp
    ultimately show "x \<in> route_key ` routes_in s" by (rule rev_image_eqI)
  next
    fix x assume "x \<in> route_key ` routes_in s"
    then obtain r where r: "r \<in> routes_in s" "x = route_key r" by blast
    obtain g where g: "(route_key r, g) \<in> set (route_groups s)" by (rule group_of_row [OF r(1)])
    then have "survivor_of g \<in> routes_in s'" unfolding routes' by (rule rev_image_eqI) simp
    moreover have "x = route_key (survivor_of g)" using key [OF g] r(2) by simp
    ultimately show "x \<in> route_key ` routes_in s'" by (rule rev_image_eqI)
  qed
  ultimately show "distinct (map route_key (rows (sc_routes s'))) \<and> route_key ` routes_in s' = route_key ` routes_in s" by blast
qed

text \<open>
  On tables that satisfy the constraints of the schema before it, migration \<open>0008\<close> fails
  exactly when one of its validations does, with the error of the first group that fails: once all
  groups passed, no policy it creates violates a constraint. When it succeeds, every path of a
  project has exactly one route left, so the new unique constraint can be added.
\<close>

lemma consolidation_refuses:
  assumes ids: "ids_ok s" and uniq: "old_unique s" and empty: "rows (sc_methods s) = []"
  shows "(consolidate_routes s = Inl e \<longleftrightarrow> for_each check_group (route_groups s) s = Inl e)
    \<and> (consolidate_routes s = Inr s' \<longrightarrow>
         distinct (map route_key (rows (sc_routes s'))) \<and> route_key ` routes_in s' = route_key ` routes_in s)"
proof -
  have none: "policies s = {}" using empty by (simp add: policies_def)
  have distinct: "distinct (map or_method g)" if g: "(k, g) \<in> set (route_groups s)" for k g
  proof -
    note ok = groups_okD [OF groups_of_table(1) [OF ids] g]
    have "inj_on or_method (set g)"
    proof (rule inj_onI)
      fix a b assume ab: "a \<in> set g" "b \<in> set g" "or_method a = or_method b"
      then have "(or_project a, or_path a, or_method a) = (or_project b, or_path b, or_method b)"
        using ok(4) [of a] ok(4) [of b] by auto
      then show "a = b" using uniq ab ok(3) unfolding old_unique_def distinct_map inj_on_def by blast
    qed
    then show ?thesis using ok(2) by (simp add: distinct_map)
  qed
  have "\<exists>s'. for_each consolidate_group (route_groups s) s = Inr s'"
    using distinct by (intro consolidate_groups_ok groups_of_table(1) ids) (simp_all add: none)
  then have "consolidate_routes s = Inl e \<longleftrightarrow> for_each check_group (route_groups s) s = Inl e"
    using check_groups_Inr [of "route_groups s" s] by (auto simp: consolidate_routes_def Let_def and_then_Inl)
  then show ?thesis using consolidation_unique_paths [OF _ ids] by blast
qed

lemma consolidated_access:
  assumes run: "consolidate_routes s = Inr s'" and ids: "ids_ok s" and empty: "rows (sc_methods s) = []"
  shows "has_rows (grants_in s') a = has_rows (grants_in s) a"
    and "(k, g) \<in> set (route_groups s) \<Longrightarrow>
      holds_grant (grants_in s') a (or_id (hd g)) = (\<exists>r \<in> set g. holds_grant (grants_in s) a (or_id r))"
    and "policies s' = (\<Union>(k, g) \<in> set (route_groups s). policies_of g)"
  using consolidate_done(1) [OF run ids] empty unfolding groups_done_def
  by (blast, blast, simp add: policies_def)

text \<open>What an application may call before the consolidation it may call after it.\<close>

lemma access_kept:
  assumes run: "consolidate_routes s = Inr s'" and ids: "ids_ok s" and empty: "rows (sc_methods s) = []"
    and old: "old_allows s app key m policy"
  shows "new_allows s' app key m policy"
proof -
  note access = consolidated_access [OF run ids empty] and routes' = consolidated_routes [OF run ids]
  note ok = groups_of_table(1) [OF ids]
  from old obtain r where r: "r \<in> routes_in s" "route_key r = key" "or_is_active r" "or_method r = m" "or_auth_policy r = policy"
    and may: "\<not> has_rows (grants_in s) app \<or> holds_grant (grants_in s) app (or_id r)"
    unfolding old_allows_def by blast
  obtain g where g: "(route_key r, g) \<in> set (route_groups s)" "r \<in> set g" by (rule group_of_row [OF r(1)])
  note gD = groups_okD [OF ok g(1)]
  have "survivor_of g \<in> routes_in s'" unfolding routes' using g(1) by (rule rev_image_eqI) simp
  moreover have "route_key (survivor_of g) = key"
    using survivor_of_fields(1) [OF gD(1)] gD(4) [OF hd_in_set [OF gD(1)]] r(2) by simp
  moreover have "or_is_active (survivor_of g)" unfolding survivor_of_fields(3) using g(2) r(3) by blast
  moreover have "(or_id (survivor_of g), m, policy) \<in> policies s'"
    unfolding access(3) survivor_of_fields(2) using g r(3-5) by (force simp: policies_of_def)
  moreover have "\<not> has_rows (grants_in s') app \<or> holds_grant (grants_in s') app (or_id (survivor_of g))"
    unfolding access(1) survivor_of_fields(2) access(2) [OF g(1)] using may g(2) by blast
  ultimately show "new_allows s' app key m policy" unfolding new_allows_def policies_def by force
qed

text \<open>What it may call afterwards it could call before, or held a grant on a row of the group that was switched off.\<close>

lemma access_not_widened:
  assumes run: "consolidate_routes s = Inr s'" and ids: "ids_ok s"
    and uniq: "old_unique s" and empty: "rows (sc_methods s) = []"
    and new: "new_allows s' app key m policy"
  shows "old_allows s app key m policy \<or> stale_grant s app key"
proof -
  note fin = consolidate_done [OF run ids] and routes' = consolidated_routes [OF run ids]
  note access = consolidated_access [OF run ids empty] and ok = groups_of_table(1) [OF ids]
  from new obtain r' where r': "r' \<in> routes_in s'" "route_key r' = key" "(or_id r', m, policy) \<in> policies s'"
    and may: "\<not> has_rows (grants_in s') app \<or> holds_grant (grants_in s') app (or_id r')"
    unfolding new_allows_def policies_def by force
  obtain k g where g: "(k, g) \<in> set (route_groups s)" "r' = survivor_of g" using r'(1) unfolding routes' by auto
  note gD = groups_okD [OF ok g(1)]
  have key: "route_key r = key" if "r \<in> set g" for r
    using survivor_of_fields(1) [OF gD(1)] gD(4) [OF hd_in_set [OF gD(1)]] gD(4) [OF that] r'(2) g(2) by simp
  have inj: "inj_on or_id (set g)" using ids_ok_inj [OF ids] gD(3) by (auto intro!: inj_onI)
  obtain k' g' where g': "(k', g') \<in> set (route_groups s)" "(or_id r', m, policy) \<in> policies_of g'"
    using r'(3) unfolding access(3) by blast
  have "g' = g"
    using same_group(1) [OF ids g(1) g'(1)] g'(2) g(2) by (auto simp: policies_of_def survivor_of_fields(2))
  then obtain r1 where r1: "r1 \<in> set g" "or_is_active r1" "or_method r1 = m" "or_auth_policy r1 = policy"
    using g'(2) unfolding policies_of_def by auto
  have old: "old_allows s app key m policy"
    if "\<not> has_rows (grants_in s) app \<or> holds_grant (grants_in s) app (or_id r1)"
    unfolding old_allows_def using that r1 key [OF r1(1)] gD(3) by blast
  show "old_allows s app key m policy \<or> stale_grant s app key"
  proof (cases "has_rows (grants_in s) app")
    case False
    then show ?thesis using old by blast
  next
    case True
    then obtain r2 where r2: "r2 \<in> set g" "holds_grant (grants_in s) app (or_id r2)"
      using may unfolding access(1) g(2) survivor_of_fields(2) access(2) [OF g(1)] by blast
    show ?thesis
    proof (cases "or_is_active r2")
      case False
      then show ?thesis using r2 key [OF r2(1)] gD(3) unfolding stale_grant_def by blast
    next
      case True
      have "check_group (k, g) s = Inr s" using fin(3) g(1) by blast
      from check_group_grants [OF this inj r2(1) True r2(2) r1(1,2)]
      obtain r3 where r3: "r3 \<in> set g" "or_method r3 = or_method r1" "holds_grant (grants_in s) app (or_id r3)" by blast
      have "r3 = r1"
        using uniq r3(1,2) r1(1) gD(3) key [OF r1(1)] key [OF r3(1)]
        by (auto simp: old_unique_def distinct_map dest!: inj_onD [of _ _ r3 r1])
      then show ?thesis using old r3(3) by blast
    qed
  qed
qed

text \<open>
  C34: Migration \<open>0008\<close> keeps access: a request an application could make, with the policy
  that applied to it, is still allowed after the rows of each path were folded into one; and a
  request allowed afterwards was allowed before, with the same policy, unless the application held
  an active grant on a switched-off row of that path.
\<close>

theorem consolidation_keeps_access:
  assumes run: "consolidate_routes s = Inr s'" and ids: "ids_ok s" and uniq: "old_unique s"
    and empty: "rows (sc_methods s) = []"
  shows "(old_allows s app key m policy \<longrightarrow> new_allows s' app key m policy)
    \<and> (new_allows s' app key m policy \<longrightarrow> old_allows s app key m policy \<or> stale_grant s app key)"
  using access_kept [OF run ids empty] access_not_widened [OF run ids uniq empty] by blast

section \<open>Concrete schemas\<close>

definition old_row :: "pk \<Rightarrow> string \<Rightarrow> bool \<Rightarrow> old_route" where
  "old_row i m act = \<lparr>or_id = i, or_project = 1, or_backend_service = None, or_path = ''/doctors'',
     or_method = m, or_auth_policy = ''api_key_only'', or_target_url = ''http://a'', or_is_active = act\<rparr>"

definition grant_row :: "pk \<Rightarrow> pk \<Rightarrow> pk \<Rightarrow> route_permission" where
  "grant_row i app r = \<lparr>perm_id = i, perm_application = app, perm_route = r, perm_is_active = True, perm_created_at = 0\<rparr>"

definition two_methods :: "bool \<Rightarrow> route_permission list \<Rightarrow> schema" where
  "two_methods act grants =
     \<lparr>sc_routes = \<lparr>rows = [old_row 1 ''GET'' True, old_row 2 ''POST'' act], last_pk = 2\<rparr>,
      sc_methods = \<lparr>rows = [], last_pk = 0\<rparr>,
      sc_grants = \<lparr>rows = grants, last_pk = 9\<rparr>,
      sc_logs = [\<lparr>lg_id = 1, lg_route = Some 2\<rparr>]\<rparr>"

definition folded :: "string list \<Rightarrow> schema" where
  "folded ms =
     \<lparr>sc_routes = \<lparr>rows = [old_row 1 ''GET'' True], last_pk = 2\<rparr>,
      sc_methods = \<lparr>rows = map (\<lambda>i. \<lparr>rm_id = int (Suc i), rm_route = 1, rm_method = ms ! i, rm_auth_policy = ''api_key_only''\<rparr>)
                             [0..<length ms], last_pk = int (length ms)\<rparr>,
      sc_grants = \<lparr>rows = [grant_row 1 7 1], last_pk = 9\<rparr>,
      sc_logs = [\<lparr>lg_id = 1, lg_route = Some 1\<rparr>]\<rparr>"

lemmas concrete_schemas = two_methods_def folded_def old_row_def grant_row_def

lemma consolidate_two:
  "consolidate_routes (two_methods True [grant_row 1 7 1, grant_row 2 7 2]) = Inr (folded [''GET'', ''POST''])"
  by code_simp

lemma consolidate_stale: "consolidate_routes (two_methods False [grant_row 1 7 2]) = Inr (folded [''GET''])"
  by code_simp

lemma two_methods_ok:
  "ids_ok (two_methods act gs) \<longleftrightarrow> distinct (map perm_id gs)" "old_unique (two_methods act gs)"
  "rows (sc_methods (two_methods act gs)) = []"
  by (simp_all add: ids_ok_def old_unique_def concrete_schemas)

theorem consolidation_keeps_access_witness:
  "new_allows (folded [''GET'', ''POST'']) 7 (1, ''/doctors'') ''POST'' ''api_key_only''"
proof -
  have "old_allows (two_methods True [grant_row 1 7 1, grant_row 2 7 2]) 7 (1, ''/doctors'') ''POST'' ''api_key_only''"
    by (simp add: old_allows_def has_rows_def holds_grant_def concrete_schemas)
  then show ?thesis
    using consolidation_keeps_access [OF consolidate_two two_methods_ok(1) [THEN iffD2] two_methods_ok(2,3)]
    by (simp add: grant_row_def)
qed

text \<open>
  Migration \<open>0008\<close> can widen access: an application whose only grant is on the
  switched-off \<open>POST\<close> row of a path passes the validation, since the grant is not counted,
  and its grant, moved to the surviving route, then opens \<open>GET\<close>, which it could not call
  under any policy before.
\<close>

lemma consolidation_widens:
  "consolidate_routes (two_methods False [grant_row 1 7 2]) = Inr (folded [''GET''])
   \<and> \<not> (\<exists>policy. old_allows (two_methods False [grant_row 1 7 2]) 7 (1, ''/doctors'') ''GET'' policy)
   \<and> new_allows (folded [''GET'']) 7 (1, ''/doctors'') ''GET'' ''api_key_only''"
  by (simp add: consolidate_stale)
    (simp add: old_allows_def new_allows_def has_rows_def holds_grant_def concrete_schemas)

end
