(* ===== verification/TestDouble.thy ===== *)
theory TestDouble
  imports RateLimiter RouteCache
begin

text \<open>
  The rest of \<open>apps/gateway/test_support.py\<close>: \<open>eval\<close> on two keys, \<open>scan_iter\<close> and the shell
  patterns of the standard library's \<open>fnmatch\<close> it uses. The tests replace Redis by this class, so
  what they show of the code carries over only as far as the double runs the scripts the server
  runs: \<open>test_double_runs_scripts\<close>.
\<close>

section \<open>Two-key scripts\<close>

text \<open>\<open>self._read(key) or '0'\<close>.\<close>

definition or_zero :: "string option \<Rightarrow> string" where
  "or_zero v = (case v of None \<Rightarrow> ''0'' | Some s \<Rightarrow> if s = [] then ''0'' else s)"

definition fake_eval_invalidate :: "instant \<Rightarrow> string \<Rightarrow> string \<Rightarrow> fake \<Rightarrow> int option \<times> fake" where
  "fake_eval_invalidate now generation_key data_key s =
     (case fake_read now generation_key s of (v, s1) \<Rightarrow>
        (case py_int (or_zero v) of
           None \<Rightarrow> (None, s1)
         | Some n \<Rightarrow>
             (Some 1, fake_delete data_key
                (s1\<lparr>f_data := AList.update generation_key (str_of_int (n + 1)) (f_data s1)\<rparr>))))"

definition fake_eval_publish ::
    "instant \<Rightarrow> string \<Rightarrow> string \<Rightarrow> string \<Rightarrow> string \<Rightarrow> int \<Rightarrow> fake \<Rightarrow> int option \<times> fake" where
  "fake_eval_publish now generation_key data_key expected payload ttl s =
     (case fake_read now generation_key s of (v, s1) \<Rightarrow>
        (if or_zero v \<noteq> expected then (Some 0, s1)
         else (Some 1, fake_set now data_key payload (Some ttl) s1)))"

text \<open>What a caller of \<open>eval\<close> sees: an integer, or an exception.\<close>

definition script_result :: "(redis_error + int) \<times> 's \<Rightarrow> int option \<times> 's" where
  "script_result p = (case p of (Inl _, s) \<Rightarrow> (None, s) | (Inr r, s) \<Rightarrow> (Some r, s))"

lemma or_zero_counter:
  assumes "holds_counter k (fake_view s t)"
  shows "or_zero (fst (fake_read t k s)) = (case fst (fake_read t k s) of None \<Rightarrow> ''0'' | Some g \<Rightarrow> g)"
  using assms by (auto simp: or_zero_def fake_read_result store_get_def holds_counter_iff split: option.split)

lemma py_int_zero: "py_int ''0'' = Some 0"
  using py_int_str_of_int [of 0] by (simp add: str_of_int_def str_of_nat.simps digit_char_def)

lemma fake_eval_invalidate_is_script:
  assumes "holds_counter gk (fake_view s t)"
  shows "fake_eval_invalidate t gk dk s = script_result (invalidate_script fake_redis t gk dk s)"
proof -
  obtain v s1 where r: "fake_read t gk s = (v, s1)" by force
  have v: "v = None \<or> (\<exists>n. v = Some (str_of_int n))"
    using assms fake_read_result(1) [of t gk s] unfolding r holds_counter_iff store_get_def by auto
  then show ?thesis
    by (auto simp: fake_eval_invalidate_def invalidate_script_def script_result_def fake_redis_def fake_incr_def
        r or_zero_def py_int_zero)
qed

lemma fake_eval_publish_is_script:
  assumes "holds_counter gk (fake_view s t)"
  shows "fake_eval_publish t gk dk expected payload ttl s
    = script_result (publish_if_current fake_redis t gk dk expected payload ttl s)"
  using or_zero_counter [OF assms]
  by (cases "fake_read t gk s")
    (simp add: fake_eval_publish_def publish_if_current_def script_result_def fake_redis_def Let_def)

text \<open>
  The test double runs the server's scripts: on a generation or counter key that is absent or
  holds a printed integer, \<open>FakeRedisClient.eval\<close> returns what the Lua script returns over
  the double's own commands and leaves the same state, for the limiter's script and for both
  scripts of the route cache.
\<close>

lemma test_double_runs_scripts:
  assumes "fake_ok s" and "holds_counter key (fake_view s now)"
  shows "fake_eval_window now key limit ttl s = script_result (fixed_window_script fake_redis now key limit ttl s)
    \<and> fake_eval_invalidate now key dk s = script_result (invalidate_script fake_redis now key dk s)
    \<and> fake_eval_publish now key dk expected payload ttl s
        = script_result (publish_if_current fake_redis now key dk expected payload ttl s)"
  using fake_eval_is_script [OF assms] fake_eval_invalidate_is_script [OF assms(2)]
    fake_eval_publish_is_script [OF assms(2)]
  by (simp add: script_result_def)

section \<open>\<open>fnmatch\<close>\<close>

text \<open>The items of a character class: a hyphen between two characters makes a range.\<close>

fun class_items :: "string \<Rightarrow> (char \<times> char) list" where
  "class_items [] = []"
| "class_items [c] = [(c, c)]"
| "class_items [c, d] = [(c, c), (d, d)]"
| "class_items (c # x # d # r) =
     (if x = CHR ''-'' then (c, d) # class_items r else (c, c) # class_items (x # d # r))"

definition in_items :: "char \<Rightarrow> (char \<times> char) list \<Rightarrow> bool" where
  "in_items c items \<longleftrightarrow> list_ex (\<lambda>(lo, hi). code lo \<le> code c \<and> code c \<le> code hi) items"

text \<open>
  The text after a left bracket: whether the class is negated, its items and the rest of the
  pattern; \<open>None\<close> if no right bracket closes it. A right bracket that comes first is an item.
\<close>

definition split_class :: "string \<Rightarrow> (bool \<times> (char \<times> char) list \<times> string) option" where
  "split_class p =
     (let negated = startswith p ''!'';
          q = (if negated then tl p else p);
          n = (if startswith q '']'' then 1 else 0);
          (body, closed, rest) = partition_at (CHR '']'') (drop n q)
      in if closed then Some (negated, class_items (take n q @ body), rest) else None)"

lemma split_class_rest: "split_class p = Some (neg, items, rest) \<Longrightarrow> length rest \<le> length p"
proof -
  assume run: "split_class p = Some (neg, items, rest)"
  let ?q = "if startswith p ''!'' then tl p else p"
  let ?d = "drop (if startswith ?q '']'' then 1 else 0) ?q"
  have "rest = drop 1 (dropWhile (\<lambda>x. x \<noteq> CHR '']'') ?d)"
    using run unfolding split_class_def Let_def partition_at_def by (simp del: One_nat_def split: if_split_asm)
  then have "length rest \<le> length ?d" using length_dropWhile_le [of "\<lambda>x. x \<noteq> CHR '']''" ?d] by simp
  also have "\<dots> \<le> length p" by simp
  finally show ?thesis .
qed

text \<open>\<open>fnmatch.fnmatchcase(s, pat)\<close>, on the pattern from the left.\<close>

function fnmatchcase :: "string \<Rightarrow> string \<Rightarrow> bool" where
  "fnmatchcase s [] \<longleftrightarrow> s = []"
| "fnmatchcase s (p # ps) \<longleftrightarrow>
     (if p = CHR ''*'' then fnmatchcase s ps \<or> (case s of [] \<Rightarrow> False | _ # s' \<Rightarrow> fnmatchcase s' (p # ps))
      else case s of
        [] \<Rightarrow> False
      | c # s' \<Rightarrow>
          if p = CHR ''?'' then fnmatchcase s' ps
          else if p = CHR ''['' then
            (case split_class ps of
               None \<Rightarrow> c = p \<and> fnmatchcase s' ps
             | Some (negated, items, rest) \<Rightarrow> in_items c items \<noteq> negated \<and> fnmatchcase s' rest)
          else c = p \<and> fnmatchcase s' ps)"
  by pat_completeness auto
termination
  by (relation "measure (\<lambda>(s, p). length s + length p)") (auto dest: split_class_rest)

definition plain_char :: "char \<Rightarrow> bool" where
  "plain_char c \<longleftrightarrow> c \<notin> {CHR ''*'', CHR ''?'', CHR ''['', CHR '']'', CHR 0x5C}"

lemma fnmatchcase_star: "fnmatchcase s ''*''"
  by (induction s) simp_all

declare fnmatchcase.simps(2) [simp del]

lemma fnmatchcase_prefix:
  "list_all plain_char p \<Longrightarrow> fnmatchcase s (p @ ''*'') \<longleftrightarrow> startswith s p"
proof (induction p arbitrary: s)
  case Nil
  then show ?case by (simp add: fnmatchcase_star)
next
  case (Cons c p)
  then show ?case by (cases s) (simp_all add: fnmatchcase.simps(2) plain_char_def)
qed

section \<open>\<open>scan_iter\<close>\<close>

fun fake_scan_keys :: "instant \<Rightarrow> string \<Rightarrow> string list \<Rightarrow> fake \<Rightarrow> string list \<times> fake" where
  "fake_scan_keys now pattern [] s = ([], s)"
| "fake_scan_keys now pattern (k # ks) s =
     (case fake_read now k s of (v, s1) \<Rightarrow>
        (case fake_scan_keys now pattern ks s1 of (found, s2) \<Rightarrow>
           (if v \<noteq> None \<and> fnmatchcase k pattern then k # found else found, s2)))"

definition fake_scan_iter :: "instant \<Rightarrow> string \<Rightarrow> fake \<Rightarrow> string list \<times> fake" where
  "fake_scan_iter now pattern s = fake_scan_keys now pattern (map fst (f_data s)) s"

lemma fake_scan_keys_result:
  assumes "fake_ok s" and "fake_scan_keys t pattern ks s = (found, s')"
  shows "fake_ok s' \<and> fake_view s' t = fake_view s t
    \<and> set found = {k \<in> set ks. fake_view s t k \<noteq> None \<and> fnmatchcase k pattern}"
  using assms
proof (induction ks arbitrary: s found)
  case Nil
  then show ?case by simp
next
  case (Cons k ks)
  obtain v s1 where r: "fake_read t k s = (v, s1)" by force
  obtain found' where f: "fake_scan_keys t pattern ks s1 = (found', s')"
      "found = (if v \<noteq> None \<and> fnmatchcase k pattern then k # found' else found')"
    using Cons.prems(2) by (auto simp: r split: prod.splits if_splits)
  have s1: "fake_ok s1" "fake_view s1 t = fake_view s t" "v = store_get k (fake_view s t)"
    using fake_read_ok [OF Cons.prems(1), of t k] fake_read_result [of t k s] by (simp_all add: r)
  show ?case using Cons.IH [OF s1(1) f(1)] f(2) s1(2,3) by (auto simp: store_get_def)
qed

lemma fake_scan_iter_result:
  assumes "fake_ok s" and "fake_scan_iter t pattern s = (found, s')"
  shows "fake_ok s'" "fake_view s' t = fake_view s t"
    "k \<in> set found \<longleftrightarrow> fake_view s t k \<noteq> None \<and> fnmatchcase k pattern"
proof -
  note res = fake_scan_keys_result [OF assms(1) assms(2) [unfolded fake_scan_iter_def]]
  then show "fake_ok s'" "fake_view s' t = fake_view s t" by blast+
  have "fake_view s t k \<noteq> None \<Longrightarrow> k \<in> fst ` set (f_data s)"
    by (auto simp: fake_view_def dom_map_of_conv_image_fst [symmetric] split: option.splits)
  then show "k \<in> set found \<longleftrightarrow> fake_view s t k \<noteq> None \<and> fnmatchcase k pattern" using res by auto
qed

end
