(* ===== verification/ResponseCache.thy ===== *)
theory ResponseCache
  imports TestDouble
begin

text \<open>
  \<open>ProductResponseCache\<close> of \<open>apps/gateway/services.py\<close>: responses kept in Redis, and in the
  memory of the process while Redis cannot be reached. The memory is a class attribute, one for all
  instances of a process; whether an instance has a client is decided when it is built.

  \<open>SCAN\<close> and the choice of cluster nodes belong to the server and its client library: the
  parameter \<open>scan\<close> gives the pages of keys of one node, and the locale \<open>scanned_server\<close>
  states what Redis documents of it.
\<close>

section \<open>State\<close>

text \<open>\<open>_memory_store\<close>: expiry and value of a key.\<close>

type_synonym memory = "(string \<times> instant \<times> string) list"

record 's response_cache =
  rc_client :: "'s client"
  rc_memory :: memory

section \<open>Operations\<close>

text \<open>The constructor: whether \<open>self.client\<close> is a client.\<close>

definition new_response_cache ::
    "settings \<Rightarrow> string option \<Rightarrow> 's response_cache \<Rightarrow> bool \<times> 's response_cache" where
  "new_response_cache S url w =
     (case get_redis_client S url (rc_client w) of
        (Inl _, c) \<Rightarrow> (False, w\<lparr>rc_client := c\<rparr>)
      | (Inr _, c) \<Rightarrow> (True, w\<lparr>rc_client := c\<rparr>))"

definition memory_get :: "instant \<Rightarrow> string \<Rightarrow> memory \<Rightarrow> string option \<times> memory" where
  "memory_get now key m =
     (case map_of m key of
        None \<Rightarrow> (None, m)
      | Some (expires_at, v) \<Rightarrow> if expires_at < now then (None, AList.delete key m) else (Some v, m))"

definition memory_set :: "instant \<Rightarrow> string \<Rightarrow> string \<Rightarrow> int \<Rightarrow> memory \<Rightarrow> memory" where
  "memory_set now key v ttl m = AList.update key (now + second * ttl, v) m"

definition ping_call :: "'s client \<Rightarrow> (redis_error + unit) \<times> 's client" where
  "ping_call = redis_call (\<lambda>s. (Inr (), s))"

definition set_call :: "'s redis \<Rightarrow> instant \<Rightarrow> string \<Rightarrow> string \<Rightarrow> int \<Rightarrow> 's client \<Rightarrow> (redis_error + unit) \<times> 's client" where
  "set_call R now key v ttl = redis_call (\<lambda>s. (Inr (), r_set_ex R now key v ttl s))"

definition delete_call :: "'s redis \<Rightarrow> instant \<Rightarrow> string \<Rightarrow> 's client \<Rightarrow> (redis_error + unit) \<times> 's client" where
  "delete_call R now key = redis_call (\<lambda>s. (Inr (), r_del R now key s))"

definition response_get ::
    "'s redis \<Rightarrow> instant \<Rightarrow> bool \<Rightarrow> string \<Rightarrow> 's response_cache \<Rightarrow> string option \<times> 's response_cache" where
  "response_get R now connected key w =
     (let fallback = \<lambda>c. (case memory_get now key (rc_memory w) of
                           (v, m) \<Rightarrow> (v, \<lparr>rc_client = c, rc_memory = m\<rparr>))
      in if \<not> connected then fallback (rc_client w)
         else (case ping_call (rc_client w) of
             (Inl _, c1) \<Rightarrow> fallback c1
           | (Inr _, c1) \<Rightarrow>
               (case get_call R now key c1 of
                  (Inl _, c2) \<Rightarrow> fallback c2
                | (Inr v, c2) \<Rightarrow> (v, w\<lparr>rc_client := c2\<rparr>))))"

definition response_set ::
    "'s redis \<Rightarrow> instant \<Rightarrow> bool \<Rightarrow> string \<Rightarrow> string \<Rightarrow> int \<Rightarrow> 's response_cache \<Rightarrow> 's response_cache" where
  "response_set R now connected key v ttl w =
     (let fallback = \<lambda>c. \<lparr>rc_client = c, rc_memory = memory_set now key v ttl (rc_memory w)\<rparr>
      in if ttl \<le> 0 then w
         else if \<not> connected then fallback (rc_client w)
         else (case set_call R now key v ttl (rc_client w) of
             (Inl _, c) \<Rightarrow> fallback c
           | (Inr _, c) \<Rightarrow> w\<lparr>rc_client := c\<rparr>))"

text \<open>The loop over the keys \<open>scan_iter\<close> yields: a page arrives with a call, then each key of it
  is deleted before the next page is asked for. A failing call ends the loop.\<close>

fun delete_keys :: "'s redis \<Rightarrow> instant \<Rightarrow> string list \<Rightarrow> 's client \<Rightarrow> (redis_error + unit) \<times> 's client" where
  "delete_keys R now [] c = (Inr (), c)"
| "delete_keys R now (k # ks) c =
     (case delete_call R now k c of
        (Inl e, c1) \<Rightarrow> (Inl e, c1)
      | (Inr _, c1) \<Rightarrow> delete_keys R now ks c1)"

fun delete_pages :: "'s redis \<Rightarrow> instant \<Rightarrow> string list list \<Rightarrow> 's client \<Rightarrow> (redis_error + unit) \<times> 's client" where
  "delete_pages R now [] c = (Inr (), c)"
| "delete_pages R now (page # pages) c =
     (case delete_keys R now page c of
        (Inl e, c1) \<Rightarrow> (Inl e, c1)
      | (Inr _, c1) \<Rightarrow>
          (if pages = [] then (Inr (), c1)
           else (case ping_call c1 of
               (Inl e, c2) \<Rightarrow> (Inl e, c2)
             | (Inr _, c2) \<Rightarrow> delete_pages R now pages c2)))"

type_synonym 's scan = "instant \<Rightarrow> nat \<Rightarrow> string \<Rightarrow> 's \<Rightarrow> string list list \<times> 's"

fun delete_nodes ::
    "'s redis \<Rightarrow> 's scan \<Rightarrow> instant \<Rightarrow> string \<Rightarrow> nat list \<Rightarrow> 's client \<Rightarrow> (redis_error + unit) \<times> 's client" where
  "delete_nodes R scan now pattern [] c = (Inr (), c)"
| "delete_nodes R scan now pattern (node # nodes) c =
     (case redis_call (\<lambda>s. case scan now node pattern s of (pages, s') \<Rightarrow> (Inr pages, s')) c of
        (Inl e, c1) \<Rightarrow> (Inl e, c1)
      | (Inr pages, c1) \<Rightarrow>
          (case delete_pages R now pages c1 of
             (Inl e, c2) \<Rightarrow> (Inl e, c2)
           | (Inr _, c2) \<Rightarrow> delete_nodes R scan now pattern nodes c2))"

text \<open>\<open>primaries\<close> are the nodes of \<open>get_primaries()\<close>; a single server is node 0.\<close>

definition invalidate_prefix ::
    "settings \<Rightarrow> 's redis \<Rightarrow> 's scan \<Rightarrow> nat list \<Rightarrow> instant \<Rightarrow> bool \<Rightarrow> string \<Rightarrow> 's response_cache \<Rightarrow> 's response_cache" where
  "invalidate_prefix S R scan primaries now connected prefix w =
     (let nodes = (if REDIS_CLUSTER_ENABLED S then primaries else [0]);
          c = (if connected then snd (delete_nodes R scan now (prefix @ ''*'') nodes (rc_client w)) else rc_client w)
      in \<lparr>rc_client = c, rc_memory = filter (\<lambda>(key, _). \<not> startswith key prefix) (rc_memory w)\<rparr>)"

section \<open>Runs\<close>

text \<open>What the processes of one memory do, each call with its time and whether the instance it
  runs on has a client.\<close>

datatype cache_op = Lookup string | Store string string int | Drop string

fun cache_step ::
    "settings \<Rightarrow> 's redis \<Rightarrow> 's scan \<Rightarrow> nat list \<Rightarrow> instant \<times> bool \<times> cache_op \<Rightarrow> 's response_cache \<Rightarrow> 's response_cache" where
  "cache_step S R scan primaries (t, connected, Lookup k) w = snd (response_get R t connected k w)"
| "cache_step S R scan primaries (t, connected, Store k v ttl) w = response_set R t connected k v ttl w"
| "cache_step S R scan primaries (t, connected, Drop prefix) w = invalidate_prefix S R scan primaries t connected prefix w"

definition run_cache ::
    "settings \<Rightarrow> 's redis \<Rightarrow> 's scan \<Rightarrow> nat list \<Rightarrow> (instant \<times> bool \<times> cache_op) list \<Rightarrow> 's response_cache \<Rightarrow> 's response_cache" where
  "run_cache S R scan primaries ops w = foldl (\<lambda>w x. cache_step S R scan primaries x w) w ops"

text \<open>A value stored under a key by one of the calls, and when it expires.\<close>

definition stored_by :: "(instant \<times> bool \<times> cache_op) list \<Rightarrow> instant \<Rightarrow> string \<Rightarrow> string \<Rightarrow> instant \<Rightarrow> bool" where
  "stored_by ops t k v e \<longleftrightarrow>
     (\<exists>t0 b ttl. (t0, b, Store k v ttl) \<in> set ops \<and> 0 < ttl \<and> t0 \<le> t \<and> e = t0 + second * ttl)"

lemma stored_by_mono: "stored_by ops t k v e \<Longrightarrow> set ops \<subseteq> set ops' \<Longrightarrow> t \<le> t' \<Longrightarrow> stored_by ops' t' k v e"
  unfolding stored_by_def by (blast intro: order_trans)

lemma map_of_filter_key: "map_of (filter (\<lambda>(k, _). P k) m) k = (if P k then map_of m k else None)"
  by (induction m) auto

lemma sorted_last: "sorted (a # xs @ [b]) \<Longrightarrow> last (a # xs) \<le> b"
  by (cases xs rule: rev_cases) (auto simp: sorted_append)

lemma memory_get_map:
  "map_of (snd (memory_get t k m)) j = Some x \<Longrightarrow> map_of m j = Some x"
  "fst (memory_get t k m) = Some v \<Longrightarrow> \<exists>e. map_of m k = Some (e, v) \<and> t \<le> e"
  by (auto simp: memory_get_def delete_conv' split: option.splits if_splits)

section \<open>The server's \<open>SCAN\<close>\<close>

text \<open>
  A scan of one node returns every live key of that node that matches the pattern, and only keys
  that match; a pattern of plain characters and a final star matches the keys with that prefix.
\<close>

locale scanned_server = redis_server R view invar
  for R :: "'s redis" and view :: "'s \<Rightarrow> instant \<Rightarrow> store" and invar :: "'s \<Rightarrow> bool" +
  fixes scan :: "'s scan" and home :: "string \<Rightarrow> nat"
  assumes scan_covers: "invar s \<Longrightarrow> list_all plain_char p \<Longrightarrow> startswith k p \<Longrightarrow> view s t k \<noteq> None \<Longrightarrow>
      k \<in> set (concat (fst (scan t (home k) (p @ ''*'') s)))"
    and scan_sound: "invar s \<Longrightarrow> list_all plain_char p \<Longrightarrow> k \<in> set (concat (fst (scan t n (p @ ''*'') s))) \<Longrightarrow>
      startswith k p"
    and scan_view: "invar s \<Longrightarrow> view (snd (scan t n pattern s)) t = view s t"
    and scan_invar: "invar s \<Longrightarrow> invar (snd (scan t n pattern s))"
begin

text \<open>No call of the invalidation makes a key appear or changes one.\<close>

definition shrinks :: "instant \<Rightarrow> 's client \<Rightarrow> 's client \<Rightarrow> bool" where
  "shrinks t c c' \<longleftrightarrow> invar (server c') \<and> (\<forall>k. view (server c') t k \<in> {None, view (server c) t k})"

lemma shrinks_refl: "invar (server c) \<Longrightarrow> shrinks t c c"
  by (simp add: shrinks_def)

lemma shrinks_trans: "shrinks t c c' \<Longrightarrow> shrinks t c' c'' \<Longrightarrow> shrinks t c c''"
  by (fastforce simp: shrinks_def)

lemma shrinks_call:
  assumes "invar (server c)" and "\<And>s. invar s \<Longrightarrow> invar (snd (f s))"
    and "\<And>s k. invar s \<Longrightarrow> view (snd (f s)) t k \<in> {None, view s t k}"
  shows "shrinks t c (snd (redis_call f c))"
  unfolding shrinks_def
  using redis_call_server [of f c] assms(1) assms(2,3) [OF assms(1)] by (elim disjE) simp_all

lemma ping_shrinks: "invar (server c) \<Longrightarrow> shrinks t c (snd (ping_call c))"
  unfolding ping_call_def by (rule shrinks_call) simp_all

lemma delete_call_shrinks: "invar (server c) \<Longrightarrow> shrinks t c (snd (delete_call R t k c))"
  unfolding delete_call_def by (rule shrinks_call) (simp_all add: server_views server_invars store_del_def)

lemma delete_keys_shrinks: "invar (server c) \<Longrightarrow> shrinks t c (snd (delete_keys R t ks c))"
proof (induction ks arbitrary: c)
  case Nil
  then show ?case by (simp add: shrinks_refl)
next
  case (Cons k ks)
  obtain r c1 where r: "delete_call R t k c = (r, c1)" by force
  have c1: "shrinks t c c1" using delete_call_shrinks [OF Cons.prems, of t k] by (simp add: r)
  then have "invar (server c1)" by (simp add: shrinks_def)
  then show ?case using c1 shrinks_trans [OF c1] Cons.IH by (simp add: r split: sum.split)
qed

lemma delete_pages_shrinks: "invar (server c) \<Longrightarrow> shrinks t c (snd (delete_pages R t pages c))"
proof (induction pages arbitrary: c)
  case Nil
  then show ?case by (simp add: shrinks_refl)
next
  case (Cons page pages)
  obtain r c1 where r: "delete_keys R t page c = (r, c1)" by force
  obtain r' c2 where r': "ping_call c1 = (r', c2)" by force
  have c1: "shrinks t c c1" using delete_keys_shrinks [OF Cons.prems, of t page] by (simp add: r)
  then have c2: "shrinks t c1 c2" using ping_shrinks [of c1 t] by (simp add: r' shrinks_def)
  then have "invar (server c2)" by (simp add: shrinks_def)
  then show ?case
    using c1 shrinks_trans [OF c1 c2] shrinks_trans [OF shrinks_trans [OF c1 c2]] Cons.IH
    by (simp add: r r' split: sum.split)
qed

lemma scan_call_shrinks:
  assumes "invar (server c)"
  shows "shrinks t c (snd (redis_call (\<lambda>s. case scan t n pattern s of (pages, s') \<Rightarrow> (Inr pages, s')) c))"
  using assms scan_view [of _ t n pattern] scan_invar [of _ t n pattern]
  by (intro shrinks_call) (simp_all add: case_prod_unfold)

lemma delete_nodes_shrinks: "invar (server c) \<Longrightarrow> shrinks t c (snd (delete_nodes R scan t pattern nodes c))"
proof (induction nodes arbitrary: c)
  case Nil
  then show ?case by (simp add: shrinks_refl)
next
  case (Cons n nodes)
  obtain r c1 where r: "redis_call (\<lambda>s. case scan t n pattern s of (pages, s') \<Rightarrow> (Inr pages, s')) c = (r, c1)" by force
  have c1: "shrinks t c c1" using scan_call_shrinks [OF Cons.prems, of t n pattern] by (simp add: r)
  show ?case
  proof (cases r)
    case (Inl e)
    then show ?thesis using c1 by (simp add: r)
  next
    case (Inr pages)
    obtain r' c2 where r': "delete_pages R t pages c1 = (r', c2)" by force
    have c2: "shrinks t c1 c2" using delete_pages_shrinks [of c1 t pages] c1 by (simp add: r' shrinks_def)
    then have "invar (server c2)" by (simp add: shrinks_def)
    then show ?thesis
      using shrinks_trans [OF c1 c2] shrinks_trans [OF shrinks_trans [OF c1 c2]] Cons.IH
      by (simp add: r r' Inr split: sum.split)
  qed
qed

lemma delete_call_other: "invar (server c) \<Longrightarrow> j \<noteq> k \<Longrightarrow>
    view (server (snd (delete_call R t k c))) t j = view (server c) t j"
  using redis_call_server [of "\<lambda>s. (Inr (), r_del R t k s)" c]
  by (auto simp: delete_call_def server_views store_del_def)

lemma delete_keys_other: "invar (server c) \<Longrightarrow> j \<notin> set ks \<Longrightarrow>
    view (server (snd (delete_keys R t ks c))) t j = view (server c) t j"
proof (induction ks arbitrary: c)
  case Nil
  then show ?case by simp
next
  case (Cons k ks)
  obtain r c1 where r: "delete_call R t k c = (r, c1)" by force
  have "invar (server c1)" using delete_call_shrinks [OF Cons.prems(1), of t k] by (simp add: r shrinks_def)
  then show ?case
    using Cons.IH [of c1] Cons.prems delete_call_other [of c j k t] by (simp add: r split: sum.split)
qed

lemma ping_same: "server (snd (ping_call c)) = server c"
  using redis_call_server [of "\<lambda>s. (Inr (), s)" c] by (simp add: ping_call_def)

lemma delete_pages_other: "invar (server c) \<Longrightarrow> j \<notin> set (concat pages) \<Longrightarrow>
    view (server (snd (delete_pages R t pages c))) t j = view (server c) t j"
proof (induction pages arbitrary: c)
  case Nil
  then show ?case by simp
next
  case (Cons page pages)
  obtain r c1 where r: "delete_keys R t page c = (r, c1)" by force
  obtain r' c2 where r': "ping_call c1 = (r', c2)" by force
  have c1: "invar (server c1)" using delete_keys_shrinks [OF Cons.prems(1), of t page] by (simp add: r shrinks_def)
  have c2: "server c2 = server c1" using ping_same [of c1] by (simp add: r')
  show ?case
    using Cons.IH [of c2] Cons.prems delete_keys_other [of c j page t] c1 c2 by (simp add: r r' split: sum.split)
qed

lemma delete_nodes_other:
  "invar (server c) \<Longrightarrow> list_all plain_char p \<Longrightarrow> \<not> startswith j p \<Longrightarrow>
    view (server (snd (delete_nodes R scan t (p @ ''*'') nodes c))) t j = view (server c) t j"
proof (induction nodes arbitrary: c)
  case Nil
  then show ?case by simp
next
  case (Cons n nodes)
  let ?f = "\<lambda>s. case scan t n (p @ ''*'') s of (pages, s') \<Rightarrow> (Inr pages :: redis_error + string list list, s')"
  obtain r c1 where r: "redis_call ?f c = (r, c1)" by force
  have same: "view (server c1) t = view (server c) t" and inv1: "invar (server c1)"
  proof -
    have "server c1 = server c \<or> server c1 = snd (scan t n (p @ ''*'') (server c))"
      using redis_call_server [of ?f c] unfolding r by (simp add: case_prod_beta)
    then show "view (server c1) t = view (server c) t" "invar (server c1)"
      using Cons.prems(1) scan_view [OF Cons.prems(1), of t n "p @ ''*''"] scan_invar [OF Cons.prems(1), of t n "p @ ''*''"]
      by (elim disjE; simp)+
  qed
  show ?case
  proof (cases r)
    case (Inl e)
    then show ?thesis using same by (simp add: r)
  next
    case (Inr pages)
    obtain r' c2 where r': "delete_pages R t pages c1 = (r', c2)" by force
    have "pages = fst (scan t n (p @ ''*'') (server c))"
      using redis_call_Inr [OF r [unfolded Inr]] by (auto split: prod.splits)
    then have "j \<notin> set (concat pages)" using scan_sound [OF Cons.prems(1,2)] Cons.prems(3) by blast
    then have "view (server c2) t j = view (server c) t j"
      using delete_pages_other [OF inv1, of j pages t] same by (simp add: r')
    moreover have "invar (server c2)" using delete_pages_shrinks [OF inv1, of t pages] by (simp add: r' shrinks_def)
    ultimately show ?thesis using Cons.IH [of c2] Cons.prems(2,3) by (simp add: r r' Inr split: sum.split)
  qed
qed

text \<open>On a reliable network the loop visits every page of every node.\<close>

lemma ping_reliable: "net c = [] \<Longrightarrow> ping_call c = (Inr (), c)"
  by (simp add: ping_call_def redis_call_reliable)

lemma delete_keys_reliable:
  assumes "invar (server c)" and "net c = []"
  shows "\<exists>c'. delete_keys R t ks c = (Inr (), c') \<and> net c' = [] \<and> (\<forall>k \<in> set ks. view (server c') t k = None)"
  using assms
proof (induction ks arbitrary: c)
  case Nil
  then show ?case by simp
next
  case (Cons k ks)
  let ?c1 = "c\<lparr>server := r_del R t k (server c)\<rparr>"
  have r: "delete_call R t k c = (Inr (), ?c1)" using Cons.prems(2) by (simp add: delete_call_def redis_call_reliable)
  have inv1: "invar (server ?c1)" and gone: "view (server ?c1) t k = None"
    using Cons.prems(1) by (simp_all add: server_invars server_views store_del_def)
  from Cons.IH [OF inv1] Cons.prems(2)
  obtain c' where c': "delete_keys R t ks ?c1 = (Inr (), c')" "net c' = []" "\<forall>k \<in> set ks. view (server c') t k = None"
    by auto
  have "view (server c') t k = None"
    using delete_keys_shrinks [OF inv1, of t ks] gone unfolding c'(1) shrinks_def by auto
  then show ?case using c' by (simp add: r)
qed

lemma delete_pages_reliable:
  assumes "invar (server c)" and "net c = []"
  shows "\<exists>c'. delete_pages R t pages c = (Inr (), c') \<and> net c' = []
    \<and> (\<forall>k \<in> set (concat pages). view (server c') t k = None)"
  using assms
proof (induction pages arbitrary: c)
  case Nil
  then show ?case by simp
next
  case (Cons page pages)
  obtain c1 where c1: "delete_keys R t page c = (Inr (), c1)" "net c1 = []" "\<forall>k \<in> set page. view (server c1) t k = None"
    using delete_keys_reliable [OF Cons.prems] by blast
  have inv1: "invar (server c1)" using delete_keys_shrinks [OF Cons.prems(1), of t page] by (simp add: c1 shrinks_def)
  from Cons.IH [OF inv1 c1(2)]
  obtain c' where c': "delete_pages R t pages c1 = (Inr (), c')" "net c' = []"
      "\<forall>k \<in> set (concat pages). view (server c') t k = None" by blast
  have "view (server c') t k = None" if "k \<in> set page" for k
    using delete_pages_shrinks [OF inv1, of t pages] c1(3) that unfolding c'(1) shrinks_def by auto
  then show ?case using c' c1 by (cases "pages = []") (auto simp: ping_reliable)
qed

lemma delete_nodes_reliable:
  assumes "invar (server c)" and "net c = []" and "list_all plain_char p"
  shows "\<exists>c'. delete_nodes R scan t (p @ ''*'') nodes c = (Inr (), c') \<and> net c' = [] \<and> invar (server c')
    \<and> (\<forall>k. startswith k p \<and> home k \<in> set nodes \<longrightarrow> view (server c') t k = None)"
  using assms(1,2)
proof (induction nodes arbitrary: c)
  case Nil
  then show ?case by simp
next
  case (Cons n nodes)
  obtain pages s1 where sc: "scan t n (p @ ''*'') (server c) = (pages, s1)" by force
  let ?c1 = "c\<lparr>server := s1\<rparr>"
  have call: "redis_call (\<lambda>s. case scan t n (p @ ''*'') s of (pages, s') \<Rightarrow> (Inr pages, s')) c = (Inr pages, ?c1)"
    using Cons.prems(2) by (simp add: redis_call_reliable sc)
  have inv1: "invar (server ?c1)" and view1: "view (server ?c1) t = view (server c) t"
    using scan_invar [OF Cons.prems(1), of t n "p @ ''*''"] scan_view [OF Cons.prems(1), of t n "p @ ''*''"]
    by (simp_all add: sc)
  have "net ?c1 = []" using Cons.prems(2) by simp
  from delete_pages_reliable [OF inv1 this]
  obtain c2 where c2: "delete_pages R t pages ?c1 = (Inr (), c2)" "net c2 = []"
      "\<forall>k \<in> set (concat pages). view (server c2) t k = None" by blast
  have shr: "shrinks t ?c1 c2" using delete_pages_shrinks [OF inv1, of t pages] by (simp add: c2(1))
  then have inv2: "invar (server c2)" by (simp add: shrinks_def)
  from Cons.IH [OF inv2 c2(2)]
  obtain c' where c': "delete_nodes R scan t (p @ ''*'') nodes c2 = (Inr (), c')" "net c' = []" "invar (server c')"
      "\<forall>k. startswith k p \<and> home k \<in> set nodes \<longrightarrow> view (server c') t k = None" by blast
  have "view (server c') t k = None" if k: "startswith k p" "home k = n" for k
  proof -
    have "view (server c2) t k = None"
    proof (cases "view (server c) t k = None")
      case True
      then show ?thesis using shr view1 unfolding shrinks_def by (metis empty_iff insert_iff)
    next
      case False
      have "k \<in> set (concat pages)" using scan_covers [OF Cons.prems(1) assms(3) k(1) False] k(2) by (simp add: sc)
      then show ?thesis using c2(3) by blast
    qed
    then show ?thesis
      using delete_nodes_shrinks [OF inv2, of t "p @ ''*''" nodes] unfolding c'(1) shrinks_def by (metis empty_iff insert_iff snd_conv)
  qed
  then show ?case using c' call c2(1) by auto
qed

text \<open>Memory and server hold only what was stored, with its expiry.\<close>

definition cache_fresh :: "(instant \<times> bool \<times> cache_op) list \<Rightarrow> instant \<Rightarrow> 's response_cache \<Rightarrow> bool" where
  "cache_fresh ops t w \<longleftrightarrow> invar (server (rc_client w))
     \<and> (\<forall>k v e. map_of (rc_memory w) k = Some (e, v) \<longrightarrow> stored_by ops t k v e)
     \<and> (\<forall>k v e. view (server (rc_client w)) t k = Some (v, e) \<longrightarrow> (\<exists>d. e = Some d \<and> stored_by ops t k v d))"

lemma cache_fresh_mono:
  assumes "cache_fresh ops t w" and "set ops \<subseteq> set ops'" and "shrinks t (rc_client w) (rc_client w')"
    and "\<And>k x. map_of (rc_memory w') k = Some x \<Longrightarrow> map_of (rc_memory w) k = Some x"
  shows "cache_fresh ops' t w'"
proof -
  have "view (server (rc_client w)) t k = Some x" if "view (server (rc_client w')) t k = Some x" for k x
    using assms(3) that unfolding shrinks_def by (metis empty_iff insert_iff option.distinct(1))
  moreover have "invar (server (rc_client w'))" using assms(3) by (simp add: shrinks_def)
  ultimately show ?thesis
    using assms(1,4) stored_by_mono [OF _ assms(2) order_refl] unfolding cache_fresh_def by meson
qed

lemma cache_fresh_aged:
  assumes "cache_fresh ops t w" and "t \<le> t'"
  shows "cache_fresh ops t' w"
proof -
  have "view (server (rc_client w)) t k = Some (v, e)" if "view (server (rc_client w)) t' k = Some (v, e)" for k v e
    using that view_aged [OF _ assms(2)] assms(1) by (auto simp: cache_fresh_def aged_def aged_entry_Some)
  then show ?thesis
    using assms(1) stored_by_mono [OF _ subset_refl assms(2)] unfolding cache_fresh_def by meson
qed

lemma get_call_shrinks: "invar (server c) \<Longrightarrow> shrinks t c (snd (get_call R t k c))"
  unfolding get_call_def
  by (rule shrinks_call) (simp_all add: case_prod_unfold server_views server_invars)

lemma get_call_value:
  assumes "invar (server c)" and "get_call R t k c = (Inr (Some v), c')"
  shows "\<exists>e. view (server c) t k = Some (v, e)"
  using redis_call_Inr [OF assms(2) [unfolded get_call_def]] get_value [OF assms(1), of t k]
  by (auto simp: store_get_def split: prod.splits)

lemma response_get_effect:
  assumes inv: "invar (server (rc_client w))" and run: "response_get R t b k w = (r, w')"
  shows "shrinks t (rc_client w) (rc_client w')"
    and "map_of (rc_memory w') j = Some x \<Longrightarrow> map_of (rc_memory w) j = Some x"
    and "r = Some v \<Longrightarrow> (\<exists>e. map_of (rc_memory w) k = Some (e, v) \<and> t \<le> e)
           \<or> (\<exists>e. view (server (rc_client w)) t k = Some (v, e))"
proof -
  obtain p c1 where p: "ping_call (rc_client w) = (p, c1)" by force
  obtain g c2 where g: "get_call R t k c1 = (g, c2)" by force
  have c1: "shrinks t (rc_client w) c1" using ping_shrinks [OF inv, of t] by (simp add: p)
  have same: "server c1 = server (rc_client w)" using ping_same [of "rc_client w"] by (simp add: p)
  have c2: "shrinks t c1 c2" using get_call_shrinks [of c1 t k] c1 by (simp add: g shrinks_def)
  note c12 = shrinks_trans [OF c1 c2]
  show "shrinks t (rc_client w) (rc_client w')"
    using run c1 c12 shrinks_refl [OF inv]
    by (auto simp: response_get_def Let_def p g split: if_splits sum.splits prod.splits)
  show "map_of (rc_memory w) j = Some x" if "map_of (rc_memory w') j = Some x"
    using run that memory_get_map(1) [of t k "rc_memory w" j x]
    by (auto simp: response_get_def Let_def p g split: if_splits sum.splits prod.splits)
  show "(\<exists>e. map_of (rc_memory w) k = Some (e, v) \<and> t \<le> e) \<or> (\<exists>e. view (server (rc_client w)) t k = Some (v, e))"
    if "r = Some v"
    using run that memory_get_map(2) [of t k "rc_memory w" v] get_call_value [of c1 t k v c2] inv same g
    by (auto simp: response_get_def Let_def p split: if_splits sum.splits prod.splits)
qed

lemma set_call_view:
  assumes "invar (server c)" and "0 < ttl"
  shows "invar (server (snd (set_call R t k v ttl c)))"
    and "view (server (snd (set_call R t k v ttl c))) t j \<in> {view (server c) t j, if j = k then Some (v, Some (t + second * ttl)) else view (server c) t j}"
  using redis_call_server [of "\<lambda>s. (Inr (), r_set_ex R t k v ttl s)" c] assms
  by (auto simp: set_call_def server_views server_invars store_set_ex_def)

lemma response_set_fresh:
  assumes "cache_fresh ops t w" and "(t, b, Store k v ttl) \<in> set ops"
  shows "cache_fresh ops t (response_set R t b k v ttl w)"
proof (cases "ttl \<le> 0")
  case True
  then show ?thesis using assms(1) by (simp add: response_set_def Let_def)
next
  case False
  then have new: "stored_by ops t k v (t + second * ttl)" using assms(2) unfolding stored_by_def
    by (intro exI [of _ t] exI [of _ b] exI [of _ ttl]) simp
  have inv: "invar (server (rc_client w))" using assms(1) by (simp add: cache_fresh_def)
  have memory: "cache_fresh ops t \<lparr>rc_client = c, rc_memory = memory_set t k v ttl (rc_memory w)\<rparr>"
    if "cache_fresh ops t (w\<lparr>rc_client := c\<rparr>)" for c
    using that new by (auto simp: cache_fresh_def memory_set_def update_conv')
  obtain r c1 where r: "set_call R t k v ttl (rc_client w) = (r, c1)" by force
  have "0 < ttl" using False by simp
  note set = set_call_view [OF inv this, of t k v]
  have "invar (server c1)" using set(1) by (simp add: r)
  moreover have "\<exists>d. e = Some d \<and> stored_by ops t j u d" if "view (server c1) t j = Some (u, e)" for j u e
    using set(2) [of j] that new assms(1) by (auto simp: r cache_fresh_def split: if_splits)
  ultimately have "cache_fresh ops t (w\<lparr>rc_client := c1\<rparr>)" using assms(1) by (auto simp: cache_fresh_def)
  then show ?thesis
    using False memory [of c1] memory [of "rc_client w"] assms(1)
    by (simp add: response_set_def Let_def r split: sum.split)
qed

lemma invalidate_prefix_effect:
  assumes "invar (server (rc_client w))"
  shows "shrinks t (rc_client w) (rc_client (invalidate_prefix S R scan nodes t b p w))"
    and "map_of (rc_memory (invalidate_prefix S R scan nodes t b p w)) k
           = (if startswith k p then None else map_of (rc_memory w) k)"
  using delete_nodes_shrinks [OF assms] shrinks_refl [OF assms]
    map_of_filter_key [of "\<lambda>key. \<not> startswith key p" "rc_memory w" k]
  by (simp_all add: invalidate_prefix_def Let_def)

lemma cache_step_fresh:
  assumes fresh: "cache_fresh ops t w" and "t \<le> t'"
  shows "cache_fresh (ops @ [(t', b, x)]) t' (cache_step S R scan nodes (t', b, x) w)"
proof -
  have now: "cache_fresh ops t' w" by (rule cache_fresh_aged [OF assms])
  then have inv: "invar (server (rc_client w))" by (simp add: cache_fresh_def)
  have more: "set ops \<subseteq> set (ops @ [(t', b, x)])" by auto
  show ?thesis
  proof (cases x)
    case (Lookup k)
    obtain r w' where r: "response_get R t' b k w = (r, w')" by force
    have "cache_fresh (ops @ [(t', b, x)]) t' w'"
      using response_get_effect(1,2) [OF inv r] by (rule cache_fresh_mono [OF now more])
    then show ?thesis by (simp add: Lookup r)
  next
    case (Store k v ttl)
    have "cache_fresh (ops @ [(t', b, x)]) t' w"
      by (rule cache_fresh_mono [OF now more shrinks_refl [OF inv]])
    then show ?thesis by (simp add: Store response_set_fresh)
  next
    case (Drop p)
    show ?thesis unfolding Drop cache_step.simps
      by (rule cache_fresh_mono [OF now more [unfolded Drop] invalidate_prefix_effect(1) [OF inv]])
        (simp add: invalidate_prefix_effect(2) [OF inv] split: if_splits)
  qed
qed

lemma run_cache_fresh:
  assumes "sorted (start # map fst ops)" and "cache_fresh [] start w"
  shows "cache_fresh ops (last (start # map fst ops)) (run_cache S R scan nodes ops w)"
  using assms(1)
proof (induction ops rule: rev_induct)
  case Nil
  then show ?case using assms(2) by (simp add: run_cache_def)
next
  case (snoc x ops)
  obtain t b y where x: "x = (t, b, y)" by (cases x)
  have sorted: "sorted (start # map fst ops @ [t])" using snoc.prems by (simp add: x)
  then have "last (start # map fst ops) \<le> t" by (rule sorted_last)
  then show ?case
    using cache_step_fresh [OF snoc.IH, of t b y] sorted by (simp add: run_cache_def x sorted_append)
qed

lemma looked_up_was_stored:
  assumes sorted: "sorted (start # map fst ops @ [t])" and "cache_fresh [] start w"
    and "fst (response_get R t b k (run_cache S R scan nodes ops w)) = Some v"
  shows "\<exists>t0 b' ttl. (t0, b', Store k v ttl) \<in> set ops \<and> t0 \<le> t \<and> t \<le> t0 + second * ttl"
proof -
  let ?w = "run_cache S R scan nodes ops w"
  have "sorted (start # map fst ops)" "last (start # map fst ops) \<le> t"
    using sorted_last [OF sorted] sorted by (simp_all add: sorted_append)
  then have now: "cache_fresh ops t ?w"
    using run_cache_fresh [OF _ assms(2)] cache_fresh_aged by blast
  then have inv: "invar (server (rc_client ?w))" by (simp add: cache_fresh_def)
  obtain w' where w': "response_get R t b k ?w = (Some v, w')" using assms(3) by (cases "response_get R t b k ?w") simp
  from response_get_effect(3) [OF inv w' refl]
  have "\<exists>d. stored_by ops t k v d \<and> t \<le> d"
  proof (elim disjE exE)
    fix e assume "map_of (rc_memory ?w) k = Some (e, v) \<and> t \<le> e"
    then show ?thesis using now unfolding cache_fresh_def by blast
  next
    fix e assume e: "view (server (rc_client ?w)) t k = Some (v, e)"
    then obtain d where d: "e = Some d" "stored_by ops t k v d" using now unfolding cache_fresh_def by blast
    then have "t < d" using view_live [OF inv] e by blast
    then show ?thesis using d(2) by (intro exI [of _ d]) simp
  qed
  then show ?thesis unfolding stored_by_def by blast
qed

lemma invalidation_clears:
  assumes "invar (server (rc_client w))" and "net (rc_client w) = []" and "list_all plain_char p"
    and "startswith k p" and "home k \<in> set (if REDIS_CLUSTER_ENABLED S then primaries else [0])"
  shows "fst (response_get R t b' k (invalidate_prefix S R scan primaries t True p w)) = None"
proof -
  let ?w = "invalidate_prefix S R scan primaries t True p w"
  obtain c' where c': "delete_nodes R scan t (p @ ''*'') (if REDIS_CLUSTER_ENABLED S then primaries else [0]) (rc_client w) = (Inr (), c')"
      "view (server c') t k = None"
    using delete_nodes_reliable [OF assms(1-3)] assms(4,5) by meson
  have client: "rc_client ?w = c'" using c'(1) by (simp add: invalidate_prefix_def Let_def)
  have memory: "map_of (rc_memory ?w) k = None" using invalidate_prefix_effect(2) [OF assms(1)] assms(4) by simp
  have inv: "invar (server (rc_client ?w))"
    using invalidate_prefix_effect(1) [OF assms(1)] unfolding shrinks_def by blast
  obtain r w' where r: "response_get R t b' k ?w = (r, w')" by force
  show ?thesis
    using response_get_effect(3) [OF inv r] memory c'(2) unfolding client r by (cases r) auto
qed

lemma invalidation_spares_others:
  assumes "invar (server (rc_client w))" and "list_all plain_char p" and "\<not> startswith k p"
  shows "view (server (rc_client (invalidate_prefix S R scan primaries t b p w))) t k = view (server (rc_client w)) t k
    \<and> map_of (rc_memory (invalidate_prefix S R scan primaries t b p w)) k = map_of (rc_memory w) k"
  using delete_nodes_other [OF assms] invalidate_prefix_effect(2) [OF assms(1)] assms(3)
  by (simp add: invalidate_prefix_def Let_def)

end

section \<open>The test double\<close>

definition fake_scan :: "fake scan" where
  "fake_scan t node pattern s = (case fake_scan_iter t pattern s of (ks, s') \<Rightarrow> ([ks], s'))"

interpretation fake_scan: scanned_server fake_redis fake_view fake_ok fake_scan "\<lambda>_. 0"
proof
  fix s t n and p k pattern :: string
  assume ok: "fake_ok s"
  obtain ks s' where sc: "fake_scan_iter t pattern s = (ks, s')" by force
  show "fake_view (snd (fake_scan t n pattern s)) t = fake_view s t" "fake_ok (snd (fake_scan t n pattern s))"
    using fake_scan_iter_result(1,2) [OF ok sc] by (simp_all add: fake_scan_def sc)
  obtain ks' s'' where sc': "fake_scan_iter t (p @ ''*'') s = (ks', s'')" by force
  assume plain: "list_all plain_char p"
  have mem: "k \<in> set (concat (fst (fake_scan t n' (p @ ''*'') s))) \<longleftrightarrow> fake_view s t k \<noteq> None \<and> startswith k p" for n'
    using fake_scan_iter_result(3) [OF ok sc', of k] fnmatchcase_prefix [OF plain, of k]
    by (simp add: fake_scan_def sc')
  show "k \<in> set (concat (fst (fake_scan t n (p @ ''*'') s))) \<Longrightarrow> startswith k p" using mem by blast
  show "startswith k p \<Longrightarrow> fake_view s t k \<noteq> None \<Longrightarrow> k \<in> set (concat (fst (fake_scan t 0 (p @ ''*'') s)))"
    using mem by blast
qed

section \<open>Properties\<close>

text \<open>
  C36: The response cache never invents or outlives a value. Whatever calls came before, with or
  without a client, whatever the network lost and however often the cache fell back to the memory
  of the process, a value it returns for a key was stored under that key earlier, by a call whose
  time to live has not passed.
\<close>

theorem cached_response_was_stored:
  assumes "scanned_server R view invar scan home" and "invar (server (rc_client w))"
    and "rc_memory w = []" and "view (server (rc_client w)) start = Map.empty"
    and "sorted (start # map fst ops @ [t])"
    and "fst (response_get R t b k (run_cache S R scan nodes ops w)) = Some v"
  shows "\<exists>t0 b' ttl. (t0, b', Store k v ttl) \<in> set ops \<and> t0 \<le> t \<and> t \<le> t0 + second * ttl"
proof -
  have "scanned_server.cache_fresh view invar [] start w"
    using assms(2-4) by (simp add: scanned_server.cache_fresh_def [OF assms(1)])
  from scanned_server.looked_up_was_stored [OF assms(1,5) this assms(6)] show ?thesis .
qed

text \<open>
  While the network delivers, invalidating a prefix of plain characters leaves nothing of it:
  neither Redis, on whichever node, nor the memory of the process answers for a key with the
  prefix; every other key keeps its entry in both.
\<close>

lemma invalidation_clears_prefix:
  assumes "scanned_server R view invar scan home" and "invar (server (rc_client w))"
    and "net (rc_client w) = []" and "list_all plain_char p"
    and "home k \<in> set (if REDIS_CLUSTER_ENABLED S then primaries else [0])"
  shows "if startswith k p
    then fst (response_get R t b k (invalidate_prefix S R scan primaries t True p w)) = None
    else view (server (rc_client (invalidate_prefix S R scan primaries t True p w))) t k
           = view (server (rc_client w)) t k
         \<and> map_of (rc_memory (invalidate_prefix S R scan primaries t True p w)) k = map_of (rc_memory w) k"
  using scanned_server.invalidation_clears [OF assms(1-4) _ assms(5), of t b]
    scanned_server.invalidation_spares_others [OF assms(1,2,4), of k S primaries t True] by simp

definition fresh_cache :: "fake response_cache" where
  "fresh_cache = \<lparr>rc_client = \<lparr>server = empty_fake, net = [Request_Lost], pool = []\<rparr>, rc_memory = []\<rparr>"

text \<open>The first call is lost, so the value is stored in memory; Redis is asked first, and the
  answer of the second instance, which has no client, is the value in memory.\<close>

lemma fallback_answers:
  "fst (response_get fake_redis 5 False ''k''
      (run_cache dev_settings fake_redis fake_scan [0] [(0, True, Store ''k'' ''v'' 60)] fresh_cache)) = Some ''v''"
  by (simp add: run_cache_def fresh_cache_def response_set_def response_get_def Let_def set_call_def redis_call_def
      memory_set_def memory_get_def second_def)

theorem cached_response_was_stored_witness:
  "\<exists>t0 b' ttl. (t0, b', Store ''k'' ''v'' ttl) \<in> set [(0, True, Store ''k'' ''v'' 60)] \<and> t0 \<le> 5 \<and> 5 \<le> t0 + second * ttl"
  by (rule cached_response_was_stored [OF fake_scan.scanned_server_axioms _ _ _ _ fallback_answers, of 0])
    (simp_all add: fresh_cache_def empty_fake_ok)

text \<open>
  The memory compares with \<open>startswith\<close>, Redis with a shell pattern made of the prefix: a
  key whose prefix has brackets stays in Redis.
\<close>

lemma glob_prefix_survives:
  "fst (response_get fake_redis 0 True ''a[x]1'' (invalidate_prefix dev_settings fake_redis fake_scan [0] 0 True ''a[x]''
      \<lparr>rc_client = \<lparr>server = fake_set 0 ''a[x]1'' ''v'' None empty_fake, net = [], pool = []\<rparr>, rc_memory = []\<rparr>)) = Some ''v''"
  by code_simp

end
