(* ===== verification/OriginMigration.thy ===== *)
theory OriginMigration
  imports Destinations Migrations
begin

text \<open>
  \<open>apps/routes/migrations/0009\<close>, which moves the destination of each route to the base URL of
  its backend service, and refuses routes the new scheme cannot express. Routes are in ascending
  primary key.
\<close>

section \<open>The schema before 0009\<close>

record origin_route =
  og_id :: pk
  og_project :: pk
  og_backend_service :: "pk option"
  og_base_path :: string
  og_target_url :: string

record origin_service =
  os_id :: pk
  os_project :: pk
  os_base_url :: string

section \<open>The migration\<close>

fun routes_by_service ::
    "origin_service table \<Rightarrow> origin_route list \<Rightarrow> (pk \<times> origin_route list) list \<Rightarrow> exn + (pk \<times> origin_route list) list" where
  "routes_by_service t [] gs = Inr gs"
| "routes_by_service t (r # rs) gs =
     (case og_backend_service r of
        None \<Rightarrow> if og_target_url r \<noteq> [] then Inl (RuntimeError ''target_url but no BackendService'')
                else routes_by_service t rs gs
      | Some i \<Rightarrow>
          (case objects_first (\<lambda>s. os_id s = i) t of
             None \<Rightarrow> Inl ObjectDoesNotExist
           | Some s \<Rightarrow>
               if og_project r \<noteq> os_project s then Inl (RuntimeError ''BackendService in another project'')
               else routes_by_service t rs (add_to_group (os_id s) r gs)))"

text \<open>One configured route: its origin, if the destination is that origin and the public path.\<close>

definition target_origin :: "origin_route \<Rightarrow> exn + string" where
  "target_origin r =
     (case urlsplit (og_target_url r) of
        None \<Rightarrow> Inl ValueError
      | Some parts \<Rightarrow>
          if u_scheme parts \<notin> {''http'', ''https''} \<or> url_hostname parts = None
             \<or> fst (url_userinfo parts) \<notin> {None, Some []} \<or> snd (url_userinfo parts) \<notin> {None, Some []}
             \<or> u_fragment parts \<noteq> [] \<or> u_query parts \<noteq> []
          then Inl (RuntimeError ''invalid destination'')
          else (let expected_path = CHR ''/'' # strip is_slash (og_base_path r);
                    path = rstrip is_slash (u_path parts)
                in if (if path = [] then ''/'' else path) \<noteq> expected_path
                   then Inl (RuntimeError ''public and backend paths must match'')
                   else Inr (u_scheme parts @ ''://'' @ u_netloc parts)))"

fun group_origins :: "origin_route list \<Rightarrow> string list \<Rightarrow> bool \<Rightarrow> exn + (string list \<times> bool)" where
  "group_origins [] origins has_empty_target = Inr (origins, has_empty_target)"
| "group_origins (r # rs) origins has_empty_target =
     (if og_target_url r = [] then group_origins rs origins True
      else and_then (target_origin r)
             (\<lambda>u. group_origins rs (if u \<in> set origins then origins else origins @ [u]) has_empty_target))"

definition set_base_url :: "pk \<times> origin_route list \<Rightarrow> origin_service table \<Rightarrow> exn + origin_service table" where
  "set_base_url kg t =
     and_then (group_origins (snd kg) [] False) (\<lambda>(origins, has_empty_target).
       if 1 < length origins then Inl (RuntimeError ''multiple origins'')
       else if has_empty_target \<and> origins \<noteq> [] then Inl (RuntimeError ''configured and unconfigured routes'')
       else Inr (if origins \<noteq> []
                 then objects_update os_id (fst kg) (\<lambda>s. s\<lparr>os_base_url := hd origins\<rparr>) t
                 else t))"

definition migrate_service_origins :: "origin_route list \<Rightarrow> origin_service table \<Rightarrow> exn + origin_service table" where
  "migrate_service_origins all_routes t =
     and_then (routes_by_service t all_routes []) (\<lambda>groups. for_each set_base_url groups t)"

section \<open>Groups\<close>

abbreviation service_of_route :: "origin_route \<Rightarrow> pk" where
  "service_of_route r \<equiv> the (og_backend_service r)"

lemma routes_by_service_Inr:
  assumes "routes_by_service t rs gs = Inr gs'"
  shows "gs' = foldl (\<lambda>gs r. add_to_group (service_of_route r) r gs) gs (filter (\<lambda>r. og_backend_service r \<noteq> None) rs)
    \<and> (\<forall>r \<in> set rs. case og_backend_service r of
          None \<Rightarrow> og_target_url r = []
        | Some i \<Rightarrow> \<exists>s \<in> set (rows t). os_id s = i \<and> os_project s = og_project r)"
  using assms
proof (induction t rs gs rule: routes_by_service.induct)
  case (1 t gs)
  then show ?case by simp
next
  case (2 t r rs gs)
  show ?case
  proof (cases "og_backend_service r")
    case None
    then show ?thesis using 2 by (auto split: if_splits)
  next
    case (Some i)
    then obtain s where s: "objects_first (\<lambda>s. os_id s = i) t = Some s" "og_project r = os_project s"
      "routes_by_service t rs (add_to_group (os_id s) r gs) = Inr gs'"
      using "2.prems" by (auto split: option.splits if_splits)
    have row: "s \<in> set (rows t)" "os_id s = i" using objects_first_Some [OF s(1)] by simp_all
    have "\<not> og_project r \<noteq> os_project s" using s(2) by simp
    note IH = "2.IH"(2) [OF Some s(1) this s(3)]
    show ?thesis using IH Some row s(2) by auto
  qed
qed

lemma group_origins_Inr:
  assumes "group_origins rs origins e = Inr (origins', e')"
  shows "set origins' = set origins \<union> {u. \<exists>r \<in> set rs. og_target_url r \<noteq> [] \<and> target_origin r = Inr u}
    \<and> (\<forall>r \<in> set rs. og_target_url r \<noteq> [] \<longrightarrow> (\<exists>u. target_origin r = Inr u))"
  using assms
proof (induction rs arbitrary: origins e)
  case Nil
  then show ?case by simp
next
  case (Cons r rs)
  show ?case
  proof (cases "og_target_url r = []")
    case True
    then show ?thesis using Cons by auto
  next
    case False
    then obtain u where u: "target_origin r = Inr u"
        "group_origins rs (if u \<in> set origins then origins else origins @ [u]) e = Inr (origins', e')"
      using Cons.prems by (auto simp: and_then_Inr)
    show ?thesis using Cons.IH [OF u(2)] u(1) False by auto
  qed
qed

text \<open>What a service becomes, given the groups.\<close>

definition with_origin :: "(pk \<times> origin_route list) list \<Rightarrow> origin_service \<Rightarrow> origin_service" where
  "with_origin gs s =
     (case map_of gs (os_id s) of
        None \<Rightarrow> s
      | Some rs \<Rightarrow> (case group_origins rs [] False of
             Inr (u # us, _) \<Rightarrow> s\<lparr>os_base_url := u\<rparr>
           | _ \<Rightarrow> s))"

lemma with_origin_id [simp]: "os_id (with_origin gs s) = os_id s" "os_project (with_origin gs s) = os_project s"
  by (auto simp: with_origin_def split: option.split sum.split prod.split list.split)

lemma set_base_urls:
  assumes "for_each set_base_url gs t = Inr t'" and "distinct (map fst gs)"
  shows "rows t' = map (with_origin gs) (rows t)
    \<and> (\<forall>(i, rs) \<in> set gs. \<exists>origins e. group_origins rs [] False = Inr (origins, e) \<and> length origins \<le> 1)"
  using assms
proof (induction gs arbitrary: t)
  case Nil
  then show ?case by (simp add: with_origin_def)
next
  case (Cons g gs)
  obtain i rs where g: "g = (i, rs)" by (cases g)
  obtain t1 where t1: "set_base_url (i, rs) t = Inr t1" "for_each set_base_url gs t1 = Inr t'"
    using Cons.prems(1) by (auto simp: and_then_Inr g)
  then obtain origins e where org: "group_origins rs [] False = Inr (origins, e)" "length origins \<le> 1"
      "t1 = (if origins \<noteq> [] then objects_update os_id i (\<lambda>s. s\<lparr>os_base_url := hd origins\<rparr>) t else t)"
    by (auto simp: set_base_url_def and_then_Inr split: if_splits)
  have fresh: "map_of gs i = None" using Cons.prems(2) by (simp add: g map_of_eq_None_iff)
  have one: "with_origin gs (if origins \<noteq> [] \<and> os_id s = i then s\<lparr>os_base_url := hd origins\<rparr> else s) = with_origin (g # gs) s" for s
    using fresh org(1) by (cases origins) (auto simp: with_origin_def g)
  have "rows t1 = map (\<lambda>s. if origins \<noteq> [] \<and> os_id s = i then s\<lparr>os_base_url := hd origins\<rparr> else s) (rows t)"
    by (simp add: org(3) table_simps)
  moreover have "rows t' = map (with_origin gs) (rows t1)"
    and "\<forall>(i, rs) \<in> set gs. \<exists>origins e. group_origins rs [] False = Inr (origins, e) \<and> length origins \<le> 1"
    using Cons.IH [OF t1(2)] Cons.prems(2) by simp_all
  ultimately show ?case using org(1,2) by (simp add: g one [unfolded g])
qed

section \<open>Destinations\<close>

lemma urlsplit_netloc:
  assumes "urlsplit v = Some u"
  shows "CHR ''/'' \<notin> set (u_netloc u)"
  using assms
  by (auto simp: urlsplit_def split_netloc_def is_delim_def Let_def split: prod.splits if_splits dest: set_takeWhileD)

lemma hostname_netloc: "url_hostname u \<noteq> None \<Longrightarrow> u_netloc u \<noteq> []"
  by (auto simp: url_hostname_def url_hostinfo_def rpartition_at_def partition_at_def Let_def)

lemma target_origin_Inr:
  assumes "target_origin r = Inr base"
  shows "\<exists>parts. urlsplit (og_target_url r) = Some parts \<and> base = u_scheme parts @ ''://'' @ u_netloc parts
    \<and> build_target_url (og_base_path r) base (og_base_path r)
        = Inr (base @ (if rstrip is_slash (u_path parts) = [] then ''/'' else rstrip is_slash (u_path parts)))"
proof -
  obtain parts where parts: "urlsplit (og_target_url r) = Some parts"
      "url_hostname parts \<noteq> None" "base = u_scheme parts @ ''://'' @ u_netloc parts"
      "(if rstrip is_slash (u_path parts) = [] then ''/'' else rstrip is_slash (u_path parts))
         = CHR ''/'' # strip is_slash (og_base_path r)"
    using assms by (auto simp: target_origin_def Let_def split: option.splits if_splits)
  have "u_netloc parts \<noteq> []" by (rule hostname_netloc [OF parts(2)])
  then have "last base \<in> set (u_netloc parts)" by (simp add: parts(3))
  then have "\<not> is_slash (last base)" using urlsplit_netloc [OF parts(1)] by (auto simp: is_slash_def)
  then have "rstrip is_slash base = base" by (intro rstrip_id) simp
  then have "build_target_url (og_base_path r) base (og_base_path r)
      = Inr (base @ (if rstrip is_slash (u_path parts) = [] then ''/'' else rstrip is_slash (u_path parts)))"
    unfolding parts(4) by (simp add: build_target_url_def Let_def normalize_path_eq)
  then show ?thesis using parts(1,3) by blast
qed

abbreviation served_by :: "origin_route list \<Rightarrow> pk \<Rightarrow> origin_route list" where
  "served_by all_routes i \<equiv>
    filter (\<lambda>r. service_of_route r = i) (filter (\<lambda>r. og_backend_service r \<noteq> None) all_routes)"

lemma migrate_service_origins_Inr:
  assumes "migrate_service_origins all_routes t = Inr t'"
  obtains gs where "rows t' = map (with_origin gs) (rows t)"
    and "\<forall>i. map_of gs i = (if served_by all_routes i = [] then None else Some (served_by all_routes i))"
    and "\<forall>i. served_by all_routes i \<noteq> [] \<longrightarrow>
      (\<exists>us e. group_origins (served_by all_routes i) [] False = Inr (us, e) \<and> length us \<le> 1)"
    and "\<forall>r \<in> set all_routes. case og_backend_service r of None \<Rightarrow> og_target_url r = []
        | Some i \<Rightarrow> \<exists>s \<in> set (rows t). os_id s = i \<and> os_project s = og_project r"
proof -
  obtain gs where gs: "routes_by_service t all_routes [] = Inr gs" "for_each set_base_url gs t = Inr t'"
    using assms by (auto simp: migrate_service_origins_def and_then_Inr)
  have groups: "gs = group_by service_of_route (filter (\<lambda>r. og_backend_service r \<noteq> None) all_routes)"
    and rows: "\<forall>r \<in> set all_routes. case og_backend_service r of None \<Rightarrow> og_target_url r = []
        | Some i \<Rightarrow> \<exists>s \<in> set (rows t). os_id s = i \<and> os_project s = og_project r"
    using routes_by_service_Inr [OF gs(1)] by (simp_all add: group_by_def)
  have "distinct (map fst gs)" unfolding groups by (rule group_by_distinct)
  note moved = set_base_urls [OF gs(2) this]
  have chosen: "map_of gs i = (if served_by all_routes i = [] then None else Some (served_by all_routes i))" for i
    unfolding groups by (rule map_of_group_by)
  have origins: "\<exists>us e. group_origins (served_by all_routes i) [] False = Inr (us, e) \<and> length us \<le> 1"
    if "served_by all_routes i \<noteq> []" for i
    using moved that chosen [of i] by (auto dest!: map_of_SomeD)
  show ?thesis using that [of gs] moved chosen origins rows by blast
qed

lemma unserved_service_unchanged:
  assumes run: "migrate_service_origins all_routes t = Inr t'" and s: "s \<in> set (rows t)"
    and none: "\<not> (\<exists>r \<in> set all_routes. og_backend_service r = Some (os_id s) \<and> og_target_url r \<noteq> [])"
  shows "s \<in> set (rows t')"
proof -
  let ?g = "served_by all_routes"
  obtain gs where rows': "rows t' = map (with_origin gs) (rows t)"
    and chosen [rule_format]: "\<forall>i. map_of gs i = (if ?g i = [] then None else Some (?g i))"
    and origins [rule_format]: "\<forall>i. ?g i \<noteq> [] \<longrightarrow> (\<exists>us e. group_origins (?g i) [] False = Inr (us, e) \<and> length us \<le> 1)"
    and rows: "\<forall>r \<in> set all_routes. case og_backend_service r of None \<Rightarrow> og_target_url r = []
        | Some i \<Rightarrow> \<exists>s \<in> set (rows t). os_id s = i \<and> os_project s = og_project r"
    by (rule migrate_service_origins_Inr [OF run])
  have "with_origin gs s = s"
  proof (cases "?g (os_id s) = []")
    case True
    then show ?thesis unfolding with_origin_def chosen by simp
  next
    case ne: False
    obtain us e where us: "group_origins (?g (os_id s)) [] False = Inr (us, e)" using origins [OF ne] by blast
    have "set us = {}" unfolding conjunct1 [OF group_origins_Inr [OF us]] using none by auto
    then have "us = []" by simp
    then show ?thesis unfolding with_origin_def chosen using us ne by simp
  qed
  moreover have "with_origin gs s \<in> set (rows t')" using rows' s by simp
  ultimately show ?thesis by simp
qed

lemma served_route_moved:
  assumes run: "migrate_service_origins all_routes t = Inr t'" and r: "r \<in> set all_routes" "og_target_url r \<noteq> []"
  shows "\<exists>s \<in> set (rows t'). \<exists>parts. og_backend_service r = Some (os_id s) \<and> os_project s = og_project r
         \<and> urlsplit (og_target_url r) = Some parts \<and> os_base_url s = u_scheme parts @ ''://'' @ u_netloc parts
         \<and> build_target_url (og_base_path r) (os_base_url s) (og_base_path r)
             = Inr (os_base_url s @ (if rstrip is_slash (u_path parts) = [] then ''/'' else rstrip is_slash (u_path parts)))"
proof -
  let ?g = "served_by all_routes"
  obtain gs where rows': "rows t' = map (with_origin gs) (rows t)"
    and chosen [rule_format]: "\<forall>i. map_of gs i = (if ?g i = [] then None else Some (?g i))"
    and origins [rule_format]: "\<forall>i. ?g i \<noteq> [] \<longrightarrow> (\<exists>us e. group_origins (?g i) [] False = Inr (us, e) \<and> length us \<le> 1)"
    and rows: "\<forall>r \<in> set all_routes. case og_backend_service r of None \<Rightarrow> og_target_url r = []
        | Some i \<Rightarrow> \<exists>s \<in> set (rows t). os_id s = i \<and> os_project s = og_project r"
    by (rule migrate_service_origins_Inr [OF run])
  obtain i where i: "og_backend_service r = Some i" using rows r by (cases "og_backend_service r") auto
  obtain s where s: "s \<in> set (rows t)" "os_id s = i" "os_project s = og_project r" using rows r(1) i by fastforce
  have mem: "r \<in> set (?g i)" using r(1) i by simp
  then have ne: "?g i \<noteq> []" by (metis empty_iff list.set(1))
  obtain us e where us: "group_origins (?g i) [] False = Inr (us, e)" "length us \<le> 1" using origins [OF ne] by blast
  note org = group_origins_Inr [OF us(1)]
  obtain u where u: "target_origin r = Inr u" using org mem r(2) by blast
  have "u \<in> set us" unfolding conjunct1 [OF org] using u mem r(2) by blast
  then have "us = [u]" using us(2) by (cases us) auto
  then have base: "os_base_url (with_origin gs s) = u"
    unfolding with_origin_def s(2) chosen using ne us(1) by simp
  have row: "with_origin gs s \<in> set (rows t')" using rows' s(1) by simp
  show ?thesis
    using target_origin_Inr [OF u] i s(2,3) by (intro bexI [OF _ row]) (simp add: base)
qed


definition legacy_route :: "string \<Rightarrow> origin_route" where
  "legacy_route target = \<lparr>og_id = 1, og_project = 1, og_backend_service = Some 3, og_base_path = ''/a'', og_target_url = target\<rparr>"

definition legacy_services :: "string \<Rightarrow> origin_service table" where
  "legacy_services base = \<lparr>rows = [\<lparr>os_id = 3, os_project = 1, os_base_url = base\<rparr>], last_pk = 3\<rparr>"

lemma legacy_migrates:
  "migrate_service_origins [legacy_route ''http://d:80/a/''] (legacy_services []) = Inr (legacy_services ''http://d:80'')"
  by code_simp


end
