(* ===== verification/EarlyMigrations.thy ===== *)
theory EarlyMigrations
  imports AdminRoutes Migrations
begin

text \<open>
  The older data migrations: \<open>routes/migrations/0004\<close> (the service names of routes become rows),
  \<open>routes/migrations/0005\<close> (the first target of a route becomes its URL),
  \<open>authentication/migrations/0008\<close> (every key gets an application) and \<open>0009\<close> (one key per
  application). Rows are in ascending primary key.
\<close>

section \<open>Keys without application\<close>

record old_key =
  ok_id :: pk
  ok_project :: pk
  ok_application :: "pk option"

definition is_default_application :: "pk \<Rightarrow> application \<Rightarrow> bool" where
  "is_default_application project a \<longleftrightarrow> app_project a = project \<and> app_slug a = ''default-application''"

definition default_application :: "instant \<Rightarrow> pk \<Rightarrow> pk \<Rightarrow> application" where
  "default_application now project i =
     \<lparr>app_id = i, app_project = project, app_name = ''Default Application'', app_slug = ''default-application'',
      app_plan = PLAN_NORMAL, app_is_active = True, app_created_at = now, app_updated_at = now\<rparr>"

definition get_or_create_default ::
    "instant \<Rightarrow> pk \<Rightarrow> application table \<Rightarrow> exn + application \<times> application table" where
  "get_or_create_default now project t =
     (case objects_first (is_default_application project) t of
        Some a \<Rightarrow> Inr (a, t)
      | None \<Rightarrow> insert_row application_clash (default_application now project) t)"

definition backfill_key ::
    "instant \<Rightarrow> old_key \<Rightarrow> old_key table \<times> application table \<Rightarrow> exn + old_key table \<times> application table" where
  "backfill_key now k s =
     and_then (get_or_create_default now (ok_project k) (snd s)) (\<lambda>(a, t).
       Inr (objects_update ok_id (ok_id k) (\<lambda>x. x\<lparr>ok_application := Some (app_id a)\<rparr>) (fst s), t))"

definition backfill_application ::
    "instant \<Rightarrow> old_key table \<times> application table \<Rightarrow> exn + old_key table \<times> application table" where
  "backfill_application now s =
     for_each (backfill_key now) (objects_filter (\<lambda>k. ok_application k = None) (fst s)) s"

definition validate_single_key_per_application :: "old_key table \<Rightarrow> exn + unit" where
  "validate_single_key_per_application t =
     (if list_ex (\<lambda>k. 1 < length (filter (\<lambda>x. ok_application x = ok_application k) (rows t))) (rows t)
      then Inl (RuntimeError ''Multiple API keys exist for one or more applications.'') else Inr ())"

text \<open>The default application a project has, as \<open>get_or_create\<close> finds it.\<close>

definition default_of :: "application table \<Rightarrow> pk \<Rightarrow> pk option" where
  "default_of t project = map_option app_id (objects_first (is_default_application project) t)"

definition extends :: "application table \<Rightarrow> application table \<Rightarrow> bool" where
  "extends t t' \<longleftrightarrow> (\<exists>new. rows t' = rows t @ new) \<and> (wf_table app_id application_clash t \<longrightarrow> wf_table app_id application_clash t')"

lemma extends_refl: "extends t t"
  by (simp add: extends_def)

lemma extends_trans: "extends t t' \<Longrightarrow> extends t' t'' \<Longrightarrow> extends t t''"
  by (auto simp: extends_def)

lemma default_of_extends: "extends t t' \<Longrightarrow> default_of t p = Some i \<Longrightarrow> default_of t' p = Some i"
  by (auto simp: extends_def default_of_def objects_first_def find_append)

lemma get_or_create_default_Inr:
  "\<exists>a t'. get_or_create_default now p t = Inr (a, t') \<and> extends t t' \<and> default_of t' p = Some (app_id a)"
proof (cases "objects_first (is_default_application p) t")
  case (Some a)
  then show ?thesis by (simp add: get_or_create_default_def default_of_def extends_refl)
next
  case None
  then have none: "find (is_default_application p) (rows t) = None" by (simp add: objects_first_def)
  have "\<not> application_clash (default_application now p (last_pk t + 1)) x" if "x \<in> set (rows t)" for x
  proof -
    have "\<not> is_default_application p x" using none that by (auto simp: find_None_iff)
    then show ?thesis by (auto simp: application_clash_def default_application_def is_default_application_def)
  qed
  then have "insert_row application_clash (default_application now p) t = Inr (objects_create (default_application now p) t)"
    by (simp add: insert_row_def objects_exists_iff)
  then obtain a t' where ins: "insert_row application_clash (default_application now p) t = Inr (a, t')"
    by (metis prod.collapse)
  have wf: "wf_table app_id application_clash t \<Longrightarrow> wf_table app_id application_clash t'"
    using application.insert_wf [OF _ ins] by (simp add: default_application_def)
  have "default_of t' p = Some (app_id a)"
    using none insert_row_Inr(1,2) [OF ins]
    by (simp add: default_of_def objects_first_def find_append is_default_application_def default_application_def)
  then show ?thesis
    using None ins insert_row_Inr(2) [OF ins] wf by (auto simp: get_or_create_default_def extends_def)
qed

definition filled :: "application table \<Rightarrow> pk set \<Rightarrow> old_key \<Rightarrow> old_key" where
  "filled t I k = (if ok_id k \<in> I then k\<lparr>ok_application := default_of t (ok_project k)\<rparr> else k)"

lemma backfill_keys:
  assumes "distinct (map ok_id ks)" and "set ks \<subseteq> set (rows t)" and "distinct (map ok_id (rows t))"
  shows "\<exists>t' A'. for_each (backfill_key now) ks (t, A) = Inr (t', A') \<and> extends A A'
    \<and> rows t' = map (filled A' (ok_id ` set ks)) (rows t) \<and> (\<forall>k \<in> set ks. default_of A' (ok_project k) \<noteq> None)"
  using assms
proof (induction ks arbitrary: t A)
  case Nil
  then show ?case by (simp add: extends_refl filled_def)
next
  case (Cons k ks)
  obtain a A1 where A1: "get_or_create_default now (ok_project k) A = Inr (a, A1)" "extends A A1"
      "default_of A1 (ok_project k) = Some (app_id a)"
    using get_or_create_default_Inr by blast
  let ?t1 = "objects_update ok_id (ok_id k) (\<lambda>x. x\<lparr>ok_application := Some (app_id a)\<rparr>) t"
  have step: "backfill_key now k (t, A) = Inr (?t1, A1)" by (simp add: backfill_key_def A1(1))
  have ids: "map ok_id (rows ?t1) = map ok_id (rows t)" by (simp add: table_simps)
  have "set ks \<subseteq> set (rows ?t1)"
  proof
    fix x assume x: "x \<in> set ks"
    moreover have "ok_id k \<notin> ok_id ` set ks" using Cons.prems(1) by simp
    ultimately have "ok_id x \<noteq> ok_id k" by (metis image_eqI)
    then have "x = (if ok_id x = ok_id k then x\<lparr>ok_application := Some (app_id a)\<rparr> else x)" by simp
    moreover have "x \<in> set (rows t)" using Cons.prems(2) x by auto
    ultimately show "x \<in> set (rows ?t1)" unfolding objects_update_rows set_map by (rule image_eqI)
  qed
  then obtain t' A' where run: "for_each (backfill_key now) ks (?t1, A1) = Inr (t', A')" "extends A1 A'"
      "rows t' = map (filled A' (ok_id ` set ks)) (rows ?t1)" "\<forall>k \<in> set ks. default_of A' (ok_project k) \<noteq> None"
    using Cons.IH [of ?t1 A1] Cons.prems(1,3) ids by auto
  note dflt = default_of_extends [OF run(2) A1(3)]
  have fresh: "ok_id k \<notin> ok_id ` set ks" using Cons.prems(1) by simp
  have proj: "ok_project x = ok_project k" if "x \<in> set (rows t)" "ok_id x = ok_id k" for x
  proof -
    have "x = k" using Cons.prems(2,3) that by (auto simp: distinct_map inj_on_def)
    then show ?thesis by simp
  qed
  have "rows t' = map (filled A' (ok_id ` set (k # ks))) (rows t)"
    unfolding run(3) objects_update_rows map_map
  proof (rule map_cong [OF refl])
    fix x assume x: "x \<in> set (rows t)"
    show "(filled A' (ok_id ` set ks) \<circ> (\<lambda>x. if ok_id x = ok_id k then x\<lparr>ok_application := Some (app_id a)\<rparr> else x)) x
        = filled A' (ok_id ` set (k # ks)) x"
      using fresh proj [OF x] dflt by (cases "ok_id x = ok_id k") (simp_all add: filled_def)
  qed
  then show ?case using step run(1,4) extends_trans [OF A1(2) run(2)] dflt by simp
qed

lemma validate_single_key_iff:
  "is_ok (validate_single_key_per_application t) \<longleftrightarrow> distinct (map ok_application (rows t))"
proof -
  have "distinct (map f xs) \<longleftrightarrow> (\<forall>k \<in> set xs. length (filter (\<lambda>x. f x = f k) xs) \<le> 1)" for f :: "old_key \<Rightarrow> pk option" and xs
  proof (induction xs)
    case Nil
    then show ?case by simp
  next
    case (Cons y ys)
    have empty: "length (filter (\<lambda>x. f x = f y) ys) = 0 \<longleftrightarrow> f y \<notin> f ` set ys"
      unfolding length_0_conv filter_empty_conv image_iff by metis
    show ?case
    proof (cases "f y \<in> f ` set ys")
      case True
      then have "1 < length (filter (\<lambda>x. f x = f y) (y # ys))" using empty by simp
      then show ?thesis using True by force
    next
      case False
      then have "filter (\<lambda>x. f x = f y) ys = []" using empty by simp
      moreover have "filter (\<lambda>x. f x = f k) (y # ys) = filter (\<lambda>x. f x = f k) ys" if "k \<in> set ys" for k
        using False that by auto
      ultimately show ?thesis using Cons.IH False by simp
    qed
  qed
  from this [of ok_application "rows t"] show ?thesis
    by (auto simp: validate_single_key_per_application_def list_ex_iff not_less)
qed

lemma filled_belongs:
  assumes "ok_id k \<in> S \<longleftrightarrow> ok_application k = None"
    and "ok_application k = None \<Longrightarrow> default_of A (ok_project k) \<noteq> None"
    and "\<And>i. ok_application k = Some i \<Longrightarrow> \<exists>a \<in> set (rows A). app_id a = i \<and> app_project a = ok_project k"
  shows "\<exists>a \<in> set (rows A). ok_application (filled A S k) = Some (app_id a) \<and> app_project a = ok_project k"
proof (cases "ok_application k")
  case None
  then obtain a where a: "objects_first (is_default_application (ok_project k)) A = Some a"
    using assms(2) by (auto simp: default_of_def)
  then show ?thesis
    using objects_first_Some [OF a] assms(1) None
    by (auto simp: filled_def default_of_def is_default_application_def)
next
  case (Some i)
  then have "filled A S k = k" using assms(1) by (simp add: filled_def)
  then show ?thesis using assms(3) Some by fastforce
qed

text \<open>
  Migration \<open>authentication/0008\<close> always completes. Afterwards every key has an application
  of its own project, keys that had one and all existing applications are as they were, and the
  keys of a project that had none share its default application, so that \<open>0009\<close> then refuses
  exactly the databases in which two keys share an application.
\<close>

lemma keys_backfilled:
  assumes "distinct (map ok_id (rows t))" and "wf_table app_id application_clash A"
    and "\<forall>k \<in> set (rows t). \<forall>i. ok_application k = Some i \<longrightarrow>
           (\<exists>a \<in> set (rows A). app_id a = i \<and> app_project a = ok_project k)"
  shows "\<exists>t' A'. backfill_application now (t, A) = Inr (t', A')
    \<and> (\<forall>k \<in> set (rows t'). \<exists>a \<in> set (rows A'). ok_application k = Some (app_id a) \<and> app_project a = ok_project k)
    \<and> (\<forall>k \<in> set (rows t). ok_application k \<noteq> None \<longrightarrow> k \<in> set (rows t'))
    \<and> set (rows A) \<subseteq> set (rows A') \<and> wf_table app_id application_clash A'
    \<and> map (\<lambda>k. (ok_id k, ok_project k)) (rows t') = map (\<lambda>k. (ok_id k, ok_project k)) (rows t)
    \<and> (is_ok (validate_single_key_per_application t') \<longleftrightarrow> distinct (map ok_application (rows t')))"
proof -
  let ?ks = "objects_filter (\<lambda>k. ok_application k = None) t"
  have "distinct (map ok_id ?ks)" using assms(1) by (simp add: objects_filter_def distinct_map_filter)
  moreover have "set ?ks \<subseteq> set (rows t)" by (simp add: objects_filter_def)
  ultimately obtain t' A' where run: "for_each (backfill_key now) ?ks (t, A) = Inr (t', A')" "extends A A'"
      "rows t' = map (filled A' (ok_id ` set ?ks)) (rows t)" "\<forall>k \<in> set ?ks. default_of A' (ok_project k) \<noteq> None"
    using backfill_keys [OF _ _ assms(1), of ?ks now A] by blast
  have todo: "ok_id k \<in> ok_id ` set ?ks \<longleftrightarrow> ok_application k = None" if "k \<in> set (rows t)" for k
    using that assms(1) by (auto simp: objects_filter_def distinct_map inj_on_def)
  have sub: "set (rows A) \<subseteq> set (rows A')" using run(2) by (auto simp: extends_def)
  have "\<exists>a \<in> set (rows A'). ok_application (filled A' (ok_id ` set ?ks) k) = Some (app_id a) \<and> app_project a = ok_project k"
    if k: "k \<in> set (rows t)" for k
  proof (rule filled_belongs [OF todo [OF k]])
    show "default_of A' (ok_project k) \<noteq> None" if "ok_application k = None"
      using run(4) k that by (simp add: objects_filter_def)
    show "\<exists>a \<in> set (rows A'). app_id a = i \<and> app_project a = ok_project k" if "ok_application k = Some i" for i
      using assms(3) k that sub by fastforce
  qed
  note own_one = this
  have own: "\<forall>k' \<in> set (rows t'). \<exists>a \<in> set (rows A'). ok_application k' = Some (app_id a) \<and> app_project a = ok_project k'"
  proof
    fix k' assume "k' \<in> set (rows t')"
    then obtain k where k: "k \<in> set (rows t)" "k' = filled A' (ok_id ` set ?ks) k" unfolding run(3) by auto
    have "ok_project k' = ok_project k" unfolding k(2) filled_def by simp
    then show "\<exists>a \<in> set (rows A'). ok_application k' = Some (app_id a) \<and> app_project a = ok_project k'"
      using own_one [OF k(1), folded k(2)] by simp
  qed
  have kept: "\<forall>k \<in> set (rows t). ok_application k \<noteq> None \<longrightarrow> k \<in> set (rows t')"
  proof (intro ballI impI)
    fix k assume k: "k \<in> set (rows t)" "ok_application k \<noteq> None"
    have "ok_id k \<notin> ok_id ` set ?ks" unfolding todo [OF k(1)] by (rule k(2))
    then have "k = filled A' (ok_id ` set ?ks) k" unfolding filled_def by simp
    then show "k \<in> set (rows t')" unfolding run(3) set_map using k(1) by (rule image_eqI)
  qed
  have same: "map (\<lambda>k. (ok_id k, ok_project k)) (rows t') = map (\<lambda>k. (ok_id k, ok_project k)) (rows t)"
    unfolding run(3) by (simp add: filled_def)
  have wf: "wf_table app_id application_clash A'" using run(2) assms(2) by (simp add: extends_def)
  have "backfill_application now (t, A) = Inr (t', A')" using run(1) by (simp add: backfill_application_def)
  then show ?thesis using own kept sub wf same validate_single_key_iff by blast
qed

section \<open>Services from names\<close>

record named_route =
  nr_id :: pk
  nr_project :: pk
  nr_downstream_service :: string
  nr_backend_service :: "pk option"

record named_service =
  ns_id :: pk
  ns_project :: pk
  ns_slug :: string
  ns_name :: string

definition service_slug_of :: "string \<Rightarrow> string" where
  "service_slug_of downstream = (if downstream = [] then ''backend-service'' else downstream)"

definition stored_slug :: "(string \<Rightarrow> string) \<Rightarrow> string \<Rightarrow> string" where
  "stored_slug slugify downstream =
     (let slug = slugify (service_slug_of downstream) in if slug = [] then ''backend-service'' else slug)"

definition named_service_for ::
    "(string \<Rightarrow> string) \<Rightarrow> named_route \<Rightarrow> named_service table \<Rightarrow> named_service \<times> named_service table" where
  "named_service_for slugify r t =
     (let slug = stored_slug slugify (nr_downstream_service r)
      in case objects_first (\<lambda>s. ns_project s = nr_project r \<and> ns_slug s = slug) t of
           Some s \<Rightarrow> (s, t)
         | None \<Rightarrow> objects_create (\<lambda>i. \<lparr>ns_id = i, ns_project = nr_project r, ns_slug = slug,
             ns_name = py_title False (map (\<lambda>c. if c = CHR ''-'' then CHR '' '' else c)
                                         (service_slug_of (nr_downstream_service r)))\<rparr>) t)"

fun copy_services ::
    "(string \<Rightarrow> string) \<Rightarrow> named_route list \<Rightarrow> named_route table \<times> named_service table
       \<Rightarrow> named_route table \<times> named_service table" where
  "copy_services slugify [] s = s"
| "copy_services slugify (r # rs) (routes_t, services_t) =
     (case named_service_for slugify r services_t of (service, services_t') \<Rightarrow>
        copy_services slugify rs
          (objects_update nr_id (nr_id r) (\<lambda>x. x\<lparr>nr_backend_service := Some (ns_id service)\<rparr>) routes_t, services_t'))"

definition copy_downstream_services ::
    "(string \<Rightarrow> string) \<Rightarrow> named_route table \<Rightarrow> named_route table \<times> named_service table" where
  "copy_downstream_services slugify t = copy_services slugify (rows t) (t, empty_table)"

abbreviation slugs_distinct :: "named_service table \<Rightarrow> bool" where
  "slugs_distinct t \<equiv> distinct (map (\<lambda>s. (ns_project s, ns_slug s)) (rows t))"

lemma named_service_for_result:
  assumes "named_service_for slugify r t = (s, t')" and "slugs_distinct t"
  shows "s \<in> set (rows t')" "ns_project s = nr_project r" "ns_slug s = stored_slug slugify (nr_downstream_service r)"
    "set (rows t) \<subseteq> set (rows t')" "slugs_distinct t'"
proof -
  let ?P = "\<lambda>s. ns_project s = nr_project r \<and> ns_slug s = stored_slug slugify (nr_downstream_service r)"
  have "s \<in> set (rows t') \<and> ?P s \<and> set (rows t) \<subseteq> set (rows t') \<and> slugs_distinct t'"
  proof (cases "objects_first ?P t")
    case (Some u)
    then show ?thesis using assms objects_first_Some [OF Some] by (simp add: named_service_for_def Let_def)
  next
    case None
    then have none: "(nr_project r, stored_slug slugify (nr_downstream_service r)) \<notin> (\<lambda>s. (ns_project s, ns_slug s)) ` set (rows t)"
      by (force simp: objects_first_def find_None_iff)
    have "rows t' = rows t @ [s]" "?P s"
      using assms(1) None by (auto simp: named_service_for_def Let_def objects_create_def)
    then show ?thesis using assms(2) none by (simp add: subset_insertI)
  qed
  then show "s \<in> set (rows t')" "ns_project s = nr_project r" "ns_slug s = stored_slug slugify (nr_downstream_service r)"
    "set (rows t) \<subseteq> set (rows t')" "slugs_distinct t'" by blast+
qed

text \<open>Each route gets a service of its project with the slug of its old name; slugs stay unique per
  project, so the constraint the migration adds afterwards holds.\<close>

definition served :: "(string \<Rightarrow> string) \<Rightarrow> named_service table \<Rightarrow> named_route \<Rightarrow> bool" where
  "served slugify t r \<longleftrightarrow> (\<exists>s \<in> set (rows t). nr_backend_service r = Some (ns_id s) \<and> ns_project s = nr_project r
     \<and> ns_slug s = stored_slug slugify (nr_downstream_service r))"

lemma copy_services_result:
  assumes "copy_services slugify rs (t, st) = (t', st')" and "slugs_distinct st"
    and "distinct (map nr_id (rows t))" and "set (map nr_id rs) \<subseteq> set (map nr_id (rows t))"
    and "\<And>r x. r \<in> set rs \<Longrightarrow> x \<in> set (rows t) \<Longrightarrow> nr_id x = nr_id r \<Longrightarrow>
      nr_project x = nr_project r \<and> nr_downstream_service x = nr_downstream_service r"
    and "\<And>x. x \<in> set (rows t) \<Longrightarrow> served slugify st x \<or> nr_id x \<in> set (map nr_id rs)"
  shows "slugs_distinct st' \<and> (\<forall>x \<in> set (rows t'). served slugify st' x) \<and> map nr_id (rows t') = map nr_id (rows t)"
  using assms
proof (induction rs arbitrary: t st)
  case Nil
  then show ?case by auto
next
  case (Cons r rs)
  obtain s st1 where s: "named_service_for slugify r st = (s, st1)" by force
  let ?t1 = "objects_update nr_id (nr_id r) (\<lambda>x. x\<lparr>nr_backend_service := Some (ns_id s)\<rparr>) t"
  note res = named_service_for_result [OF s Cons.prems(2)]
  have run: "copy_services slugify rs (?t1, st1) = (t', st')" using Cons.prems(1) by (simp add: s)
  have ids: "map nr_id (rows ?t1) = map nr_id (rows t)" by (simp add: table_simps)
  have row: "\<exists>x0 \<in> set (rows t). nr_id x0 = nr_id x \<and> nr_project x0 = nr_project x
      \<and> nr_downstream_service x0 = nr_downstream_service x
      \<and> (if nr_id x = nr_id r then nr_backend_service x = Some (ns_id s) else x = x0)" if "x \<in> set (rows ?t1)" for x
  proof -
    obtain x0 where "x0 \<in> set (rows t)" "x = (if nr_id x0 = nr_id r then x0\<lparr>nr_backend_service := Some (ns_id s)\<rparr> else x0)"
      using \<open>x \<in> set (rows ?t1)\<close> unfolding objects_update_rows set_map by blast
    then show ?thesis by (intro bexI [of _ x0]) (simp_all split: if_splits)
  qed
  have "slugs_distinct st' \<and> (\<forall>x \<in> set (rows t'). served slugify st' x) \<and> map nr_id (rows t') = map nr_id (rows ?t1)"
  proof (rule Cons.IH [OF run res(5)])
    show "distinct (map nr_id (rows ?t1))" "set (map nr_id rs) \<subseteq> set (map nr_id (rows ?t1))"
      using Cons.prems(3,4) by (simp_all only: ids) simp
  next
    fix q x assume q: "q \<in> set rs" and x: "x \<in> set (rows ?t1)" and id: "nr_id x = nr_id q"
    obtain x0 where x0: "x0 \<in> set (rows t)" "nr_id x0 = nr_id x" "nr_project x0 = nr_project x"
        "nr_downstream_service x0 = nr_downstream_service x" using row [OF x] by blast
    have "q \<in> set (r # rs)" using q by simp
    note old = Cons.prems(5) [OF this x0(1) trans [OF x0(2) id]]
    show "nr_project x = nr_project q \<and> nr_downstream_service x = nr_downstream_service q"
      unfolding x0(3,4) [symmetric] by (rule old)
  next
    fix x assume x: "x \<in> set (rows ?t1)"
    then obtain x0 where x0: "x0 \<in> set (rows t)" "nr_id x0 = nr_id x" "nr_project x0 = nr_project x"
        "nr_downstream_service x0 = nr_downstream_service x"
        "if nr_id x = nr_id r then nr_backend_service x = Some (ns_id s) else x = x0" using row by blast
    show "served slugify st1 x \<or> nr_id x \<in> set (map nr_id rs)"
    proof (cases "nr_id x = nr_id r")
      case True
      then have "served slugify st1 x"
        using x0 res(1-3) Cons.prems(5) [of r x0] unfolding served_def by (intro bexI [of _ s]) simp_all
      then show ?thesis ..
    next
      case False
      then show ?thesis using x0 Cons.prems(6) [OF x0(1)] res(4) by (auto simp: served_def)
    qed
  qed
  then show ?case using ids by simp
qed

lemma services_copied:
  assumes "distinct (map nr_id (rows t))"
  shows "slugs_distinct (snd (copy_downstream_services slugify t))
    \<and> (\<forall>r \<in> set (rows (fst (copy_downstream_services slugify t))). served slugify (snd (copy_downstream_services slugify t)) r)
    \<and> map nr_id (rows (fst (copy_downstream_services slugify t))) = map nr_id (rows t)"
proof -
  obtain t' st' where run: "copy_services slugify (rows t) (t, empty_table) = (t', st')" by force
  have "slugs_distinct (empty_table :: named_service table)" by (simp add: empty_table_def)
  from copy_services_result [OF run this assms] show ?thesis
    using assms by (auto simp: copy_downstream_services_def run distinct_map inj_on_def)
qed

section \<open>URLs from targets\<close>

record route_target =
  tg_id :: pk
  tg_route :: pk
  tg_url :: string
  tg_is_active :: bool

record target_route =
  tr_id :: pk
  tr_target_url :: string

definition first_target :: "route_target table \<Rightarrow> pk \<Rightarrow> route_target option" where
  "first_target ts i =
     (case objects_first (\<lambda>x. tg_route x = i \<and> tg_is_active x) ts of
        Some x \<Rightarrow> Some x
      | None \<Rightarrow> objects_first (\<lambda>x. tg_route x = i) ts)"

definition copy_first_target_url :: "route_target table \<Rightarrow> target_route table \<Rightarrow> target_route table" where
  "copy_first_target_url ts t =
     foldl (\<lambda>t r. case first_target ts (tr_id r) of
         None \<Rightarrow> t
       | Some x \<Rightarrow> objects_update tr_id (tr_id r) (\<lambda>r. r\<lparr>tr_target_url := tg_url x\<rparr>) t) t (rows t)"

text \<open>Row by row, an active target wins over all inactive ones; a route without targets keeps its URL.\<close>

lemma copy_first_target_rows:
  assumes "distinct (map tr_id (rows t))"
  shows "rows (copy_first_target_url ts t) =
    map (\<lambda>r. case first_target ts (tr_id r) of None \<Rightarrow> r | Some x \<Rightarrow> r\<lparr>tr_target_url := tg_url x\<rparr>) (rows t)"
proof -
  let ?new = "\<lambda>r. case first_target ts (tr_id r) of None \<Rightarrow> r | Some x \<Rightarrow> r\<lparr>tr_target_url := tg_url x\<rparr>"
  have "rows (foldl (\<lambda>t r. case first_target ts (tr_id r) of
         None \<Rightarrow> t
       | Some x \<Rightarrow> objects_update tr_id (tr_id r) (\<lambda>r. r\<lparr>tr_target_url := tg_url x\<rparr>) t) u rs)
      = map (\<lambda>r. if tr_id r \<in> tr_id ` set rs then ?new r else r) (rows u)" for u rs
  proof (induction rs arbitrary: u)
    case Nil
    then show ?case by simp
  next
    case (Cons r rs)
    show ?case
    proof (cases "first_target ts (tr_id r)")
      case None
      then show ?thesis by (auto simp: Cons.IH)
    next
      case (Some x)
      show ?thesis unfolding foldl_Cons Cons.IH Some option.case objects_update_rows map_map
        by (rule map_cong [OF refl]) (auto simp: Some split: option.split)
    qed
  qed
  from this [of t "rows t"] show ?thesis by (auto simp: copy_first_target_url_def)
qed

end
