(* ===== verification/Replicas.thy ===== *)
theory Replicas
  imports CacheRace
begin

text \<open>
  The route cache over the replicated database: the settings of a MySQL cluster and
  \<open>gateway_project/db_router.py\<close> send the reads of a lookup, which runs in no transaction, to a
  secondary, while commits run on the primary and their invalidations once the commit has returned.

  The servers are the environment. Of them the model takes what the documentation of
  \<open>group_replication_consistency\<close> says: under \<open>BEFORE\<close> a read waits for the transactions that
  precede it, under \<open>AFTER\<close> a commit returns once every member has applied it, and otherwise
  secondaries apply the log in its order at any time.
\<close>

section \<open>The system\<close>

datatype consistency = EVENTUAL | BEFORE | AFTER | BEFORE_AND_AFTER

definition reads_wait :: "consistency \<Rightarrow> bool" where
  "reads_wait M \<longleftrightarrow> M \<in> {BEFORE, BEFORE_AND_AFTER}"

definition commits_wait :: "consistency \<Rightarrow> bool" where
  "commits_wait M \<longleftrightarrow> M \<in> {AFTER, BEFORE_AND_AFTER}"

text \<open>
  \<open>rp_main\<close> is the primary's database with Redis, the clock, the lookups and the invalidations that
  may run; \<open>rp_log\<close> the versions of the database with what each commit has to invalidate;
  \<open>rp_applied\<close> the version every secondary shows; \<open>rp_waiting\<close> the commits that have not returned.
\<close>

record 's replicated =
  rp_main :: "'s cluster"
  rp_log :: "(db \<times> (pk \<times> string) list) list"
  rp_applied :: "nat list"
  rp_waiting :: "nat list"

definition read_db :: "settings \<Rightarrow> 's replicated \<Rightarrow> nat \<Rightarrow> db" where
  "read_db S s j =
     (if db_for_read S False False = ''default'' then c_db (rp_main s) else fst (rp_log s ! (rp_applied s ! j)))"

definition may_read :: "consistency \<Rightarrow> settings \<Rightarrow> 's replicated \<Rightarrow> nat \<Rightarrow> bool" where
  "may_read M S s j \<longleftrightarrow>
     db_for_read S False False = ''default'' \<or>
     j < length (rp_applied s) \<and> (reads_wait M \<longrightarrow> Suc (rp_applied s ! j) = length (rp_log s))"

inductive replica_step :: "consistency \<Rightarrow> settings \<Rightarrow> 's redis \<Rightarrow> 's replicated \<Rightarrow> 's replicated \<Rightarrow> bool"
  for M :: consistency and S :: settings and R :: "'s redis" where
  tick: "c_now (rp_main s) \<le> t \<Longrightarrow> replica_step M S R s (s\<lparr>rp_main := (rp_main s)\<lparr>c_now := t\<rparr>\<rparr>)"
| start: "b = request_base_path path \<Longrightarrow> b \<noteq> ''/'' \<Longrightarrow>
    replica_step M S R s (s\<lparr>rp_main := (rp_main s)\<lparr>c_lookups := c_lookups (rp_main s) @ [(i, b, AtClient)]\<rparr>\<rparr>)"
| lookup: "k < length (c_lookups (rp_main s)) \<Longrightarrow> c_lookups (rp_main s) ! k = (i, b, p) \<Longrightarrow>
    may_read M S s j \<Longrightarrow>
    reader_step S R (c_now (rp_main s)) (read_db S s j) i b p (c_client (rp_main s)) = (p', c') \<Longrightarrow>
    replica_step M S R s
      (s\<lparr>rp_main := (rp_main s)\<lparr>c_client := c', c_lookups := (c_lookups (rp_main s))[k := (i, b, p')]\<rparr>\<rparr>)"
| commit: "covers (c_db (rp_main s)) d' ks \<Longrightarrow> list_all (\<lambda>(_, b). one_segment b) ks \<Longrightarrow>
    replica_step M S R s
      (s\<lparr>rp_main := (rp_main s)\<lparr>c_db := d'\<rparr>, rp_log := rp_log s @ [(d', ks)],
         rp_waiting := rp_waiting s @ [length (rp_log s)]\<rparr>)"
| apply_next: "j < length (rp_applied s) \<Longrightarrow> Suc (rp_applied s ! j) < length (rp_log s) \<Longrightarrow>
    replica_step M S R s (s\<lparr>rp_applied := (rp_applied s)[j := Suc (rp_applied s ! j)]\<rparr>)"
| acknowledge: "n \<in> set (rp_waiting s) \<Longrightarrow> (commits_wait M \<Longrightarrow> \<forall>m \<in> set (rp_applied s). n \<le> m) \<Longrightarrow>
    replica_step M S R s
      (s\<lparr>rp_main := (rp_main s)\<lparr>c_pending := c_pending (rp_main s) @ snd (rp_log s ! n)\<rparr>,
         rp_waiting := remove1 n (rp_waiting s)\<rparr>)"
| invalidate: "(i, b) \<in> set (c_pending (rp_main s)) \<Longrightarrow>
    invalidate_route S R (c_now (rp_main s)) (Some i) b (c_client (rp_main s)) = (failed, c') \<Longrightarrow>
    replica_step M S R s
      (s\<lparr>rp_main := (rp_main s)
          \<lparr>c_client := c', c_pending := remove1 (i, b) (c_pending (rp_main s)),
           c_missed := if failed then (i, b) # c_missed (rp_main s)
                       else filter (\<lambda>x. x \<noteq> (i, b)) (c_missed (rp_main s))\<rparr>\<rparr>)"

inductive_cases replica_stepE: "replica_step M S R s s'"

definition replica_runs :: "consistency \<Rightarrow> settings \<Rightarrow> 's redis \<Rightarrow> 's replicated \<Rightarrow> 's replicated \<Rightarrow> bool" where
  "replica_runs M S R = (replica_step M S R)\<^sup>*\<^sup>*"

lemma replica_runs_refl: "replica_runs M S R s s"
  by (simp add: replica_runs_def)

lemma replica_runs_step: "replica_runs M S R s s' \<Longrightarrow> replica_step M S R s' s'' \<Longrightarrow> replica_runs M S R s s''"
  unfolding replica_runs_def by (rule rtranclp.rtrancl_into_rtrancl)

definition initial_replicas :: "nat \<Rightarrow> db \<Rightarrow> 's client \<Rightarrow> instant \<Rightarrow> 's replicated" where
  "initial_replicas n d c t =
     \<lparr>rp_main = initial_cluster d c t, rp_log = [(d, [])], rp_applied = replicate n 0, rp_waiting = []\<rparr>"

text \<open>An invalidation of the route is to run, has failed, or belongs to a commit that has not returned.\<close>

definition open_route :: "'s replicated \<Rightarrow> pk \<Rightarrow> string \<Rightarrow> bool" where
  "open_route s i b \<longleftrightarrow>
     unsettled (rp_main s) i b \<or> (\<exists>n \<in> set (rp_waiting s). (i, b) \<in> set (snd (rp_log s ! n)))"

section \<open>The log\<close>

definition log_ok :: "'s replicated \<Rightarrow> bool" where
  "log_ok s \<longleftrightarrow>
     rp_log s \<noteq> [] \<and> fst (last (rp_log s)) = c_db (rp_main s)
     \<and> (\<forall>n. Suc n < length (rp_log s) \<longrightarrow>
          covers (fst (rp_log s ! n)) (fst (rp_log s ! Suc n)) (snd (rp_log s ! Suc n)))
     \<and> (\<forall>m \<in> set (rp_applied s) \<union> set (rp_waiting s). m < length (rp_log s))"

lemma log_okD:
  assumes "log_ok s"
  shows "rp_log s \<noteq> []" and "c_db (rp_main s) = fst (rp_log s ! (length (rp_log s) - 1))"
    and "\<And>m. m \<in> set (rp_applied s) \<Longrightarrow> m < length (rp_log s)"
    and "\<And>m. m \<in> set (rp_waiting s) \<Longrightarrow> m < length (rp_log s)"
proof -
  show ne: "rp_log s \<noteq> []" using assms by (simp add: log_ok_def)
  show "c_db (rp_main s) = fst (rp_log s ! (length (rp_log s) - 1))"
    using assms unfolding log_ok_def last_conv_nth [OF ne] by metis
qed (use assms in \<open>auto simp: log_ok_def\<close>)

text \<open>Under \<open>AFTER\<close>, a commit that has returned is on every secondary.\<close>

definition returned_applied :: "consistency \<Rightarrow> 's replicated \<Rightarrow> bool" where
  "returned_applied M s \<longleftrightarrow>
     (commits_wait M \<longrightarrow>
        (\<forall>n < length (rp_log s). n \<in> set (rp_waiting s) \<or> (\<forall>m \<in> set (rp_applied s). n \<le> m)))"

lemma log_differs:
  assumes "log_ok s" and "m \<le> n" and "n < length (rp_log s)"
    and "read_route (fst (rp_log s ! m)) i b \<noteq> read_route (fst (rp_log s ! n)) i b"
  shows "\<exists>k. m < k \<and> k \<le> n \<and> (i, b) \<in> set (snd (rp_log s ! k))"
  using assms(2-4)
proof (induction n rule: dec_induct)
  case (step n)
  show ?case
  proof (cases "read_route (fst (rp_log s ! n)) i b = read_route (fst (rp_log s ! Suc n)) i b")
    case True
    then show ?thesis using step by (auto intro: le_SucI)
  next
    case False
    then have "(i, b) \<in> set (snd (rp_log s ! Suc n))"
      using assms(1) step.prems(1) unfolding log_ok_def covers_def by blast
    then show ?thesis using step.hyps by (intro exI [of _ "Suc n"]) simp
  qed
qed simp

text \<open>What a lookup may read differs from the primary in open routes only.\<close>

lemma read_agrees:
  assumes "log_ok s" and "returned_applied M s" and "may_read M S s j"
    and M: "M \<noteq> EVENTUAL \<or> db_for_read S False False = ''default''"
    and "read_route (read_db S s j) i b \<noteq> read_route (c_db (rp_main s)) i b"
  shows "open_route s i b"
proof -
  let ?m = "rp_applied s ! j" and ?l = "length (rp_log s) - 1"
  have far: "db_for_read S False False \<noteq> ''default''" using assms(5) by (auto simp: read_db_def)
  have j: "?m \<in> set (rp_applied s)" using assms(3) far by (auto simp: may_read_def)
  have m: "?m \<le> ?l" "?l < length (rp_log s)" using log_okD(3) [OF assms(1) j] by linarith+
  note top = log_okD(2) [OF assms(1)]
  have diff: "read_route (fst (rp_log s ! ?m)) i b \<noteq> read_route (fst (rp_log s ! ?l)) i b"
    using assms(5) far by (simp add: read_db_def top)
  then have "Suc ?m \<noteq> length (rp_log s)" by (auto dest: sym)
  then have "\<not> reads_wait M" using assms(3) far by (simp add: may_read_def)
  then have "commits_wait M" using M far by (cases M) (simp_all add: reads_wait_def commits_wait_def)
  moreover obtain k where k: "?m < k" "k \<le> ?l" "(i, b) \<in> set (snd (rp_log s ! k))"
    using log_differs [OF assms(1) m diff] by blast
  ultimately have "k \<in> set (rp_waiting s)"
    using assms(2) j m(2) unfolding returned_applied_def by (meson leD le_less_trans)
  then show ?thesis using k(3) by (auto simp: open_route_def)
qed

text \<open>A read shows a version of the database, and none older than a commit that has returned.\<close>

lemma read_version:
  assumes "log_ok s" and "returned_applied M s" and "may_read M S s j"
    and M: "M \<noteq> EVENTUAL \<or> db_for_read S False False = ''default''"
  shows "\<exists>m < length (rp_log s). read_db S s j = fst (rp_log s ! m)
    \<and> (\<forall>n < length (rp_log s). n \<notin> set (rp_waiting s) \<longrightarrow> n \<le> m)"
proof (cases "db_for_read S False False = ''default'' \<or> Suc (rp_applied s ! j) = length (rp_log s)")
  case True
  have "read_db S s j = fst (rp_log s ! (length (rp_log s) - 1))"
    using True log_okD(2) [OF assms(1)] by (auto simp: read_db_def dest: sym)
  then show ?thesis using log_okD(1) [OF assms(1)] by (intro exI [of _ "length (rp_log s) - 1"]) auto
next
  case False
  then have j: "rp_applied s ! j \<in> set (rp_applied s)" and "\<not> reads_wait M" using assms(3) by (auto simp: may_read_def)
  then have "commits_wait M" using M False by (cases M) (simp_all add: reads_wait_def commits_wait_def)
  then show ?thesis
    using False j assms(2) log_okD(3) [OF assms(1) j]
    by (intro exI [of _ "rp_applied s ! j"]) (auto simp: read_db_def returned_applied_def)
qed

lemma log_step:
  assumes "replica_step M S R s s'" and "log_ok s" and "returned_applied M s"
  shows "log_ok s' \<and> returned_applied M s'"
  using assms(1)
proof cases
  case (commit d' ks)
  have "covers (fst (rp_log s' ! n)) (fst (rp_log s' ! Suc n)) (snd (rp_log s' ! Suc n))"
    if n: "Suc n < length (rp_log s')" for n
  proof (cases "Suc n = length (rp_log s)")
    case True
    then have n': "n = length (rp_log s) - 1" by simp
    have "fst (rp_log s ! n) = c_db (rp_main s)" unfolding n' log_okD(2) [OF assms(2)] ..
    then show ?thesis using commit(1,2) True by (simp add: nth_append)
  next
    case False
    then show ?thesis using assms(2) n commit(1) by (simp add: log_ok_def nth_append)
  qed
  then show ?thesis
    using assms(2,3) commit(1) by (auto simp: log_ok_def returned_applied_def less_Suc_eq)
next
  case (apply_next j)
  have "m \<in> set (rp_applied s') \<Longrightarrow> m = Suc (rp_applied s ! j) \<or> m \<in> set (rp_applied s)" for m
    using set_update_subset_insert [of "rp_applied s" j "Suc (rp_applied s ! j)"] apply_next(1) by auto
  moreover have "rp_applied s ! j \<in> set (rp_applied s)" using apply_next(2) by simp
  ultimately show ?thesis
    using assms(2,3) apply_next(1,3) by (fastforce simp: log_ok_def returned_applied_def)
next
  case (acknowledge n)
  have w: "m \<in> set (remove1 n (rp_waiting s)) \<or> m = n" if "m \<in> set (rp_waiting s)" for m
    using that by (cases "m = n") simp_all
  have sub: "set (remove1 n (rp_waiting s)) \<subseteq> set (rp_waiting s)" by (rule set_remove1_subset)
  then show ?thesis
    using assms(2,3) acknowledge w unfolding log_ok_def returned_applied_def by auto blast+
qed (use assms(2,3) in \<open>simp_all add: log_ok_def returned_applied_def\<close>)

section \<open>Coherence\<close>

text \<open>The system with the invalidations of the commits that have not returned counted as outstanding.\<close>

definition outstanding :: "'s replicated \<Rightarrow> 's cluster" where
  "outstanding s =
     \<lparr>c_db = c_db (rp_main s), c_client = c_client (rp_main s), c_now = c_now (rp_main s),
      c_lookups = c_lookups (rp_main s),
      c_pending = c_pending (rp_main s) @ concat (map (\<lambda>n. snd (rp_log s ! n)) (rp_waiting s)),
      c_missed = c_missed (rp_main s)\<rparr>"

lemma outstanding_unsettled: "unsettled (outstanding s) i b \<longleftrightarrow> open_route s i b"
  by (auto simp: unsettled_def outstanding_def open_route_def)

context redis_server
begin

lemma race_inv_set:
  assumes "race_inv s" and "set ps = set (c_pending s)"
  shows "race_inv (s\<lparr>c_pending := ps\<rparr>)"
proof -
  have "unsettled (s\<lparr>c_pending := ps\<rparr>) = unsettled s" by (simp add: unsettled_def fun_eq_iff assms(2))
  then show ?thesis using assms by (simp add: race_inv_def)
qed

definition replica_inv :: "consistency \<Rightarrow> 's replicated \<Rightarrow> bool" where
  "replica_inv M s \<longleftrightarrow> log_ok s \<and> returned_applied M s \<and> race_inv (outstanding s)"

lemma replica_inv_lookup:
  assumes inv: "replica_inv M s" and M: "M \<noteq> EVENTUAL \<or> db_for_read S False False = ''default''"
    and k: "k < length (c_lookups (rp_main s))" "c_lookups (rp_main s) ! k = (i, b, p)" and j: "may_read M S s j"
    and step: "reader_step S R (c_now (rp_main s)) (read_db S s j) i b p (c_client (rp_main s)) = (p', c')"
  shows "race_inv (outstanding (s\<lparr>rp_main := (rp_main s)\<lparr>c_client := c', c_lookups := (c_lookups (rp_main s))[k := (i, b, p')]\<rparr>\<rparr>))"
proof -
  have agree: "read_route (read_db S s j) i b \<noteq> read_route (c_db (outstanding s)) i b \<Longrightarrow> unsettled (outstanding s) i b"
    using read_agrees [OF _ _ j M] inv unfolding outstanding_unsettled by (simp add: replica_inv_def outstanding_def)
  have "race_inv ((outstanding s)\<lparr>c_client := c', c_lookups := (c_lookups (outstanding s))[k := (i, b, p')]\<rparr>)"
    by (rule race_inv_read(1) [OF _ _ _ _ agree]) (use inv k step in \<open>simp_all add: replica_inv_def outstanding_def\<close>)
  then show ?thesis by (simp add: outstanding_def)
qed

lemma replica_inv_step:
  assumes "replica_step M S R s s'" and M: "M \<noteq> EVENTUAL \<or> db_for_read S False False = ''default''"
    and inv: "replica_inv M s"
  shows "replica_inv M s'"
proof -
  have log: "log_ok s" "returned_applied M s" and race: "race_inv (outstanding s)"
    using inv by (simp_all add: replica_inv_def)
  have "race_inv (outstanding s')"
    using assms(1)
  proof cases
    case (tick t)
    have "race_inv ((outstanding s)\<lparr>c_now := t\<rparr>)"
      by (rule race_inv_tick [OF race]) (simp add: outstanding_def tick(2))
    then show ?thesis by (simp add: tick(1) outstanding_def)
  next
    case (start b path i)
    have "race_inv ((outstanding s)\<lparr>c_lookups := c_lookups (outstanding s) @ [(i, b, AtClient)]\<rparr>)"
      by (rule race_inv_start [OF race]) (use start(2,3) request_base_path_one_segment in simp)
    then show ?thesis by (simp add: start(1) outstanding_def)
  next
    case (lookup k i b p j p' c')
    show ?thesis unfolding lookup(1) by (rule replica_inv_lookup [OF inv M lookup(2-5)])
  next
    case (commit d' ks)
    have old: "(rp_log s @ [(d', ks)]) ! n = rp_log s ! n" if "n \<in> set (rp_waiting s)" for n
      using log_okD(4) [OF log(1) that] by (simp add: nth_append)
    have "outstanding s' = (outstanding s)\<lparr>c_db := d', c_pending := c_pending (outstanding s) @ ks\<rparr>"
      by (simp add: commit(1) outstanding_def old cong: map_cong)
    then show ?thesis
      using race_inv_commit [OF race, of d' ks] commit(2,3) by (simp add: outstanding_def)
  next
    case (apply_next j)
    then show ?thesis using race by (simp add: outstanding_def)
  next
    case (acknowledge n)
    have "set (rp_waiting s) = insert n (set (remove1 n (rp_waiting s)))"
      using acknowledge(2) set_remove1_subset [of n "rp_waiting s"] in_set_remove1 [of _ n "rp_waiting s"] by blast
    then have "set (c_pending (outstanding s')) = set (c_pending (outstanding s))"
      by (simp add: acknowledge(1) outstanding_def Un_assoc)
    moreover have "outstanding s' = (outstanding s)\<lparr>c_pending := c_pending (outstanding s')\<rparr>"
      by (simp add: acknowledge(1) outstanding_def)
    ultimately show ?thesis using race_inv_set [OF race] by metis
  next
    case (invalidate i b failed c')
    have "race_inv ((outstanding s)
        \<lparr>c_client := c', c_pending := remove1 (i, b) (c_pending (outstanding s)),
         c_missed := if failed then (i, b) # c_missed (outstanding s)
                     else filter (\<lambda>x. x \<noteq> (i, b)) (c_missed (outstanding s))\<rparr>)"
      by (rule race_inv_invalidate [OF race]) (use invalidate(2,3) in \<open>simp_all add: outstanding_def\<close>)
    then show ?thesis using invalidate(2) by (cases failed) (simp_all add: invalidate(1) outstanding_def remove1_append)
  qed
  then show ?thesis using log_step [OF assms(1) log] by (simp add: replica_inv_def)
qed

lemma replica_inv_runs:
  assumes "replica_runs M S R s s'" and "M \<noteq> EVENTUAL \<or> db_for_read S False False = ''default''" and "replica_inv M s"
  shows "replica_inv M s'"
  using assms(1,3) unfolding replica_runs_def
  by (induction rule: rtranclp_induct) (auto intro: replica_inv_step [OF _ assms(2)])

lemma replica_inv_initial:
  assumes "invar (server c)" and "view (server c) t = Map.empty"
  shows "replica_inv M (initial_replicas n d c t)"
  using race_inv_initial [OF assms, of d]
  by (auto simp: replica_inv_def initial_replicas_def initial_cluster_def outstanding_def log_ok_def returned_applied_def)

end

section \<open>Sample runs\<close>

definition replica_settings :: settings where
  "replica_settings = dev_settings\<lparr>MYSQL_CLUSTER_ENABLED := True, USE_SQLITE := False\<rparr>"

lemma replica_settings_reads: "db_for_read replica_settings False False = ''replica''"
  by (simp add: db_for_read_def replica_settings_def)

text \<open>A lookup whose reads all go to one secondary.\<close>

lemma replica_runs_lookup:
  assumes "replica_runs M S R s s'" and "c_lookups (rp_main s') = [(i, b, p)]" and "may_read M S s' j"
    and "reader_run S R (c_now (rp_main s')) (read_db S s' j) i b k p (c_client (rp_main s')) = (p', c')"
  shows "replica_runs M S R s (s'\<lparr>rp_main := (rp_main s')\<lparr>c_client := c', c_lookups := [(i, b, p')]\<rparr>\<rparr>)"
  using assms
proof (induction k arbitrary: s' p)
  case 0
  then have "s' = s'\<lparr>rp_main := (rp_main s')\<lparr>c_client := c', c_lookups := [(i, b, p')]\<rparr>\<rparr>" by simp
  then show ?case using 0(1) by simp
next
  case (Suc k)
  obtain q c1 where step: "reader_step S R (c_now (rp_main s')) (read_db S s' j) i b p (c_client (rp_main s')) = (q, c1)" by force
  let ?s = "s'\<lparr>rp_main := (rp_main s')\<lparr>c_client := c1, c_lookups := (c_lookups (rp_main s'))[0 := (i, b, q)]\<rparr>\<rparr>"
  have "replica_runs M S R s ?s"
    using Suc.prems(2,3) step by (intro replica_runs_step [OF Suc.prems(1)] replica_step.lookup [of 0]) auto
  moreover have "may_read M S ?s j" "read_db S ?s j = read_db S s' j"
    using Suc.prems(3) by (simp_all add: may_read_def read_db_def)
  ultimately show ?case using Suc.IH [of ?s q] Suc.prems(2,4) step by simp
qed

text \<open>
  The run: a commit changes the route \<open>/doctors\<close> of project 1, returns, and its invalidation runs;
  then a lookup reads the only secondary, which shows version \<open>a\<close> of the database.
\<close>

definition invalidated :: "fake client" where
  "invalidated = snd (invalidate_route replica_settings fake_redis 10 (Some 1) ''/doctors'' cache_client)"

definition republished :: "fake client" where
  "republished = snd (reader_run replica_settings fake_redis 10 sample_routes_db 1 ''/doctors'' 14 AtClient invalidated)"

definition replica_end :: "db \<Rightarrow> db \<Rightarrow> nat \<Rightarrow> fake replicated" where
  "replica_end d0 d1 a =
     \<lparr>rp_main = \<lparr>c_db = d1, c_client = republished, c_now = 10,
                 c_lookups = [(1, ''/doctors'', Finished (route_entry sample_route (Some sample_service)))],
                 c_pending = [], c_missed = []\<rparr>,
      rp_log = [(d0, []), (d1, [(1, ''/doctors'')])], rp_applied = [a], rp_waiting = []\<rparr>"

lemma sample_invalidated:
  "invalidate_route replica_settings fake_redis 10 (Some 1) ''/doctors'' cache_client = (False, invalidated)"
proof -
  have "fst (invalidate_route replica_settings fake_redis 10 (Some 1) ''/doctors'' cache_client) = False" by code_simp
  then show ?thesis by (simp add: invalidated_def prod_eq_iff)
qed

lemma sample_republished:
  "reader_run replica_settings fake_redis 10 sample_routes_db 1 ''/doctors'' 14 AtClient invalidated
     = (Finished (route_entry sample_route (Some sample_service)), republished)"
  "map_of (f_data (server republished)) (data_key_of 1 ''/doctors'')
     = Some (dumps (route_entry sample_route (Some sample_service)))"
  "map_of (f_expires (server republished)) (data_key_of 1 ''/doctors'') = Some (10 + second * 60)"
proof -
  have "fst (reader_run replica_settings fake_redis 10 sample_routes_db 1 ''/doctors'' 14 AtClient invalidated)
      = Finished (route_entry sample_route (Some sample_service))" by code_simp
  then show "reader_run replica_settings fake_redis 10 sample_routes_db 1 ''/doctors'' 14 AtClient invalidated
     = (Finished (route_entry sample_route (Some sample_service)), republished)"
    by (simp add: republished_def prod_eq_iff)
  show "map_of (f_data (server republished)) (data_key_of 1 ''/doctors'')
     = Some (dumps (route_entry sample_route (Some sample_service)))" by code_simp
  show "map_of (f_expires (server republished)) (data_key_of 1 ''/doctors'') = Some (10 + second * 60)" by code_simp
qed

lemma sample_republished_view:
  "fake_view (server republished) 10 (data_key_of 1 ''/doctors'')
     = Some (dumps (route_entry sample_route (Some sample_service)), Some (10 + second * 60))"
  using sample_republished(2,3) by (simp add: fake_view_def second_def)

lemma sample_replica_run:
  assumes cov: "covers d0 d1 [(1, ''/doctors'')]" and visible_db: "[d0, d1] ! a = sample_routes_db"
    and a: "a = 1 \<or> a = 0 \<and> M = EVENTUAL"
  shows "replica_runs M replica_settings fake_redis (initial_replicas 1 d0 cache_client 10) (replica_end d0 d1 a)"
proof -
  let ?runs = "replica_runs M replica_settings fake_redis (initial_replicas 1 d0 cache_client 10)"
  let ?log = "[(d0, []), (d1, [(1, ''/doctors'')])]"
  let ?s = "\<lambda>c ls ps m w. \<lparr>rp_main = \<lparr>c_db = d1, c_client = c, c_now = 10, c_lookups = ls, c_pending = ps, c_missed = []\<rparr>,
      rp_log = ?log, rp_applied = [m], rp_waiting = w\<rparr>"
  have "?runs (?s cache_client [] [] 0 [1])"
    using replica_runs_step [OF replica_runs_refl replica_step.commit [of "initial_replicas 1 d0 cache_client 10" d1 "[(1, ''/doctors'')]"]]
      cov by (simp add: initial_replicas_def initial_cluster_def)
  then have "?runs (?s cache_client [] [] a [1])"
    using replica_runs_step [OF _ replica_step.apply_next [of 0 "?s cache_client [] [] 0 [1]"]] a by auto
  then have "?runs (?s cache_client [] [(1, ''/doctors'')] a [])"
    using replica_runs_step [OF _ replica_step.acknowledge [of 1 "?s cache_client [] [] a [1]" M]] a
    by (auto simp: commits_wait_def)
  then have idle: "?runs (?s invalidated [] [] a [])"
    using replica_runs_step [OF _ replica_step.invalidate [where i = 1 and b = "''/doctors''"
        and s = "?s cache_client [] [(1, ''/doctors'')] a []" and failed = False and c' = invalidated]]
      sample_invalidated by simp
  have "''/doctors'' = request_base_path ''doctors/4''"
    by (simp add: request_base_path_def normalize_path_def strip_def lstrip_def rstrip_def is_slash_def)
  from replica_runs_step [OF idle replica_step.start [OF this, where i = 1]]
  have runs: "?runs (?s invalidated [(1, ''/doctors'', AtClient)] [] a [])" by simp
  have "may_read M replica_settings (?s invalidated [(1, ''/doctors'', AtClient)] [] a []) 0"
    using a by (auto simp: may_read_def reads_wait_def)
  moreover have "read_db replica_settings (?s invalidated [(1, ''/doctors'', AtClient)] [] a []) 0 = sample_routes_db"
    using a visible_db by (auto simp: read_db_def replica_settings_reads)
  ultimately show ?thesis
    using replica_runs_lookup [OF runs, of 1 "''/doctors''" AtClient 0 14
        "Finished (route_entry sample_route (Some sample_service))" republished] sample_republished(1)
    by (simp only: replica_end_def replicated.simps cluster.simps simp_thms)
qed

lemma sample_covers:
  "covers empty_db sample_routes_db [(1, ''/doctors'')]" "covers sample_routes_db empty_db [(1, ''/doctors'')]"
  by (auto simp: covers_def read_route_def objects_first_def route_visible_def empty_db_def empty_table_def
      sample_routes_db_def sample_route_def split: if_splits)

text \<open>
  Without either wait the cache keeps what the database no longer has: the route is deleted, its
  invalidation has run and nothing is outstanding, but a lookup has read a secondary that lags and
  published what it saw.
\<close>

lemma eventual_reads_keep_stale_entry:
  "\<exists>s. replica_runs EVENTUAL replica_settings fake_redis (initial_replicas 1 sample_routes_db cache_client 10) s
     \<and> \<not> open_route s 1 ''/doctors''
     \<and> (\<exists>text x. fake_view (server (c_client (rp_main s))) (c_now (rp_main s)) (data_key_of 1 ''/doctors'') = Some (text, x)
          \<and> text \<noteq> dumps (read_route (c_db (rp_main s)) 1 ''/doctors''))"
proof -
  have "dumps (route_entry sample_route (Some sample_service)) \<noteq> dumps (read_route empty_db 1 ''/doctors'')" by code_simp
  then show ?thesis
    using sample_replica_run [OF sample_covers(2), of 0 EVENTUAL] sample_republished_view
    by (intro exI [of _ "replica_end sample_routes_db empty_db 0"])
      (simp add: replica_end_def open_route_def unsettled_def)
qed

section \<open>Properties\<close>

text \<open>
  C13: the route cache is coherent on the replicated database. Lookups read any secondary, each of
  which applies the log at its own pace, commits return and run their invalidations in any order.
  With either wait of the configured \<open>BEFORE_AND_AFTER\<close>, or when the router reads the primary, a
  route that no commit on its way and no outstanding or failed invalidation concerns is the same
  wherever a lookup may read it, and what Redis holds for it is what the primary says now. Every
  read shows a version of the database that no returned commit is missing from.
\<close>

theorem replicated_cache_is_current:
  assumes "redis_server R view invar" and "invar (server c)" and "view (server c) t = Map.empty"
    and "M \<noteq> EVENTUAL \<or> db_for_read S False False = ''default''"
    and "replica_runs M S R (initial_replicas n d c t) s" and "one_segment b" and "\<not> open_route s i b"
  shows "(\<forall>text x. view (server (c_client (rp_main s))) (c_now (rp_main s)) (data_key_of i b) = Some (text, x)
            \<longrightarrow> text = dumps (read_route (c_db (rp_main s)) i b))
    \<and> (\<forall>j. may_read M S s j \<longrightarrow> read_route (read_db S s j) i b = read_route (c_db (rp_main s)) i b
         \<and> (\<exists>m < length (rp_log s). read_db S s j = fst (rp_log s ! m)
              \<and> (\<forall>n < length (rp_log s). n \<notin> set (rp_waiting s) \<longrightarrow> n \<le> m)))"
proof -
  have inv: "redis_server.replica_inv view invar M s"
    using redis_server.replica_inv_runs [OF assms(1,5,4)] redis_server.replica_inv_initial [OF assms(1-3)] by blast
  note log = redis_server.replica_inv_def [OF assms(1), THEN iffD1, OF inv]
  have "route_inv (c_now (rp_main s)) (c_db (rp_main s)) False i b
      (view (server (c_client (rp_main s))) (c_now (rp_main s))) (c_lookups (rp_main s))"
    using redis_server.race_invD(2) [OF assms(1) _ assms(6), of "outstanding s" i] log assms(7)
    by (simp add: outstanding_unsettled) (simp add: outstanding_def)
  moreover have "read_route (read_db S s j) i b = read_route (c_db (rp_main s)) i b" if "may_read M S s j" for j
    using read_agrees [OF _ _ that assms(4)] log assms(7) by blast
  moreover have "\<exists>m < length (rp_log s). read_db S s j = fst (rp_log s ! m)
      \<and> (\<forall>n < length (rp_log s). n \<notin> set (rp_waiting s) \<longrightarrow> n \<le> m)" if "may_read M S s j" for j
    using read_version [OF _ _ that assms(4)] log by blast
  ultimately show ?thesis by (simp add: route_inv_def cache_inv_def entry_inv_def) blast
qed

theorem replicated_cache_is_current_witness:
  "fake_view (server republished) 10 (data_key_of 1 ''/doctors'')
      = Some (dumps (read_route sample_routes_db 1 ''/doctors''), Some (10 + second * 60))
   \<and> read_db replica_settings (replica_end empty_db sample_routes_db 1) 0 = sample_routes_db"
proof -
  let ?s = "replica_end empty_db sample_routes_db 1"
  have "replica_runs AFTER replica_settings fake_redis (initial_replicas 1 empty_db cache_client 10) ?s"
    by (rule sample_replica_run [OF sample_covers(1)]) simp_all
  moreover have "\<not> open_route ?s 1 ''/doctors''" by (simp add: replica_end_def open_route_def unsettled_def)
  ultimately have "\<forall>text x. fake_view (server (c_client (rp_main ?s))) (c_now (rp_main ?s)) (data_key_of 1 ''/doctors'') = Some (text, x)
      \<longrightarrow> text = dumps (read_route (c_db (rp_main ?s)) 1 ''/doctors'')"
    using replicated_cache_is_current [OF fake.redis_server_axioms cache_client_start _ _ doctors_segment, of AFTER] by blast
  then show ?thesis
    using sample_republished_view by (simp add: replica_end_def read_db_def replica_settings_reads)
qed

end
