(* ===== verification/GatewaySteps.thy ===== *)
theory GatewaySteps
  imports Gateway
begin

text \<open>
  The request of the theory \<open>Gateway\<close> cut at its calls. \<open>handle_gateway\<close> is the request as it
  runs alone, on one database at one moment; here every query of the middleware, of the lookup, of
  \<open>GatewayProxyView.forward\<close> and of \<open>Application.has_permission\<close>, and the call of the limiter, is
  a step of its own, between which administrators, other replicas and the clock go on. A view runs
  in no transaction, so under replication each of its reads may be answered by another secondary:
  the database of a step is whatever the environment shows at it.
\<close>

section \<open>The stages of a request\<close>

datatype stage =
    Arrived
  | Looking credential string pc
  | Choosing credential string resolved_route
  | Granting credential string resolved_route string
  | Granted credential string resolved_route string
  | Identifying credential string resolved_route string
  | Limiting credential string resolved_route string "app_user option"
  | Over outcome

abbreviation refused :: "string \<Rightarrow> int \<Rightarrow> stage" where
  "refused msg status \<equiv> Over (Answered (reject msg status))"

text \<open>What the view makes of the entry the lookup returned.\<close>

definition looked_up :: "credential \<Rightarrow> string \<Rightarrow> json \<Rightarrow> stage" where
  "looked_up cred path entry =
     (if entry = JNull then refused ''Route not found.'' 404
      else case route_from_snapshot (prj_id (snd (snd cred))) entry of
             Inl e \<Rightarrow> Over (Raised e)
           | Inr r \<Rightarrow> Choosing cred path r)"

definition start_lookup :: "credential \<Rightarrow> string \<Rightarrow> stage" where
  "start_lookup cred path =
     (if request_base_path path = ''/'' then refused ''Route not found.'' 404
      else Looking cred path AtClient)"

fun request_step ::
    "'s gateway \<Rightarrow> http_request \<Rightarrow> instant \<Rightarrow> db \<Rightarrow> stage \<Rightarrow> 's client \<Rightarrow> stage \<times> 's client" where
  "request_step G rq t d Arrived c =
     (case authenticate_request t d rq of
        Inl r \<Rightarrow> Over (Answered r)
      | Inr None \<Rightarrow> Over Framework
      | Inr (Some cred) \<Rightarrow>
          (case gateway_endpoint (removeprefix (rq_path rq) ''/gateway/'') of
             Proxy path \<Rightarrow> if proxied_method (rq_method rq) then start_lookup cred path else Over Framework
           | No_Match \<Rightarrow> Over Framework
           | view \<Rightarrow> Over (Client_View view cred)), c)"
| "request_step G rq t d (Looking cred path p) c =
     (case reader_step (gw_settings G) (gw_redis G) t d (prj_id (snd (snd cred))) (request_base_path path) p c of
        (Finished entry, c') \<Rightarrow> (looked_up cred path entry, c')
      | (p', c') \<Rightarrow> (Looking cred path p', c'))"
| "request_step G rq t d (Choosing cred path r) c =
     (case objects_first (\<lambda>m. rm_route m = rt_id (fst r) \<and> rm_method m = rq_method rq) (route_methods d) of
        None \<Rightarrow> refused ''Method not allowed for this route.'' 405
      | Some m \<Rightarrow> Granting cred path r (rm_auth_policy m), c)"
| "request_step G rq t d (Granting cred path r pol) c =
     (let a = fst (snd cred)
      in if rt_project (fst r) \<noteq> app_project a \<or> \<not> app_is_active a
         then refused ''Application is not allowed to access this route.'' 403
         else if \<not> objects_exists (\<lambda>p. perm_application p = app_id a) (permissions d)
         then Identifying cred path r pol
         else Granted cred path r pol, c)"
| "request_step G rq t d (Granted cred path r pol) c =
     (if objects_exists
           (\<lambda>p. perm_application p = app_id (fst (snd cred)) \<and> perm_route p = rt_id (fst r) \<and> perm_is_active p)
           (permissions d)
      then Identifying cred path r pol
      else refused ''Application is not allowed to access this route.'' 403, c)"
| "request_step G rq t d (Identifying cred path r pol) c =
     (case client_user_of G d t rq (fst (snd cred)) pol of
        Inl _ \<Rightarrow> refused ''Invalid or missing application-user token.'' 401
      | Inr u \<Rightarrow> Limiting cred path r pol u, c)"
| "request_step G rq t d (Limiting cred path r pol u) c =
     (case cred of
        (k, a, p) \<Rightarrow>
          (case limited_request (gw_settings G) (gw_redis G) (rate_key a) (fst (resolved_rate_limit a))
                  (snd (resolved_rate_limit a)) t c of
             (verdict, c') \<Rightarrow>
               (case after_limiter G rq u p a r path pol verdict of
                  Inl e \<Rightarrow> Over (Raised e)
                | Inr rs \<Rightarrow> Over (Answered rs), c')))"
| "request_step G rq t d (Over out) c = (Over out, c)"

text \<open>A request that has the environment to itself, and one that finds another at each step.\<close>

fun request_run ::
    "'s gateway \<Rightarrow> http_request \<Rightarrow> instant \<Rightarrow> db \<Rightarrow> nat \<Rightarrow> stage \<Rightarrow> 's client \<Rightarrow> stage \<times> 's client" where
  "request_run G rq t d 0 s c = (s, c)"
| "request_run G rq t d (Suc n) s c =
     (case request_step G rq t d s c of (s', c') \<Rightarrow> request_run G rq t d n s' c')"

fun request_under :: "'s gateway \<Rightarrow> http_request \<Rightarrow> (instant \<times> db \<times> 's client) list \<Rightarrow> stage \<Rightarrow> stage" where
  "request_under G rq [] s = s"
| "request_under G rq ((t, d, c) # env) s = request_under G rq env (fst (request_step G rq t d s c))"

text \<open>What the environment is while a request runs alone.\<close>

fun trace_of ::
    "'s gateway \<Rightarrow> http_request \<Rightarrow> instant \<Rightarrow> db \<Rightarrow> nat \<Rightarrow> stage \<Rightarrow> 's client \<Rightarrow> (instant \<times> db \<times> 's client) list" where
  "trace_of G rq t d 0 s c = []"
| "trace_of G rq t d (Suc n) s c =
     (t, d, c) # (case request_step G rq t d s c of (s', c') \<Rightarrow> trace_of G rq t d n s' c')"

section \<open>Termination\<close>

fun stage_left :: "stage \<Rightarrow> nat" where
  "stage_left Arrived = 20"
| "stage_left (Looking cred path p) = 5 + max 1 (steps_left p)"
| "stage_left (Choosing cred path r) = 5"
| "stage_left (Granting cred path r pol) = 4"
| "stage_left (Granted cred path r pol) = 3"
| "stage_left (Identifying cred path r pol) = 2"
| "stage_left (Limiting cred path r pol u) = 1"
| "stage_left (Over out) = 0"

lemma looked_up_left: "stage_left (looked_up cred path entry) \<le> 5"
  by (auto simp: looked_up_def split: sum.split)

lemma start_lookup_left [simp]: "stage_left (start_lookup cred path) < 20"
  by (simp add: start_lookup_def)

lemma stage_left_zero: "stage_left s = 0 \<longleftrightarrow> (\<exists>out. s = Over out)"
  by (cases s) auto

lemma looking_decreases:
  "stage_left (fst (request_step G rq t d (Looking cred path p) c)) < stage_left (Looking cred path p)"
proof -
  obtain q c' where q: "reader_step (gw_settings G) (gw_redis G) t d (prj_id (snd (snd cred))) (request_base_path path) p c = (q, c')"
    by force
  show ?thesis
  proof (cases "\<exists>e. q = Finished e")
    case True
    then obtain e where "q = Finished e" ..
    then show ?thesis using looked_up_left [of cred path e] by (simp add: q)
  next
    case False
    then have "\<nexists>e. p = Finished e" using q by auto
    then have "steps_left q < steps_left p" using steps_left_decreases [of p] q False by (metis fst_conv)
    moreover have "0 < steps_left q" using False steps_left_zero [of q] by auto
    moreover have "request_step G rq t d (Looking cred path p) c = (Looking cred path q, c')"
      using False by (cases q) (simp_all add: q)
    ultimately show ?thesis by simp
  qed
qed

lemma stage_left_decreases:
  assumes "\<nexists>out. s = Over out"
  shows "stage_left (fst (request_step G rq t d s c)) < stage_left s"
proof (cases s)
  case Arrived
  then show ?thesis
    by (auto split: sum.split option.split endpoint.split)
next
  case (Looking cred path p)
  then show ?thesis using looking_decreases by blast
qed (use assms in \<open>auto simp: Let_def split: option.split sum.split prod.split\<close>)

lemma request_under_over [simp]: "request_under G rq env (Over out) = Over out"
  by (induction env) auto

lemma request_run_over [simp]: "request_run G rq t d n (Over out) c = (Over out, c)"
  by (induction n) auto

lemma request_under_finishes:
  "stage_left s \<le> length env \<Longrightarrow> \<exists>out. request_under G rq env s = Over out"
proof (induction env arbitrary: s)
  case (Cons x env)
  obtain t d c where x: "x = (t, d, c)" by (cases x)
  show ?case
  proof (cases "\<exists>out. s = Over out")
    case False
    then have "stage_left (fst (request_step G rq t d s c)) < stage_left s" by (rule stage_left_decreases)
    then have "stage_left (fst (request_step G rq t d s c)) \<le> length env" using Cons.prems by simp
    then show ?thesis using Cons.IH by (simp add: x)
  qed (auto simp: x)
qed (simp add: stage_left_zero)

section \<open>Alone, the steps are the request\<close>

lemma request_under_trace: "request_under G rq (trace_of G rq t d n s c) s = fst (request_run G rq t d n s c)"
  by (induction n arbitrary: s c) (auto split: prod.split)

lemma length_trace [simp]: "length (trace_of G rq t d n s c) = n"
  by (induction n arbitrary: s c) (auto split: prod.split)

lemma trace_environment: "(t', d', c') \<in> set (trace_of G rq t d n s c) \<Longrightarrow> t' = t \<and> d' = d"
  by (induction n arbitrary: s c) (auto split: prod.splits)

lemma request_run_add:
  "request_run G rq t d (m + n) s c =
     (case request_run G rq t d m s c of (s', c') \<Rightarrow> request_run G rq t d n s' c')"
  by (induction m arbitrary: s c) (auto split: prod.split)

lemma request_run_enough:
  assumes "stage_left s \<le> m" and "m \<le> n"
  shows "request_run G rq t d n s c = request_run G rq t d m s c"
proof -
  obtain s' c' where run: "request_run G rq t d m s c = (s', c')" by force
  have "fst (request_run G rq t d m s c) = request_under G rq (trace_of G rq t d m s c) s"
    by (simp add: request_under_trace)
  then obtain out where "s' = Over out"
    using request_under_finishes [of s "trace_of G rq t d m s c" G rq] assms(1) run by auto
  then show ?thesis using request_run_add [of G rq t d m "n - m" s c] assms(2) run by simp
qed

text \<open>The stages from the last to the first.\<close>

fun concluded :: "(exn + response) \<times> 's client \<Rightarrow> stage \<times> 's client" where
  "concluded (Inl e, c) = (Over (Raised e), c)"
| "concluded (Inr rs, c) = (Over (Answered rs), c)"

lemma run_choosing:
  assumes "get_route_for_request (gw_settings G) (gw_redis G) t d (prj_id p) path c = (Inr (Some r), c1)"
  shows "request_run G rq t d 5 (Choosing (k, a, p) path r) c1 = concluded (forward G d t rq (Some (k, a, p)) path c)"
proof -
  obtain verdict c2 where lim: "limited_request (gw_settings G) (gw_redis G) (rate_key a) (fst (resolved_rate_limit a))
      (snd (resolved_rate_limit a)) t c1 = (verdict, c2)" by force
  show ?thesis
    using lim
    by (cases "objects_first (\<lambda>m. rm_route m = rt_id (fst r) \<and> rm_method m = rq_method rq) (route_methods d)")
      (simp_all add: numeral_eq_Suc forward_def assms can_access_def has_permission_def after_limiter_def Let_def
        split_beta split: sum.split bool.split)
qed

lemma run_looking:
  assumes "reader_run (gw_settings G) (gw_redis G) t d (prj_id (snd (snd cred))) (request_base_path path) n q c
      = (Finished e, c')" and "\<nexists>x. q = Finished x"
  shows "request_run G rq t d (n + 5) (Looking cred path q) c = request_run G rq t d 5 (looked_up cred path e) c'"
  using assms
proof (induction n arbitrary: q c)
  case (Suc n)
  obtain q1 c1 where step: "reader_step (gw_settings G) (gw_redis G) t d (prj_id (snd (snd cred)))
      (request_base_path path) q c = (q1, c1)" by force
  then have rest: "reader_run (gw_settings G) (gw_redis G) t d (prj_id (snd (snd cred))) (request_base_path path) n q1 c1
      = (Finished e, c')" using Suc.prems(1) by simp
  show ?case
  proof (cases "\<exists>x. q1 = Finished x")
    case True
    then obtain x where "q1 = Finished x" ..
    then show ?thesis
      using rest step request_run_enough [OF looked_up_left, of "n + 5" G rq t d cred path e c']
      unfolding add_Suc request_run.simps by simp
  next
    case False
    then have "request_step G rq t d (Looking cred path q) c = (Looking cred path q1, c1)"
      by (cases q1) (simp_all add: step)
    then show ?thesis using Suc.IH [OF rest False] unfolding add_Suc request_run.simps by simp
  qed
qed simp

lemma run_lookup:
  "request_run G rq t d 19 (start_lookup (k, a, p) path) c = concluded (forward G d t rq (Some (k, a, p)) path c)"
proof (cases "request_base_path path = ''/''")
  case True
  then show ?thesis by (simp add: start_lookup_def forward_def get_route_for_request_def)
next
  case False
  obtain e c' where e: "get_route (gw_settings G) (gw_redis G) t d (prj_id p) (request_base_path path) c = (e, c')"
    by force
  then have "reader_run (gw_settings G) (gw_redis G) t d (prj_id p) (request_base_path path) 14 AtClient c = (Finished e, c')"
    by (simp add: reader_run_is_get_route)
  from run_looking [where cred = "(k, a, p)", simplified, OF this, of rq]
  have run: "request_run G rq t d 19 (start_lookup (k, a, p) path) c = request_run G rq t d 5 (looked_up (k, a, p) path e) c'"
    using False by (simp add: start_lookup_def)
  show ?thesis
  proof (cases "\<exists>r. e \<noteq> JNull \<and> route_from_snapshot (prj_id p) e = Inr r")
    case True
    then obtain r where r: "e \<noteq> JNull" "route_from_snapshot (prj_id p) e = Inr r" by blast
    then have "get_route_for_request (gw_settings G) (gw_redis G) t d (prj_id p) path c = (Inr (Some r), c')"
      using False e by (simp add: get_route_for_request_def)
    from run_choosing [OF this] show ?thesis using run r by (simp add: looked_up_def)
  next
    case no: False
    then show ?thesis
      using run False e
      by (cases "route_from_snapshot (prj_id p) e") (auto simp: looked_up_def forward_def get_route_for_request_def)
  qed
qed

lemma run_request:
  "request_run G rq t d 20 Arrived c = (Over (fst (handle_gateway G d t rq c)), snd (handle_gateway G d t rq c))"
proof -
  have "request_run G rq t d (Suc 19) Arrived c = (Over (fst (handle_gateway G d t rq c)), snd (handle_gateway G d t rq c))"
    unfolding request_run.simps
    by (auto simp: run_lookup handle_gateway_def split: sum.split option.split endpoint.split prod.split)
  then show ?thesis by simp
qed

section \<open>A preview under interleaving, from its last check to its first\<close>

definition previews_from :: "'s gateway \<Rightarrow> http_request \<Rightarrow> (instant \<times> db \<times> 's client) list \<Rightarrow> stage \<Rightarrow> response \<Rightarrow> bool" where
  "previews_from G rq env s rs \<longleftrightarrow> request_under G rq env s = Over (Answered rs) \<and> rs_status rs = 200"

lemma previews_from_Nil [simp]: "previews_from G rq [] s rs \<longleftrightarrow> s = Over (Answered rs) \<and> rs_status rs = 200"
  by (simp add: previews_from_def)

lemma previews_from_Cons [simp]:
  "previews_from G rq ((t, d, c) # env) s rs \<longleftrightarrow> previews_from G rq env (fst (request_step G rq t d s c)) rs"
  by (simp add: previews_from_def)

lemma previews_from_refused [simp]: "status \<noteq> 200 \<Longrightarrow> \<not> previews_from G rq env (refused msg status) rs"
  by (auto simp: previews_from_def)

lemma previews_from_over [simp]:
  "previews_from G rq env (Over out) rs \<longleftrightarrow> out = Answered rs \<and> rs_status rs = 200"
  by (simp add: previews_from_def)

lemma previews_from_limiting:
  assumes "previews_from G rq env (Limiting (k, a, p) path r pol u) rs"
  obtains t d c rest where "env = (t, d, c) # rest"
    and "fst (limited_request (gw_settings G) (gw_redis G) (rate_key a) (fst (resolved_rate_limit a))
           (snd (resolved_rate_limit a)) t c) = Inr True"
    and "preview_response G rq u p a r path pol = Inr rs"
proof (cases env)
  case (Cons x rest)
  obtain t d c where x: "x = (t, d, c)" by (cases x)
  obtain verdict c' where l: "limited_request (gw_settings G) (gw_redis G) (rate_key a) (fst (resolved_rate_limit a))
      (snd (resolved_rate_limit a)) t c = (verdict, c')" by force
  have "verdict = Inr True \<and> preview_response G rq u p a r path pol = Inr rs"
    using assms by (auto simp: Cons x l after_limiter_def split: sum.splits bool.splits)
  with l that Cons x show ?thesis by simp
qed (use assms in simp)

lemma previews_from_identifying:
  assumes "previews_from G rq env (Identifying (k, a, p) path r pol) rs"
  obtains t d c env' u where "env = (t, d, c) # env'" and "client_user_of G d t rq a pol = Inr u"
    and "previews_from G rq env' (Limiting (k, a, p) path r pol u) rs"
proof (cases env)
  case (Cons x rest)
  obtain t d c where x: "x = (t, d, c)" by (cases x)
  obtain u where "client_user_of G d t rq a pol = Inr u"
    using assms by (cases "client_user_of G d t rq a pol") (auto simp: Cons x)
  with assms that show ?thesis by (simp add: Cons x)
qed (use assms in simp)

text \<open>The two queries of \<open>has_permission\<close>, the second only where the first found a row.\<close>

definition grant_seen :: "application \<Rightarrow> route \<Rightarrow> db \<Rightarrow> db list \<Rightarrow> bool" where
  "grant_seen a r d ds \<longleftrightarrow>
     (if objects_exists (\<lambda>p. perm_application p = app_id a) (permissions d)
      then \<exists>d'. ds = [d'] \<and> (\<exists>p \<in> set (rows (permissions d')).
             perm_application p = app_id a \<and> perm_route p = rt_id r \<and> perm_is_active p)
      else ds = [])"

lemma previews_from_granting:
  assumes "previews_from G rq env (Granting (k, a, p) path r pol) rs"
  obtains t d c gs env' where "env = (t, d, c) # gs @ env'" and "rt_project (fst r) = app_project a" and "app_is_active a"
    and "grant_seen a (fst r) d (map (\<lambda>(t, d, c). d) gs)"
    and "previews_from G rq env' (Identifying (k, a, p) path r pol) rs"
proof (cases env)
  case (Cons x rest)
  obtain t d c where x: "x = (t, d, c)" by (cases x)
  have a: "rt_project (fst r) = app_project a" "app_is_active a"
    using assms by (auto simp: Cons x Let_def split: if_splits)
  show ?thesis
  proof (cases "objects_exists (\<lambda>p. perm_application p = app_id a) (permissions d)")
    case True
    then have "previews_from G rq rest (Granted (k, a, p) path r pol) rs" using assms a by (simp add: Cons x)
    then obtain y rest' where y: "rest = y # rest'" "previews_from G rq (y # rest') (Granted (k, a, p) path r pol) rs"
      by (cases rest) simp_all
    obtain t' d' c' where y': "y = (t', d', c')" by (cases y)
    show ?thesis
      using y(2) a True
      by (intro that [of t d c "[y]" rest']) (auto simp: Cons x y(1) y' grant_seen_def objects_exists_iff split: if_splits)
  next
    case False
    then show ?thesis
      using assms a by (intro that [of t d c "[]" rest]) (simp_all add: Cons x grant_seen_def)
  qed
qed (use assms in simp)

lemma previews_from_choosing:
  assumes "previews_from G rq env (Choosing cred path r) rs"
  obtains t d c m env' where "env = (t, d, c) # env'"
    and "objects_first (\<lambda>m. rm_route m = rt_id (fst r) \<and> rm_method m = rq_method rq) (route_methods d) = Some m"
    and "previews_from G rq env' (Granting cred path r (rm_auth_policy m)) rs"
proof (cases env)
  case (Cons x rest)
  obtain t d c where x: "x = (t, d, c)" by (cases x)
  let ?m = "objects_first (\<lambda>m. rm_route m = rt_id (fst r) \<and> rm_method m = rq_method rq) (route_methods d)"
  obtain m where "?m = Some m" using assms by (cases ?m) (auto simp: Cons x)
  with assms that show ?thesis by (simp add: Cons x)
qed (use assms in simp)

lemma previews_from_looking:
  assumes "previews_from G rq env (Looking (k, a, p) path q) rs" and "\<nexists>x. q = Finished x"
  obtains looks env' e r where "env = looks @ env'"
    and "lookup_under (gw_settings G) (gw_redis G) (prj_id p) (request_base_path path) looks q = Finished e"
    and "route_from_snapshot (prj_id p) e = Inr r"
    and "previews_from G rq env' (Choosing (k, a, p) path r) rs"
  using assms
proof (induction env arbitrary: q thesis)
  case (Cons x env)
  obtain t d c where x: "x = (t, d, c)" by (cases x)
  obtain q1 c1 where step: "reader_step (gw_settings G) (gw_redis G) t d (prj_id p) (request_base_path path) q c = (q1, c1)"
    by force
  show ?case
  proof (cases "\<exists>e. q1 = Finished e")
    case True
    then obtain e where e: "q1 = Finished e" ..
    then have next_stage: "previews_from G rq env (looked_up (k, a, p) path e) rs" using Cons.prems(2) by (simp add: x step)
    then obtain r where "route_from_snapshot (prj_id p) e = Inr r" "e \<noteq> JNull"
      by (cases "route_from_snapshot (prj_id p) e") (auto simp: looked_up_def split: if_splits)
    then show ?thesis
      using next_stage by (intro Cons.prems(1) [of "[x]" env e r]) (simp_all add: x step e looked_up_def)
  next
    case False
    then have "previews_from G rq env (Looking (k, a, p) path q1) rs"
      using Cons.prems(2) by (cases q1) (simp_all add: x step)
    from Cons.IH [OF _ this False] obtain looks env' e r where *: "env = looks @ env'"
      "lookup_under (gw_settings G) (gw_redis G) (prj_id p) (request_base_path path) looks q1 = Finished e"
      "route_from_snapshot (prj_id p) e = Inr r" "previews_from G rq env' (Choosing (k, a, p) path r) rs" by blast
    then show ?thesis by (intro Cons.prems(1) [of "x # looks" env' e r]) (simp_all add: x step)
  qed
qed simp

lemma previews_from_arrived:
  assumes "previews_from G rq env Arrived rs"
  obtains t d c env' raw k a p path where "env = (t, d, c) # env'" and "rq_headers rq ''X-API-Key'' = Some raw"
    and "validate_key t raw d = Some (k, a, p)" and "previews_from G rq env' (Looking (k, a, p) path AtClient) rs"
proof (cases env)
  case (Cons x rest)
  obtain t d c where x: "x = (t, d, c)" by (cases x)
  obtain cred where auth: "authenticate_request t d rq = Inr (Some cred)"
    using assms
    by (auto simp: Cons x authenticate_request_def reject_def json_response_def split: sum.splits option.splits if_splits)
  obtain path where "previews_from G rq rest (start_lookup cred path) rs"
    using assms by (auto simp: Cons x auth split: endpoint.splits if_splits)
  then have "previews_from G rq rest (Looking cred path AtClient) rs" by (auto simp: start_lookup_def split: if_splits)
  moreover obtain k a p where "cred = (k, a, p)" using prod_cases3 by blast
  ultimately show ?thesis using auth that Cons x by (auto simp: authenticate_Some)
qed (use assms in simp)

section \<open>Properties\<close>







end
