(* ===== verification/ReplicatedGateway.thy ===== *)
theory ReplicatedGateway
  imports Replicas GatewaySteps
begin

text \<open>
  A request to the gateway on the replicated database: every query of the request, of which
  \<open>GatewaySteps\<close> says where they are, goes where the router sends it, to any secondary there is in
  \<open>Replicas\<close> at that moment. What binds it is every write that had returned when it arrived.
\<close>

lemma initial_log: "log_ok (initial_replicas n d c t)" "returned_applied M (initial_replicas n d c t)"
  by (auto simp: initial_replicas_def initial_cluster_def log_ok_def returned_applied_def)

lemma log_runs:
  assumes "replica_runs M S R s s'" and "log_ok s" and "returned_applied M s"
  shows "log_ok s' \<and> returned_applied M s'"
  using assms unfolding replica_runs_def
  by (induction rule: rtranclp_induct) (auto dest: log_step)

text \<open>The log only grows, and a commit that has returned stays so.\<close>

definition later :: "'s replicated \<Rightarrow> 's replicated \<Rightarrow> bool" where
  "later s s' \<longleftrightarrow> (\<exists>xs. rp_log s' = rp_log s @ xs) \<and> set (rp_waiting s') \<inter> {..<length (rp_log s)} \<subseteq> set (rp_waiting s)"

lemma later_step: "replica_step M S R s s' \<Longrightarrow> later s s'"
  by (erule replica_stepE) (auto simp: later_def dest: set_remove1_subset [THEN subsetD])

lemma later_trans: "later s s' \<Longrightarrow> later s' s'' \<Longrightarrow> later s s''"
  by (fastforce simp: later_def)

lemma later_runs: "replica_runs M S R s s' \<Longrightarrow> later s s'"
  unfolding replica_runs_def
  by (induction rule: rtranclp_induct) (auto simp: later_def [of s s] intro: later_trans later_step)

text \<open>The versions of the database that come after commit \<open>n\<close>.\<close>

definition version_since :: "consistency \<Rightarrow> settings \<Rightarrow> 's redis \<Rightarrow> 's replicated \<Rightarrow> nat \<Rightarrow> db \<Rightarrow> bool" where
  "version_since M S R s0 n d \<longleftrightarrow>
     (\<exists>s m. replica_runs M S R s0 s \<and> n \<le> m \<and> m < length (rp_log s) \<and> d = fst (rp_log s ! m))"

text \<open>A query answered in some later state of the system, wherever the router may send it.\<close>

definition queried :: "consistency \<Rightarrow> settings \<Rightarrow> 's redis \<Rightarrow> 's replicated \<Rightarrow> db \<Rightarrow> bool" where
  "queried M S R s0 d \<longleftrightarrow> (\<exists>s j. replica_runs M S R s0 s \<and> may_read M S s j \<and> d = read_db S s j)"

lemma queried_version:
  assumes "replica_runs M S R (initial_replicas k d0 c t) s0"
    and M: "M \<noteq> EVENTUAL \<or> db_for_read S False False = ''default''"
    and "n < length (rp_log s0)" and "n \<notin> set (rp_waiting s0)" and "queried M S R s0 d"
  shows "version_since M S R s0 n d"
proof -
  obtain s j where s: "replica_runs M S R s0 s" "may_read M S s j" "d = read_db S s j"
    using assms(5) by (auto simp: queried_def)
  have "log_ok s" "returned_applied M s"
    using log_runs [OF s(1)] log_runs [OF assms(1) initial_log] by auto
  from read_version [OF this s(2) M] obtain m where m: "m < length (rp_log s)" "d = fst (rp_log s ! m)"
    "\<forall>n < length (rp_log s). n \<notin> set (rp_waiting s) \<longrightarrow> n \<le> m" using s(3) by auto
  have "n < length (rp_log s)" "n \<notin> set (rp_waiting s)"
    using later_runs [OF s(1)] assms(3,4) by (auto simp: later_def)
  then show ?thesis using s(1) m by (auto simp: version_since_def)
qed

section \<open>Properties\<close>


text \<open>A cluster of one secondary in which a commit has been applied and has returned.\<close>

definition settled_replicas :: "fake replicated" where
  "settled_replicas =
     \<lparr>rp_main = initial_cluster sample_gateway_db (sample_client []) 0,
      rp_log = [(sample_gateway_db, []), (sample_gateway_db, [])], rp_applied = [1], rp_waiting = []\<rparr>"

lemma settled_run:
  "replica_runs AFTER replica_settings fake_redis (initial_replicas 1 sample_gateway_db (sample_client []) 0) settled_replicas"
proof -
  let ?runs = "replica_runs AFTER replica_settings fake_redis (initial_replicas 1 sample_gateway_db (sample_client []) 0)"
  let ?s = "\<lambda>m w. \<lparr>rp_main = initial_cluster sample_gateway_db (sample_client []) 0,
      rp_log = [(sample_gateway_db, []), (sample_gateway_db, [])], rp_applied = [m], rp_waiting = w\<rparr>"
  have "?runs (?s 0 [1])"
    using replica_runs_step [OF replica_runs_refl replica_step.commit
        [of "initial_replicas 1 sample_gateway_db (sample_client []) 0" sample_gateway_db "[]"]]
    by (simp add: initial_replicas_def initial_cluster_def covers_def)
  from replica_runs_step [OF this replica_step.apply_next [of 0]] have "?runs (?s 1 [1])" by simp
  from replica_runs_step [OF this replica_step.acknowledge [of 1]] show ?thesis
    by (simp add: settled_replicas_def initial_cluster_def)
qed


end
