(* ===== verification/ClientAdmin.thy ===== *)
theory ClientAdmin
  imports ClientViews
begin

text \<open>
  \<open>apps/client_auth/admin.py\<close>: the page of Django's administration site for end users of
  applications, the only one the repository registers. The site is Django's; of it the model takes
  what its documentation says of a page with these options: the form of a row shows the fields the
  page does not list as read-only, its submitted values are checked against the unique constraints
  and stored with \<open>save\<close>, and a row is added only if the page permits it.
\<close>

section \<open>The page\<close>

definition list_display :: "string list" where
  "list_display = [''id'', ''application'', ''email'', ''is_active'', ''created_at'']"

definition list_filter :: "string list" where
  "list_filter = [''is_active'', ''application'']"

definition search_fields :: "string list" where
  "search_fields = [''email'']"

definition readonly_fields :: "string list" where
  "readonly_fields = [''password_hash'', ''token_version'', ''created_at'', ''updated_at'']"

definition has_add_permission :: bool where
  "has_add_permission = False"

text \<open>The values a form may submit, as its field classes have cleaned them.\<close>

record user_change =
  uc_application :: pk
  uc_email :: string
  uc_password_hash :: string
  uc_is_active :: bool
  uc_token_version :: int

definition in_form :: "string \<Rightarrow> bool" where
  "in_form f \<longleftrightarrow> f \<notin> set readonly_fields"

definition changed_row :: "user_change \<Rightarrow> app_user \<Rightarrow> app_user" where
  "changed_row f u = u
     \<lparr>cu_application := if in_form ''application'' then uc_application f else cu_application u,
      cu_email := if in_form ''email'' then uc_email f else cu_email u,
      cu_password_hash := if in_form ''password_hash'' then uc_password_hash f else cu_password_hash u,
      cu_is_active := if in_form ''is_active'' then uc_is_active f else cu_is_active u,
      cu_token_version := if in_form ''token_version'' then uc_token_version f else cu_token_version u\<rparr>"

text \<open>
  The form compares the address as submitted, before \<open>save\<close> brings it to lower case: an address
  that collides only then is the \<open>IntegrityError\<close> of the database.
\<close>

definition change_user :: "instant \<Rightarrow> pk \<Rightarrow> user_change \<Rightarrow> db \<Rightarrow> exn + db" where
  "change_user now i f d =
     (case objects_first (\<lambda>u. cu_id u = i) (clients d) of
        None \<Rightarrow> Inl ObjectDoesNotExist
      | Some u \<Rightarrow>
          if application_of d (uc_application f) = None then Inl bad_fields
          else if objects_exists (\<lambda>x. cu_id x \<noteq> i \<and> client_clash (changed_row f u) x) (clients d)
          then Inl (ValidationError ''Application user with this Application and Email already exists.'')
          else and_then (update_row cu_id client_clash
                           ((client_presave (changed_row f u))\<lparr>cu_updated_at := now\<rparr>) (clients d))
                 (\<lambda>t. Inr (d\<lparr>clients := t\<rparr>)))"

definition add_user :: "instant \<Rightarrow> app_user \<Rightarrow> db \<Rightarrow> exn + db" where
  "add_user now u d =
     (if has_add_permission then and_then (create_client now u d) (\<lambda>(_, d'). Inr d')
      else Inl (ValidationError ''Permission denied.''))"

section \<open>What a change does\<close>

lemma changed_row_fields [simp]:
  "cu_id (changed_row f u) = cu_id u" "cu_application (changed_row f u) = uc_application f"
  "cu_email (changed_row f u) = uc_email f" "cu_is_active (changed_row f u) = uc_is_active f"
  "cu_password_hash (changed_row f u) = cu_password_hash u"
  "cu_token_version (changed_row f u) = cu_token_version u"
  "cu_created_at (changed_row f u) = cu_created_at u"
  by (simp_all add: changed_row_def in_form_def readonly_fields_def)

definition stored_row :: "instant \<Rightarrow> user_change \<Rightarrow> app_user \<Rightarrow> app_user" where
  "stored_row now f u = (client_presave (changed_row f u))\<lparr>cu_updated_at := now\<rparr>"

lemma stored_row_fields [simp]:
  "cu_id (stored_row now f u) = cu_id u" "cu_application (stored_row now f u) = uc_application f"
  "cu_email (stored_row now f u) = py_lower (strip py_isspace (uc_email f))"
  "cu_is_active (stored_row now f u) = uc_is_active f"
  "cu_password_hash (stored_row now f u) = cu_password_hash u"
  "cu_token_version (stored_row now f u) = cu_token_version u"
  "cu_created_at (stored_row now f u) = cu_created_at u" "cu_updated_at (stored_row now f u) = now"
  by (simp_all add: stored_row_def client_presave_def)

lemma change_user_Inr:
  assumes "change_user now i f d = Inr d'"
  obtains u t where "objects_first (\<lambda>u. cu_id u = i) (clients d) = Some u"
    and "application_of d (uc_application f) \<noteq> None"
    and "update_row cu_id client_clash (stored_row now f u) (clients d) = Inr t"
    and "d' = d\<lparr>clients := t\<rparr>"
    and "rows t = map (\<lambda>x. if cu_id x = i then stored_row now f u else x) (rows (clients d))"
proof -
  obtain u where u: "objects_first (\<lambda>u. cu_id u = i) (clients d) = Some u"
    using assms by (cases "objects_first (\<lambda>u. cu_id u = i) (clients d)") (simp_all add: change_user_def)
  with assms obtain t where "application_of d (uc_application f) \<noteq> None" "d' = d\<lparr>clients := t\<rparr>"
    and t: "update_row cu_id client_clash (stored_row now f u) (clients d) = Inr t"
    by (auto simp: change_user_def and_then_Inr stored_row_def [symmetric] split: if_splits)
  moreover have "rows t = map (\<lambda>x. if cu_id x = i then stored_row now f u else x) (rows (clients d))"
    using update_row_Inr [OF t] objects_first_Some [OF u] by simp
  ultimately show ?thesis using that u by blast
qed

lemma change_user_tables_ok: "change_user now i f d = Inr d' \<Longrightarrow> tables_ok d \<Longrightarrow> tables_ok d'"
  by (erule change_user_Inr) (simp add: tables_ok_def client.update_wf [of "clients d"])

text \<open>Whether a token verifies depends on the row it names only, and on four columns of it.\<close>

lemma verify_same_columns:
  assumes "verify_client_token J S d t tok a ty = Inr u" and "table_ok cu_id (clients d')"
    and "v \<in> set (rows (clients d'))" and "cu_id v = cu_id u" "cu_application v = cu_application u"
    "cu_is_active v" "cu_token_version v = cu_token_version u"
  shows "verify_client_token J S d' t tok a ty = Inr v"
  using assms(1)
proof (rule verify_InrE)
  fix raw cs s n
  let ?P = "\<lambda>u. cu_id u = int (val_digits s) \<and> cu_application u = app_id a \<and> cu_is_active u \<and> cu_token_version u = n"
  assume token: "tok = Some raw" "raw \<noteq> []"
      "jwt_decode J t raw (CLIENT_JWT_SIGNING_KEY S) (CLIENT_JWT_ISSUER S) (CLIENT_JWT_AUDIENCE S) REQUIRED_CLAIMS = Some cs"
      "map_of cs ''token_type'' = Some (JStr ty)" "map_of cs ''sub'' = Some (JStr s)"
      "map_of cs ''application_id'' = Some (JInt (app_id a))" "map_of cs ''token_version'' = Some (JInt n)"
      "isdecimal s" "app_is_active a"
    and u: "objects_first ?P (clients d) = Some u"
  note row = objects_first_Some [OF u]
  have "x = v" if "x \<in> set (rows (clients d'))" "?P x" for x
    using table_ok_inj [OF assms(2) that(1) assms(3)] that(2) row assms(4) by simp
  moreover have "?P v" using row assms(4-7) by simp
  ultimately have "objects_first ?P (clients d') = Some v" by (rule objects_first_unique [OF assms(3), rotated])
  then show ?thesis using token by (simp add: verify_client_token_def)
qed

lemma verify_row_stays:
  assumes "verify_client_token J S d t tok a ty = Inr v" and "table_ok cu_id (clients d')" and "v \<in> set (rows (clients d'))"
  shows "verify_client_token J S d' t tok a ty = Inr v"
  using verify_same_columns [OF assms] verify_Inr(2) [OF assms(1)] by simp

section \<open>Properties\<close>

text \<open>
  What the page can do is confined: no row is added, and a change that is stored keeps the database
  well formed and concerns one end user only, whose key, password hash, token version and creation
  stay as they were and whose address is in its normal form; the tokens of everybody else verify
  exactly as before.
\<close>

lemma change_user_confined:
  assumes "tables_ok d" and "change_user now i f d = Inr d'"
  shows "tables_ok d' \<and> d' = d\<lparr>clients := clients d'\<rparr>
    \<and> filter (\<lambda>x. cu_id x \<noteq> i) (rows (clients d')) = filter (\<lambda>x. cu_id x \<noteq> i) (rows (clients d))
    \<and> (\<exists>u \<in> set (rows (clients d)). \<exists>v \<in> set (rows (clients d')). cu_id u = i \<and> cu_id v = i
         \<and> cu_password_hash v = cu_password_hash u \<and> cu_token_version v = cu_token_version u
         \<and> cu_created_at v = cu_created_at u \<and> cu_updated_at v = now
         \<and> cu_application v = uc_application f \<and> cu_is_active v = uc_is_active f
         \<and> cu_email v = py_lower (strip py_isspace (uc_email f)))
    \<and> (\<forall>J S t tok a ty v. cu_id v \<noteq> i \<longrightarrow>
         verify_client_token J S d' t tok a ty = Inr v \<longleftrightarrow> verify_client_token J S d t tok a ty = Inr v)
    \<and> add_user now u0 d \<noteq> Inr d0"
proof -
  obtain u t where u: "objects_first (\<lambda>u. cu_id u = i) (clients d) = Some u" and d': "d' = d\<lparr>clients := t\<rparr>"
    and rows: "rows t = map (\<lambda>x. if cu_id x = i then stored_row now f u else x) (rows (clients d))"
    using change_user_Inr [OF assms(2)] .
  note row = objects_first_Some [OF u]
  have ok: "tables_ok d'" by (rule change_user_tables_ok [OF assms(2,1)])
  have keys: "table_ok cu_id (clients d)" "table_ok cu_id (clients d')"
    using assms(1) ok by (auto simp: tables_ok_def dest: wf_tableD(1))
  have others: "filter (\<lambda>x. cu_id x \<noteq> i) (rows t) = filter (\<lambda>x. cu_id x \<noteq> i) (rows (clients d))"
    unfolding rows by (rule filter_map_other) (simp add: row)
  have same: "v \<in> set (rows t) \<longleftrightarrow> v \<in> set (rows (clients d))" if "cu_id v \<noteq> i" for v
    using arg_cong [OF others, of "\<lambda>xs. v \<in> set xs"] that by simp
  have tokens: "verify_client_token J S d' t tok a ty = Inr v \<longleftrightarrow> verify_client_token J S d t tok a ty = Inr v"
    if "cu_id v \<noteq> i" for J S t tok a ty v
    using verify_row_stays [OF _ keys(1)] verify_row_stays [OF _ keys(2)] same [OF that]
    by (auto simp: d' dest: verify_Inr(1))
  have "stored_row now f u \<in> set (rows t)" unfolding rows using row by force
  moreover have "add_user now u0 d \<noteq> Inr d0" by (simp add: add_user_def has_add_permission_def)
  ultimately show ?thesis using ok others tokens row unfolding d'
    by (intro conjI bexI [of _ u] bexI [of _ "stored_row now f u"] allI impI) simp_all
qed

lemma change_user_rows:
  assumes "tables_ok d" and "change_user now (cu_id u) f d = Inr d'" and "u \<in> set (rows (clients d))"
  shows "rows (clients d') = map (\<lambda>x. if cu_id x = cu_id u then stored_row now f u else x) (rows (clients d))"
proof -
  obtain v t where v: "objects_first (\<lambda>x. cu_id x = cu_id u) (clients d) = Some v" and "d' = d\<lparr>clients := t\<rparr>"
    "rows t = map (\<lambda>x. if cu_id x = cu_id u then stored_row now f v else x) (rows (clients d))"
    using change_user_Inr [OF assms(2)] .
  moreover have "v = u"
    using objects_first_Some [OF v] assms(1,3) by (auto simp: tables_ok_def dest: wf_tableD(1) table_ok_inj)
  ultimately show ?thesis by simp
qed

text \<open>The view that disables a user leaves a user alone whom the page has switched off.\<close>

lemma disable_after_page:
  assumes "tables_ok d" and "u \<in> set (rows (clients d))" and "change_user now (cu_id u) f d = Inr d'"
    and "\<not> uc_is_active f"
  shows "snd (client_user_disable admin now' (cu_id u) d') = d'"
proof -
  have "\<not> cu_is_active x" if "x \<in> set (rows (clients d'))" "cu_id x = cu_id u" for x
    using that assms(4) unfolding change_user_rows [OF assms(1,3,2)] by (auto split: if_splits)
  then show ?thesis by (auto simp: client_user_disable_def split: option.splits dest: objects_first_Some)
qed

text \<open>
  C26: the page is no lock-out. Switching an end user off on it leaves the token version, which
  neither the form nor a later call of the view that disables users moves; so once the user is
  switched on again every token issued before verifies as it did, refresh tokens included.
\<close>

theorem page_revives_tokens:
  assumes "tables_ok d" and "verify_client_token J S d t tok a ty = Inr u"
    and "change_user t1 (cu_id u) off d = Inr d1" and "\<not> uc_is_active off"
    and "client_user_disable admin t2 (cu_id u) d1 = (rs, d2)"
    and "change_user t3 (cu_id u) on d2 = Inr d3" and "uc_is_active on" and "uc_application on = cu_application u"
  shows "(\<forall>t' tok' a' ty' v. verify_client_token J S d2 t' tok' a' ty' = Inr v \<longrightarrow> cu_id v \<noteq> cu_id u)
    \<and> (\<exists>v. verify_client_token J S d3 t tok a ty = Inr v \<and> cu_id v = cu_id u)"
proof -
  let ?u1 = "stored_row t1 off u" and ?u3 = "stored_row t3 on (stored_row t1 off u)"
  have u: "u \<in> set (rows (clients d))" by (rule verify_Inr(1) [OF assms(2)])
  have ok1: "tables_ok d1" by (rule change_user_tables_ok [OF assms(3,1)])
  have d2: "d2 = d1" using disable_after_page [OF assms(1) u assms(3,4), of admin t2] assms(5) by simp
  note rows1 = change_user_rows [OF assms(1,3) u]
  have u1: "?u1 \<in> set (rows (clients d1))" unfolding rows1 using u by force
  have on: "change_user t3 (cu_id ?u1) on d1 = Inr d3" using assms(6) by (simp add: d2)
  have "?u3 \<in> set (rows (clients d3))" unfolding change_user_rows [OF ok1 on u1] using u1 by force
  moreover have "table_ok cu_id (clients d3)"
    using change_user_tables_ok [OF on ok1] by (auto simp: tables_ok_def dest: wf_tableD(1))
  ultimately have "verify_client_token J S d3 t tok a ty = Inr ?u3"
    using verify_same_columns [OF assms(2)] assms(7,8) by simp
  moreover have "cu_id v \<noteq> cu_id u" if "verify_client_token J S d2 t' tok' a' ty' = Inr v" for t' tok' a' ty' v
    using verify_Inr(1,2) [OF that] assms(4) unfolding d2 rows1 by (auto split: if_splits)
  ultimately show ?thesis by auto
qed

definition sample_change :: "bool \<Rightarrow> user_change" where
  "sample_change b =
     \<lparr>uc_application = 1, uc_email = ''a@b.c'', uc_password_hash = [], uc_is_active = b, uc_token_version = 1\<rparr>"

definition page_db :: "app_user \<Rightarrow> db" where
  "page_db u = empty_db\<lparr>applications := \<lparr>rows = [sample_application], last_pk = 1\<rparr>, clients := \<lparr>rows = [u], last_pk = 3\<rparr>\<rparr>"

definition switched :: "bool \<Rightarrow> instant \<Rightarrow> app_user" where
  "switched b now = sample_user\<lparr>cu_is_active := b, cu_updated_at := now\<rparr>"

lemma sample_changes:
  "change_user 5 3 (sample_change False) (page_db sample_user) = Inr (page_db (switched False 5))"
  "change_user 7 3 (sample_change True) (page_db (switched False 5)) = Inr (page_db (switched True 7))"
  by code_simp+

lemma page_db_ok: "tables_ok (page_db sample_user)"
  by (simp add: tables_ok_def page_db_def empty_db_def wf_table_empty)
    (simp add: empty_table_def wf_table_def table_ok_def sample_application_def sample_user_def)

theorem page_revives_tokens_witness:
  "\<exists>v. verify_client_token sample_jwt dev_settings (page_db (switched True 7)) (minutes 14) (Some sample_token)
     sample_application ''access'' = Inr v \<and> cu_id v = 3"
proof -
  let ?d1 = "page_db (switched False 5)"
  have "table_ok cu_id (clients (page_db sample_user))"
    using page_db_ok by (auto simp: tables_ok_def dest: wf_tableD(1))
  then have "verify_client_token sample_jwt dev_settings (page_db sample_user) (minutes 14) (Some sample_token)
      sample_application ''access'' = Inr sample_user"
    by (rule verify_row_stays [OF sample_verify]) (simp add: page_db_def)
  moreover have "client_user_disable 1 6 3 ?d1 = (fst (client_user_disable 1 6 3 ?d1), ?d1)" by code_simp
  moreover have "cu_id sample_user = 3" "cu_application sample_user = 1" by (simp_all add: sample_user_def)
  ultimately show ?thesis
    using page_revives_tokens [OF page_db_ok, of sample_jwt dev_settings "minutes 14" "Some sample_token" sample_application
        "''access''" sample_user 5 "sample_change False" ?d1 1 6 "fst (client_user_disable 1 6 3 ?d1)" ?d1 7 "sample_change True"
        "page_db (switched True 7)"] sample_changes
    by (simp add: sample_change_def)
qed

end
