(* ===== verification/Labels.thy ===== *)
theory Labels
  imports Tenancy
begin

text \<open>
  The \<open>__str__\<close> methods of the models: how the administration site, the shell and the logs name a
  row. A method that follows a relation raises \<open>ObjectDoesNotExist\<close> where the row it refers to is
  missing, which the references of a database exclude.
\<close>

definition related :: "'a option \<Rightarrow> ('a \<Rightarrow> string) \<Rightarrow> exn + string" where
  "related x f = (case x of None \<Rightarrow> Inl ObjectDoesNotExist | Some a \<Rightarrow> Inr (f a))"

definition user_str :: "user \<Rightarrow> string" where
  "user_str u = usr_email u"

definition project_str :: "project \<Rightarrow> string" where
  "project_str p = prj_name p"

definition api_key_str :: "api_key \<Rightarrow> string" where
  "api_key_str k = key_name k"

definition application_str :: "db \<Rightarrow> application \<Rightarrow> exn + string" where
  "application_str d a = related (project_of d (app_project a)) (\<lambda>p. app_name a @ '' ('' @ prj_name p @ '')'')"

definition route_str :: "route \<Rightarrow> string" where
  "route_str r = rt_base_path r"

definition permission_str :: "db \<Rightarrow> route_permission \<Rightarrow> exn + string" where
  "permission_str d q =
     (case application_of d (perm_application q) of
        None \<Rightarrow> Inl ObjectDoesNotExist
      | Some a \<Rightarrow> and_then (application_str d a) (\<lambda>label. related (route_of d (perm_route q)) (\<lambda>r. label @ '' -> '' @ route_str r)))"

definition service_str :: "db \<Rightarrow> backend_service \<Rightarrow> exn + string" where
  "service_str d s = related (project_of d (svc_project s)) (\<lambda>p. svc_name s @ '' ('' @ prj_name p @ '')'')"

definition route_method_str :: "db \<Rightarrow> route_method \<Rightarrow> exn + string" where
  "route_method_str d m =
     related (route_of d (rm_route m)) (\<lambda>r. rm_method m @ '' '' @ rt_base_path r @ '' ('' @ rm_auth_policy m @ '')'')"

definition application_user_str :: "app_user \<Rightarrow> string" where
  "application_user_str u = cu_email u @ '' (app '' @ str_of_int (cu_application u) @ '')''"

lemma project_of_linked: "project_exists d i \<Longrightarrow> \<exists>p. project_of d i = Some p"
  by (cases "project_of d i") (auto simp: project_of_def project_exists_def objects_first_None objects_exists_iff)

lemma route_of_linked: "route_exists d i \<Longrightarrow> \<exists>r. route_of d i = Some r"
  by (cases "route_of d i") (auto simp: route_of_def route_exists_def objects_first_None objects_exists_iff)

lemma application_str_linked:
  "links_ok d \<Longrightarrow> a \<in> set (rows (applications d)) \<Longrightarrow> is_ok (application_str d a)"
  using project_of_linked [of d "app_project a"]
  by (auto simp: application_str_def related_def links_ok_def list_all_iff)

text \<open>Where the references are intact, every row has a text.\<close>

lemma rows_have_text:
  assumes "links_ok d"
  shows "\<forall>a \<in> set (rows (applications d)). is_ok (application_str d a)"
    and "\<forall>s \<in> set (rows (services d)). is_ok (service_str d s)"
    and "\<forall>m \<in> set (rows (route_methods d)). is_ok (route_method_str d m)"
    and "\<forall>q \<in> set (rows (permissions d)). is_ok (permission_str d q)"
proof -
  show "\<forall>a \<in> set (rows (applications d)). is_ok (application_str d a)"
    using application_str_linked [OF assms] by blast
  have "project_exists d (svc_project s)" if "s \<in> set (rows (services d))" for s
    using assms that by (simp add: links_ok_def list_all_iff)
  then show "\<forall>s \<in> set (rows (services d)). is_ok (service_str d s)"
    using project_of_linked by (fastforce simp: service_str_def related_def)
  have "route_exists d (rm_route m)" if "m \<in> set (rows (route_methods d))" for m
    using assms that by (simp add: links_ok_def list_all_iff)
  then show "\<forall>m \<in> set (rows (route_methods d)). is_ok (route_method_str d m)"
    using route_of_linked by (fastforce simp: route_method_str_def related_def)
  show "\<forall>q \<in> set (rows (permissions d)). is_ok (permission_str d q)"
  proof
    fix q assume "q \<in> set (rows (permissions d))"
    then have link: "permission_link d q" using assms by (simp add: links_ok_def list_all_iff)
    then obtain a where a: "application_of d (perm_application q) = Some a"
      by (cases "application_of d (perm_application q)")
        (auto simp: application_of_def permission_link_def objects_first_None objects_exists_iff)
    then have "a \<in> set (rows (applications d))" by (simp add: application_of_def objects_first_Some)
    then obtain label where "application_str d a = Inr label"
      using application_str_linked [OF assms] by (auto simp: is_ok_iff)
    moreover have "route_exists d (perm_route q)"
      using link by (auto simp: permission_link_def route_in_def route_exists_def objects_exists_iff)
    ultimately show "is_ok (permission_str d q)"
      using a route_of_linked [of d "perm_route q"] by (auto simp: permission_str_def related_def)
  qed
qed

end
